(* ===== verification/Qboot_Prelude.thy ===== *)
theory Qboot_Prelude
  imports Main "HOL-Library.Word" "HOL-Library.Monad_Syntax"
begin

unbundle bit_operations_syntax

text \<open>
  The prelude of the development: the machine integers of the C code, the error codes of
  RT-Thread, byte regions of a storage device and the operations on them, little-endian fields,
  the alignment macros of the kernel, and the lemma collections the component theories share.

  A storage device is a function from byte offsets to bytes; \<open>cells f off n\<close> is what a
  read of \<open>n\<close> bytes at \<open>off\<close> returns and \<open>splice off bs f\<close> is the device after
  \<open>bs\<close> has been stored at \<open>off\<close>. A C array is a list of fixed length; \<open>overwrite\<close>
  stores into it.
\<close>

section \<open>Collections\<close>

named_theorems word_nat "facts that move 32-bit arithmetic to the natural numbers"
named_theorems cells_simps "reading and writing byte regions"

section \<open>Types of the code\<close>

type_synonym byte = "8 word"
type_synonym u16 = "16 word"
type_synonym u32 = "32 word"

text \<open>
  \<open>rt_err_t\<close>: zero is success, the other codes the sources return are \<open>-RT_ERROR\<close>,
  \<open>-RT_ENOSPC\<close> and \<open>-RT_ENOSYS\<close>. Their numeric values are RT-Thread's.
\<close>

datatype rt_err = RT_EOK | RT_ERROR | RT_ENOSPC | RT_ENOSYS

section \<open>32-bit arithmetic as natural numbers\<close>

abbreviation (input) u32_max :: nat where
  "u32_max \<equiv> 4294967295"

lemma u32_less [simp]: "unat (x :: u32) < 4294967296"
proof -
  have "unat x < 2 ^ LENGTH(32)" by (rule unsigned_less)
  then show ?thesis by simp
qed

lemma u32_le_max [simp]: "unat (x :: u32) \<le> 4294967295"
  using u32_less [of x] by linarith

lemma u32_add [word_nat]:
  "unat (x + y :: u32) = unat x + unat y" if "unat x + unat y < 4294967296"
  using that by (simp add: unat_word_ariths)

lemma u32_add_wrap: "unat (x + y :: u32) = (unat x + unat y) mod 4294967296"
  by (simp add: unat_word_ariths)

lemma u32_sub [word_nat]: "unat (x - y :: u32) = unat x - unat y" if "unat y \<le> unat x"
  using that by (simp add: unat_sub word_le_nat_alt)

lemma u32_sub_wrap:
  "unat (x - y :: u32) = 4294967296 + unat x - unat y" if "unat x < unat y"
proof -
  have "unat (x - y) = (if unat y \<le> unat x then unat x - unat y else unat x + 2 ^ 32 - unat y)"
    using unat_sub_if' [of x y] by simp
  with that show ?thesis by simp
qed

lemma u32_of_nat [word_nat]: "unat (of_nat n :: u32) = n" if "n < 4294967296"
  using that by (simp add: unat_of_nat take_bit_nat_eq_self)

lemma u32_le_iff: "(x :: u32) \<le> y \<longleftrightarrow> unat x \<le> unat y"
  by (simp add: word_le_nat_alt)

lemma u32_less_iff: "(x :: u32) < y \<longleftrightarrow> unat x < unat y"
  by (simp add: word_less_nat_alt)

lemma u32_eq_iff: "(x :: u32) = y \<longleftrightarrow> unat x = unat y"
  by (simp add: word_unat_eq_iff)

lemma u32_of_nat_unat [simp]: "(of_nat (unat (x :: u32)) :: u32) = x"
  by simp

lemmas u32_cmp = u32_le_iff u32_less_iff u32_eq_iff

text \<open>
  The C conversion of an unsigned value to \<open>int\<close> reads it as two's complement: below
  \<open>2 ^ 31\<close> it keeps the value, from there on the result is negative.
\<close>

lemma sint_small: "sint (x :: u32) = int (unat x)" if "unat x < 2147483648"
proof -
  have "uint x = int (unat x)" by simp
  with that have "uint x < 2147483648" by linarith
  then show ?thesis
    by (simp add: sint_uint signed_take_bit_int_eq_self_iff order_trans [OF _ uint_ge_0])
qed

lemma sint_large: "sint (x :: u32) = int (unat x) - 4294967296" if "2147483648 \<le> unat x"
proof -
  have u: "uint x = int (unat x)" by simp
  have le: "2147483648 \<le> uint x" using that u by linarith
  have lt: "uint x < 4294967296" using u32_less [of x] u by linarith
  from le lt have "uint x div 2147483648 = 1" by linarith
  then have "bit (uint x) 31" by (simp add: bit_iff_odd)
  with lt show ?thesis
    by (simp add: sint_uint signed_take_bit_eq_take_bit_minus take_bit_int_eq_self)
qed

lemma sint_pos_iff: "0 < sint (x :: u32) \<longleftrightarrow> 0 < unat x \<and> unat x < 2147483648"
proof (cases "unat x < 2147483648")
  case True
  then show ?thesis using sint_small [of x] by linarith
next
  case False
  then have "sint x < 0" using sint_large [of x] u32_less [of x] by linarith
  with False show ?thesis by simp
qed

section \<open>Alignment macros\<close>

text \<open>
  \<open>RT_ALIGN(size, align)\<close> and \<open>RT_ALIGN_DOWN(size, align)\<close> of the kernel's header, on
  32-bit values: add \<open>align - 1\<close> and clear the low bits, or clear them.
\<close>

definition rt_align_down :: "u32 \<Rightarrow> u32 \<Rightarrow> u32" where
  "rt_align_down x a = x AND NOT (a - 1)"

definition rt_align :: "u32 \<Rightarrow> u32 \<Rightarrow> u32" where
  "rt_align x a = (x + a - 1) AND NOT (a - 1)"

definition pow2 :: "u32 \<Rightarrow> bool" where
  "pow2 a \<longleftrightarrow> (\<exists>k < 32. a = 2 ^ k)"

lemma pow2_unat:
  assumes "pow2 a"
  obtains k where "k < 32" "a = 2 ^ k" "unat a = 2 ^ k"
proof -
  obtain k where k: "k < 32" "a = 2 ^ k" using assms by (auto simp: pow2_def)
  have "unat (of_nat (2 ^ k) :: u32) = 2 ^ k"
    using k power_strict_increasing [of k 32 "2 :: nat"] by (subst u32_of_nat) auto
  with k have "unat a = 2 ^ k" by simp
  with k that show ?thesis by blast
qed

lemma pow2_pos: "pow2 a \<Longrightarrow> 0 < unat a"
  by (erule pow2_unat) simp

lemma unat_and_not_mask: "unat (x AND NOT (2 ^ k - 1) :: u32) = unat x - unat x mod 2 ^ k"
proof -
  have m: "(2 ^ k - 1 :: u32) = mask k" by (simp add: mask_eq_exp_minus_1)
  have "x AND mask k = take_bit k x" by (simp add: take_bit_eq_mask)
  moreover have "(x AND mask k) + (x AND NOT (mask k)) = (x AND mask k) OR (x AND NOT (mask k))"
    by (rule disjunctive_add) (auto simp: bit_simps)
  moreover have "(x AND mask k) OR (x AND NOT (mask k)) = x"
    by (rule bit_word_eqI) (auto simp: bit_simps)
  ultimately have "x AND NOT (mask k) = x - take_bit k x" by (metis add_diff_cancel_left')
  moreover have u: "unat (take_bit k x) = unat x mod 2 ^ k"
    by (simp only: unsigned_take_bit_eq) (simp add: take_bit_eq_mod)
  ultimately show ?thesis
    using u32_sub [of "take_bit k x" x] by (simp add: m mod_less_eq_dividend)
qed

lemma rt_align_down_unat:
  assumes "pow2 a"
  shows "unat (rt_align_down x a) = unat x - unat x mod unat a"
  using assms by (auto elim!: pow2_unat simp: rt_align_down_def unat_and_not_mask)

lemma rt_align_unat:
  assumes "pow2 a" and "unat x + unat a \<le> 4294967296"
  shows "unat (rt_align x a) = (unat x + unat a - 1) - (unat x + unat a - 1) mod unat a"
proof -
  obtain k where k: "a = 2 ^ k" "unat a = 2 ^ k" using pow2_unat [OF assms(1)] by blast
  have "unat (x + a - 1) = unat x + unat a - 1"
  proof (cases "unat x + unat a = 4294967296")
    case True
    then have "x + a = 0" by (simp add: u32_eq_iff u32_add_wrap)
    with True u32_sub_wrap [of 0 1] show ?thesis by simp
  next
    case False
    with assms have "unat (x + a) = unat x + unat a" by (simp add: u32_add)
    with pow2_pos [OF assms(1)] show ?thesis by (simp add: u32_sub)
  qed
  then show ?thesis using k by (simp add: rt_align_def unat_and_not_mask)
qed

text \<open>What the alignment macros promise: a multiple of the alignment, at most one step away.\<close>

lemma rt_align_down_props:
  assumes "pow2 a"
  shows "unat (rt_align_down x a) \<le> unat x"
    and "unat a dvd unat (rt_align_down x a)"
    and "unat x < unat (rt_align_down x a) + unat a"
proof -
  note e = rt_align_down_unat [OF assms, of x]
  have "unat x mod unat a < unat a" using pow2_pos [OF assms] by simp
  moreover have "unat x mod unat a \<le> unat x" by (rule mod_less_eq_dividend)
  ultimately show "unat (rt_align_down x a) \<le> unat x"
    and "unat x < unat (rt_align_down x a) + unat a"
    unfolding e by linarith+
  show "unat a dvd unat (rt_align_down x a)" unfolding e by (rule dvd_minus_mod)
qed

lemma rt_align_props:
  assumes "pow2 a" and "unat x + unat a \<le> 4294967296"
  shows "unat x \<le> unat (rt_align x a)"
    and "unat a dvd unat (rt_align x a)"
    and "unat (rt_align x a) < unat x + unat a"
proof -
  let ?s = "unat x + unat a - 1"
  note pos = pow2_pos [OF assms(1)]
  have m: "?s mod unat a < unat a" using pos by simp
  have e: "unat (rt_align x a) = ?s - ?s mod unat a" by (rule rt_align_unat [OF assms])
  show "unat x \<le> unat (rt_align x a)" unfolding e using m pos by linarith
  show "unat a dvd unat (rt_align x a)" unfolding e by (rule dvd_minus_mod)
  show "unat (rt_align x a) < unat x + unat a" unfolding e using pos by linarith
qed

lemma rt_align_least:
  assumes "pow2 a" and "unat x + unat a \<le> 4294967296" and "unat a dvd n" and "unat x \<le> n"
  shows "unat (rt_align x a) \<le> n"
proof (rule ccontr)
  assume "\<not> ?thesis"
  then have lt: "n < unat (rt_align x a)" by simp
  have "unat a dvd unat (rt_align x a) - n"
    using rt_align_props(2) [OF assms(1,2)] assms(3) by (rule dvd_diff_nat)
  with lt have "unat a \<le> unat (rt_align x a) - n" by (auto dest: dvd_imp_le)
  with lt rt_align_props(3) [OF assms(1,2)] assms(4) show False by linarith
qed

text \<open>The erase blocks of size \<open>b\<close> that a range touches, on natural numbers.\<close>

definition blk_down :: "nat \<Rightarrow> nat \<Rightarrow> nat" where
  "blk_down b x = x - x mod b"

definition blk_up :: "nat \<Rightarrow> nat \<Rightarrow> nat" where
  "blk_up b x = (x + b - 1) - (x + b - 1) mod b"

lemma rt_align_blk:
  "pow2 a \<Longrightarrow> unat (rt_align_down x a) = blk_down (unat a) (unat x)"
  "pow2 a \<Longrightarrow> unat x + unat a \<le> 4294967296 \<Longrightarrow> unat (rt_align x a) = blk_up (unat a) (unat x)"
  by (simp_all add: blk_down_def blk_up_def rt_align_down_unat rt_align_unat)

lemma blk_down_le: "blk_down b x \<le> x"
  by (simp add: blk_down_def)

lemma blk_down_mult [simp]: "b dvd x \<Longrightarrow> blk_down b x = x"
  by (simp add: blk_down_def)

lemma blk_down_dvd [simp]: "b dvd blk_down b x"
  unfolding blk_down_def by (rule dvd_minus_mod)

lemma blk_up_dvd [simp]: "b dvd blk_up b x"
  unfolding blk_up_def by (rule dvd_minus_mod)

lemma blk_up_ge: "0 < b \<Longrightarrow> x \<le> blk_up b x"
  using mod_less_divisor [of b "x + b - 1"] unfolding blk_up_def by linarith

lemma blk_up_less: "0 < b \<Longrightarrow> blk_up b x < x + b"
  unfolding blk_up_def by linarith

lemma blk_down_ge_mult:
  assumes "b dvd n" and "n \<le> x"
  shows "n \<le> blk_down b x"
proof (cases "b = 0")
  case True
  with assms show ?thesis by (simp add: blk_down_def)
next
  case False
  obtain k where n: "n = b * k" using assms(1) by (elim dvdE)
  from assms(2) False n have "k \<le> x div b" by (simp add: less_eq_div_iff_mult_less_eq mult.commute)
  then have "n \<le> b * (x div b)" unfolding n by simp
  then show ?thesis by (simp add: blk_down_def minus_mod_eq_mult_div)
qed

lemma blk_up_le_mult:
  assumes "0 < b" and "b dvd n" and "x \<le> n"
  shows "blk_up b x \<le> n"
proof (rule ccontr)
  assume "\<not> ?thesis"
  then have lt: "n < blk_up b x" by simp
  have "b dvd blk_up b x - n" using blk_up_dvd assms(2) by (rule dvd_diff_nat)
  with lt have "b \<le> blk_up b x - n" by (auto dest: dvd_imp_le)
  with lt blk_up_less [OF assms(1), of x] assms(3) show False by linarith
qed

lemma blk_up_mult [simp]: "0 < b \<Longrightarrow> b dvd x \<Longrightarrow> blk_up b x = x"
  using blk_up_le_mult [of b x x] blk_up_ge [of b x] by simp

lemma blk_down_add: "b dvd a \<Longrightarrow> blk_down b (a + x) = a + blk_down b x"
  by (auto simp: blk_down_def elim!: dvdE)

lemma blk_up_add:
  assumes "0 < b" and "b dvd a"
  shows "blk_up b (a + x) = a + blk_up b x"
proof -
  obtain k where a: "a = b * k" using assms(2) by (elim dvdE)
  have e: "a + x + b - 1 = (x + b - 1) + b * k" using assms(1) a by simp
  have m: "((x + b - 1) + b * k) mod b = (x + b - 1) mod b" by (rule mod_mult_self2)
  have "(x + b - 1) mod b \<le> x + b - 1" by (rule mod_less_eq_dividend)
  then show ?thesis unfolding blk_up_def e m using a by linarith
qed

lemma in_blocks: "a \<le> i \<Longrightarrow> i < a + n \<Longrightarrow> 0 < b \<Longrightarrow> blk_down b a \<le> i \<and> i < blk_up b (a + n)"
  using blk_down_le [of b a] blk_up_ge [of b "a + n"] by linarith

lemma byte_and_ff [simp]: "0xFF AND (b :: byte) = b"
proof -
  have "(0xFF :: byte) = - 1" by simp
  then show ?thesis by (metis and.left_neutral)
qed

section \<open>Byte regions of a device\<close>

definition cells :: "(nat \<Rightarrow> byte) \<Rightarrow> nat \<Rightarrow> nat \<Rightarrow> byte list" where
  "cells f off n = map f [off ..< off + n]"

definition splice :: "nat \<Rightarrow> byte list \<Rightarrow> (nat \<Rightarrow> byte) \<Rightarrow> nat \<Rightarrow> byte" where
  "splice off bs f = (\<lambda>i. if off \<le> i \<and> i < off + length bs then bs ! (i - off) else f i)"

lemma length_cells [simp]: "length (cells f off n) = n"
  by (simp add: cells_def)

lemma nth_cells [simp]: "i < n \<Longrightarrow> cells f off n ! i = f (off + i)"
  by (simp add: cells_def)

lemma cells_0 [simp]: "cells f off 0 = []"
  by (simp add: cells_def)

lemma cells_add [cells_simps]: "cells f off (m + n) = cells f off m @ cells f (off + m) n"
  using upt_add_eq_append [of off "off + m" n] by (simp add: cells_def add.assoc)

lemma take_cells [cells_simps]: "take k (cells f off n) = cells f off (min k n)"
  by (auto intro!: nth_equalityI)

lemma drop_cells [cells_simps]: "drop k (cells f off n) = cells f (off + k) (n - k)"
  by (auto intro!: nth_equalityI simp: add.assoc)

lemma cells_cong: "(\<And>i. off \<le> i \<Longrightarrow> i < off + n \<Longrightarrow> f i = g i) \<Longrightarrow> cells f off n = cells g off n"
  by (auto simp: cells_def)

lemma cells_eq_iff: "cells f off n = cells g off n \<longleftrightarrow> (\<forall>i. off \<le> i \<and> i < off + n \<longrightarrow> f i = g i)"
  by (auto simp: cells_def)

lemma splice_Nil [simp]: "splice off [] f = f"
  by (auto simp: splice_def fun_eq_iff)

lemma splice_in: "off \<le> i \<Longrightarrow> i < off + length bs \<Longrightarrow> splice off bs f i = bs ! (i - off)"
  by (simp add: splice_def)

lemma splice_out: "i < off \<or> off + length bs \<le> i \<Longrightarrow> splice off bs f i = f i"
  by (auto simp: splice_def)

lemma cells_splice_same [cells_simps]: "cells (splice off bs f) off (length bs) = bs"
  by (auto intro!: nth_equalityI simp: splice_def)

lemma cells_splice_disjoint:
  "off + length bs \<le> off' \<or> off' + n \<le> off \<Longrightarrow> cells (splice off bs f) off' n = cells f off' n"
  by (intro cells_cong splice_out) auto

lemma splice_append [cells_simps]:
  "splice (off + length a) b (splice off a f) = splice off (a @ b) f"
  by (auto simp: splice_def fun_eq_iff nth_append)

lemma splice_cells_self: "splice off (cells f off n) f = f"
  by (auto simp: splice_def fun_eq_iff)

section \<open>Arrays\<close>

definition overwrite :: "nat \<Rightarrow> 'a list \<Rightarrow> 'a list \<Rightarrow> 'a list" where
  "overwrite off bs xs = take off xs @ bs @ drop (off + length bs) xs"

lemma length_overwrite [simp]:
  "off + length bs \<le> length xs \<Longrightarrow> length (overwrite off bs xs) = length xs"
  by (simp add: overwrite_def)

lemma overwrite_Nil [simp]: "overwrite off [] xs = xs"
  by (simp add: overwrite_def)

lemma overwrite_all [simp]: "length bs = length xs \<Longrightarrow> overwrite 0 bs xs = bs"
  by (simp add: overwrite_def)

lemma take_overwrite_0: "n \<le> length bs \<Longrightarrow> take n (overwrite 0 bs xs) = take n bs"
  by (simp add: overwrite_def)

lemma take_overwrite_end:
  "off \<le> length xs \<Longrightarrow> take (off + length bs) (overwrite off bs xs) = take off xs @ bs"
  by (simp add: overwrite_def)

section \<open>Loops\<close>

text \<open>
  A loop of the code is one pass of its body, which goes on with a new state or stops with a
  result, and is \<open>None\<close> where the C code has no defined behaviour. A run that does not end is
  \<open>None\<close> too; the rule below shows both that it ends and what it gives.
\<close>

datatype ('s, 'r) iter = Again 's | Stop 'r

partial_function (option) run_loop :: "('s \<Rightarrow> ('s, 'r) iter option) \<Rightarrow> 's \<Rightarrow> 'r option" where
  "run_loop body s =
     (case body s of
        None \<Rightarrow> None
      | Some i \<Rightarrow> (case i of Stop r \<Rightarrow> Some r | Again s' \<Rightarrow> run_loop body s'))"

lemma run_loop_stop: "body s = Some (Stop r) \<Longrightarrow> run_loop body s = Some r"
  by (subst run_loop.simps) simp

lemma run_loop_again: "body s = Some (Again s') \<Longrightarrow> run_loop body s = run_loop body s'"
  by (subst run_loop.simps) simp

lemma run_loop_undefined: "body s = None \<Longrightarrow> run_loop body s = None"
  by (subst run_loop.simps) simp

lemma run_loop_spec:
  fixes m :: "'s \<Rightarrow> nat"
  assumes "I s"
    and "\<And>s. I s \<Longrightarrow> (body s = None \<and> U) \<or> (\<exists>r. body s = Some (Stop r) \<and> Q r) \<or>
      (\<exists>s'. body s = Some (Again s') \<and> I s' \<and> m s' < m s)"
  shows "(run_loop body s = None \<and> U) \<or> (\<exists>r. run_loop body s = Some r \<and> Q r)"
  using assms(1)
proof (induction "m s" arbitrary: s rule: less_induct)
  case less
  from assms(2) [OF less.prems] show ?case
  proof (elim disjE exE conjE)
    fix s' assume "body s = Some (Again s')" "I s'" "m s' < m s"
    with less.hyps [of s'] show ?case by (simp add: run_loop_again)
  qed (simp_all add: run_loop_stop run_loop_undefined)
qed

lemma run_loop_total:
  fixes m :: "'s \<Rightarrow> nat"
  assumes "I s"
    and "\<And>s. I s \<Longrightarrow> (\<exists>r. body s = Some (Stop r) \<and> Q r) \<or>
      (\<exists>s'. body s = Some (Again s') \<and> I s' \<and> m s' < m s)"
  shows "\<exists>r. run_loop body s = Some r \<and> Q r"
  using run_loop_spec [of I s body False Q m] assms by blast

lemma run_loop_partial:
  assumes "run_loop body s = Some r" and "I s"
    and "\<And>s s'. I s \<Longrightarrow> body s = Some (Again s') \<Longrightarrow> I s'"
    and "\<And>s r. I s \<Longrightarrow> body s = Some (Stop r) \<Longrightarrow> Q r"
  shows "Q r"
proof -
  have "(\<forall>s s'. I s \<longrightarrow> body s = Some (Again s') \<longrightarrow> I s') \<longrightarrow>
    (\<forall>s r. I s \<longrightarrow> body s = Some (Stop r) \<longrightarrow> Q r) \<longrightarrow> I s \<longrightarrow> Q r"
    using assms(1)
    by (rule run_loop.raw_induct [where P = "\<lambda>body s r. (\<forall>s s'. I s \<longrightarrow> body s = Some (Again s') \<longrightarrow> I s') \<longrightarrow>
          (\<forall>s r. I s \<longrightarrow> body s = Some (Stop r) \<longrightarrow> Q r) \<longrightarrow> I s \<longrightarrow> Q r", rotated])
      (auto split: option.splits iter.splits)
  with assms(2,3,4) show ?thesis by blast
qed

text \<open>A loop whose body is never undefined and gets smaller gives a result.\<close>

lemma run_loop_defined:
  fixes m :: "'s \<Rightarrow> nat"
  assumes "I s" and "\<And>s. I s \<Longrightarrow> body s \<noteq> None"
    and "\<And>s s'. I s \<Longrightarrow> body s = Some (Again s') \<Longrightarrow> I s' \<and> m s' < m s"
  shows "\<exists>r. run_loop body s = Some r"
proof -
  have "\<exists>r. run_loop body s = Some r \<and> True"
  proof (rule run_loop_total [where I = I and m = m])
    fix s assume "I s"
    then obtain i where i: "body s = Some i" using assms(2) by auto
    show "(\<exists>r. body s = Some (Stop r) \<and> True) \<or>
        (\<exists>s'. body s = Some (Again s') \<and> I s' \<and> m s' < m s)"
      using i assms(3) [OF \<open>I s\<close>] by (cases i) auto
  qed (rule assms(1))
  then show ?thesis by simp
qed

end
