(* ===== verification/Qboot_Types.thy ===== *)
theory Qboot_Types
  imports Qboot_Prelude
begin

text \<open>
  The data of the bootloader: the build configuration of \<open>inc/qboot_cfg.h\<close>, the firmware
  header \<open>fw_info_t\<close> of \<open>inc/qboot_ops.h\<close> with its byte layout, the target identifiers
  generated by \<open>QBT_TARGET_LIST\<close>, the store descriptors of \<open>src/qboot_ops.c\<close>, and opaque
  storage handles.
\<close>

section \<open>Build configuration\<close>

text \<open>
  The macros of \<open>inc/qboot_cfg.h\<close> that select code. A macro with a fixed value is a constant
  below; a macro a product chooses is a field. \<open>enospc_is_posix\<close> says whether RT-Thread was
  built with POSIX error numbers, in which case \<open>RT_ENOSPC\<close> and \<open>ENOSPC\<close> are the same
  number, and otherwise they differ.
\<close>

record qboot_cfg =
  using_aes :: bool
  using_gzip :: bool
  using_quicklz :: bool
  using_fastlz :: bool
  using_hpatchlite :: bool
  hpatch_storage_swap :: bool
  product_code :: "string option"
  using_shell :: bool
  using_factory_key :: bool
  using_update_mgr :: bool
  using_download_helper :: bool
  enospc_is_posix :: bool
  sign_align :: u32
  flash_erase_align :: u32

definition using_compression :: "qboot_cfg \<Rightarrow> bool" where
  "using_compression c \<longleftrightarrow> using_aes c \<or> using_gzip c \<or> using_quicklz c \<or> using_fastlz c"

definition QBOOT_BUF_SIZE :: u32 where
  "QBOOT_BUF_SIZE = 4096"

definition QBOOT_CMPRS_READ_SIZE :: u32 where
  "QBOOT_CMPRS_READ_SIZE = 4096"

definition QBOOT_CMPRS_BUF_SIZE :: "qboot_cfg \<Rightarrow> u32" where
  "QBOOT_CMPRS_BUF_SIZE c =
     (if using_quicklz c \<or> using_fastlz c then QBOOT_BUF_SIZE + QBOOT_CMPRS_READ_SIZE + 32
      else QBOOT_BUF_SIZE)"

definition QBOOT_RELEASE_SIGN_WORD :: u32 where
  "QBOOT_RELEASE_SIGN_WORD = 0x5555AAAA"

section \<open>Strings\<close>

text \<open>
  \<open>rt_strcmp(p, lit) == 0\<close> on a byte array \<open>p\<close> and a literal shorter than the array: the
  bytes before the first NUL are the literal's.
\<close>

definition str_bytes :: "string \<Rightarrow> byte list" where
  "str_bytes s = map of_char s"

definition rt_streq :: "byte list \<Rightarrow> string \<Rightarrow> bool" where
  "rt_streq bs s \<longleftrightarrow> takeWhile (\<lambda>b. b \<noteq> 0) bs = str_bytes s"

section \<open>The firmware header\<close>

record fw_info_t =
  fw_type :: "byte list"
  algo :: u16
  algo2 :: u16
  time_stamp :: u32
  part_name :: "byte list"
  fw_ver :: "byte list"
  prod_code :: "byte list"
  pkg_crc :: u32
  raw_crc :: u32
  raw_size :: u32
  pkg_size :: u32
  hdr_crc :: u32

text \<open>The array sizes of the C struct.\<close>

definition wf_fw_info :: "fw_info_t \<Rightarrow> bool" where
  "wf_fw_info f \<longleftrightarrow> length (fw_type f) = 4 \<and> length (part_name f) = 16 \<and>
     length (fw_ver f) = 24 \<and> length (prod_code f) = 24"

definition sizeof_fw_info :: nat where
  "sizeof_fw_info = 96"

definition le16 :: "u16 \<Rightarrow> byte list" where
  "le16 w = [ucast w, ucast (drop_bit 8 w)]"

definition le32 :: "u32 \<Rightarrow> byte list" where
  "le32 w = [ucast w, ucast (drop_bit 8 w), ucast (drop_bit 16 w), ucast (drop_bit 24 w)]"

definition of_le16 :: "byte list \<Rightarrow> u16" where
  "of_le16 bs = ucast (bs ! 0) OR push_bit 8 (ucast (bs ! 1))"

definition of_le32 :: "byte list \<Rightarrow> u32" where
  "of_le32 bs = ucast (bs ! 0) OR push_bit 8 (ucast (bs ! 1)) OR
     push_bit 16 (ucast (bs ! 2)) OR push_bit 24 (ucast (bs ! 3))"

text \<open>The struct as the bytes the code passes to \<open>read\<close>, \<open>write\<close> and \<open>crc32_cal\<close>.\<close>

definition bytes_of_fw_info :: "fw_info_t \<Rightarrow> byte list" where
  "bytes_of_fw_info f =
     fw_type f @ le16 (algo f) @ le16 (algo2 f) @ le32 (time_stamp f) @
     part_name f @ fw_ver f @ prod_code f @
     le32 (pkg_crc f) @ le32 (raw_crc f) @ le32 (raw_size f) @ le32 (pkg_size f) @ le32 (hdr_crc f)"

definition fw_info_of_bytes :: "byte list \<Rightarrow> fw_info_t" where
  "fw_info_of_bytes bs =
     \<lparr>fw_type = take 4 bs,
      algo = of_le16 (take 2 (drop 4 bs)),
      algo2 = of_le16 (take 2 (drop 6 bs)),
      time_stamp = of_le32 (take 4 (drop 8 bs)),
      part_name = take 16 (drop 12 bs),
      fw_ver = take 24 (drop 28 bs),
      prod_code = take 24 (drop 52 bs),
      pkg_crc = of_le32 (take 4 (drop 76 bs)),
      raw_crc = of_le32 (take 4 (drop 80 bs)),
      raw_size = of_le32 (take 4 (drop 84 bs)),
      pkg_size = of_le32 (take 4 (drop 88 bs)),
      hdr_crc = of_le32 (take 4 (drop 92 bs))\<rparr>"

lemma length_le16 [simp]: "length (le16 w) = 2"
  by (simp add: le16_def)

lemma length_le32 [simp]: "length (le32 w) = 4"
  by (simp add: le32_def)

lemma of_le16_le16 [simp]: "of_le16 (le16 w) = w"
  by (rule bit_word_eqI) (auto simp: of_le16_def le16_def bit_simps)

lemma byte_bit_high [simp]: "8 \<le> n \<Longrightarrow> \<not> bit (b :: byte) n"
  using bit_imp_le_length [of b n] by auto

lemma of_le32_le32 [simp]: "of_le32 (le32 w) = w"
proof (rule bit_word_eqI)
  fix n assume "n < LENGTH(32)"
  then consider "n < 8" | "8 \<le> n" "n < 16" | "16 \<le> n" "n < 24" | "24 \<le> n" "n < 32"
    by fastforce
  then show "bit (of_le32 (le32 w)) n = bit w n"
    by cases (auto simp: of_le32_def le32_def bit_simps)
qed

lemma of_le16_split:
  "ucast (ucast a OR push_bit 8 (ucast b) :: u16) = (a :: byte)"
  "ucast (drop_bit 8 (ucast a OR push_bit 8 (ucast b)) :: u16) = (b :: byte)"
  by (rule bit_word_eqI, auto simp: bit_simps)+

lemma of_le32_split:
  fixes a b c d :: byte
  defines "w \<equiv> (ucast a OR push_bit 8 (ucast b) OR push_bit 16 (ucast c) OR
    push_bit 24 (ucast d) :: u32)"
  shows "ucast w = a" "ucast (drop_bit 8 w) = b" "ucast (drop_bit 16 w) = c"
    "ucast (drop_bit 24 w) = d"
  unfolding w_def by (rule bit_word_eqI, auto simp: bit_simps)+

lemma list_2: "length xs = 2 \<Longrightarrow> xs = [xs ! 0, xs ! 1]"
  by (rule nth_equalityI) (auto simp: less_Suc_eq numeral_2_eq_2)

lemma list_4: "length xs = 4 \<Longrightarrow> xs = [xs ! 0, xs ! 1, xs ! 2, xs ! 3]"
  by (rule nth_equalityI) (auto simp: less_Suc_eq numeral_eq_Suc)

lemma le16_of_le16: "length bs = 2 \<Longrightarrow> le16 (of_le16 bs) = bs"
  unfolding le16_def of_le16_def of_le16_split by (rule list_2 [symmetric])

lemma le32_of_le32: "length bs = 4 \<Longrightarrow> le32 (of_le32 bs) = bs"
  unfolding le32_def of_le32_def of_le32_split by (rule list_4 [symmetric])

lemma length_bytes_of_fw_info [simp]:
  "wf_fw_info f \<Longrightarrow> length (bytes_of_fw_info f) = sizeof_fw_info"
  by (simp add: bytes_of_fw_info_def wf_fw_info_def sizeof_fw_info_def)

lemma wf_fw_info_of_bytes [simp]:
  "sizeof_fw_info \<le> length bs \<Longrightarrow> wf_fw_info (fw_info_of_bytes bs)"
  by (simp add: fw_info_of_bytes_def wf_fw_info_def sizeof_fw_info_def)

lemma fw_info_of_bytes_of:
  "wf_fw_info f \<Longrightarrow> fw_info_of_bytes (bytes_of_fw_info f @ rest) = f"
  by (simp add: fw_info_of_bytes_def bytes_of_fw_info_def wf_fw_info_def)

lemma take_drop_split: "take m (drop k xs) @ drop (k + m) xs = drop k xs"
  by (metis append_take_drop_id drop_drop add.commute)

lemma bytes_of_fw_info_of_bytes:
  assumes "length bs = sizeof_fw_info"
  shows "bytes_of_fw_info (fw_info_of_bytes bs) = bs"
proof -
  have "bytes_of_fw_info (fw_info_of_bytes bs) =
    take 4 bs @ take 2 (drop 4 bs) @ take 2 (drop 6 bs) @ take 4 (drop 8 bs) @
    take 16 (drop 12 bs) @ take 24 (drop 28 bs) @ take 24 (drop 52 bs) @
    take 4 (drop 76 bs) @ take 4 (drop 80 bs) @ take 4 (drop 84 bs) @ take 4 (drop 88 bs) @
    take 4 (drop 92 bs)"
    using assms by (simp add: bytes_of_fw_info_def fw_info_of_bytes_def sizeof_fw_info_def
      le16_of_le16 le32_of_le32)
  also have "\<dots> = bs"
    using assms take_drop_split [of 4 0 bs] take_drop_split [of 2 4 bs] take_drop_split [of 2 6 bs]
      take_drop_split [of 4 8 bs] take_drop_split [of 16 12 bs] take_drop_split [of 24 28 bs]
      take_drop_split [of 24 52 bs] take_drop_split [of 4 76 bs] take_drop_split [of 4 80 bs]
      take_drop_split [of 4 84 bs] take_drop_split [of 4 88 bs]
    by (simp add: sizeof_fw_info_def)
  finally show ?thesis .
qed

section \<open>Targets and descriptors\<close>

datatype qbt_target_id =
  QBOOT_TARGET_APP | QBOOT_TARGET_DOWNLOAD | QBOOT_TARGET_FACTORY | QBOOT_TARGET_SWAP
| QBOOT_TARGET_COUNT

text \<open>The order of the C enumeration, which the guards \<open>id >= QBOOT_TARGET_COUNT\<close> compare.\<close>

fun target_rank :: "qbt_target_id \<Rightarrow> nat" where
  "target_rank QBOOT_TARGET_APP = 0"
| "target_rank QBOOT_TARGET_DOWNLOAD = 1"
| "target_rank QBOOT_TARGET_FACTORY = 2"
| "target_rank QBOOT_TARGET_SWAP = 3"
| "target_rank QBOOT_TARGET_COUNT = 4"

lemma target_rank_inj: "target_rank a = target_rank b \<longleftrightarrow> a = b"
  by (cases a; cases b) auto

instantiation qbt_target_id :: linorder
begin

definition less_eq_qbt_target_id :: "qbt_target_id \<Rightarrow> qbt_target_id \<Rightarrow> bool" where
  "less_eq_qbt_target_id a b \<longleftrightarrow> target_rank a \<le> target_rank b"

definition less_qbt_target_id :: "qbt_target_id \<Rightarrow> qbt_target_id \<Rightarrow> bool" where
  "less_qbt_target_id a b \<longleftrightarrow> target_rank a < target_rank b"

instance
  by standard (auto simp: less_eq_qbt_target_id_def less_qbt_target_id_def target_rank_inj
    dest: antisym)

end

lemma target_ge_count [simp]: "QBOOT_TARGET_COUNT \<le> i \<longleftrightarrow> i = QBOOT_TARGET_COUNT"
  by (cases i) (auto simp: less_eq_qbt_target_id_def)

datatype qbt_store_backend = BACKEND_FAL | BACKEND_FS | BACKEND_CUSTOM

record qboot_store_desc =
  d_id :: qbt_target_id
  role_name :: string
  store_name :: string
  flash_addr :: u32
  flash_len :: u32
  backend :: qbt_store_backend

text \<open>
  A storage handle is an opaque pointer. The custom backend hands out the address of a
  descriptor, the filesystem backend a small integer, the FAL backend a pointer of the FAL
  library and the mux the address of one of its slots.
\<close>

datatype handle =
  H_NULL
| H_desc qbt_target_id
| H_slot nat
| H_part nat
| H_mux qbt_target_id

end
