(* ===== verification/Qboot_Ops.thy ===== *)
theory Qboot_Ops
  imports Qboot_Types
begin

text \<open>
  The storage interface: the operation tables of \<open>inc/qboot_ops.h\<close>, their registration, and
  the wrappers of \<open>src/qboot_ops.c\<close> every client uses (open with size, header read and write,
  release sign, erase). The state \<open>'s\<close> is everything the storage backends keep. The locale
  \<open>storage\<close> is the contract a backend gives its clients; the backends prove it.
\<close>

section \<open>Operation tables\<close>

type_synonym open_flags = u32

definition QBT_OPEN_READ :: open_flags where "QBT_OPEN_READ = 1"
definition QBT_OPEN_WRITE :: open_flags where "QBT_OPEN_WRITE = 2"
definition QBT_OPEN_CREATE :: open_flags where "QBT_OPEN_CREATE = 4"
definition QBT_OPEN_TRUNC :: open_flags where "QBT_OPEN_TRUNC = 8"

lemmas open_flag_defs =
  QBT_OPEN_READ_def QBT_OPEN_WRITE_def QBT_OPEN_CREATE_def QBT_OPEN_TRUNC_def

text \<open>
  A function of the C table that returns a code and stores through an out parameter gives
  \<open>Inl\<close> the code on failure and \<open>Inr\<close> the stored value on success.
\<close>

record 's qboot_io_ops =
  io_open :: "qbt_target_id \<Rightarrow> open_flags \<Rightarrow> 's \<Rightarrow> (rt_err + handle) \<times> 's"
  io_close :: "handle \<Rightarrow> 's \<Rightarrow> rt_err \<times> 's"
  io_read :: "handle \<Rightarrow> u32 \<Rightarrow> u32 \<Rightarrow> 's \<Rightarrow> (rt_err + byte list) \<times> 's"
  io_erase :: "handle \<Rightarrow> u32 \<Rightarrow> u32 \<Rightarrow> 's \<Rightarrow> rt_err \<times> 's"
  io_write :: "handle \<Rightarrow> u32 \<Rightarrow> byte list \<Rightarrow> 's \<Rightarrow> rt_err \<times> 's"
  io_size :: "handle \<Rightarrow> 's \<Rightarrow> (rt_err + u32) \<times> 's"
  io_ioctl :: "handle \<Rightarrow> int \<Rightarrow> 's \<Rightarrow> (rt_err + u32) \<times> 's"

definition QBOOT_IO_CMD_GET_ERASE_ALIGN :: int where
  "QBOOT_IO_CMD_GET_ERASE_ALIGN = 1"

record 's qboot_header_parser_ops =
  sign_read :: "handle \<Rightarrow> fw_info_t \<Rightarrow> 's \<Rightarrow> (rt_err + bool) \<times> 's"
  sign_write :: "handle \<Rightarrow> fw_info_t \<Rightarrow> 's \<Rightarrow> rt_err \<times> 's"
  sign_clear :: "handle \<Rightarrow> fw_info_t option \<Rightarrow> 's \<Rightarrow> rt_err \<times> 's"

section \<open>Registration\<close>

text \<open>
  A table handed to a register function may hold null pointers: its fields are options, and
  the pointer to the table is one too. The registered tables are the two global pointers
  \<open>_header_io_ops\<close> and \<open>_header_parser_ops\<close>.
\<close>

record 's io_table =
  t_open :: "(qbt_target_id \<Rightarrow> open_flags \<Rightarrow> 's \<Rightarrow> (rt_err + handle) \<times> 's) option"
  t_close :: "(handle \<Rightarrow> 's \<Rightarrow> rt_err \<times> 's) option"
  t_read :: "(handle \<Rightarrow> u32 \<Rightarrow> u32 \<Rightarrow> 's \<Rightarrow> (rt_err + byte list) \<times> 's) option"
  t_erase :: "(handle \<Rightarrow> u32 \<Rightarrow> u32 \<Rightarrow> 's \<Rightarrow> rt_err \<times> 's) option"
  t_write :: "(handle \<Rightarrow> u32 \<Rightarrow> byte list \<Rightarrow> 's \<Rightarrow> rt_err \<times> 's) option"
  t_size :: "(handle \<Rightarrow> 's \<Rightarrow> (rt_err + u32) \<times> 's) option"
  t_ioctl :: "(handle \<Rightarrow> int \<Rightarrow> 's \<Rightarrow> (rt_err + u32) \<times> 's) option"

record 's parser_table =
  t_sign_read :: "(handle \<Rightarrow> fw_info_t \<Rightarrow> 's \<Rightarrow> (rt_err + bool) \<times> 's) option"
  t_sign_write :: "(handle \<Rightarrow> fw_info_t \<Rightarrow> 's \<Rightarrow> rt_err \<times> 's) option"
  t_sign_clear :: "(handle \<Rightarrow> fw_info_t option \<Rightarrow> 's \<Rightarrow> rt_err \<times> 's) option"

record 's ops_globals =
  header_io_ops :: "'s io_table option"
  header_parser_ops :: "'s parser_table option"

definition io_table_of :: "'s qboot_io_ops \<Rightarrow> 's io_table" where
  "io_table_of io = \<lparr>t_open = Some (io_open io), t_close = Some (io_close io),
     t_read = Some (io_read io), t_erase = Some (io_erase io), t_write = Some (io_write io),
     t_size = Some (io_size io), t_ioctl = Some (io_ioctl io)\<rparr>"

definition parser_table_of :: "'s qboot_header_parser_ops \<Rightarrow> 's parser_table" where
  "parser_table_of p = \<lparr>t_sign_read = Some (sign_read p), t_sign_write = Some (sign_write p),
     t_sign_clear = Some (sign_clear p)\<rparr>"

fun qboot_register_header_parser_ops ::
  "'s parser_table option \<Rightarrow> 's ops_globals \<Rightarrow> rt_err \<times> 's ops_globals" where
  "qboot_register_header_parser_ops None g = (RT_ERROR, g)"
| "qboot_register_header_parser_ops (Some ops) g =
     (if t_sign_read ops = None \<or> t_sign_write ops = None \<or> t_sign_clear ops = None
      then (RT_ERROR, g)
      else (RT_EOK, g\<lparr>header_parser_ops := Some ops\<rparr>))"

fun qboot_register_header_io_ops ::
  "'s io_table option \<Rightarrow> 's ops_globals \<Rightarrow> rt_err \<times> 's ops_globals" where
  "qboot_register_header_io_ops None g = (RT_ERROR, g)"
| "qboot_register_header_io_ops (Some ops) g =
     (if t_open ops = None \<or> t_close ops = None \<or> t_read ops = None \<or> t_erase ops = None
         \<or> t_write ops = None \<or> t_size ops = None
      then (RT_ERROR, g)
      else (RT_EOK, g\<lparr>header_io_ops := Some ops\<rparr>))"

definition qbt_register_ops ::
  "'s io_table option \<Rightarrow> 's parser_table option \<Rightarrow> 's ops_globals \<Rightarrow> rt_err \<times> 's ops_globals" where
  "qbt_register_ops io_ops parser_ops g =
     (if io_ops = None \<or> parser_ops = None then (RT_ERROR, g)
      else case qboot_register_header_io_ops io_ops g of (rst, g1) \<Rightarrow>
        if rst \<noteq> RT_EOK then (rst, g1)
        else case qboot_register_header_parser_ops parser_ops g1 of (rst, g2) \<Rightarrow>
          if rst \<noteq> RT_EOK then (rst, g2) else (RT_EOK, g2))"

text \<open>
  \<open>qboot_register_storage_ops\<close>: which backends are compiled in (\<open>QBOOT_PKG_SOURCE_*\<close>),
  the result of \<open>fal_init\<close> and of the hook \<open>qbt_ops_custom_init\<close>, and each backend's tables.
\<close>

record 's backends =
  src_fal :: "('s io_table \<times> 's parser_table) option"
  src_fs :: "('s io_table \<times> 's parser_table) option"
  src_custom :: "('s io_table \<times> 's parser_table) option"
  src_mux :: "'s io_table \<times> 's parser_table"

definition backend_count :: "'s backends \<Rightarrow> nat" where
  "backend_count b = (if src_fal b = None then 0 else 1) + (if src_fs b = None then 0 else 1)
     + (if src_custom b = None then 0 else 1)"

definition qboot_register_storage_ops ::
  "'s backends \<Rightarrow> int \<Rightarrow> bool \<Rightarrow> 's ops_globals \<Rightarrow> rt_err \<times> 's ops_globals" where
  "qboot_register_storage_ops b fal_init custom_init g =
     (if backend_count b = 0 then (RT_ERROR, g)
      else if backend_count b = 1 then
        (case src_fal b of
           Some (io, p) \<Rightarrow>
             if fal_init \<le> 0 then (RT_ERROR, g) else qbt_register_ops (Some io) (Some p) g
         | None \<Rightarrow>
           (case src_fs b of
              Some (io, p) \<Rightarrow> qbt_register_ops (Some io) (Some p) g
            | None \<Rightarrow>
              (case src_custom b of
                 Some (io, p) \<Rightarrow> qbt_register_ops (Some io) (Some p) g
               | None \<Rightarrow> (RT_ERROR, g))))
      else if src_fal b \<noteq> None \<and> fal_init \<le> 0 then (RT_ERROR, g)
      else if \<not> custom_init then (RT_ERROR, g)
      else qbt_register_ops (Some (fst (src_mux b))) (Some (snd (src_mux b))) g)"

text \<open>
  The tables of a build are those of its only backend, or the multiplexer's when it has several; the
  store library and the hook of the product must have come up. The header \<open>qboot_ops.h\<close> asks for
  tables without null pointers.
\<close>

definition offered :: "'s backends \<Rightarrow> ('s io_table \<times> 's parser_table) option" where
  "offered b =
     (if 1 < backend_count b then Some (src_mux b)
      else if src_fal b \<noteq> None then src_fal b else if src_fs b \<noteq> None then src_fs b else src_custom b)"

definition stores_up :: "'s backends \<Rightarrow> int \<Rightarrow> bool \<Rightarrow> bool" where
  "stores_up b fal_init custom_init \<longleftrightarrow>
     (src_fal b \<noteq> None \<longrightarrow> 0 < fal_init) \<and> (1 < backend_count b \<longrightarrow> custom_init)"

definition io_complete :: "'s io_table \<Rightarrow> bool" where
  "io_complete t \<longleftrightarrow> t_open t \<noteq> None \<and> t_close t \<noteq> None \<and> t_read t \<noteq> None \<and> t_erase t \<noteq> None
     \<and> t_write t \<noteq> None \<and> t_size t \<noteq> None \<and> t_ioctl t \<noteq> None"

definition parser_complete :: "'s parser_table \<Rightarrow> bool" where
  "parser_complete t \<longleftrightarrow> t_sign_read t \<noteq> None \<and> t_sign_write t \<noteq> None \<and> t_sign_clear t \<noteq> None"

definition globals_complete :: "'s ops_globals \<Rightarrow> bool" where
  "globals_complete g \<longleftrightarrow>
     (\<exists>io p. header_io_ops g = Some io \<and> io_complete io \<and>
             header_parser_ops g = Some p \<and> parser_complete p)"

lemma table_complete [simp]: "io_complete (io_table_of io)" "parser_complete (parser_table_of p)"
  by (simp_all add: io_complete_def io_table_of_def parser_complete_def parser_table_of_def)

text \<open>What a registration tests: everything but \<open>ioctl\<close>.\<close>

lemma register_ops_iff:
  "qbt_register_ops (Some io) (Some p) g = (RT_EOK, g') \<longleftrightarrow> io_complete (io\<lparr>t_ioctl := Some f\<rparr>) \<and> parser_complete p \<and>
     g' = g\<lparr>header_io_ops := Some io, header_parser_ops := Some p\<rparr>"
  by (auto simp: qbt_register_ops_def io_complete_def parser_complete_def)

lemma register_storage:
  "qboot_register_storage_ops b fi ci g =
     (case offered b of None \<Rightarrow> (RT_ERROR, g)
      | Some (io, p) \<Rightarrow> if stores_up b fi ci then qbt_register_ops (Some io) (Some p) g else (RT_ERROR, g))"
  by (auto simp: qboot_register_storage_ops_def offered_def stores_up_def backend_count_def not_le
      split: option.splits prod.splits)

section \<open>Wrappers\<close>

definition qboot_src_read_pos :: "qboot_cfg \<Rightarrow> u32" where
  "qboot_src_read_pos c = (if using_download_helper c then 0 else of_nat sizeof_fw_info)"

lemma unat_src_read_pos:
  "unat (qboot_src_read_pos c) = (if using_download_helper c then 0 else sizeof_fw_info)"
  by (simp add: qboot_src_read_pos_def sizeof_fw_info_def)

definition qbt_fw_info_read ::
  "qboot_cfg \<Rightarrow> 's qboot_io_ops \<Rightarrow> handle \<Rightarrow> u32 \<Rightarrow> fw_info_t \<Rightarrow> bool \<Rightarrow> 's \<Rightarrow> bool \<times> fw_info_t \<times> 's" where
  "qbt_fw_info_read c io h part_len fw from_tail s =
     (if from_tail \<and> part_len < qboot_src_read_pos c then (False, fw, s)
      else let addr = (if from_tail then part_len - qboot_src_read_pos c else 0) in
        case io_read io h addr (qboot_src_read_pos c) s of
          (Inl _, s') \<Rightarrow> (False, fw, s')
        | (Inr bs, s') \<Rightarrow> (True, fw_info_of_bytes (overwrite 0 bs (bytes_of_fw_info fw)), s'))"

definition qbt_fw_info_write ::
  "qboot_cfg \<Rightarrow> 's qboot_io_ops \<Rightarrow> handle \<Rightarrow> u32 \<Rightarrow> fw_info_t \<Rightarrow> bool \<Rightarrow> 's \<Rightarrow> bool \<times> 's" where
  "qbt_fw_info_write c io h part_len fw to_tail s =
     (let addr = (if to_tail then part_len - qboot_src_read_pos c else 0) in
        case io_write io h addr (take (unat (qboot_src_read_pos c)) (bytes_of_fw_info fw)) s of
          (rst, s') \<Rightarrow> (rst = RT_EOK, s'))"

definition qbt_release_sign_check ::
  "'s qboot_header_parser_ops \<Rightarrow> handle \<Rightarrow> fw_info_t \<Rightarrow> 's \<Rightarrow> bool \<times> 's" where
  "qbt_release_sign_check p h fw s =
     (case sign_read p h fw s of (Inl _, s') \<Rightarrow> (False, s') | (Inr released, s') \<Rightarrow> (released, s'))"

definition qbt_release_sign_write ::
  "'s qboot_header_parser_ops \<Rightarrow> handle \<Rightarrow> fw_info_t \<Rightarrow> 's \<Rightarrow> bool \<times> 's" where
  "qbt_release_sign_write p h fw s = (case sign_write p h fw s of (rst, s') \<Rightarrow> (rst = RT_EOK, s'))"

definition qbt_release_sign_clear ::
  "'s qboot_header_parser_ops \<Rightarrow> handle \<Rightarrow> fw_info_t option \<Rightarrow> 's \<Rightarrow> bool \<times> 's" where
  "qbt_release_sign_clear p h fw s = (case sign_clear p h fw s of (rst, s') \<Rightarrow> (rst = RT_EOK, s'))"

text \<open>
  \<open>qbt_target_open\<close> stores the handle before it queries the size: when the size fails the
  caller's variable holds the handle that was just closed. The out parameters start as the
  callers initialise them, null and zero.
\<close>

definition qbt_target_open ::
  "'s qboot_io_ops \<Rightarrow> qbt_target_id \<Rightarrow> bool \<Rightarrow> open_flags \<Rightarrow> 's \<Rightarrow> (bool \<times> handle \<times> u32) \<times> 's" where
  "qbt_target_open io i want_size flags s =
     (case io_open io i flags s of
        (Inl _, s1) \<Rightarrow> ((False, H_NULL, 0), s1)
      | (Inr h, s1) \<Rightarrow>
          if want_size then
            (case io_size io h s1 of
               (Inl _, s2) \<Rightarrow> (case io_close io h s2 of (_, s3) \<Rightarrow> ((False, h, 0), s3))
             | (Inr n, s2) \<Rightarrow> ((True, h, n), s2))
          else ((True, h, 0), s1))"

definition qbt_target_close :: "'s qboot_io_ops \<Rightarrow> handle \<Rightarrow> 's \<Rightarrow> 's" where
  "qbt_target_close io h s = (if h \<noteq> H_NULL then snd (io_close io h s) else s)"

text \<open>
  The default body of the weak watchdog hook feeds the watchdog package in builds that have it, which
  changes no state of the model.
\<close>

definition qbt_wdt_feed :: "'s \<Rightarrow> 's" where
  "qbt_wdt_feed s = s"

definition qbt_erase_with_feed ::
  "'s qboot_io_ops \<Rightarrow> handle \<Rightarrow> u32 \<Rightarrow> u32 \<Rightarrow> 's \<Rightarrow> rt_err \<times> 's" where
  "qbt_erase_with_feed io h off len s =
     (let s1 = qbt_wdt_feed s in
      case io_erase io h off len s1 of (rst, s2) \<Rightarrow> (rst, qbt_wdt_feed s2))"

lemma qbt_erase_with_feed_eq [simp]: "qbt_erase_with_feed io h off len s = io_erase io h off len s"
  by (simp add: qbt_erase_with_feed_def qbt_wdt_feed_def split: prod.splits)

text \<open>
  The flash backends keep the release sign behind the package, at the next multiple of
  \<open>QBOOT_RELEASE_SIGN_ALIGN_SIZE\<close>, computed with unsigned 32-bit arithmetic.
\<close>

definition release_sign_pos :: "qboot_cfg \<Rightarrow> fw_info_t \<Rightarrow> u32" where
  "release_sign_pos c fw =
     ((qboot_src_read_pos c + pkg_size fw) + (sign_align c - 1)) AND NOT (sign_align c - 1)"

lemma release_sign_pos_unat:
  assumes "pow2 (sign_align c)"
    and "unat (qboot_src_read_pos c) + unat (pkg_size fw) + unat (sign_align c) \<le> 4294967296"
  shows "unat (release_sign_pos c fw) =
    blk_up (unat (sign_align c)) (unat (qboot_src_read_pos c) + unat (pkg_size fw))"
proof -
  note pos = pow2_pos [OF assms(1)]
  let ?x = "qboot_src_read_pos c + pkg_size fw"
  have x: "unat ?x = unat (qboot_src_read_pos c) + unat (pkg_size fw)"
    using assms(2) pos by (simp add: u32_add)
  have "release_sign_pos c fw = rt_align ?x (sign_align c)"
    by (simp add: release_sign_pos_def rt_align_def add_diff_eq)
  with rt_align_blk(2) [OF assms(1), of ?x] assms(2) x show ?thesis by simp
qed

section \<open>Target names\<close>

definition QBOOT_APP_PART_NAME :: string where "QBOOT_APP_PART_NAME = ''app''"
definition QBOOT_DOWNLOAD_PART_NAME :: string where "QBOOT_DOWNLOAD_PART_NAME = ''download''"
definition QBOOT_FACTORY_PART_NAME :: string where "QBOOT_FACTORY_PART_NAME = ''factory''"
definition QBOOT_HPATCH_SWAP_PART_NAME :: string where "QBOOT_HPATCH_SWAP_PART_NAME = ''swap''"

lemmas part_name_defs = QBOOT_APP_PART_NAME_def QBOOT_DOWNLOAD_PART_NAME_def
  QBOOT_FACTORY_PART_NAME_def QBOOT_HPATCH_SWAP_PART_NAME_def

definition has_swap :: "qboot_cfg \<Rightarrow> bool" where
  "has_swap c \<longleftrightarrow> using_hpatchlite c \<and> hpatch_storage_swap c"

definition target_list :: "qboot_cfg \<Rightarrow> (qbt_target_id \<times> string) list" where
  "target_list c =
     [(QBOOT_TARGET_APP, QBOOT_APP_PART_NAME), (QBOOT_TARGET_DOWNLOAD, QBOOT_DOWNLOAD_PART_NAME),
      (QBOOT_TARGET_FACTORY, QBOOT_FACTORY_PART_NAME)]
     @ (if has_swap c then [(QBOOT_TARGET_SWAP, QBOOT_HPATCH_SWAP_PART_NAME)] else [])"

fun name_match :: "(qbt_target_id \<times> string) list \<Rightarrow> byte list \<Rightarrow> qbt_target_id" where
  "name_match [] name = QBOOT_TARGET_COUNT"
| "name_match ((i, role) # xs) name = (if rt_streq name role then i else name_match xs name)"

definition qbt_name_to_id :: "qboot_cfg \<Rightarrow> byte list \<Rightarrow> qbt_target_id" where
  "qbt_name_to_id c name = name_match (target_list c) name"

text \<open>
  \<open>g_descs\<close> is generated by the preprocessor from the target list and, for each target, the
  store macros; those choices are the parameter \<open>stores\<close>.
\<close>

record store_choice =
  sc_store_name :: string
  sc_flash_addr :: u32
  sc_flash_len :: u32
  sc_backend :: qbt_store_backend

type_synonym stores = "qbt_target_id \<Rightarrow> store_choice"

definition g_descs :: "qboot_cfg \<Rightarrow> stores \<Rightarrow> qboot_store_desc list" where
  "g_descs c st = map (\<lambda>(i, name). \<lparr>d_id = i, role_name = name, store_name = sc_store_name (st i),
     flash_addr = sc_flash_addr (st i), flash_len = sc_flash_len (st i),
     backend = sc_backend (st i)\<rparr>) (target_list c)"

definition qbt_target_desc :: "qboot_cfg \<Rightarrow> stores \<Rightarrow> qbt_target_id \<Rightarrow> qboot_store_desc option" where
  "qbt_target_desc c st i =
     (if target_rank i \<ge> length (g_descs c st) then None else Some (g_descs c st ! target_rank i))"

lemma length_g_descs: "length (g_descs c st) = (if has_swap c then 4 else 3)"
  by (simp add: g_descs_def target_list_def)

lemma rt_streq_prefix:
  "0 \<notin> set (str_bytes s) \<Longrightarrow> rt_streq (str_bytes s @ 0 # rest) t \<longleftrightarrow> str_bytes s = str_bytes t"
proof -
  assume "0 \<notin> set (str_bytes s)"
  then have "takeWhile (\<lambda>b. b \<noteq> 0) (str_bytes s @ 0 # rest) = str_bytes s"
    by (induction "str_bytes s") (auto simp: takeWhile_append)
  then show ?thesis by (simp add: rt_streq_def)
qed

lemma part_name_bytes [simp]:
  "str_bytes QBOOT_APP_PART_NAME = [97, 112, 112]"
  "str_bytes QBOOT_DOWNLOAD_PART_NAME = [100, 111, 119, 110, 108, 111, 97, 100]"
  "str_bytes QBOOT_FACTORY_PART_NAME = [102, 97, 99, 116, 111, 114, 121]"
  "str_bytes QBOOT_HPATCH_SWAP_PART_NAME = [115, 119, 97, 112]"
  by (simp_all add: str_bytes_def part_name_defs of_char_def)

lemma target_desc_cases:
  assumes "qbt_target_desc c st i = Some d"
  obtains "i = QBOOT_TARGET_APP" "role_name d = QBOOT_APP_PART_NAME"
    | "i = QBOOT_TARGET_DOWNLOAD" "role_name d = QBOOT_DOWNLOAD_PART_NAME"
    | "i = QBOOT_TARGET_FACTORY" "role_name d = QBOOT_FACTORY_PART_NAME"
    | "i = QBOOT_TARGET_SWAP" "role_name d = QBOOT_HPATCH_SWAP_PART_NAME" "has_swap c"
  using assms
  by (cases i) (auto simp: qbt_target_desc_def g_descs_def target_list_def split: if_splits)

lemma target_desc_fields:
  assumes "qbt_target_desc c st i = Some d"
  shows "d_id d = i \<and> store_name d = sc_store_name (st i) \<and> flash_addr d = sc_flash_addr (st i) \<and>
    flash_len d = sc_flash_len (st i) \<and> backend d = sc_backend (st i)"
  using assms
  by (cases i) (auto simp: qbt_target_desc_def g_descs_def target_list_def split: if_splits)

lemma name_to_id_role:
  assumes "qbt_target_desc c st i = Some d"
  shows "qbt_name_to_id c (str_bytes (role_name d) @ 0 # rest) = i"
  using assms
  by (rule target_desc_cases)
    (simp_all add: qbt_name_to_id_def target_list_def rt_streq_def)

section \<open>The storage contract\<close>

text \<open>
  What a client may rely on, over a \<open>view\<close> of the state: which handles are open, the byte at
  each offset of an open handle's device, and which offsets are \<open>ready\<close>, that is, may be
  programmed so that they hold what was written (on flash, the erased ones). A successful read
  returns the bytes; no read, size or ioctl changes the view; a write touches its own range of
  its own handle only, and a successful write into a ready range stores the data; an erase leaves
  its range ready and never makes an offset less ready.
\<close>

record dev_view =
  v_open :: bool
  v_cell :: "nat \<Rightarrow> byte"
  v_ready :: "nat \<Rightarrow> bool"

definition ready_range :: "dev_view \<Rightarrow> nat \<Rightarrow> nat \<Rightarrow> bool" where
  "ready_range v off n \<longleftrightarrow> (\<forall>i. off \<le> i \<and> i < off + n \<longrightarrow> v_ready v i)"

lemma ready_range_0 [simp]: "ready_range v off 0"
  unfolding ready_range_def by (intro allI impI) linarith

lemma ready_range_sub: "ready_range v off n \<Longrightarrow> off \<le> o' \<Longrightarrow> o' + m \<le> off + n \<Longrightarrow> ready_range v o' m"
  by (auto simp: ready_range_def)

locale storage =
  fixes io :: "'s qboot_io_ops"
    and view :: "'s \<Rightarrow> handle \<Rightarrow> dev_view"
  assumes read_view: "v_open (view s h) \<Longrightarrow> io_read io h off len s = (r, s') \<Longrightarrow> view s' = view s"
    and read_data: "v_open (view s h) \<Longrightarrow> io_read io h off len s = (Inr bs, s') \<Longrightarrow>
      bs = cells (v_cell (view s h)) (unat off) (unat len)"
    and size_view: "v_open (view s h) \<Longrightarrow> io_size io h s = (sz, s1) \<Longrightarrow> view s1 = view s"
    and ioctl_view: "v_open (view s h) \<Longrightarrow> io_ioctl io h cmd s = (al, s1) \<Longrightarrow> view s1 = view s"
    and write_other: "v_open (view s h) \<Longrightarrow> io_write io h off bs s = (e, s') \<Longrightarrow> length bs < 4294967296 \<Longrightarrow> h' \<noteq> h \<Longrightarrow>
      view s' h' = view s h'"
    and write_open: "v_open (view s h) \<Longrightarrow> io_write io h off bs s = (e, s') \<Longrightarrow> length bs < 4294967296 \<Longrightarrow> v_open (view s' h)"
    and write_outside: "v_open (view s h) \<Longrightarrow> io_write io h off bs s = (e, s') \<Longrightarrow> length bs < 4294967296 \<Longrightarrow>
      i < unat off \<or> unat off + length bs \<le> i \<Longrightarrow>
      v_cell (view s' h) i = v_cell (view s h) i \<and> (v_ready (view s h) i \<longrightarrow> v_ready (view s' h) i)"
    and write_data: "v_open (view s h) \<Longrightarrow> io_write io h off bs s = (RT_EOK, s') \<Longrightarrow> length bs < 4294967296 \<Longrightarrow>
      ready_range (view s h) (unat off) (length bs) \<Longrightarrow>
      unat off \<le> i \<Longrightarrow> i < unat off + length bs \<Longrightarrow> v_cell (view s' h) i = bs ! (i - unat off)"
    and erase_other: "v_open (view s h) \<Longrightarrow> io_erase io h off len s = (e, s') \<Longrightarrow> h' \<noteq> h \<Longrightarrow>
      view s' h' = view s h'"
    and erase_open: "v_open (view s h) \<Longrightarrow> io_erase io h off len s = (e, s') \<Longrightarrow> v_open (view s' h)"
    and erase_ready: "v_open (view s h) \<Longrightarrow> io_erase io h off len s = (RT_EOK, s') \<Longrightarrow>
      ready_range (view s' h) (unat off) (unat len)"
    and erase_keeps: "v_open (view s h) \<Longrightarrow> io_erase io h off len s = (e, s') \<Longrightarrow>
      v_ready (view s h) i \<Longrightarrow> v_ready (view s' h) i"
begin

lemma write_cells:
  assumes "v_open (view s h)" and "io_write io h off bs s = (RT_EOK, s')"
    and "length bs < 4294967296"
    and "ready_range (view s h) (unat off) (length bs)"
  shows "v_cell (view s' h) = splice (unat off) bs (v_cell (view s h))"
proof
  fix i
  show "v_cell (view s' h) i = splice (unat off) bs (v_cell (view s h)) i"
    using write_data [OF assms, of i] write_outside [OF assms(1,2,3), of i]
    by (auto simp: splice_def)
qed

lemma write_keeps_ready:
  assumes "v_open (view s h)" and "io_write io h off bs s = (e, s')" and "length bs < 4294967296"
    and "ready_range (view s h) o' n" and "unat off + length bs \<le> o' \<or> o' + n \<le> unat off"
  shows "ready_range (view s' h) o' n"
  using assms(4,5) write_outside [OF assms(1,2,3)] by (auto simp: ready_range_def)

lemma write_then_read:
  assumes "v_open (view s h)" and "io_write io h off bs s = (RT_EOK, s1)"
    and "length bs < 4294967296" and "ready_range (view s h) (unat off) (length bs)"
    and "io_read io h off (of_nat (length bs)) s1 = (Inr r, s2)"
  shows "r = bs"
proof -
  have "v_open (view s1 h)" using assms(1,2,3) by (rule write_open)
  from read_data [OF this assms(5)] write_cells [OF assms(1,2,3,4)] assms(3)
  show ?thesis by (simp add: cells_splice_same word_nat)
qed

lemma erase_keeps_range:
  "v_open (view s h) \<Longrightarrow> io_erase io h off len s = (e, s') \<Longrightarrow> ready_range (view s h) o' n \<Longrightarrow>
   ready_range (view s' h) o' n"
  using erase_keeps by (auto simp: ready_range_def)

end

text \<open>
  A device erased in blocks: an erase, successful or not, touches only the blocks its range
  meets.
\<close>

locale block_storage = storage io view
  for io :: "'s qboot_io_ops" and view :: "'s \<Rightarrow> handle \<Rightarrow> dev_view" +
  fixes blk :: nat
  assumes blk_pos: "0 < blk"
    and erase_outside: "v_open (view s h) \<Longrightarrow> io_erase io h off len s = (e, s') \<Longrightarrow>
      i < blk_down blk (unat off) \<or> blk_up blk (unat off + unat len) \<le> i \<Longrightarrow>
      v_cell (view s' h) i = v_cell (view s h) i"

text \<open>
  A reliable device: operations inside the device's size succeed.
\<close>

locale reliable_storage = storage io view
  for io :: "'s qboot_io_ops" and view :: "'s \<Rightarrow> handle \<Rightarrow> dev_view" +
  fixes dev_size :: "handle \<Rightarrow> nat"
  assumes read_total: "v_open (view s h) \<Longrightarrow> unat off + unat len \<le> dev_size h \<Longrightarrow>
      \<exists>bs s'. io_read io h off len s = (Inr bs, s')"
    and write_total: "v_open (view s h) \<Longrightarrow> length bs < 4294967296 \<Longrightarrow> unat off + length bs \<le> dev_size h \<Longrightarrow>
      \<exists>s'. io_write io h off bs s = (RT_EOK, s')"
    and erase_total: "v_open (view s h) \<Longrightarrow> unat off + unat len \<le> dev_size h \<Longrightarrow>
      \<exists>s'. io_erase io h off len s = (RT_EOK, s')"
begin

lemma read_exact:
  assumes "v_open (view s h)" and "unat off + unat len \<le> dev_size h"
  obtains s' where "io_read io h off len s = (Inr (cells (v_cell (view s h)) (unat off) (unat len)), s')"
    and "view s' = view s"
  using read_total [OF assms] read_data [OF assms(1)] read_view [OF assms(1)] by metis

end

text \<open>
  A parser that keeps the release sign as a word on the device, behind the package: what the
  FAL and the custom backend share.
\<close>

locale sign_storage = reliable_storage io view dev_size
  for io :: "'s qboot_io_ops" and view :: "'s \<Rightarrow> handle \<Rightarrow> dev_view" and dev_size :: "handle \<Rightarrow> nat" +
  fixes c :: qboot_cfg and p :: "'s qboot_header_parser_ops"
  assumes sign_read_io: "sign_read p h fw s =
      (case io_read io h (release_sign_pos c fw) 4 s of
         (Inl _, s1) \<Rightarrow> (Inl RT_ERROR, s1)
       | (Inr bs, s1) \<Rightarrow> (Inr (of_le32 bs = QBOOT_RELEASE_SIGN_WORD), s1))"
    and sign_write_io: "sign_write p h fw s =
      (case io_write io h (release_sign_pos c fw) (le32 QBOOT_RELEASE_SIGN_WORD) s of
         (e, s2) \<Rightarrow> (if e \<noteq> RT_EOK then RT_ERROR else RT_EOK, s2))"
begin

lemma sign_check_view:
  "v_open (view s h) \<Longrightarrow> qbt_release_sign_check p h fw s = (b, s') \<Longrightarrow> view s' = view s"
  by (auto simp: qbt_release_sign_check_def sign_read_io split: prod.splits sum.splits
    dest: read_view)

text \<open>The check reads the word at the sign position.\<close>

lemma sign_check_iff:
  assumes "v_open (view s h)" and "unat (release_sign_pos c fw) + 4 \<le> dev_size h"
  shows "fst (qbt_release_sign_check p h fw s) \<longleftrightarrow>
    of_le32 (cells (v_cell (view s h)) (unat (release_sign_pos c fw)) 4) = QBOOT_RELEASE_SIGN_WORD"
proof -
  from assms(2) have "unat (release_sign_pos c fw) + unat (4 :: u32) \<le> dev_size h" by simp
  from read_exact [OF assms(1) this] obtain s' where
    "io_read io h (release_sign_pos c fw) 4 s =
      (Inr (cells (v_cell (view s h)) (unat (release_sign_pos c fw)) (unat (4 :: u32))), s')" .
  then show ?thesis by (simp add: qbt_release_sign_check_def sign_read_io)
qed

lemma sign_write_effect:
  assumes "v_open (view s h)" and "qbt_release_sign_write p h fw s = (True, s')"
    and "ready_range (view s h) (unat (release_sign_pos c fw)) 4"
  shows "v_cell (view s' h) =
      splice (unat (release_sign_pos c fw)) (le32 QBOOT_RELEASE_SIGN_WORD) (v_cell (view s h))"
    and "v_open (view s' h)"
proof -
  have w: "io_write io h (release_sign_pos c fw) (le32 QBOOT_RELEASE_SIGN_WORD) s = (RT_EOK, s')"
    using assms(2) by (auto simp: qbt_release_sign_write_def sign_write_io split: prod.splits if_splits)
  show "v_open (view s' h)" using write_open [OF assms(1) w] by simp
  show "v_cell (view s' h) =
      splice (unat (release_sign_pos c fw)) (le32 QBOOT_RELEASE_SIGN_WORD) (v_cell (view s h))"
    using write_cells [OF assms(1) w] assms(3) by simp
qed

lemma sign_write_check:
  assumes "v_open (view s h)" and "unat (release_sign_pos c fw) + 4 \<le> dev_size h"
    and "ready_range (view s h) (unat (release_sign_pos c fw)) 4"
    and "qbt_release_sign_write p h fw s = (ok, s')"
  shows "ok" and "fst (qbt_release_sign_check p h fw s')"
proof -
  have "unat (release_sign_pos c fw) + length (le32 QBOOT_RELEASE_SIGN_WORD) \<le> dev_size h"
    using assms(2) by simp
  from write_total [OF assms(1) _ this] obtain s2 where
    "io_write io h (release_sign_pos c fw) (le32 QBOOT_RELEASE_SIGN_WORD) s = (RT_EOK, s2)" by auto
  with assms(4) show ok by (simp add: qbt_release_sign_write_def sign_write_io)
  with assms(4) have w: "qbt_release_sign_write p h fw s = (True, s')" by simp
  note e = sign_write_effect [OF assms(1) w assms(3)]
  have "cells (v_cell (view s' h)) (unat (release_sign_pos c fw)) 4 = le32 QBOOT_RELEASE_SIGN_WORD"
    using cells_splice_same [of "unat (release_sign_pos c fw)" "le32 QBOOT_RELEASE_SIGN_WORD"]
    by (simp add: e(1))
  with sign_check_iff [OF e(2) assms(2)] show "fst (qbt_release_sign_check p h fw s')" by simp
qed

end

section \<open>Headers on a device\<close>

text \<open>The fields of \<open>fw_info_t\<close> at the offsets of the packed C struct.\<close>

definition header_fields :: "(nat \<Rightarrow> byte) \<Rightarrow> nat \<Rightarrow> fw_info_t \<Rightarrow> bool" where
  "header_fields f a fw \<longleftrightarrow>
     cells f a 4 = fw_type fw \<and> of_le16 (cells f (a + 4) 2) = algo fw \<and> of_le16 (cells f (a + 6) 2) = algo2 fw \<and>
     of_le32 (cells f (a + 8) 4) = time_stamp fw \<and> cells f (a + 12) 16 = part_name fw \<and>
     cells f (a + 28) 24 = fw_ver fw \<and> cells f (a + 52) 24 = prod_code fw \<and>
     of_le32 (cells f (a + 76) 4) = pkg_crc fw \<and> of_le32 (cells f (a + 80) 4) = raw_crc fw \<and>
     of_le32 (cells f (a + 84) 4) = raw_size fw \<and> of_le32 (cells f (a + 88) 4) = pkg_size fw \<and>
     of_le32 (cells f (a + 92) 4) = hdr_crc fw"

lemma header_fields_iff: "header_fields f a fw \<longleftrightarrow> fw_info_of_bytes (cells f a 96) = fw"
  by (cases fw) (auto simp: header_fields_def fw_info_of_bytes_def cells_simps)

context reliable_storage
begin

lemma info_write_read:
  assumes o: "v_open (view s h)" and nh: "\<not> using_download_helper c" and len: "96 \<le> unat n" "unat n \<le> dev_size h"
    and wf: "wf_fw_info fw" "wf_fw_info fw0" and a: "a = (if tail then unat n - 96 else 0)"
    and rdy: "ready_range (view s h) a 96"
  obtains s1 s2 where "qbt_fw_info_write c io h n fw tail s = (True, s1)" "header_fields (v_cell (view s1 h)) a fw"
    "\<And>i. i < a \<or> a + 96 \<le> i \<Longrightarrow> v_cell (view s1 h) i = v_cell (view s h) i"
    "\<And>h'. h' \<noteq> h \<Longrightarrow> view s1 h' = view s h'"
    "qbt_fw_info_read c io h n fw0 tail s1 = (True, fw, s2)" "view s2 = view s1"
proof -
  let ?p = "qboot_src_read_pos c" and ?bs = "bytes_of_fw_info fw"
  let ?at = "if tail then n - ?p else 0"
  have pos: "unat ?p = 96" using nh by (simp add: unat_src_read_pos sizeof_fw_info_def)
  have at: "unat ?at = a" using len pos by (simp add: a u32_sub)
  have lb: "length ?bs = 96" "length ?bs < 4294967296" using wf(1) by (simp_all add: sizeof_fw_info_def)
  have fit: "unat ?at + length ?bs \<le> dev_size h" using len unfolding at lb(1) by (simp add: a)
  obtain s1 where w: "io_write io h ?at ?bs s = (RT_EOK, s1)" using write_total [OF o lb(2) fit] by blast
  have cell: "v_cell (view s1 h) = splice a ?bs (v_cell (view s h))"
    using write_cells [OF o w lb(2)] rdy unfolding at lb(1) by blast
  have o1: "v_open (view s1 h)" by (rule write_open [OF o w lb(2)])
  have c: "cells (v_cell (view s1 h)) a 96 = ?bs" using cells_splice_same [of a ?bs] by (simp add: cell lb(1))
  have "unat ?at + unat ?p \<le> dev_size h" using fit unfolding lb(1) pos .
  from read_exact [OF o1 this] obtain s2 where r: "io_read io h ?at ?p s1 = (Inr ?bs, s2)" "view s2 = view s1"
    unfolding at pos c .
  have "\<not> n < ?p" using len pos by (simp add: u32_less_iff)
  moreover have dec: "fw_info_of_bytes ?bs = fw" using fw_info_of_bytes_of [OF wf(1), of "[]"] by simp
  ultimately have rd: "qbt_fw_info_read c io h n fw0 tail s1 = (True, fw, s2)"
    using wf r(1) by (cases tail; simp add: qbt_fw_info_read_def Let_def lb(1) sizeof_fw_info_def)
  show ?thesis
  proof (rule that [of s1 s2])
    show "qbt_fw_info_write c io h n fw tail s = (True, s1)"
      using w pos lb(1) by (simp add: qbt_fw_info_write_def Let_def)
    show "header_fields (v_cell (view s1 h)) a fw" by (simp add: header_fields_iff c dec)
    show "v_cell (view s1 h) i = v_cell (view s h) i" if "i < a \<or> a + 96 \<le> i" for i
      using that by (simp add: cell splice_out lb(1))
    show "view s1 h' = view s h'" if "h' \<noteq> h" for h' by (rule write_other [OF o w lb(2) that])
  qed (fact rd r(2))+
qed

end

end
