(* ===== verification/Qboot_Custom.thy ===== *)
theory Qboot_Custom
  imports Qboot_Ops
begin

text \<open>
  The custom flash backend of \<open>src/qboot_custom_ops.c\<close>: targets are address ranges of a flash
  the product drives through three hooks. The hooks are a parameter; the locale
  \<open>custom_flash\<close> states what a flash driver does, and the backend is shown to give its
  clients the storage contract.
\<close>

section \<open>The backend\<close>

text \<open>The hooks, and the weak ones the file itself defines, which refuse every access.\<close>

record 's flash_hooks =
  qbt_custom_flash_read :: "u32 \<Rightarrow> u32 \<Rightarrow> 's \<Rightarrow> (rt_err + byte list) \<times> 's"
  qbt_custom_flash_write :: "u32 \<Rightarrow> byte list \<Rightarrow> 's \<Rightarrow> rt_err \<times> 's"
  qbt_custom_flash_erase :: "u32 \<Rightarrow> u32 \<Rightarrow> 's \<Rightarrow> rt_err \<times> 's"

definition weak_flash_hooks :: "'s flash_hooks" where
  "weak_flash_hooks =
     \<lparr>qbt_custom_flash_read = (\<lambda>addr len s. (Inl RT_ERROR, s)),
      qbt_custom_flash_write = (\<lambda>addr buf s. (RT_ERROR, s)),
      qbt_custom_flash_erase = (\<lambda>addr len s. (RT_ERROR, s))\<rparr>"

definition qbt_custom_find_desc ::
  "qboot_cfg \<Rightarrow> stores \<Rightarrow> qbt_target_id \<Rightarrow> qboot_store_desc option" where
  "qbt_custom_find_desc c st i =
     (case qbt_target_desc c st i of
        None \<Rightarrow> None
      | Some desc \<Rightarrow> if backend desc = BACKEND_CUSTOM then Some desc else None)"

definition qbt_custom_range_check :: "qboot_store_desc option \<Rightarrow> u32 \<Rightarrow> u32 \<Rightarrow> bool" where
  "qbt_custom_range_check desc off len =
     (case desc of
        None \<Rightarrow> False
      | Some d \<Rightarrow>
          if flash_len d = 0 then False
          else if off > flash_len d then False
          else if len > flash_len d - off then False
          else True)"

text \<open>The handle is the address of a descriptor; other handles are not pointers to one.\<close>

fun desc_of :: "qboot_cfg \<Rightarrow> stores \<Rightarrow> handle \<Rightarrow> qboot_store_desc option" where
  "desc_of c st (H_desc i) = qbt_target_desc c st i"
| "desc_of c st _ = None"

definition qbt_custom_open ::
  "qboot_cfg \<Rightarrow> stores \<Rightarrow> qbt_target_id \<Rightarrow> open_flags \<Rightarrow> 's \<Rightarrow> (rt_err + handle) \<times> 's" where
  "qbt_custom_open c st i flags s =
     (case qbt_custom_find_desc c st i of
        None \<Rightarrow> (Inl RT_ERROR, s)
      | Some d \<Rightarrow> if flash_len d = 0 then (Inl RT_ERROR, s) else (Inr (H_desc i), s))"

definition qbt_custom_close :: "handle \<Rightarrow> 's \<Rightarrow> rt_err \<times> 's" where
  "qbt_custom_close h s = (RT_EOK, s)"

definition qbt_custom_read ::
  "qboot_cfg \<Rightarrow> stores \<Rightarrow> 's flash_hooks \<Rightarrow> handle \<Rightarrow> u32 \<Rightarrow> u32 \<Rightarrow> 's \<Rightarrow> (rt_err + byte list) \<times> 's" where
  "qbt_custom_read c st hk h off len s =
     (if \<not> qbt_custom_range_check (desc_of c st h) off len then (Inl RT_ERROR, s)
      else qbt_custom_flash_read hk (flash_addr (the (desc_of c st h)) + off) len s)"

definition qbt_custom_erase ::
  "qboot_cfg \<Rightarrow> stores \<Rightarrow> 's flash_hooks \<Rightarrow> handle \<Rightarrow> u32 \<Rightarrow> u32 \<Rightarrow> 's \<Rightarrow> rt_err \<times> 's" where
  "qbt_custom_erase c st hk h off len s =
     (if \<not> qbt_custom_range_check (desc_of c st h) off len then (RT_ERROR, s)
      else qbt_custom_flash_erase hk (flash_addr (the (desc_of c st h)) + off) len s)"

definition qbt_custom_write ::
  "qboot_cfg \<Rightarrow> stores \<Rightarrow> 's flash_hooks \<Rightarrow> handle \<Rightarrow> u32 \<Rightarrow> byte list \<Rightarrow> 's \<Rightarrow> rt_err \<times> 's" where
  "qbt_custom_write c st hk h off buf s =
     (if \<not> qbt_custom_range_check (desc_of c st h) off (of_nat (length buf)) then (RT_ERROR, s)
      else qbt_custom_flash_write hk (flash_addr (the (desc_of c st h)) + off) buf s)"

definition qbt_custom_size ::
  "qboot_cfg \<Rightarrow> stores \<Rightarrow> handle \<Rightarrow> 's \<Rightarrow> (rt_err + u32) \<times> 's" where
  "qbt_custom_size c st h s =
     (case desc_of c st h of None \<Rightarrow> (Inl RT_ERROR, s) | Some d \<Rightarrow> (Inr (flash_len d), s))"

definition qbt_custom_ioctl :: "qboot_cfg \<Rightarrow> handle \<Rightarrow> int \<Rightarrow> 's \<Rightarrow> (rt_err + u32) \<times> 's" where
  "qbt_custom_ioctl c h cmd s =
     (if cmd = QBOOT_IO_CMD_GET_ERASE_ALIGN then (Inr (flash_erase_align c), s)
      else (Inl RT_ERROR, s))"

definition qbt_custom_sign_read ::
  "qboot_cfg \<Rightarrow> stores \<Rightarrow> 's flash_hooks \<Rightarrow> handle \<Rightarrow> fw_info_t \<Rightarrow> 's \<Rightarrow> (rt_err + bool) \<times> 's" where
  "qbt_custom_sign_read c st hk h fw s =
     (case qbt_custom_read c st hk h (release_sign_pos c fw) 4 s of
        (Inl _, s') \<Rightarrow> (Inl RT_ERROR, s')
      | (Inr bs, s') \<Rightarrow> (Inr (of_le32 bs = QBOOT_RELEASE_SIGN_WORD), s'))"

definition qbt_custom_sign_write ::
  "qboot_cfg \<Rightarrow> stores \<Rightarrow> 's flash_hooks \<Rightarrow> handle \<Rightarrow> fw_info_t \<Rightarrow> 's \<Rightarrow> rt_err \<times> 's" where
  "qbt_custom_sign_write c st hk h fw s =
     (case qbt_custom_write c st hk h (release_sign_pos c fw) (le32 QBOOT_RELEASE_SIGN_WORD) s of
        (rst, s') \<Rightarrow> (if rst \<noteq> RT_EOK then RT_ERROR else RT_EOK, s'))"

definition qbt_custom_sign_clear :: "handle \<Rightarrow> fw_info_t option \<Rightarrow> 's \<Rightarrow> rt_err \<times> 's" where
  "qbt_custom_sign_clear h fw s = (RT_EOK, s)"

definition g_qboot_io_custom :: "qboot_cfg \<Rightarrow> stores \<Rightarrow> 's flash_hooks \<Rightarrow> 's qboot_io_ops" where
  "g_qboot_io_custom c st hk =
     \<lparr>io_open = qbt_custom_open c st, io_close = qbt_custom_close,
      io_read = qbt_custom_read c st hk, io_erase = qbt_custom_erase c st hk,
      io_write = qbt_custom_write c st hk, io_size = qbt_custom_size c st,
      io_ioctl = qbt_custom_ioctl c\<rparr>"

definition g_qboot_header_parser_custom ::
  "qboot_cfg \<Rightarrow> stores \<Rightarrow> 's flash_hooks \<Rightarrow> 's qboot_header_parser_ops" where
  "g_qboot_header_parser_custom c st hk =
     \<lparr>sign_read = qbt_custom_sign_read c st hk, sign_write = qbt_custom_sign_write c st hk,
      sign_clear = qbt_custom_sign_clear\<rparr>"

lemmas custom_ops_defs = g_qboot_io_custom_def qbt_custom_open_def qbt_custom_close_def
  qbt_custom_read_def qbt_custom_erase_def qbt_custom_write_def qbt_custom_size_def
  qbt_custom_ioctl_def

section \<open>Range check\<close>

text \<open>The check admits exactly the ranges inside the region, without wrap-around.\<close>

lemma range_check_iff:
  "qbt_custom_range_check (Some d) off len \<longleftrightarrow>
     flash_len d \<noteq> 0 \<and> unat off + unat len \<le> unat (flash_len d)"
proof (cases "unat off \<le> unat (flash_len d)")
  case True
  then have "unat (flash_len d - off) = unat (flash_len d) - unat off" by (rule u32_sub)
  with True show ?thesis by (auto simp: qbt_custom_range_check_def u32_cmp)
next
  case False
  then show ?thesis by (auto simp: qbt_custom_range_check_def u32_cmp)
qed

lemma range_check_None [simp]: "\<not> qbt_custom_range_check None off len"
  by (simp add: qbt_custom_range_check_def)

section \<open>The flash and the storage contract\<close>

definition custom_region :: "qboot_cfg \<Rightarrow> stores \<Rightarrow> handle \<Rightarrow> (nat \<times> nat) option" where
  "custom_region c st h =
     (case desc_of c st h of
        None \<Rightarrow> None
      | Some d \<Rightarrow> if backend d = BACKEND_CUSTOM \<and> flash_len d \<noteq> 0
                  then Some (unat (flash_addr d), unat (flash_len d)) else None)"

definition custom_view ::
  "qboot_cfg \<Rightarrow> stores \<Rightarrow> ('s \<Rightarrow> nat \<Rightarrow> byte) \<Rightarrow> 's \<Rightarrow> handle \<Rightarrow> dev_view" where
  "custom_view c st cell s h =
     (case custom_region c st h of
        None \<Rightarrow> \<lparr>v_open = False, v_cell = (\<lambda>_. 0), v_ready = (\<lambda>_. False)\<rparr>
      | Some (a, n) \<Rightarrow>
          \<lparr>v_open = True, v_cell = (\<lambda>i. if i < n then cell s (a + i) else 0),
           v_ready = (\<lambda>i. i < n \<and> cell s (a + i) = 0xFF)\<rparr>)"

text \<open>
  A flash driver, over the flash's cells: reading changes nothing and returns the cells; writing
  touches only its range and stores the data where the range is erased; erasing makes its range
  \<open>0xFF\<close>, touches only the blocks the range meets and unwrites no erased cell. The last
  assumptions are the flash map's: the regions are made of whole blocks, inside the 32-bit
  address space, and two targets do not share a cell.
\<close>

locale custom_flash =
  fixes c :: qboot_cfg and st :: stores and hk :: "'s flash_hooks" and cell :: "'s \<Rightarrow> nat \<Rightarrow> byte"
  assumes hook_read_cell: "qbt_custom_flash_read hk a n s = (r, s') \<Longrightarrow> cell s' = cell s"
    and hook_read_data: "qbt_custom_flash_read hk a n s = (Inr bs, s') \<Longrightarrow>
      bs = cells (cell s) (unat a) (unat n)"
    and hook_write_outside: "qbt_custom_flash_write hk a bs s = (e, s') \<Longrightarrow>
      i < unat a \<or> unat a + length bs \<le> i \<Longrightarrow> cell s' i = cell s i"
    and hook_write_data: "qbt_custom_flash_write hk a bs s = (RT_EOK, s') \<Longrightarrow>
      \<forall>i. unat a \<le> i \<and> i < unat a + length bs \<longrightarrow> cell s i = 0xFF \<Longrightarrow>
      unat a \<le> j \<Longrightarrow> j < unat a + length bs \<Longrightarrow> cell s' j = bs ! (j - unat a)"
    and hook_erase_data: "qbt_custom_flash_erase hk a n s = (RT_EOK, s') \<Longrightarrow>
      unat a \<le> i \<Longrightarrow> i < unat a + unat n \<Longrightarrow> cell s' i = 0xFF"
    and hook_erase_outside: "qbt_custom_flash_erase hk a n s = (e, s') \<Longrightarrow>
      i < blk_down (unat (flash_erase_align c)) (unat a) \<or>
      blk_up (unat (flash_erase_align c)) (unat a + unat n) \<le> i \<Longrightarrow> cell s' i = cell s i"
    and hook_erase_keeps: "qbt_custom_flash_erase hk a n s = (e, s') \<Longrightarrow> cell s i = 0xFF \<Longrightarrow>
      cell s' i = 0xFF"
    and align_pos: "0 < unat (flash_erase_align c)"
    and region_aligned: "custom_region c st h = Some (a', n') \<Longrightarrow>
      unat (flash_erase_align c) dvd a' \<and> unat (flash_erase_align c) dvd n' \<and> a' + n' \<le> 4294967296"
    and region_disjoint: "custom_region c st h = Some (a', n') \<Longrightarrow>
      custom_region c st h' = Some (a'', n'') \<Longrightarrow> h \<noteq> h' \<Longrightarrow> a' + n' \<le> a'' \<or> a'' + n'' \<le> a'"
begin

abbreviation "ops \<equiv> g_qboot_io_custom c st hk"
abbreviation "vw \<equiv> custom_view c st cell"

lemma openE:
  assumes "v_open (vw s h)"
  obtains d a n where "desc_of c st h = Some d" "custom_region c st h = Some (a, n)"
    "a = unat (flash_addr d)" "n = unat (flash_len d)" "flash_len d \<noteq> 0"
proof -
  obtain p where p: "custom_region c st h = Some p"
    using assms by (auto simp: custom_view_def split: option.splits)
  then obtain d where d: "desc_of c st h = Some d" "flash_len d \<noteq> 0"
    "p = (unat (flash_addr d), unat (flash_len d))"
    by (auto simp: custom_region_def split: option.splits if_splits)
  with p d that show ?thesis by blast
qed

lemma view_region:
  "custom_region c st h = Some (a, n) \<Longrightarrow>
   vw s h = \<lparr>v_open = True, v_cell = (\<lambda>i. if i < n then cell s (a + i) else 0),
     v_ready = (\<lambda>i. i < n \<and> cell s (a + i) = 0xFF)\<rparr>"
  by (simp add: custom_view_def)

lemma view_eq: "cell s' = cell s \<Longrightarrow> vw s' = vw s"
  by (auto simp: custom_view_def fun_eq_iff split: option.splits)

text \<open>An operation on one region leaves the view of every other handle as it was.\<close>

lemma view_other:
  assumes "custom_region c st h = Some (a, n)" and "h' \<noteq> h"
    and "\<And>i. i < a \<or> a + n \<le> i \<Longrightarrow> cell s' i = cell s i"
  shows "vw s' h' = vw s h'"
proof (cases "custom_region c st h'")
  case None
  then show ?thesis by (simp add: custom_view_def)
next
  case (Some p)
  obtain a' n' where p: "p = (a', n')" by fastforce
  with Some assms(1,2) region_disjoint [of h a n h' a' n'] have "a + n \<le> a' \<or> a' + n' \<le> a" by auto
  then have "cell s' (a' + i) = cell s (a' + i)" if "i < n'" for i
    using assms(3) [of "a' + i"] that by auto
  with Some p show ?thesis by (auto simp: custom_view_def fun_eq_iff)
qed

lemma read_ops:
  assumes "v_open (vw s h)" and "io_read ops h off len s = (r, s')"
  shows "cell s' = cell s"
    and "r = Inr bs \<Longrightarrow> bs = cells (v_cell (vw s h)) (unat off) (unat len)"
proof -
  obtain d a n where o: "desc_of c st h = Some d" "custom_region c st h = Some (a, n)"
    "a = unat (flash_addr d)" "n = unat (flash_len d)"
    using openE [OF assms(1)] by blast
  show "cell s' = cell s"
    using assms(2) hook_read_cell by (auto simp: custom_ops_defs split: if_splits)
  assume r: "r = Inr bs"
  with assms(2) o(1) have chk: "unat off + unat len \<le> n" and
    rd: "qbt_custom_flash_read hk (flash_addr d + off) len s = (Inr bs, s')"
    using o(4) by (auto simp: custom_ops_defs range_check_iff split: if_splits)
  from region_aligned [OF o(2)] have "a + n \<le> 4294967296" by simp
  show "bs = cells (v_cell (vw s h)) (unat off) (unat len)"
  proof (cases "unat len = 0")
    case True
    with hook_read_data [OF rd] show ?thesis by simp
  next
    case False
    with chk o(3) \<open>a + n \<le> 4294967296\<close> have "unat (flash_addr d + off) = a + unat off"
      by (simp add: u32_add)
    with hook_read_data [OF rd] chk show ?thesis
      by (auto simp: view_region [OF o(2)] intro!: nth_equalityI simp: add.assoc)
  qed
qed

text \<open>
  A write or an erase that is not refused acts on the flash cells of the region, at the absolute
  address, with no wrap-around.
\<close>

lemma addr_in_region:
  assumes "custom_region c st h = Some (a, n)" and "a = unat (flash_addr d)" and "unat off < n"
  shows "unat (flash_addr d + off) = a + unat off"
  using region_aligned [OF assms(1)] assms(2,3) by (simp add: u32_add)

lemma write_ops:
  assumes d: "desc_of c st h = Some d" and reg: "custom_region c st h = Some (a, n)"
    and an: "a = unat (flash_addr d)" "n = unat (flash_len d)"
    and w: "io_write ops h off bs s = (e, s')" and len: "length bs < 4294967296"
  shows "i < a + unat off \<or> a + unat off + length bs \<le> i \<Longrightarrow> cell s' i = cell s i"
    and "i < a \<or> a + n \<le> i \<Longrightarrow> cell s' i = cell s i"
    and "e = RT_EOK \<Longrightarrow> unat off + length bs \<le> n"
    and "e = RT_EOK \<Longrightarrow> ready_range (vw s h) (unat off) (length bs) \<Longrightarrow>
      unat off \<le> j \<Longrightarrow> j < unat off + length bs \<Longrightarrow> cell s' (a + j) = bs ! (j - unat off)"
proof -
  let ?W = "qbt_custom_flash_write hk (flash_addr d + off) bs s"
  have chk: "qbt_custom_range_check (Some d) off (of_nat (length bs)) \<longleftrightarrow>
      flash_len d \<noteq> 0 \<and> unat off + length bs \<le> n"
    using len by (simp add: range_check_iff u32_of_nat an)
  have cases: "(s' = s \<and> e = RT_ERROR) \<or> (unat off + length bs \<le> n \<and> ?W = (e, s'))"
    using w d chk by (auto simp: custom_ops_defs split: if_splits)
  have addr: "bs \<noteq> [] \<Longrightarrow> unat off + length bs \<le> n \<Longrightarrow> unat (flash_addr d + off) = a + unat off"
    using addr_in_region [OF reg an(1)] by (cases bs) auto
  have out: "cell s' i = cell s i" if "i < a + unat off \<or> a + unat off + length bs \<le> i" for i
    using cases
  proof
    assume c2: "unat off + length bs \<le> n \<and> ?W = (e, s')"
    show ?thesis
    proof (cases "bs = []")
      case True
      then show ?thesis using hook_write_outside [of _ bs s e s' i] c2 by fastforce
    next
      case False
      with c2 addr that show ?thesis using hook_write_outside [of _ bs s e s' i] by auto
    qed
  qed simp
  show "i < a + unat off \<or> a + unat off + length bs \<le> i \<Longrightarrow> cell s' i = cell s i" by (rule out)
  show "i < a \<or> a + n \<le> i \<Longrightarrow> cell s' i = cell s i" using cases out [of i] by auto
  show "e = RT_EOK \<Longrightarrow> unat off + length bs \<le> n" using cases by auto
  assume ok: "e = RT_EOK" and rdy: "ready_range (vw s h) (unat off) (length bs)"
    and j: "unat off \<le> j" "j < unat off + length bs"
  then have c2: "unat off + length bs \<le> n" "?W = (RT_EOK, s')" using cases by auto
  from j have "bs \<noteq> []" by auto
  from addr [OF this c2(1)] have ad: "unat (flash_addr d + off) = a + unat off" .
  have er: "\<forall>i. unat (flash_addr d + off) \<le> i \<and> i < unat (flash_addr d + off) + length bs \<longrightarrow> cell s i = 0xFF"
  proof (intro allI impI)
    fix i assume "unat (flash_addr d + off) \<le> i \<and> i < unat (flash_addr d + off) + length bs"
    with rdy show "cell s i = 0xFF"
      unfolding ready_range_def view_region [OF reg] ad
      by (auto dest!: spec [where x = "i - a"])
  qed
  from hook_write_data [OF c2(2) er, of "a + j"] j ad
  show "cell s' (a + j) = bs ! (j - unat off)" by simp
qed

lemma erase_ops:
  assumes d: "desc_of c st h = Some d" and reg: "custom_region c st h = Some (a, n)"
    and an: "a = unat (flash_addr d)" "n = unat (flash_len d)"
    and w: "io_erase ops h off len s = (e, s')"
  shows "i < a + blk_down (unat (flash_erase_align c)) (unat off) \<or>
      a + blk_up (unat (flash_erase_align c)) (unat off + unat len) \<le> i \<Longrightarrow> cell s' i = cell s i"
    and "i < a \<or> a + n \<le> i \<Longrightarrow> cell s' i = cell s i"
    and "e = RT_EOK \<Longrightarrow> unat off + unat len \<le> n"
    and "e = RT_EOK \<Longrightarrow> unat off \<le> j \<Longrightarrow> j < unat off + unat len \<Longrightarrow> cell s' (a + j) = 0xFF"
    and "cell s k = 0xFF \<Longrightarrow> cell s' k = 0xFF"
proof -
  let ?b = "unat (flash_erase_align c)"
  let ?E = "qbt_custom_flash_erase hk (flash_addr d + off) len s"
  note al = region_aligned [OF reg]
  have cases: "(s' = s \<and> e = RT_ERROR) \<or> (unat off + unat len \<le> n \<and> ?E = (e, s'))"
    using w d range_check_iff [of d off len] an by (auto simp: custom_ops_defs split: if_splits)
  have addr: "unat (flash_addr d + off) = a + unat off \<or>
      (unat (flash_addr d + off) = 0 \<and> unat len = 0)" if "unat off + unat len \<le> n"
    using addr_in_region [OF reg an(1)] that al an u32_add_wrap [of "flash_addr d" off]
    by (cases "unat off = n \<and> a + n = 4294967296") auto
  have out: "cell s' i = cell s i"
    if "i < a + blk_down ?b (unat off) \<or> a + blk_up ?b (unat off + unat len) \<le> i" for i
    using cases
  proof
    assume c2: "unat off + unat len \<le> n \<and> ?E = (e, s')"
    from addr c2 consider "unat (flash_addr d + off) = a + unat off"
      | "unat (flash_addr d + off) = 0" "unat len = 0" by auto
    then show ?thesis
    proof cases
      case 1
      with that al align_pos hook_erase_outside [OF conjunct2 [OF c2], of i] show ?thesis
        by (simp add: blk_down_add blk_up_add add.assoc)
    next
      case 2
      with hook_erase_outside [OF conjunct2 [OF c2], of i] align_pos show ?thesis by simp
    qed
  qed simp
  show "i < a + blk_down ?b (unat off) \<or> a + blk_up ?b (unat off + unat len) \<le> i \<Longrightarrow>
    cell s' i = cell s i" by (rule out)
  show "i < a \<or> a + n \<le> i \<Longrightarrow> cell s' i = cell s i"
    using cases
  proof
    assume i: "i < a \<or> a + n \<le> i" and c2: "unat off + unat len \<le> n \<and> ?E = (e, s')"
    with al align_pos have "blk_up ?b (unat off + unat len) \<le> n" by (auto intro: blk_up_le_mult)
    with i show ?thesis by (intro out) auto
  qed simp
  show "e = RT_EOK \<Longrightarrow> unat off + unat len \<le> n" using cases by auto
  show "cell s k = 0xFF \<Longrightarrow> cell s' k = 0xFF" using cases hook_erase_keeps by blast
  assume ok: "e = RT_EOK" and j: "unat off \<le> j" "j < unat off + unat len"
  with cases have c2: "unat off + unat len \<le> n" "?E = (RT_EOK, s')" by auto
  with addr j have "unat (flash_addr d + off) = a + unat off" by auto
  with hook_erase_data [OF c2(2), of "a + j"] j show "cell s' (a + j) = 0xFF" by simp
qed

end

sublocale custom_flash \<subseteq> storage "g_qboot_io_custom c st hk" "custom_view c st cell"
proof
  fix s h off len r s'
  assume o: "v_open (vw s h)" and r: "io_read ops h off len s = (r, s')"
  show "vw s' = vw s" using read_ops(1) [OF o r] by (rule view_eq)
next
  fix s h off len bs s'
  assume o: "v_open (vw s h)" and r: "io_read ops h off len s = (Inr bs, s')"
  then show "bs = cells (v_cell (vw s h)) (unat off) (unat len)" by (rule read_ops(2)) simp
next
  fix s h sz s1
  assume "io_size ops h s = (sz, s1)"
  then show "vw s1 = vw s" by (auto simp: custom_ops_defs split: option.splits)
next
  fix s h cmd al s1
  assume "io_ioctl ops h cmd s = (al, s1)"
  then show "vw s1 = vw s" by (auto simp: custom_ops_defs split: if_splits)
next
  fix s h off bs e s' h'
  assume "v_open (vw s h)" "io_write ops h off bs s = (e, s')" "length bs < 4294967296"
    and "(h' :: handle) \<noteq> h"
  then show "vw s' h' = vw s h'"
    by (elim openE) (rule view_other, assumption+, rule write_ops(2))
next
  fix s h off bs e s'
  assume "v_open (vw s h)" "io_write ops h off bs s = (e, s')" "length bs < 4294967296"
  then show "v_open (vw s' h)" by (elim openE) (simp add: view_region)
next
  fix s h off bs e s' i
  assume "v_open (vw s h)" and w: "io_write ops h off bs s = (e, s')" "length bs < 4294967296"
    and i: "i < unat off \<or> unat off + length bs \<le> i"
  then show "v_cell (vw s' h) i = v_cell (vw s h) i \<and> (v_ready (vw s h) i \<longrightarrow> v_ready (vw s' h) i)"
    by (elim openE) (use write_ops(1) [OF _ _ _ _ w] in \<open>auto simp: view_region\<close>)
next
  fix s h off bs s' i
  assume "v_open (vw s h)" and w: "io_write ops h off bs s = (RT_EOK, s')" "length bs < 4294967296"
    and rr: "ready_range (vw s h) (unat off) (length bs)" and i: "unat off \<le> i" "i < unat off + length bs"
  from openE [OF this(1)] obtain d a n where o: "desc_of c st h = Some d"
    "custom_region c st h = Some (a, n)" "a = unat (flash_addr d)" "n = unat (flash_len d)" .
  from write_ops(3) [OF o w] write_ops(4) [OF o w _ rr i] i
  show "v_cell (vw s' h) i = bs ! (i - unat off)" by (simp add: view_region [OF o(2)])
next
  fix s h off len e s' h'
  assume "v_open (vw s h)" "io_erase ops h off len s = (e, s')" and "(h' :: handle) \<noteq> h"
  then show "vw s' h' = vw s h'"
    by (elim openE) (rule view_other, assumption+, rule erase_ops(2))
next
  fix s h off len e s'
  assume "v_open (vw s h)" "io_erase ops h off len s = (e, s')"
  then show "v_open (vw s' h)" by (elim openE) (simp add: view_region)
next
  fix s h off len s'
  assume "v_open (vw s h)" and w: "io_erase ops h off len s = (RT_EOK, s')"
  from openE [OF this(1)] obtain d a n where o: "desc_of c st h = Some d"
    "custom_region c st h = Some (a, n)" "a = unat (flash_addr d)" "n = unat (flash_len d)" .
  from erase_ops(3) [OF o w] erase_ops(4) [OF o w]
  show "ready_range (vw s' h) (unat off) (unat len)"
    by (auto simp: view_region [OF o(2)] ready_range_def)
next
  fix s h off len e s' i
  assume "v_open (vw s h)" and w: "io_erase ops h off len s = (e, s')" and "v_ready (vw s h) i"
  then show "v_ready (vw s' h) i"
    by (elim openE) (use erase_ops(5) [OF _ _ _ _ w] in \<open>auto simp: view_region\<close>)
qed

sublocale custom_flash \<subseteq> block_storage "g_qboot_io_custom c st hk" "custom_view c st cell"
  "unat (flash_erase_align c)"
proof
  show "0 < unat (flash_erase_align c)" by (rule align_pos)
next
  fix s h off len e s' i
  assume "v_open (vw s h)" and w: "io_erase ops h off len s = (e, s')"
    and i: "i < blk_down (unat (flash_erase_align c)) (unat off) \<or>
      blk_up (unat (flash_erase_align c)) (unat off + unat len) \<le> i"
  from openE [OF this(1)] obtain d a n where o: "desc_of c st h = Some d"
    "custom_region c st h = Some (a, n)" "a = unat (flash_addr d)" "n = unat (flash_len d)" .
  from erase_ops(1) [OF o w, of "a + i"] i
  show "v_cell (vw s' h) i = v_cell (vw s h) i" by (auto simp: view_region [OF o(2)])
qed

text \<open>A driver whose accesses inside a region succeed makes the backend a reliable device.\<close>

definition custom_dev_size :: "qboot_cfg \<Rightarrow> stores \<Rightarrow> handle \<Rightarrow> nat" where
  "custom_dev_size c st h = (case custom_region c st h of None \<Rightarrow> 0 | Some (a, n) \<Rightarrow> n)"

locale reliable_flash = custom_flash +
  assumes hook_read_total: "\<exists>bs s'. qbt_custom_flash_read hk a n s = (Inr bs, s')"
    and hook_write_total: "\<exists>s'. qbt_custom_flash_write hk a bs s = (RT_EOK, s')"
    and hook_erase_total: "\<exists>s'. qbt_custom_flash_erase hk a n s = (RT_EOK, s')"

sublocale reliable_flash \<subseteq>
  reliable_storage "g_qboot_io_custom c st hk" "custom_view c st cell" "custom_dev_size c st"
proof
  fix s h and off len :: u32
  assume "v_open (vw s h)" and le: "unat off + unat len \<le> custom_dev_size c st h"
  from openE [OF this(1)] obtain d a n where o: "desc_of c st h = Some d"
    "custom_region c st h = Some (a, n)" "n = unat (flash_len d)" "flash_len d \<noteq> 0" .
  with le have "qbt_custom_range_check (Some d) off len"
    by (simp add: range_check_iff custom_dev_size_def)
  with o(1) hook_read_total show "\<exists>bs s'. io_read ops h off len s = (Inr bs, s')"
    and "\<exists>s'. io_erase ops h off len s = (RT_EOK, s')"
    using hook_erase_total by (simp_all add: custom_ops_defs)
next
  fix s h and off :: u32 and bs :: "byte list"
  assume "v_open (vw s h)" and l: "length bs < 4294967296"
    and le: "unat off + length bs \<le> custom_dev_size c st h"
  from openE [OF this(1)] obtain d a n where o: "desc_of c st h = Some d"
    "custom_region c st h = Some (a, n)" "n = unat (flash_len d)" "flash_len d \<noteq> 0" .
  with le l have "qbt_custom_range_check (Some d) off (of_nat (length bs))"
    by (simp add: range_check_iff custom_dev_size_def u32_of_nat)
  with o(1) hook_write_total show "\<exists>s'. io_write ops h off bs s = (RT_EOK, s')"
    by (simp add: custom_ops_defs)
qed

sublocale reliable_flash \<subseteq> sign_storage "g_qboot_io_custom c st hk" "custom_view c st cell"
  "custom_dev_size c st" c "g_qboot_header_parser_custom c st hk"
  by unfold_locales
    (simp_all add: g_qboot_header_parser_custom_def g_qboot_io_custom_def qbt_custom_sign_read_def
      qbt_custom_sign_write_def)

context custom_flash
begin

lemmas custom_write_other = write_other
lemmas custom_erase_other = erase_other

end

context reliable_flash
begin

lemmas custom_sign_check = sign_write_check
lemmas custom_sign_effect = sign_write_effect

end

section \<open>A NOR flash\<close>

text \<open>
  The driver of an ideal NOR flash: programming can only clear bits and erasing sets whole
  blocks. With a small flash map it instantiates the contracts above.
\<close>

definition nor_hooks :: "nat \<Rightarrow> (nat \<Rightarrow> byte) flash_hooks" where
  "nor_hooks b =
     \<lparr>qbt_custom_flash_read = (\<lambda>addr len s. (Inr (cells s (unat addr) (unat len)), s)),
      qbt_custom_flash_write = (\<lambda>addr buf s. (RT_EOK,
        (\<lambda>i. if unat addr \<le> i \<and> i < unat addr + length buf
             then s i AND buf ! (i - unat addr) else s i))),
      qbt_custom_flash_erase = (\<lambda>addr len s. (RT_EOK,
        (\<lambda>i. if blk_down b (unat addr) \<le> i \<and> i < blk_up b (unat addr + unat len)
             then 0xFF else s i)))\<rparr>"

definition nor_cfg :: qboot_cfg where
  "nor_cfg = \<lparr>using_aes = True, using_gzip = True, using_quicklz = True, using_fastlz = True,
     using_hpatchlite = True, hpatch_storage_swap = True, product_code = None, using_shell = False,
     using_factory_key = False, using_update_mgr = False, using_download_helper = False,
     enospc_is_posix = True, sign_align = 4, flash_erase_align = 512\<rparr>"

definition nor_stores :: stores where
  "nor_stores i = \<lparr>sc_store_name = [], sc_flash_addr = of_nat (target_rank i * 8192),
     sc_flash_len = 8192, sc_backend = BACKEND_CUSTOM\<rparr>"

lemma nor_region:
  "custom_region nor_cfg nor_stores h = Some (a, n) \<longleftrightarrow>
   n = 8192 \<and> (\<exists>i < 4. a = i * 8192 \<and> (\<exists>t. h = H_desc t \<and> target_rank t = i))"
proof (cases h)
  case (H_desc t)
  then show ?thesis
    by (cases t) (auto simp: custom_region_def qbt_target_desc_def g_descs_def target_list_def
      has_swap_def nor_cfg_def nor_stores_def target_rank_inj)
qed (auto simp: custom_region_def)

lemma nor_align [simp]: "unat (flash_erase_align nor_cfg) = 512"
  by (simp add: nor_cfg_def)

interpretation nor: reliable_flash nor_cfg nor_stores "nor_hooks 512" "\<lambda>s. s"
proof unfold_locales
  fix h a' n' h' a'' n''
  assume "custom_region nor_cfg nor_stores h = Some (a', n')"
    and "custom_region nor_cfg nor_stores h' = Some (a'', n'')" and "(h :: handle) \<noteq> h'"
  then obtain t t' where "a' = target_rank t * 8192" "a'' = target_rank t' * 8192"
    "n' = 8192" "n'' = 8192" "target_rank t \<noteq> target_rank t'"
    by (auto simp: nor_region target_rank_inj)
  then show "a' + n' \<le> a'' \<or> a'' + n'' \<le> a'"
    by (cases t; cases t') simp_all
next
  fix a n :: u32 and s e s' i
  assume "qbt_custom_flash_erase (nor_hooks 512) a n s = (RT_EOK, s')"
    and i: "unat a \<le> i" "i < unat a + unat n"
  moreover have "blk_down 512 (unat a) \<le> i" using i(1) blk_down_le order.trans by blast
  moreover have "i < blk_up 512 (unat a + unat n)"
    using i(2) blk_up_ge [of 512 "unat a + unat n"] by simp
  ultimately show "s' i = 0xFF" by (auto simp: nor_hooks_def)
qed (auto simp: nor_hooks_def nor_region)

end
