(* ===== verification/Qboot_Fal.thy ===== *)
theory Qboot_Fal
  imports Qboot_Ops
begin

text \<open>
  The FAL backend of \<open>src/qboot_fal_ops.c\<close>: targets are partitions of RT-Thread's flash
  abstraction layer. FAL is a library the sources call; it is the parameter \<open>fal\<close> and the
  locale \<open>fal_library\<close> states what its documentation promises. The backend gives its clients
  the storage contract.
\<close>

section \<open>The library and the backend\<close>

text \<open>
  A partition pointer is a number. \<open>fal_partition_len\<close> is the field \<open>len\<close> of the partition
  and \<open>fal_blk_size\<close> the field \<open>blk_size\<close> of the flash device the partition is on.
\<close>

record 's fal_api =
  fal_partition_find :: "string \<Rightarrow> nat option"
  fal_partition_len :: "nat \<Rightarrow> u32"
  fal_blk_size :: "nat \<Rightarrow> u32"
  fal_partition_read :: "nat \<Rightarrow> u32 \<Rightarrow> u32 \<Rightarrow> 's \<Rightarrow> (int \<times> byte list) \<times> 's"
  fal_partition_write :: "nat \<Rightarrow> u32 \<Rightarrow> byte list \<Rightarrow> 's \<Rightarrow> int \<times> 's"
  fal_partition_erase :: "nat \<Rightarrow> u32 \<Rightarrow> u32 \<Rightarrow> 's \<Rightarrow> int \<times> 's"

text \<open>The pointer cast \<open>(fal_partition_t)handle\<close>.\<close>

fun fal_part :: "handle \<Rightarrow> nat" where
  "fal_part (H_part p) = p"
| "fal_part _ = 0"

definition qbt_fal_open ::
  "qboot_cfg \<Rightarrow> stores \<Rightarrow> 's fal_api \<Rightarrow> qbt_target_id \<Rightarrow> open_flags \<Rightarrow> 's \<Rightarrow> (rt_err + handle) \<times> 's" where
  "qbt_fal_open c st fal i flags s =
     (case qbt_target_desc c st i of
        None \<Rightarrow> (Inl RT_ERROR, s)
      | Some desc \<Rightarrow>
          (case fal_partition_find fal (store_name desc) of
             None \<Rightarrow> (Inl RT_ERROR, s)
           | Some part \<Rightarrow> (Inr (H_part part), s)))"

definition qbt_fal_close :: "handle \<Rightarrow> 's \<Rightarrow> rt_err \<times> 's" where
  "qbt_fal_close h s = (RT_EOK, s)"

definition qbt_fal_read ::
  "'s fal_api \<Rightarrow> handle \<Rightarrow> u32 \<Rightarrow> u32 \<Rightarrow> 's \<Rightarrow> (rt_err + byte list) \<times> 's" where
  "qbt_fal_read fal h off len s =
     (if len = 0 then (Inr [], s)
      else case fal_partition_read fal (fal_part h) off len s of
        ((n, bs), s') \<Rightarrow> if n < 0 then (Inl RT_ERROR, s') else (Inr bs, s'))"

definition qbt_fal_erase :: "'s fal_api \<Rightarrow> handle \<Rightarrow> u32 \<Rightarrow> u32 \<Rightarrow> 's \<Rightarrow> rt_err \<times> 's" where
  "qbt_fal_erase fal h off len s =
     (if len = 0 then (RT_EOK, s)
      else case fal_partition_erase fal (fal_part h) off len s of
        (n, s') \<Rightarrow> if n < 0 then (RT_ERROR, s') else (RT_EOK, s'))"

definition qbt_fal_write :: "'s fal_api \<Rightarrow> handle \<Rightarrow> u32 \<Rightarrow> byte list \<Rightarrow> 's \<Rightarrow> rt_err \<times> 's" where
  "qbt_fal_write fal h off buf s =
     (if length buf = 0 then (RT_EOK, s)
      else case fal_partition_write fal (fal_part h) off buf s of
        (n, s') \<Rightarrow> if n < 0 then (RT_ERROR, s') else (RT_EOK, s'))"

definition qbt_fal_size :: "'s fal_api \<Rightarrow> handle \<Rightarrow> 's \<Rightarrow> (rt_err + u32) \<times> 's" where
  "qbt_fal_size fal h s = (Inr (fal_partition_len fal (fal_part h)), s)"

definition qbt_fal_ioctl :: "'s fal_api \<Rightarrow> handle \<Rightarrow> int \<Rightarrow> 's \<Rightarrow> (rt_err + u32) \<times> 's" where
  "qbt_fal_ioctl fal h cmd s =
     (if cmd = QBOOT_IO_CMD_GET_ERASE_ALIGN then (Inr (fal_blk_size fal (fal_part h)), s)
      else (Inl RT_ERROR, s))"

definition qbt_fal_sign_read ::
  "qboot_cfg \<Rightarrow> 's fal_api \<Rightarrow> handle \<Rightarrow> fw_info_t \<Rightarrow> 's \<Rightarrow> (rt_err + bool) \<times> 's" where
  "qbt_fal_sign_read c fal h fw s =
     (case fal_partition_read fal (fal_part h) (release_sign_pos c fw) 4 s of
        ((n, bs), s') \<Rightarrow>
          if n < 0 then (Inl RT_ERROR, s')
          else (Inr (of_le32 bs = QBOOT_RELEASE_SIGN_WORD), s'))"

definition qbt_fal_sign_write ::
  "qboot_cfg \<Rightarrow> 's fal_api \<Rightarrow> handle \<Rightarrow> fw_info_t \<Rightarrow> 's \<Rightarrow> rt_err \<times> 's" where
  "qbt_fal_sign_write c fal h fw s =
     (case fal_partition_write fal (fal_part h) (release_sign_pos c fw)
             (le32 QBOOT_RELEASE_SIGN_WORD) s of
        (n, s') \<Rightarrow> if n < 0 then (RT_ERROR, s') else (RT_EOK, s'))"

definition qbt_fal_sign_clear :: "handle \<Rightarrow> fw_info_t option \<Rightarrow> 's \<Rightarrow> rt_err \<times> 's" where
  "qbt_fal_sign_clear h fw s = (RT_EOK, s)"

definition g_qboot_io_fal :: "qboot_cfg \<Rightarrow> stores \<Rightarrow> 's fal_api \<Rightarrow> 's qboot_io_ops" where
  "g_qboot_io_fal c st fal =
     \<lparr>io_open = qbt_fal_open c st fal, io_close = qbt_fal_close, io_read = qbt_fal_read fal,
      io_erase = qbt_fal_erase fal, io_write = qbt_fal_write fal, io_size = qbt_fal_size fal,
      io_ioctl = qbt_fal_ioctl fal\<rparr>"

definition g_qboot_header_parser_fal ::
  "qboot_cfg \<Rightarrow> 's fal_api \<Rightarrow> 's qboot_header_parser_ops" where
  "g_qboot_header_parser_fal c fal =
     \<lparr>sign_read = qbt_fal_sign_read c fal, sign_write = qbt_fal_sign_write c fal,
      sign_clear = qbt_fal_sign_clear\<rparr>"

lemmas fal_ops_defs = g_qboot_io_fal_def qbt_fal_open_def qbt_fal_close_def qbt_fal_read_def
  qbt_fal_erase_def qbt_fal_write_def qbt_fal_size_def qbt_fal_ioctl_def

section \<open>The storage contract\<close>

definition fal_view :: "nat set \<Rightarrow> ('s \<Rightarrow> nat \<Rightarrow> nat \<Rightarrow> byte) \<Rightarrow> 's \<Rightarrow> handle \<Rightarrow> dev_view" where
  "fal_view parts cell s h =
     (case h of
        H_part p \<Rightarrow> \<lparr>v_open = p \<in> parts, v_cell = cell s p, v_ready = (\<lambda>i. cell s p i = 0xFF)\<rparr>
      | _ \<Rightarrow> \<lparr>v_open = False, v_cell = (\<lambda>_. 0), v_ready = (\<lambda>_. False)\<rparr>)"

text \<open>
  The documented behaviour of FAL on its partition table \<open>parts\<close>: a function gives a negative
  value on failure; a read changes nothing and, when it succeeds, fills the buffer with the
  cells; write and erase act on the given range of the given partition; accesses inside a
  partition succeed.
\<close>

locale fal_library =
  fixes fal :: "'s fal_api" and parts :: "nat set" and cell :: "'s \<Rightarrow> nat \<Rightarrow> nat \<Rightarrow> byte"
    and blk :: nat
  assumes fread_cell: "fal_partition_read fal p a n s = (x, s') \<Longrightarrow> cell s' = cell s"
    and fread_data: "fal_partition_read fal p a n s = ((k, bs), s') \<Longrightarrow> 0 \<le> k \<Longrightarrow> p \<in> parts \<Longrightarrow>
      bs = cells (cell s p) (unat a) (unat n)"
    and fread_total: "p \<in> parts \<Longrightarrow> unat a + unat n \<le> unat (fal_partition_len fal p) \<Longrightarrow>
      0 \<le> fst (fst (fal_partition_read fal p a n s))"
    and fwrite_other: "fal_partition_write fal p a bs s = (k, s') \<Longrightarrow> q \<noteq> p \<Longrightarrow>
      cell s' q = cell s q"
    and fwrite_outside: "fal_partition_write fal p a bs s = (k, s') \<Longrightarrow>
      i < unat a \<or> unat a + length bs \<le> i \<Longrightarrow> cell s' p i = cell s p i"
    and fwrite_data: "fal_partition_write fal p a bs s = (k, s') \<Longrightarrow> 0 \<le> k \<Longrightarrow> p \<in> parts \<Longrightarrow>
      \<forall>i. unat a \<le> i \<and> i < unat a + length bs \<longrightarrow> cell s p i = 0xFF \<Longrightarrow>
      unat a \<le> j \<Longrightarrow> j < unat a + length bs \<Longrightarrow> cell s' p j = bs ! (j - unat a)"
    and fwrite_total: "p \<in> parts \<Longrightarrow> unat a + length bs \<le> unat (fal_partition_len fal p) \<Longrightarrow>
      0 \<le> fst (fal_partition_write fal p a bs s)"
    and ferase_other: "fal_partition_erase fal p a n s = (k, s') \<Longrightarrow> q \<noteq> p \<Longrightarrow>
      cell s' q = cell s q"
    and ferase_outside: "fal_partition_erase fal p a n s = (k, s') \<Longrightarrow>
      i < blk_down blk (unat a) \<or> blk_up blk (unat a + unat n) \<le> i \<Longrightarrow> cell s' p i = cell s p i"
    and ferase_data: "fal_partition_erase fal p a n s = (k, s') \<Longrightarrow> 0 \<le> k \<Longrightarrow> p \<in> parts \<Longrightarrow>
      unat a \<le> i \<Longrightarrow> i < unat a + unat n \<Longrightarrow> cell s' p i = 0xFF"
    and ferase_keeps: "fal_partition_erase fal p a n s = (k, s') \<Longrightarrow> cell s p i = 0xFF \<Longrightarrow>
      cell s' p i = 0xFF"
    and ferase_total: "p \<in> parts \<Longrightarrow> unat a + unat n \<le> unat (fal_partition_len fal p) \<Longrightarrow>
      0 \<le> fst (fal_partition_erase fal p a n s)"
    and fblk_pos: "0 < blk"
begin

lemma view_part: "v_open (fal_view parts cell s h) \<Longrightarrow> \<exists>p. h = H_part p \<and> p \<in> parts"
  by (auto simp: fal_view_def split: handle.splits)

lemma fal_view_eq: "cell s' = cell s \<Longrightarrow> fal_view parts cell s' = fal_view parts cell s"
  by (auto simp: fal_view_def fun_eq_iff split: handle.splits)

lemma fal_view_other:
  "(\<And>q. q \<noteq> p \<Longrightarrow> cell s' q = cell s q) \<Longrightarrow> h' \<noteq> H_part p \<Longrightarrow>
   fal_view parts cell s' h' = fal_view parts cell s h'"
  by (auto simp: fal_view_def split: handle.splits)

end

definition fal_dev_size :: "'s fal_api \<Rightarrow> handle \<Rightarrow> nat" where
  "fal_dev_size fal h = unat (fal_partition_len fal (fal_part h))"

sublocale fal_library \<subseteq> storage "g_qboot_io_fal c st fal" "fal_view parts cell"
proof
  fix s h off len r s'
  assume "io_read (g_qboot_io_fal c st fal) h off len s = (r, s')"
  then show "fal_view parts cell s' = fal_view parts cell s"
    by (auto simp: fal_ops_defs intro!: fal_view_eq dest: fread_cell split: if_splits prod.splits)
next
  fix s h off len bs s'
  assume o: "v_open (fal_view parts cell s h)"
    and "io_read (g_qboot_io_fal c st fal) h off len s = (Inr bs, s')"
  with view_part [OF o] show "bs = cells (v_cell (fal_view parts cell s h)) (unat off) (unat len)"
    by (auto simp: fal_ops_defs fal_view_def dest: fread_data split: if_splits prod.splits)
next
  fix s h off bs e s' h'
  assume o: "v_open (fal_view parts cell s h)"
    and "io_write (g_qboot_io_fal c st fal) h off bs s = (e, s')" and "(h' :: handle) \<noteq> h"
  with view_part [OF o] show "fal_view parts cell s' h' = fal_view parts cell s h'"
    by (auto simp: fal_ops_defs intro!: fal_view_other dest: fwrite_other split: if_splits prod.splits)
next
  fix s h off bs e s' i
  assume o: "v_open (fal_view parts cell s h)"
    and "io_write (g_qboot_io_fal c st fal) h off bs s = (e, s')"
    and "i < unat off \<or> unat off + length bs \<le> i"
  with view_part [OF o] show "v_cell (fal_view parts cell s' h) i = v_cell (fal_view parts cell s h) i \<and>
    (v_ready (fal_view parts cell s h) i \<longrightarrow> v_ready (fal_view parts cell s' h) i)"
    by (auto simp: fal_ops_defs fal_view_def dest: fwrite_outside split: if_splits prod.splits)
next
  fix s h off bs s' i
  assume o: "v_open (fal_view parts cell s h)"
    and "io_write (g_qboot_io_fal c st fal) h off bs s = (RT_EOK, s')"
    and "ready_range (fal_view parts cell s h) (unat off) (length bs)"
    and "unat off \<le> i" "i < unat off + length bs"
  with view_part [OF o] show "v_cell (fal_view parts cell s' h) i = bs ! (i - unat off)"
    by (auto simp: fal_ops_defs fal_view_def ready_range_def dest: fwrite_data
      split: if_splits prod.splits)
next
  fix s h off len e s' h'
  assume o: "v_open (fal_view parts cell s h)"
    and "io_erase (g_qboot_io_fal c st fal) h off len s = (e, s')" and "(h' :: handle) \<noteq> h"
  with view_part [OF o] show "fal_view parts cell s' h' = fal_view parts cell s h'"
    by (auto simp: fal_ops_defs intro!: fal_view_other dest: ferase_other split: if_splits prod.splits)
next
  fix s h off len s'
  assume o: "v_open (fal_view parts cell s h)"
    and "io_erase (g_qboot_io_fal c st fal) h off len s = (RT_EOK, s')"
  with view_part [OF o] show "ready_range (fal_view parts cell s' h) (unat off) (unat len)"
    by (auto simp: fal_ops_defs fal_view_def ready_range_def dest: ferase_data
      split: if_splits prod.splits)
next
  fix s h off len e s' i
  assume o: "v_open (fal_view parts cell s h)"
    and "io_erase (g_qboot_io_fal c st fal) h off len s = (e, s')"
    and "v_ready (fal_view parts cell s h) i"
  with view_part [OF o] show "v_ready (fal_view parts cell s' h) i"
    by (auto simp: fal_ops_defs fal_view_def dest: ferase_keeps split: if_splits prod.splits)
qed (auto simp: fal_ops_defs fal_view_def split: if_splits handle.splits)

sublocale fal_library \<subseteq> block_storage "g_qboot_io_fal c st fal" "fal_view parts cell" blk
proof
  show "0 < blk" by (rule fblk_pos)
next
  fix s h off len e s' i
  assume o: "v_open (fal_view parts cell s h)"
    and "io_erase (g_qboot_io_fal c st fal) h off len s = (e, s')"
    and "i < blk_down blk (unat off) \<or> blk_up blk (unat off + unat len) \<le> i"
  with view_part [OF o] show "v_cell (fal_view parts cell s' h) i = v_cell (fal_view parts cell s h) i"
    by (auto simp: fal_ops_defs fal_view_def dest: ferase_outside split: if_splits prod.splits)
qed

sublocale fal_library \<subseteq> sign_storage "g_qboot_io_fal c st fal" "fal_view parts cell"
  "fal_dev_size fal" c "g_qboot_header_parser_fal c fal"
proof
  fix s h and off len :: u32
  assume o: "v_open (fal_view parts cell s h)" and le: "unat off + unat len \<le> fal_dev_size fal h"
  obtain p where p: "h = H_part p" "p \<in> parts" using view_part [OF o] by blast
  from fread_total [OF p(2), of off len s] ferase_total [OF p(2), of off len s] le p
  show "\<exists>bs s'. io_read (g_qboot_io_fal c st fal) h off len s = (Inr bs, s')"
    and "\<exists>s'. io_erase (g_qboot_io_fal c st fal) h off len s = (RT_EOK, s')"
    by (auto simp: fal_ops_defs fal_dev_size_def split: prod.splits)
next
  fix s h and off :: u32 and bs :: "byte list"
  assume o: "v_open (fal_view parts cell s h)" and le: "unat off + length bs \<le> fal_dev_size fal h"
  obtain p where p: "h = H_part p" "p \<in> parts" using view_part [OF o] by blast
  from fwrite_total [OF p(2), of off bs s] le p
  show "\<exists>s'. io_write (g_qboot_io_fal c st fal) h off bs s = (RT_EOK, s')"
    by (auto simp: fal_ops_defs fal_dev_size_def split: prod.splits)
qed (auto simp: g_qboot_header_parser_fal_def qbt_fal_sign_read_def qbt_fal_sign_write_def
      fal_ops_defs le32_def split: prod.splits)

context fal_library
begin

lemmas fal_sign_check = sign_write_check

end

section \<open>An instance\<close>

text \<open>
  A FAL over an ideal NOR flash: four partitions of 8192 bytes in blocks of 512; accesses
  outside a partition fail with \<open>-1\<close>.
\<close>

definition nor_fal :: "(nat \<Rightarrow> nat \<Rightarrow> byte) fal_api" where
  "nor_fal =
     \<lparr>fal_partition_find = (\<lambda>name.
        if name = ''app'' then Some 0 else if name = ''download'' then Some 1
        else if name = ''factory'' then Some 2 else if name = ''swap'' then Some 3 else None),
      fal_partition_len = (\<lambda>_. 8192), fal_blk_size = (\<lambda>_. 512),
      fal_partition_read = (\<lambda>p a n s. if unat a + unat n \<le> 8192
        then ((int (unat n), cells (s p) (unat a) (unat n)), s) else ((- 1, []), s)),
      fal_partition_write = (\<lambda>p a bs s. if unat a + length bs \<le> 8192
        then (int (length bs), s(p := (\<lambda>i. if unat a \<le> i \<and> i < unat a + length bs
               then s p i AND bs ! (i - unat a) else s p i)))
        else (- 1, s)),
      fal_partition_erase = (\<lambda>p a n s. if unat a + unat n \<le> 8192
        then (int (unat n), s(p := (\<lambda>i. if blk_down 512 (unat a) \<le> i \<and>
               i < blk_up 512 (unat a + unat n) then 0xFF else s p i)))
        else (- 1, s))\<rparr>"

interpretation nf: fal_library nor_fal "{0, 1, 2, 3}" "\<lambda>s. s" 512
proof unfold_locales
  fix p and a n :: u32 and s k s' i
  assume "fal_partition_erase nor_fal p a n s = (k, s')" "0 \<le> k" "p \<in> {0, 1, 2, 3 :: nat}"
    and i: "unat a \<le> i" "i < unat a + unat n"
  then show "s' p i = 0xFF"
    using in_blocks [OF i, of 512] by (auto simp: nor_fal_def split: if_splits)
qed (auto simp: nor_fal_def split: if_splits)

end
