(* ===== verification/Qboot_Algo.thy ===== *)
theory Qboot_Algo
  imports Qboot_Ops
begin

text \<open>
  The algorithm registry of \<open>src/qboot_algo.c\<close> with the operation tables of
  \<open>inc/qboot_algo.h\<close> and the stream types of \<open>inc/qboot_stream.h\<close>, and the two static
  buffers of \<open>src/qboot.c\<close> the algorithms work on. The state \<open>'a\<close> is what the algorithm
  libraries keep between calls.
\<close>

section \<open>Buffers\<close>

text \<open>
  The code has two byte arrays, \<open>g_cmprs_buf\<close> and \<open>g_crypt_buf\<close>. An access outside an array
  is undefined in C: here it is \<open>None\<close>, and so is whatever called it.
\<close>

datatype bufid = B_CMPRS | B_CRYPT

type_synonym mem = "bufid \<Rightarrow> byte list"

definition mem_read :: "bufid \<Rightarrow> nat \<Rightarrow> nat \<Rightarrow> mem \<Rightarrow> byte list option" where
  "mem_read b off n m = (if off + n \<le> length (m b) then Some (take n (drop off (m b))) else None)"

definition mem_write :: "bufid \<Rightarrow> nat \<Rightarrow> byte list \<Rightarrow> mem \<Rightarrow> mem option" where
  "mem_write b off bs m =
     (if off + length bs \<le> length (m b) then Some (m(b := overwrite off bs (m b))) else None)"

text \<open>
  \<open>g_crypt_buf\<close> is an array of its own in builds with a compression or AES, and another name
  of \<open>g_cmprs_buf\<close> otherwise; \<open>g_decmprs_buf\<close> is a name of \<open>g_crypt_buf\<close>.
\<close>

definition g_crypt_buf :: "qboot_cfg \<Rightarrow> bufid" where
  "g_crypt_buf c = (if using_compression c then B_CRYPT else B_CMPRS)"

definition wf_mem :: "qboot_cfg \<Rightarrow> mem \<Rightarrow> bool" where
  "wf_mem c m \<longleftrightarrow> length (m B_CMPRS) = unat (QBOOT_CMPRS_BUF_SIZE c) \<and>
     (using_compression c \<longrightarrow> length (m B_CRYPT) = unat QBOOT_BUF_SIZE)"

lemma buf_sizes:
  "unat QBOOT_BUF_SIZE = 4096" "unat QBOOT_CMPRS_READ_SIZE = 4096"
  "unat (QBOOT_CMPRS_BUF_SIZE c) = (if using_quicklz c \<or> using_fastlz c then 8224 else 4096)"
  by (simp_all add: QBOOT_CMPRS_BUF_SIZE_def QBOOT_BUF_SIZE_def QBOOT_CMPRS_READ_SIZE_def)

lemma mem_write_Some: "mem_write b off bs m = Some m' \<longleftrightarrow>
    off + length bs \<le> length (m b) \<and> m' = m(b := overwrite off bs (m b))"
  by (auto simp: mem_write_def)

lemma mem_read_Some: "mem_read b off n m = Some bs \<longleftrightarrow>
    off + n \<le> length (m b) \<and> bs = take n (drop off (m b))"
  by (auto simp: mem_read_def)

lemma mem_write_length: "mem_write b off bs m = Some m' \<Longrightarrow> length (m' b') = length (m b')"
  by (auto simp: mem_write_Some)

lemma wf_mem_write: "mem_write b off bs m = Some m' \<Longrightarrow> wf_mem c m \<Longrightarrow> wf_mem c m'"
  by (simp add: wf_mem_def mem_write_length)

lemma wf_mem_lengths: "(\<And>b. length (m' b) = length (m b)) \<Longrightarrow> wf_mem c m' = wf_mem c m"
  by (simp add: wf_mem_def)

section \<open>Stream types\<close>

datatype qbt_stream_purpose_t = QBT_STREAM_WRITE | QBT_STREAM_CRC

record qbt_stream_buf_t =
  sb_in :: bufid
  sb_in_len :: u32
  sb_out :: bufid
  sb_out_len :: u32

record qbt_stream_status_t =
  consumed :: u32
  produced :: u32
  remaining_in :: u32

record qbt_stream_ctx_t =
  total :: u32
  ctx_consumed :: u32
  raw_remaining :: u32
  purpose :: qbt_stream_purpose_t

section \<open>Operation tables\<close>

definition QBOOT_ALGO_CRYPT_NONE :: u16 where "QBOOT_ALGO_CRYPT_NONE = 0"
definition QBOOT_ALGO_CRYPT_AES :: u16 where "QBOOT_ALGO_CRYPT_AES = 2"
definition QBOOT_ALGO_CRYPT_COUNT :: u32 where "QBOOT_ALGO_CRYPT_COUNT = 3"
definition QBOOT_ALGO_CRYPT_MASK :: u16 where "QBOOT_ALGO_CRYPT_MASK = 0x0F"

definition QBOOT_ALGO_CMPRS_NONE :: u16 where "QBOOT_ALGO_CMPRS_NONE = 0"
definition QBOOT_ALGO_CMPRS_GZIP :: u16 where "QBOOT_ALGO_CMPRS_GZIP = 0x100"
definition QBOOT_ALGO_CMPRS_QUICKLZ :: u16 where "QBOOT_ALGO_CMPRS_QUICKLZ = 0x200"
definition QBOOT_ALGO_CMPRS_FASTLZ :: u16 where "QBOOT_ALGO_CMPRS_FASTLZ = 0x300"
definition QBOOT_ALGO_CMPRS_HPATCHLITE :: u16 where "QBOOT_ALGO_CMPRS_HPATCHLITE = 0x400"
definition QBOOT_ALGO_CMPRS_MASK :: u16 where "QBOOT_ALGO_CMPRS_MASK = 0x1F00"
definition QBOOT_ALGO_CMPRS_COUNT :: u32 where "QBOOT_ALGO_CMPRS_COUNT = 5"

lemmas algo_id_defs = QBOOT_ALGO_CRYPT_NONE_def QBOOT_ALGO_CRYPT_AES_def QBOOT_ALGO_CRYPT_COUNT_def
  QBOOT_ALGO_CRYPT_MASK_def QBOOT_ALGO_CMPRS_NONE_def QBOOT_ALGO_CMPRS_GZIP_def
  QBOOT_ALGO_CMPRS_QUICKLZ_def QBOOT_ALGO_CMPRS_FASTLZ_def QBOOT_ALGO_CMPRS_HPATCHLITE_def
  QBOOT_ALGO_CMPRS_MASK_def QBOOT_ALGO_CMPRS_COUNT_def

text \<open>
  A table's pointers may be null, so its fields are options. A decompressor works on the
  buffers and on its own state; it returns \<open>None\<close> where the C code would leave an array.
  A cipher gets its output and input as positions in the buffers.
\<close>

type_synonym 'a decompress_fn =
  "qbt_stream_buf_t \<Rightarrow> qbt_stream_status_t \<Rightarrow> qbt_stream_ctx_t \<Rightarrow> mem \<Rightarrow> 'a \<Rightarrow>
   (rt_err \<times> qbt_stream_status_t \<times> mem \<times> 'a) option"

type_synonym 'a decrypt_fn =
  "bufid \<times> nat \<Rightarrow> bufid \<times> nat \<Rightarrow> u32 \<Rightarrow> mem \<Rightarrow> 'a \<Rightarrow> (rt_err \<times> mem \<times> 'a) option"

record 'a qboot_crypto_ops =
  crypto_name :: "string option"
  crypto_id :: u16
  crypto_init :: "('a \<Rightarrow> rt_err \<times> 'a) option"
  decrypt :: "'a decrypt_fn option"
  crypto_deinit :: "('a \<Rightarrow> rt_err \<times> 'a) option"

record 'a qboot_cmprs_ops =
  cmprs_name :: "string option"
  cmprs_id :: u16
  cmprs_init :: "('a \<Rightarrow> rt_err \<times> 'a) option"
  decompress :: "'a decompress_fn option"
  cmprs_deinit :: "('a \<Rightarrow> rt_err \<times> 'a) option"

record 'a qbt_algo_context_t =
  crypt_ops :: "'a qboot_crypto_ops option"
  cmprs_ops :: "'a qboot_cmprs_ops option"

section \<open>The registry\<close>

record 'a algo_tables =
  g_cmprs_table :: "'a qboot_cmprs_ops option list"
  g_crypt_table :: "'a qboot_crypto_ops option list"

definition algo_tables_0 :: "'a algo_tables" where
  "algo_tables_0 = \<lparr>g_cmprs_table = replicate (unat QBOOT_ALGO_CMPRS_COUNT) None,
     g_crypt_table = replicate (unat QBOOT_ALGO_CRYPT_COUNT) None\<rparr>"

definition qboot_cmprs_id_to_index :: "u16 \<Rightarrow> u32" where
  "qboot_cmprs_id_to_index algo_id =
     (let cmprs_idx = drop_bit 8 algo_id in
      if ucast cmprs_idx \<ge> QBOOT_ALGO_CMPRS_COUNT then QBOOT_ALGO_CMPRS_COUNT else ucast cmprs_idx)"

definition qboot_crypto_id_to_index :: "u16 \<Rightarrow> u32" where
  "qboot_crypto_id_to_index algo_id =
     (let crypt_id = algo_id AND QBOOT_ALGO_CRYPT_MASK in
      if ucast crypt_id \<ge> QBOOT_ALGO_CRYPT_COUNT then QBOOT_ALGO_CRYPT_COUNT else ucast crypt_id)"

definition qboot_cmprs_register ::
  "'a qboot_cmprs_ops option \<Rightarrow> 'a algo_tables \<Rightarrow> rt_err \<times> 'a algo_tables" where
  "qboot_cmprs_register ops t =
     (case ops of
        None \<Rightarrow> (RT_ERROR, t)
      | Some o1 \<Rightarrow>
          if decompress o1 = None \<or> cmprs_name o1 = None then (RT_ERROR, t)
          else let idx = qboot_cmprs_id_to_index (cmprs_id o1) in
            if idx \<ge> QBOOT_ALGO_CMPRS_COUNT \<or> g_cmprs_table t ! unat idx \<noteq> None then (RT_ERROR, t)
            else (RT_EOK, t\<lparr>g_cmprs_table := (g_cmprs_table t)[unat idx := Some o1]\<rparr>))"

definition qboot_crypto_register ::
  "'a qboot_crypto_ops option \<Rightarrow> 'a algo_tables \<Rightarrow> rt_err \<times> 'a algo_tables" where
  "qboot_crypto_register ops t =
     (case ops of
        None \<Rightarrow> (RT_ERROR, t)
      | Some o1 \<Rightarrow>
          if decrypt o1 = None \<or> crypto_name o1 = None then (RT_ERROR, t)
          else let idx = qboot_crypto_id_to_index (crypto_id o1) in
            if idx \<ge> QBOOT_ALGO_CRYPT_COUNT \<or> g_crypt_table t ! unat idx \<noteq> None then (RT_ERROR, t)
            else (RT_EOK, t\<lparr>g_crypt_table := (g_crypt_table t)[unat idx := Some o1]\<rparr>))"

text \<open>The crypto lookup indexes the table with the identifier itself.\<close>

definition qboot_find_crypto :: "'a algo_tables \<Rightarrow> u16 \<Rightarrow> 'a qboot_crypto_ops option" where
  "qboot_find_crypto t i =
     (let idx = qboot_crypto_id_to_index i in
      if idx \<ge> QBOOT_ALGO_CRYPT_COUNT then None else g_crypt_table t ! unat i)"

definition qboot_find_cmprs :: "'a algo_tables \<Rightarrow> u16 \<Rightarrow> 'a qboot_cmprs_ops option" where
  "qboot_find_cmprs t i =
     (let idx = qboot_cmprs_id_to_index i in
      if idx \<ge> QBOOT_ALGO_CMPRS_COUNT then None else g_cmprs_table t ! unat idx)"

definition qbt_fw_get_algo_context ::
  "'a algo_tables \<Rightarrow> fw_info_t \<Rightarrow> bool \<times> 'a qbt_algo_context_t" where
  "qbt_fw_get_algo_context t fw =
     (let crypt_id = algo fw AND QBOOT_ALGO_CRYPT_MASK;
          cid = algo fw AND QBOOT_ALGO_CMPRS_MASK;
          ctx = \<lparr>crypt_ops = qboot_find_crypto t crypt_id, cmprs_ops = qboot_find_cmprs t cid\<rparr>
      in if cmprs_ops ctx = None \<or> crypt_ops ctx = None then (False, ctx) else (True, ctx))"

text \<open>A call through an optional function pointer; a null pointer counts as success.\<close>

definition call_opt :: "('a \<Rightarrow> rt_err \<times> 'a) option \<Rightarrow> 'a \<Rightarrow> rt_err \<times> 'a" where
  "call_opt f a = (case f of None \<Rightarrow> (RT_EOK, a) | Some g \<Rightarrow> g a)"

definition crypt_deinit_of :: "'a qbt_algo_context_t \<Rightarrow> 'a \<Rightarrow> 'a" where
  "crypt_deinit_of ctx a =
     (case crypt_ops ctx of None \<Rightarrow> a | Some ops \<Rightarrow> snd (call_opt (crypto_deinit ops) a))"

definition qbt_fw_algo_init :: "'a qbt_algo_context_t \<Rightarrow> 'a \<Rightarrow> bool \<times> 'a" where
  "qbt_fw_algo_init ctx a =
     (case (case crypt_ops ctx of None \<Rightarrow> (RT_EOK, a) | Some ops \<Rightarrow> call_opt (crypto_init ops) a) of
        (e1, a1) \<Rightarrow>
          if e1 \<noteq> RT_EOK then (False, a1)
          else (case (case cmprs_ops ctx of None \<Rightarrow> (RT_EOK, a1)
                                          | Some ops \<Rightarrow> call_opt (cmprs_init ops) a1) of
             (e2, a2) \<Rightarrow> if e2 \<noteq> RT_EOK then (False, crypt_deinit_of ctx a2) else (True, a2)))"

definition qbt_fw_algo_deinit :: "'a qbt_algo_context_t \<Rightarrow> 'a \<Rightarrow> 'a" where
  "qbt_fw_algo_deinit ctx a =
     crypt_deinit_of ctx
       (case cmprs_ops ctx of None \<Rightarrow> a | Some ops \<Rightarrow> snd (call_opt (cmprs_deinit ops) a))"

section \<open>What the registry promises\<close>

text \<open>
  The invariant: both tables keep their C size, and an entry sits at the index of its own
  identifier with its mandatory functions set.
\<close>

definition wf_tables :: "'a algo_tables \<Rightarrow> bool" where
  "wf_tables t \<longleftrightarrow>
     length (g_cmprs_table t) = 5 \<and> length (g_crypt_table t) = 3 \<and>
     (\<forall>k < 5. \<forall>ops. g_cmprs_table t ! k = Some ops \<longrightarrow>
        unat (qboot_cmprs_id_to_index (cmprs_id ops)) = k \<and> decompress ops \<noteq> None) \<and>
     (\<forall>k < 3. \<forall>ops. g_crypt_table t ! k = Some ops \<longrightarrow>
        unat (qboot_crypto_id_to_index (crypto_id ops)) = k \<and> decrypt ops \<noteq> None)"

lemma wf_tables_0: "wf_tables algo_tables_0"
  by (simp add: wf_tables_def algo_tables_0_def algo_id_defs)

lemma u16_ucast: "unat (ucast (w :: u16) :: u32) = unat w"
proof -
  have "unat w < 2 ^ LENGTH(16)" by (rule unsigned_less)
  then show ?thesis by (simp add: unsigned_ucast_eq take_bit_nat_eq_self_iff)
qed

lemma cmprs_index_le: "unat (qboot_cmprs_id_to_index i) \<le> 5"
  by (auto simp: qboot_cmprs_id_to_index_def Let_def u32_cmp algo_id_defs u16_ucast)

lemma crypto_index_le: "unat (qboot_crypto_id_to_index i) \<le> 3"
  by (auto simp: qboot_crypto_id_to_index_def Let_def u32_cmp algo_id_defs u16_ucast)

lemma algo_counts [simp]: "unat QBOOT_ALGO_CMPRS_COUNT = 5" "unat QBOOT_ALGO_CRYPT_COUNT = 3"
  by (simp_all add: algo_id_defs)

lemma cmprs_register_cases:
  assumes "qboot_cmprs_register (Some ops) t = (e, t')"
  obtains (fail) "e = RT_ERROR" "t' = t"
  | (ok) k where "e = RT_EOK" "k = unat (qboot_cmprs_id_to_index (cmprs_id ops))" "k < 5"
      "g_cmprs_table t ! k = None" "decompress ops \<noteq> None"
      "t' = t\<lparr>g_cmprs_table := (g_cmprs_table t)[k := Some ops]\<rparr>"
proof -
  let ?k = "unat (qboot_cmprs_id_to_index (cmprs_id ops))"
  have "(e = RT_ERROR \<and> t' = t) \<or> (e = RT_EOK \<and> ?k < 5 \<and> g_cmprs_table t ! ?k = None \<and>
      decompress ops \<noteq> None \<and> t' = t\<lparr>g_cmprs_table := (g_cmprs_table t)[?k := Some ops]\<rparr>)"
    using assms unfolding qboot_cmprs_register_def
    by (simp add: Let_def u32_le_iff del: not_None_eq split: if_splits)
  then show ?thesis using that by blast
qed

lemma crypto_register_cases:
  assumes "qboot_crypto_register (Some ops) t = (e, t')"
  obtains (fail) "e = RT_ERROR" "t' = t"
  | (ok) k where "e = RT_EOK" "k = unat (qboot_crypto_id_to_index (crypto_id ops))" "k < 3"
      "g_crypt_table t ! k = None" "decrypt ops \<noteq> None"
      "t' = t\<lparr>g_crypt_table := (g_crypt_table t)[k := Some ops]\<rparr>"
proof -
  let ?k = "unat (qboot_crypto_id_to_index (crypto_id ops))"
  have "(e = RT_ERROR \<and> t' = t) \<or> (e = RT_EOK \<and> ?k < 3 \<and> g_crypt_table t ! ?k = None \<and>
      decrypt ops \<noteq> None \<and> t' = t\<lparr>g_crypt_table := (g_crypt_table t)[?k := Some ops]\<rparr>)"
    using assms unfolding qboot_crypto_register_def
    by (simp add: Let_def u32_le_iff del: not_None_eq split: if_splits)
  then show ?thesis using that by blast
qed

lemma cmprs_register_wf:
  assumes "wf_tables t" and "qboot_cmprs_register (Some ops) t = (e, t')"
  shows "wf_tables t'"
  using assms(2) assms(1)
  by (cases rule: cmprs_register_cases) (auto simp: wf_tables_def nth_list_update)

lemma crypto_register_wf:
  assumes "wf_tables t" and "qboot_crypto_register (Some ops) t = (e, t')"
  shows "wf_tables t'"
  using assms(2) assms(1)
  by (cases rule: crypto_register_cases) (auto simp: wf_tables_def nth_list_update)

text \<open>
  A masked crypto identifier below the count is its own index, so the lookup never leaves the
  table; it finds exactly what was registered under that identifier.
\<close>

lemma masked_crypto_index:
  assumes "\<not> QBOOT_ALGO_CRYPT_COUNT \<le> qboot_crypto_id_to_index (i AND QBOOT_ALGO_CRYPT_MASK)"
  shows "unat (i AND QBOOT_ALGO_CRYPT_MASK) = unat (qboot_crypto_id_to_index i)"
    and "unat (i AND QBOOT_ALGO_CRYPT_MASK) < 3"
  using assms
  by (simp_all add: qboot_crypto_id_to_index_def Let_def u32_le_iff u16_ucast and.assoc
      split: if_splits)

lemma masked_cmprs_index:
  "qboot_cmprs_id_to_index (i AND QBOOT_ALGO_CMPRS_MASK) =
   (let k = drop_bit 8 i AND 0x1F in if 5 \<le> unat k then 5 else ucast k)"
proof -
  have "drop_bit 8 (i AND QBOOT_ALGO_CMPRS_MASK) = drop_bit 8 i AND 0x1F"
    by (simp add: algo_id_defs drop_bit_and)
  then show ?thesis
    by (auto simp: qboot_cmprs_id_to_index_def Let_def u32_le_iff u16_ucast algo_id_defs)
qed

lemma get_algo_context_wf:
  assumes "wf_tables t" and "qbt_fw_get_algo_context t fw = (True, ctx)"
  obtains co cr where "cmprs_ops ctx = Some co" "crypt_ops ctx = Some cr"
    "decompress co \<noteq> None" "decrypt cr \<noteq> None"
    "qboot_cmprs_id_to_index (cmprs_id co) = qboot_cmprs_id_to_index (algo fw AND QBOOT_ALGO_CMPRS_MASK)"
    "qboot_crypto_id_to_index (crypto_id cr) = qboot_crypto_id_to_index (algo fw)"
proof -
  let ?ci = "qboot_cmprs_id_to_index (algo fw AND QBOOT_ALGO_CMPRS_MASK)"
  obtain co cr where ops: "cmprs_ops ctx = Some co" "crypt_ops ctx = Some cr"
    and find: "qboot_find_cmprs t (algo fw AND QBOOT_ALGO_CMPRS_MASK) = Some co"
      "qboot_find_crypto t (algo fw AND QBOOT_ALGO_CRYPT_MASK) = Some cr"
    using assms(2) by (auto simp: qbt_fw_get_algo_context_def Let_def split: if_splits)
  have c1: "unat ?ci < 5" "g_cmprs_table t ! unat ?ci = Some co"
    using find(1) by (auto simp: qboot_find_cmprs_def Let_def u32_le_iff split: if_splits)
  have c2: "\<not> QBOOT_ALGO_CRYPT_COUNT \<le> qboot_crypto_id_to_index (algo fw AND QBOOT_ALGO_CRYPT_MASK)"
    "g_crypt_table t ! unat (algo fw AND QBOOT_ALGO_CRYPT_MASK) = Some cr"
    using find(2) by (auto simp: qboot_find_crypto_def Let_def split: if_splits)
  note k = masked_crypto_index [OF c2(1)]
  have "unat (qboot_cmprs_id_to_index (cmprs_id co)) = unat ?ci \<and> decompress co \<noteq> None"
    using assms(1) c1 unfolding wf_tables_def by blast
  moreover have "unat (qboot_crypto_id_to_index (crypto_id cr)) = unat (algo fw AND QBOOT_ALGO_CRYPT_MASK)
      \<and> decrypt cr \<noteq> None"
    using assms(1) c2(2) k(2) unfolding wf_tables_def by blast
  ultimately show ?thesis using that ops k(1) by (simp add: u32_eq_iff)
qed

section \<open>The decompressor contract\<close>

text \<open>
  What the streaming client may rely on. A call keeps the sizes of the buffers and writes only
  the output buffer; on success it has made progress and has not consumed more than its input,
  as the comment on \<open>qbt_stream_status_t\<close> asks. It asks for more input (\<open>RT_ENOSPC\<close>) only on a
  block that is not complete, so that the call that accepts the longer input consumes the bytes
  held back, up to three; one that is not \<open>blocky\<close> asks only when there is no input at all.
  On every call it either respects the output capacity or takes its whole input.
\<close>

locale decompressor =
  fixes dec :: "'a decompress_fn" and blocky :: bool
  assumes dec_length: "dec buf st ctx m a = Some (e, st', m', a') \<Longrightarrow> length (m' b) = length (m b)"
    and dec_frame: "dec buf st ctx m a = Some (e, st', m', a') \<Longrightarrow> b \<noteq> sb_out buf \<Longrightarrow> m' b = m b"
    and dec_progress: "dec buf st ctx m a = Some (RT_EOK, st', m', a') \<Longrightarrow> 0 < unat (sb_out_len buf) \<Longrightarrow>
      0 < unat (consumed st') \<or> 0 < unat (produced st')"
    and dec_consumed: "dec buf st ctx m a = Some (RT_EOK, st', m', a') \<Longrightarrow> consumed st' \<le> sb_in_len buf"
    and dec_wait: "dec buf st ctx m a = Some (RT_ENOSPC, st', m', a') \<Longrightarrow> \<not> blocky \<Longrightarrow> sb_in_len buf = 0"
    and dec_hold: "dec buf st ctx m a = Some (RT_ENOSPC, st', m', a') \<Longrightarrow>
      dec buf2 st2 ctx2 m2 a2 = Some (RT_EOK, st2', m2', a2') \<Longrightarrow>
      unat (sb_in_len buf) \<le> unat (sb_in_len buf2) \<Longrightarrow>
      take (unat (sb_in_len buf)) (m2 (sb_in buf2)) = take (unat (sb_in_len buf)) (m (sb_in buf)) \<Longrightarrow>
      unat (sb_in_len buf) \<le> unat (consumed st2') + 3"
    and dec_shape: "(\<forall>buf st ctx m a st' m' a'. dec buf st ctx m a = Some (RT_EOK, st', m', a') \<longrightarrow>
        produced st' \<le> sb_out_len buf) \<or>
      (\<forall>buf st ctx m a st' m' a'. dec buf st ctx m a = Some (RT_EOK, st', m', a') \<longrightarrow>
        consumed st' = sb_in_len buf)"

text \<open>One that, in addition, never leaves the buffers.\<close>

definition safe_dec :: "'a decompress_fn \<Rightarrow> bool" where
  "safe_dec dec \<longleftrightarrow> (\<forall>buf st ctx m a. unat (sb_in_len buf) \<le> length (m (sb_in buf)) \<longrightarrow>
     unat (sb_out_len buf) \<le> length (m (sb_out buf)) \<longrightarrow> dec buf st ctx m a \<noteq> None)"

text \<open>
  What the stream relies on in a cipher: inside the buffers it returns, keeps their sizes, and
  changes the output buffer only, from the output position on.
\<close>

locale cipher =
  fixes f :: "'a decrypt_fn"
  assumes cipher_safe: "snd out + unat len \<le> length (m (fst out)) \<Longrightarrow>
      snd inp + unat len \<le> length (m (fst inp)) \<Longrightarrow> \<exists>r. f out inp len m a = Some r"
    and cipher_length: "f out inp len m a = Some (e, m', a') \<Longrightarrow> length (m' b) = length (m b)"
    and cipher_frame: "f out inp len m a = Some (e, m', a') \<Longrightarrow> b \<noteq> fst out \<Longrightarrow> m' b = m b"
    and cipher_prefix: "f out inp len m a = Some (e, m', a') \<Longrightarrow>
      snd out + unat len \<le> length (m (fst out)) \<Longrightarrow>
      take (snd out) (m' (fst out)) = take (snd out) (m (fst out))"

end
