(* ===== verification/Qboot_Codecs.thy ===== *)
theory Qboot_Codecs
  imports Qboot_Algo
begin

text \<open>
  The algorithm handlers of \<open>algorithm/\<close>: the pass-through pair of \<open>qboot_none.c\<close>, the block
  decompressors of \<open>qboot_fastlz.c\<close> and \<open>qboot_quicklz.c\<close>, the streaming one of
  \<open>qboot_gzip.c\<close> and the cipher of \<open>qboot_aes.c\<close>. The libraries they call are parameters. The
  first three give the decompressor contract.
\<close>

section \<open>None\<close>

definition qbt_algo_none_decompress :: "qboot_cfg \<Rightarrow> 'a decompress_fn" where
  "qbt_algo_none_decompress c buf out ctx m a =
     (if sb_in_len buf = 0 then Some (RT_ENOSPC, out, m, a)
      else if using_compression c then
        (let copy_len = (if sb_in_len buf < sb_out_len buf then sb_in_len buf else sb_out_len buf) in
         do {
           m1 \<leftarrow> (if copy_len > 0
                  then do { bs \<leftarrow> mem_read (sb_in buf) 0 (unat copy_len) m;
                            mem_write (sb_out buf) 0 bs m }
                  else Some m);
           Some (RT_EOK, out\<lparr>consumed := copy_len, produced := copy_len\<rparr>, m1, a)
         })
      else if sb_in buf = sb_out buf then
        Some (RT_EOK, out\<lparr>consumed := sb_in_len buf, produced := sb_in_len buf\<rparr>, m, a)
      else Some (RT_ERROR, out, m, a))"

definition qbt_algo_none_crypt :: "qboot_cfg \<Rightarrow> 'a decrypt_fn" where
  "qbt_algo_none_crypt c out inp len m a =
     (if using_compression c then
        do {
          bs \<leftarrow> mem_read (fst inp) (snd inp) (unat len) m;
          m1 \<leftarrow> mem_write (fst out) (snd out) bs m;
          Some (RT_EOK, m1, a)
        }
      else Some (RT_EOK, m, a))"

definition qbt_algo_none_cmprs_ops :: "qboot_cfg \<Rightarrow> 'a qboot_cmprs_ops" where
  "qbt_algo_none_cmprs_ops c = \<lparr>cmprs_name = Some ''NONE'', cmprs_id = QBOOT_ALGO_CMPRS_NONE,
     cmprs_init = None, decompress = Some (qbt_algo_none_decompress c), cmprs_deinit = None\<rparr>"

definition qbt_algo_none_crypt_ops :: "qboot_cfg \<Rightarrow> 'a qboot_crypto_ops" where
  "qbt_algo_none_crypt_ops c = \<lparr>crypto_name = Some ''NONE'', crypto_id = QBOOT_ALGO_CRYPT_NONE,
     crypto_init = None, decrypt = Some (qbt_algo_none_crypt c), crypto_deinit = None\<rparr>"

definition qbt_algo_none_register :: "qboot_cfg \<Rightarrow> 'a algo_tables \<Rightarrow> rt_err \<times> 'a algo_tables" where
  "qbt_algo_none_register c t =
     (case qboot_cmprs_register (Some (qbt_algo_none_cmprs_ops c)) t of
        (e1, t1) \<Rightarrow>
          if e1 \<noteq> RT_EOK then (RT_ERROR, t1)
          else (case qboot_crypto_register (Some (qbt_algo_none_crypt_ops c)) t1 of
            (e2, t2) \<Rightarrow> if e2 \<noteq> RT_EOK then (RT_ERROR, t2) else (RT_EOK, t2)))"

lemma none_decompress_cases:
  assumes "qbt_algo_none_decompress c buf out ctx m a = Some (e, out', m', a')"
  obtains (wait) "e = RT_ENOSPC" "sb_in_len buf = 0" "out' = out" "m' = m"
  | (bad) "e = RT_ERROR" "\<not> using_compression c" "sb_in buf \<noteq> sb_out buf" "out' = out" "m' = m"
  | (copy) n where "e = RT_EOK" "using_compression c" "sb_in_len buf \<noteq> 0"
      "unat n = min (unat (sb_in_len buf)) (unat (sb_out_len buf))"
      "out' = out\<lparr>consumed := n, produced := n\<rparr>"
      "unat n \<le> length (m (sb_in buf))" "unat n \<le> length (m (sb_out buf))"
      "m' = m(sb_out buf := overwrite 0 (take (unat n) (m (sb_in buf))) (m (sb_out buf)))"
  | (shared) "e = RT_EOK" "\<not> using_compression c" "sb_in_len buf \<noteq> 0" "sb_in buf = sb_out buf"
      "out' = out\<lparr>consumed := sb_in_len buf, produced := sb_in_len buf\<rparr>" "m' = m"
proof -
  let ?n = "if sb_in_len buf < sb_out_len buf then sb_in_len buf else sb_out_len buf"
  have n: "unat ?n = min (unat (sb_in_len buf)) (unat (sb_out_len buf))"
    by (auto simp: u32_less_iff)
  show ?thesis
  proof (cases "sb_in_len buf \<noteq> 0 \<and> using_compression c")
    case True
    show ?thesis
    proof (rule copy [OF _ _ _ n])
      show "e = RT_EOK" "using_compression c" "sb_in_len buf \<noteq> 0"
        "out' = out\<lparr>consumed := ?n, produced := ?n\<rparr>"
        using assms True by (auto simp: qbt_algo_none_decompress_def Let_def bind_eq_Some_conv)
      show "unat ?n \<le> length (m (sb_in buf))" "unat ?n \<le> length (m (sb_out buf))"
        "m' = m(sb_out buf := overwrite 0 (take (unat ?n) (m (sb_in buf))) (m (sb_out buf)))"
        using assms True
        by (auto simp: qbt_algo_none_decompress_def Let_def bind_eq_Some_conv mem_read_Some
          mem_write_Some word_gt_0 split: if_splits)
    qed
  next
    case False
    with assms show ?thesis
      by (auto simp: qbt_algo_none_decompress_def intro: wait bad shared split: if_splits)
  qed
qed

interpretation none: decompressor "qbt_algo_none_decompress c" False for c
proof
  fix buf st ctx m a e st' m' a' b
  assume "qbt_algo_none_decompress c buf st ctx m a = Some (e, st', m', a')"
  then show "length (m' b) = length (m b)"
    by (cases rule: none_decompress_cases) auto
next
  fix buf st ctx m a e st' m' a' b
  assume "qbt_algo_none_decompress c buf st ctx m a = Some (e, st', m', a')" "b \<noteq> sb_out buf"
  then show "m' b = m b"
    by (cases rule: none_decompress_cases) auto
next
  fix buf st ctx m a st' m' a'
  assume "qbt_algo_none_decompress c buf st ctx m a = Some (RT_EOK, st', m', a')"
    and "0 < unat (sb_out_len buf)"
  then show "0 < unat (consumed st') \<or> 0 < unat (produced st')"
    by (cases rule: none_decompress_cases) (auto simp: unat_gt_0)
next
  fix buf st ctx m a st' m' a'
  assume "qbt_algo_none_decompress c buf st ctx m a = Some (RT_EOK, st', m', a')"
  then show "consumed st' \<le> sb_in_len buf"
    by (cases rule: none_decompress_cases) (auto simp: u32_le_iff)
next
  fix buf st ctx m a st' m' a'
  assume "qbt_algo_none_decompress c buf st ctx m a = Some (RT_ENOSPC, st', m', a')"
  then show "sb_in_len buf = 0"
    by (cases rule: none_decompress_cases) auto
next
  fix buf st ctx m a st' m' a' buf2 st2 ctx2 m2 a2 st2' m2' a2'
  assume "qbt_algo_none_decompress c buf st ctx m a = Some (RT_ENOSPC, st', m', a')"
  then show "unat (sb_in_len buf) \<le> unat (consumed st2') + 3"
    by (cases rule: none_decompress_cases) auto
next
  show "(\<forall>buf st ctx m a st' m' a'. qbt_algo_none_decompress c buf st ctx m a = Some (RT_EOK, st', m', a') \<longrightarrow>
        produced st' \<le> sb_out_len buf) \<or>
      (\<forall>buf st ctx m a st' m' a'. qbt_algo_none_decompress c buf st ctx m a = Some (RT_EOK, st', m', a') \<longrightarrow>
        consumed st' = sb_in_len buf)"
    by (cases "using_compression c") (auto elim!: none_decompress_cases simp: u32_le_iff)
qed

lemma none_safe: "safe_dec (qbt_algo_none_decompress c)"
  by (auto simp: safe_dec_def qbt_algo_none_decompress_def mem_read_def mem_write_def Let_def u32_less_iff)

lemma take_overwrite_prefix: "off \<le> length xs \<Longrightarrow> take off (overwrite off bs xs) = take off xs"
  by (simp add: overwrite_def)

interpretation none_crypt: cipher "qbt_algo_none_crypt c" for c
  by unfold_locales
    (auto simp: qbt_algo_none_crypt_def mem_read_def mem_write_def bind_eq_Some_conv
      take_overwrite_prefix split: if_splits)

section \<open>Block decompressors\<close>

text \<open>The block header: the compressed size, most significant byte first.\<close>

definition qbt_fastlz_get_block_size :: "byte list \<Rightarrow> u32" where
  "qbt_fastlz_get_block_size comp_datas =
     foldl (\<lambda>block_size b. push_bit 8 block_size + ucast b) 0 (take 4 comp_datas)"

definition qbt_quicklz_get_block_size :: "byte list \<Rightarrow> u32" where
  "qbt_quicklz_get_block_size comp_datas =
     foldl (\<lambda>block_size b. push_bit 8 block_size + ucast b) 0 (take 4 comp_datas)"

text \<open>
  \<open>fastlz_decompress\<close> takes both sizes as \<open>int\<close>: it is given the bytes its length covers, none
  when the length is negative, the length, and the output capacity; it returns a length or an error
  and the bytes it stored. The handler passes unsigned sizes, which the call converts.
\<close>

type_synonym fastlz_fn = "byte list \<Rightarrow> int \<Rightarrow> int \<Rightarrow> int \<times> byte list"

definition qbt_fastlz_decompress ::
  "fastlz_fn \<Rightarrow> bufid \<Rightarrow> u32 \<Rightarrow> bufid \<times> nat \<Rightarrow> u32 \<Rightarrow> mem \<Rightarrow> (int \<times> mem) option" where
  "qbt_fastlz_decompress lib out out_size inp block_size m =
     do {
       bs \<leftarrow> mem_read (fst inp) (snd inp) (nat (sint block_size)) m;
       m1 \<leftarrow> mem_write out 0 (snd (lib bs (sint block_size) (sint out_size))) m;
       Some (fst (lib bs (sint block_size) (sint out_size)), m1)
     }"

definition qbt_algo_fastlz_decompress :: "fastlz_fn \<Rightarrow> 'a decompress_fn" where
  "qbt_algo_fastlz_decompress lib buf out ctx m a =
     (if sb_in_len buf < 4 then Some (RT_ENOSPC, out, m, a)
      else do {
        hdr \<leftarrow> mem_read (sb_in buf) 0 4 m;
        let block_size = qbt_fastlz_get_block_size hdr;
        let need_len = block_size + 4;
        if block_size = 0 then Some (RT_ERROR, out, m, a)
        else if sb_in_len buf < need_len then Some (RT_ENOSPC, out, m, a)
        else do {
          (decomp_len, m1) \<leftarrow> qbt_fastlz_decompress lib (sb_out buf) (sb_out_len buf) (sb_in buf, 4) block_size m;
          if decomp_len \<le> 0 then Some (RT_ERROR, out, m1, a)
          else let len = (if decomp_len > int (unat (sb_out_len buf)) then sb_out_len buf
                          else of_int decomp_len) in
            Some (RT_EOK, out\<lparr>consumed := need_len, produced := len\<rparr>, m1, a)
        }
      })"

text \<open>
  The state of the algorithm libraries and of the handlers: the QuickLZ state, zlib's stream
  with the field \<open>avail_in\<close> the handler reads, the remainder buffer of the gzip handler, and
  the AES context with its chaining vector.
\<close>

record ('q, 'z, 'k) alg_state =
  qbt_quicklz_state :: 'q
  qbt_strm :: 'z
  qbt_avail_in :: u32
  qbt_gzip_remain_buf :: "byte list"
  qbt_gzip_remain_len :: u32
  qbt_aes_iv :: "byte list"
  qbt_aes_ctx :: 'k

text \<open>
  \<open>qlz_decompress\<close> is given neither the size of the block nor the capacity: it sees the memory
  from its argument on and stores what the block's own header says.
\<close>

type_synonym 'q qlz_fn = "byte list \<Rightarrow> 'q \<Rightarrow> u32 \<times> byte list \<times> 'q"

definition qbt_quicklz_state_init :: "'q \<Rightarrow> ('q, 'z, 'k) alg_state \<Rightarrow> ('q, 'z, 'k) alg_state" where
  "qbt_quicklz_state_init zero a = a\<lparr>qbt_quicklz_state := zero\<rparr>"

definition qbt_quicklz_decompress ::
  "'q qlz_fn \<Rightarrow> bufid \<Rightarrow> bufid \<times> nat \<Rightarrow> mem \<Rightarrow> ('q, 'z, 'k) alg_state \<Rightarrow>
   (u32 \<times> mem \<times> ('q, 'z, 'k) alg_state) option" where
  "qbt_quicklz_decompress lib out inp m a =
     (case lib (drop (snd inp) (m (fst inp))) (qbt_quicklz_state a) of
        (n, bs, q) \<Rightarrow> do { m1 \<leftarrow> mem_write out 0 bs m; Some (n, m1, a\<lparr>qbt_quicklz_state := q\<rparr>) })"

definition qbt_algo_quicklz_decompress ::
  "'q qlz_fn \<Rightarrow> ('q, 'z, 'k) alg_state decompress_fn" where
  "qbt_algo_quicklz_decompress lib buf out ctx m a =
     (if sb_in_len buf < 4 then Some (RT_ENOSPC, out, m, a)
      else do {
        hdr \<leftarrow> mem_read (sb_in buf) 0 4 m;
        let block_size = qbt_quicklz_get_block_size hdr;
        let need_len = block_size + 4;
        if block_size = 0 then Some (RT_ERROR, out, m, a)
        else if sb_in_len buf < need_len then Some (RT_ENOSPC, out, m, a)
        else do {
          (decomp_len, m1, a1) \<leftarrow> qbt_quicklz_decompress lib (sb_out buf) (sb_in buf, 4) m a;
          if decomp_len = 0 then Some (RT_ERROR, out, m1, a1)
          else if decomp_len > sb_out_len buf then Some (RT_ERROR, out, m1, a1)
          else Some (RT_EOK, out\<lparr>consumed := need_len, produced := decomp_len\<rparr>, m1, a1)
        }
      })"

definition qbt_algo_quicklz_init ::
  "'q \<Rightarrow> ('q, 'z, 'k) alg_state \<Rightarrow> rt_err \<times> ('q, 'z, 'k) alg_state" where
  "qbt_algo_quicklz_init zero a = (RT_EOK, qbt_quicklz_state_init zero a)"

definition qbt_algo_fastlz_cmprs_ops :: "fastlz_fn \<Rightarrow> 'a qboot_cmprs_ops" where
  "qbt_algo_fastlz_cmprs_ops lib = \<lparr>cmprs_name = Some ''fastlz'', cmprs_id = QBOOT_ALGO_CMPRS_FASTLZ,
     cmprs_init = None, decompress = Some (qbt_algo_fastlz_decompress lib), cmprs_deinit = None\<rparr>"

definition qbt_algo_quicklz_cmprs_ops ::
  "'q qlz_fn \<Rightarrow> 'q \<Rightarrow> ('q, 'z, 'k) alg_state qboot_cmprs_ops" where
  "qbt_algo_quicklz_cmprs_ops lib zero =
     \<lparr>cmprs_name = Some ''quicklz'', cmprs_id = QBOOT_ALGO_CMPRS_QUICKLZ,
      cmprs_init = Some (qbt_algo_quicklz_init zero),
      decompress = Some (qbt_algo_quicklz_decompress lib), cmprs_deinit = None\<rparr>"

text \<open>Both handlers take the same decisions from the block header; only the library call differs.\<close>

definition block_need :: "byte list \<Rightarrow> u32" where
  "block_need bs = qbt_fastlz_get_block_size bs + 4"

lemma quicklz_block_size: "qbt_quicklz_get_block_size = qbt_fastlz_get_block_size"
  by (simp add: fun_eq_iff qbt_quicklz_get_block_size_def qbt_fastlz_get_block_size_def)

lemma block_size_take: "4 \<le> n \<Longrightarrow> qbt_fastlz_get_block_size (take n bs) = qbt_fastlz_get_block_size bs"
  by (simp add: qbt_fastlz_get_block_size_def min_def)

definition block_waits :: "u32 \<Rightarrow> byte list \<Rightarrow> bool" where
  "block_waits n bs \<longleftrightarrow> unat n < 4 \<or> (4 \<le> length bs \<and> unat n < unat (block_need bs))"

definition block_takes :: "u32 \<Rightarrow> byte list \<Rightarrow> u32 \<Rightarrow> bool" where
  "block_takes n bs k \<longleftrightarrow> 4 \<le> unat n \<and> 4 \<le> length bs \<and> k = block_need bs \<and> unat k \<le> unat n"

lemma block_hold:
  assumes "block_waits n bs" and "block_takes n2 bs2 k" and "unat n \<le> unat n2"
    and "take (unat n) bs2 = take (unat n) bs"
  shows "unat n \<le> unat k + 3"
proof (cases "unat n < 4")
  case False
  with assms(1) have lt: "unat n < unat (block_need bs)" by (simp add: block_waits_def)
  from assms(4) have "qbt_fastlz_get_block_size bs2 = qbt_fastlz_get_block_size bs"
    using False block_size_take [of "unat n" bs2] block_size_take [of "unat n" bs] by simp
  with assms(2) lt show ?thesis by (simp add: block_takes_def block_need_def)
qed simp

lemma block_outcome:
  fixes buf :: qbt_stream_buf_t
  shows "(sb_in_len buf < 4 \<longleftrightarrow> unat (sb_in_len buf) < 4)"
    and "mem_read (sb_in buf) 0 4 m = Some hdr \<Longrightarrow>
      qbt_fastlz_get_block_size hdr = qbt_fastlz_get_block_size (m (sb_in buf)) \<and> 4 \<le> length (m (sb_in buf))"
  by (auto simp: u32_less_iff mem_read_Some block_size_take)

lemma fastlz_wait:
  assumes "qbt_algo_fastlz_decompress lib buf st ctx m a = Some (RT_ENOSPC, st', m', a')"
  shows "block_waits (sb_in_len buf) (m (sb_in buf))"
  using assms
  by (auto simp: qbt_algo_fastlz_decompress_def block_waits_def block_need_def u32_less_iff
      bind_eq_Some_conv Let_def block_outcome split: if_splits)

lemma fastlz_take:
  assumes "qbt_algo_fastlz_decompress lib buf st ctx m a = Some (RT_EOK, st', m', a')"
  shows "block_takes (sb_in_len buf) (m (sb_in buf)) (consumed st')"
    and "0 < unat (sb_out_len buf) \<longrightarrow> 0 < unat (produced st')"
    and "produced st' \<le> sb_out_len buf"
proof -
  note D = qbt_algo_fastlz_decompress_def
  have n4: "\<not> sb_in_len buf < 4" using assms by (auto simp: D)
  then obtain hdr where h: "mem_read (sb_in buf) 0 4 m = Some hdr"
    using assms by (cases "mem_read (sb_in buf) 0 4 m") (auto simp: D)
  have sz: "qbt_fastlz_get_block_size hdr \<noteq> 0" "\<not> sb_in_len buf < qbt_fastlz_get_block_size hdr + 4"
    using assms h n4 by (auto simp: D Let_def split: if_split_asm)
  obtain d m1 where l: "qbt_fastlz_decompress lib (sb_out buf) (sb_out_len buf) (sb_in buf, 4)
      (qbt_fastlz_get_block_size hdr) m = Some (d, m1)"
    using assms h n4 sz by (auto simp: D Let_def bind_eq_Some_conv)
  have d: "\<not> d \<le> 0" using assms h n4 sz l by (auto simp: D Let_def)
  have st': "st' = st\<lparr>consumed := qbt_fastlz_get_block_size hdr + 4,
      produced := if d > int (unat (sb_out_len buf)) then sb_out_len buf else of_int d\<rparr>"
    using assms h n4 sz l d by (simp add: D Let_def)
  from d have "0 < d" by simp
  note ok = n4 h sz(2) this st'
  from ok show "block_takes (sb_in_len buf) (m (sb_in buf)) (consumed st')"
    by (auto simp: block_takes_def block_need_def u32_less_iff block_outcome not_less)
  have "unat (of_int d :: u32) = nat d" if "d \<le> int (unat (sb_out_len buf))"
  proof -
    have "(of_int d :: u32) = of_nat (nat d)" using ok(4) by simp
    moreover have "nat d < 4294967296" using that u32_less [of "sb_out_len buf"] by linarith
    ultimately show ?thesis by (metis u32_of_nat)
  qed
  with ok(4,5) show "0 < unat (sb_out_len buf) \<longrightarrow> 0 < unat (produced st')"
    and "produced st' \<le> sb_out_len buf"
    by (auto simp: u32_le_iff nat_le_iff)
qed

lemma fastlz_mem:
  assumes "qbt_algo_fastlz_decompress lib buf st ctx m a = Some (e, st', m', a')"
  shows "length (m' b) = length (m b)" and "b \<noteq> sb_out buf \<Longrightarrow> m' b = m b"
  using assms
  by (auto simp: qbt_algo_fastlz_decompress_def qbt_fastlz_decompress_def bind_eq_Some_conv Let_def
      mem_write_Some split: if_splits)

lemma quicklz_wait:
  assumes "qbt_algo_quicklz_decompress lib buf st ctx m a = Some (RT_ENOSPC, st', m', a')"
  shows "block_waits (sb_in_len buf) (m (sb_in buf))"
  using assms
  by (auto simp: qbt_algo_quicklz_decompress_def quicklz_block_size block_waits_def block_need_def
      u32_less_iff bind_eq_Some_conv Let_def block_outcome split: if_splits)

lemma quicklz_take:
  assumes "qbt_algo_quicklz_decompress lib buf st ctx m a = Some (RT_EOK, st', m', a')"
  shows "block_takes (sb_in_len buf) (m (sb_in buf)) (consumed st')"
    and "0 < unat (produced st')"
    and "produced st' \<le> sb_out_len buf"
proof -
  obtain hdr d where ok: "\<not> sb_in_len buf < 4" "mem_read (sb_in buf) 0 4 m = Some hdr"
    "\<not> sb_in_len buf < qbt_fastlz_get_block_size hdr + 4" "d \<noteq> 0" "\<not> sb_out_len buf < d"
    "st' = st\<lparr>consumed := qbt_fastlz_get_block_size hdr + 4, produced := d\<rparr>"
    using assms
    by (auto simp: qbt_algo_quicklz_decompress_def quicklz_block_size bind_eq_Some_conv Let_def
        split: if_splits)
  then show "block_takes (sb_in_len buf) (m (sb_in buf)) (consumed st')"
    by (auto simp: block_takes_def block_need_def u32_less_iff block_outcome not_less)
  from ok show "0 < unat (produced st')" and "produced st' \<le> sb_out_len buf"
    by (auto simp: u32_less_iff u32_le_iff unat_gt_0)
qed

lemma quicklz_mem:
  assumes "qbt_algo_quicklz_decompress lib buf st ctx m a = Some (e, st', m', a')"
  shows "length (m' b) = length (m b)" and "b \<noteq> sb_out buf \<Longrightarrow> m' b = m b"
  using assms
  by (auto simp: qbt_algo_quicklz_decompress_def qbt_quicklz_decompress_def bind_eq_Some_conv Let_def
      mem_write_Some split: if_splits prod.splits)

interpretation fastlz: decompressor "qbt_algo_fastlz_decompress lib" True for lib
proof (unfold_locales, goal_cases)
  case 3
  then show ?case using fastlz_take(2) [OF 3(1)] by simp
next
  case 4
  then show ?case using fastlz_take(1) [OF 4(1)] by (auto simp: block_takes_def u32_le_iff)
next
  case 6
  then show ?case by (rule block_hold [OF fastlz_wait fastlz_take(1)])
next
  case 7
  show ?case by (intro disjI1 allI impI) (rule fastlz_take(3))
qed (simp_all add: fastlz_mem)

interpretation quicklz: decompressor "qbt_algo_quicklz_decompress lib" True for lib
proof (unfold_locales, goal_cases)
  case 3
  then show ?case using quicklz_take(2) [OF 3(1)] by simp
next
  case 4
  then show ?case using quicklz_take(1) [OF 4(1)] by (auto simp: block_takes_def u32_le_iff)
next
  case 6
  then show ?case by (rule block_hold [OF quicklz_wait quicklz_take(1)])
next
  case 7
  show ?case by (intro disjI1 allI impI) (rule quicklz_take(3))
qed (simp_all add: quicklz_mem)


section \<open>Gzip\<close>

text \<open>
  zlib: \<open>inflate\<close> gets the input given by \<open>next_in\<close>/\<open>avail_in\<close> and the room \<open>avail_out\<close>; it returns
  its code, the input bytes left over, and the output bytes it stored. \<open>inflate_init\<close> is
  \<open>inflateInit2\<close> with window bits 47.
\<close>

record 'z zlib =
  inflate_init :: 'z
  inflate :: "byte list \<Rightarrow> nat \<Rightarrow> 'z \<Rightarrow> int \<times> u32 \<times> byte list \<times> 'z"
  inflateEnd :: "'z \<Rightarrow> 'z"

definition Z_NEED_DICT :: int where "Z_NEED_DICT = 2"
definition Z_DATA_ERROR :: int where "Z_DATA_ERROR = - 3"
definition Z_MEM_ERROR :: int where "Z_MEM_ERROR = - 4"

lemmas z_code_defs = Z_NEED_DICT_def Z_DATA_ERROR_def Z_MEM_ERROR_def

definition GZIP_REMAIN_BUF_SIZE :: u32 where
  "GZIP_REMAIN_BUF_SIZE = 32"

definition qbt_gzip_init :: "'z zlib \<Rightarrow> ('q, 'z, 'k) alg_state \<Rightarrow> ('q, 'z, 'k) alg_state" where
  "qbt_gzip_init zl a = a\<lparr>qbt_strm := inflate_init zl, qbt_avail_in := 0, qbt_gzip_remain_len := 0\<rparr>"

definition qbt_gzip_decompress ::
  "'z zlib \<Rightarrow> byte list \<Rightarrow> bufid \<times> nat \<Rightarrow> u32 \<Rightarrow> mem \<Rightarrow> ('q, 'z, 'k) alg_state \<Rightarrow>
   (int \<times> mem \<times> ('q, 'z, 'k) alg_state) option" where
  "qbt_gzip_decompress zl next_in out out_size m a =
     (case inflate zl next_in (unat out_size) (qbt_strm a) of
        (ret, avail_in, bs, z) \<Rightarrow> do {
          m1 \<leftarrow> mem_write (fst out) (snd out) bs m;
          let a1 = a\<lparr>qbt_strm := z, qbt_avail_in := avail_in\<rparr>;
          let ret1 = (if ret = Z_NEED_DICT then Z_DATA_ERROR else ret);
          if ret1 = Z_DATA_ERROR \<or> ret1 = Z_MEM_ERROR
          then Some (ret1, m1, a1\<lparr>qbt_strm := inflateEnd zl z\<rparr>)
          else Some (int (length bs), m1, a1)
        })"

text \<open>
  The second half of the handler, after the input has been inflated behind the remainder of
  the previous call: \<open>decomp_len\<close> bytes are new.
\<close>

definition qbt_gzip_emit ::
  "qbt_stream_buf_t \<Rightarrow> qbt_stream_status_t \<Rightarrow> bool \<Rightarrow> bool \<Rightarrow> bool \<Rightarrow> int \<Rightarrow> mem \<Rightarrow>
   ('q, 'z, 'k) alg_state \<Rightarrow> (rt_err \<times> qbt_stream_status_t \<times> mem \<times> ('q, 'z, 'k) alg_state) option" where
  "qbt_gzip_emit buf out pad_output last_chunk is_end decomp_len m a =
     (let total_len = of_int decomp_len + qbt_gzip_remain_len a;
          new_remain = total_len mod GZIP_REMAIN_BUF_SIZE;
          out_len_aligned = total_len - new_remain;
          padded = (is_end \<and> new_remain > 0 \<and> pad_output \<and> last_chunk \<and>
                    out_len_aligned + GZIP_REMAIN_BUF_SIZE \<le> sb_out_len buf)
      in do {
        rest \<leftarrow> (if new_remain > 0
               then mem_read (sb_out buf) (unat out_len_aligned) (unat new_remain) m else Some []);
        let rb = overwrite 0 rest (qbt_gzip_remain_buf a);
        m1 \<leftarrow> (if padded
              then mem_write (sb_out buf) (unat out_len_aligned)
                     (take (unat new_remain) rb @
                      replicate (unat (GZIP_REMAIN_BUF_SIZE - new_remain)) 0xFF) m
              else Some m);
        let out_len_final =
          (if is_end \<and> new_remain > 0
           then (if padded then out_len_aligned + GZIP_REMAIN_BUF_SIZE else out_len_aligned + new_remain)
           else out_len_aligned);
        let a1 = a\<lparr>qbt_gzip_remain_buf := rb,
                   qbt_gzip_remain_len := (if is_end then 0 else new_remain)\<rparr>;
        let out1 = out\<lparr>consumed := sb_in_len buf - qbt_avail_in a, produced := out_len_final\<rparr>;
        if consumed out1 = 0 \<and> produced out1 = 0 \<and> \<not> is_end then Some (RT_ENOSPC, out1, m1, a1)
        else if produced out1 = 0 then Some (RT_ERROR, out1, m1, a1)
        else if consumed out1 = 0 \<and> sb_in_len buf > 0 then Some (RT_ERROR, out1, m1, a1)
        else Some (RT_EOK, out1, m1, a1)
      })"

definition qbt_algo_gzip_decompress :: "'z zlib \<Rightarrow> ('q, 'z, 'k) alg_state decompress_fn" where
  "qbt_algo_gzip_decompress zl buf out ctx m a =
     (let pad_output = (purpose ctx = QBT_STREAM_WRITE);
          last_chunk = (total ctx > 0 \<and> ctx_consumed ctx + sb_in_len buf \<ge> total ctx)
      in if qbt_gzip_remain_len a > sb_out_len buf then Some (RT_ERROR, out, m, a)
         else do {
           m1 \<leftarrow> (if qbt_gzip_remain_len a > 0
                 then mem_write (sb_out buf) 0
                        (take (unat (qbt_gzip_remain_len a)) (qbt_gzip_remain_buf a)) m
                 else Some m);
           if sb_in_len buf = 0 then
             (if \<not> last_chunk \<or> qbt_gzip_remain_len a = 0 then Some (RT_ENOSPC, out, m1, a)
              else qbt_gzip_emit buf out pad_output last_chunk True 0 m1 a)
           else do {
             inp \<leftarrow> mem_read (sb_in buf) 0 (unat (sb_in_len buf)) m1;
             (decomp_len, m2, a1) \<leftarrow> qbt_gzip_decompress zl inp
                (sb_out buf, unat (qbt_gzip_remain_len a)) (sb_out_len buf - qbt_gzip_remain_len a) m1 a;
             if decomp_len < 0 then Some (RT_ERROR, out, m2, a1)
             else qbt_gzip_emit buf out pad_output last_chunk
                (decomp_len < sint (sb_out_len buf - qbt_gzip_remain_len a)) decomp_len m2 a1
           }
         })"

definition qbt_algo_gzip_init ::
  "'z zlib \<Rightarrow> ('q, 'z, 'k) alg_state \<Rightarrow> rt_err \<times> ('q, 'z, 'k) alg_state" where
  "qbt_algo_gzip_init zl a = (RT_EOK, qbt_gzip_init zl a)"

definition qbt_gzip_deinit :: "'z zlib \<Rightarrow> ('q, 'z, 'k) alg_state \<Rightarrow> ('q, 'z, 'k) alg_state" where
  "qbt_gzip_deinit zl a = a\<lparr>qbt_strm := inflateEnd zl (qbt_strm a), qbt_gzip_remain_len := 0\<rparr>"

definition qbt_algo_gzip_deinit ::
  "'z zlib \<Rightarrow> ('q, 'z, 'k) alg_state \<Rightarrow> rt_err \<times> ('q, 'z, 'k) alg_state" where
  "qbt_algo_gzip_deinit zl a = (RT_EOK, qbt_gzip_deinit zl a)"

definition qbt_algo_gzip_cmprs_ops :: "'z zlib \<Rightarrow> ('q, 'z, 'k) alg_state qboot_cmprs_ops" where
  "qbt_algo_gzip_cmprs_ops zl = \<lparr>cmprs_name = Some ''GZIP'', cmprs_id = QBOOT_ALGO_CMPRS_GZIP,
     cmprs_init = Some (qbt_algo_gzip_init zl), decompress = Some (qbt_algo_gzip_decompress zl),
     cmprs_deinit = Some (qbt_algo_gzip_deinit zl)\<rparr>"

section \<open>AES\<close>

text \<open>
  tinycrypt: the key schedule and CBC decryption, which updates the chaining vector. The key
  and the vector are the strings the product configures; \<open>aes_ctx_0\<close> is the static context
  before its first use.
\<close>

record 'k tinycrypt =
  tiny_aes_setkey_dec :: "byte list \<Rightarrow> nat \<Rightarrow> 'k \<Rightarrow> 'k"
  tiny_aes_crypt_cbc :: "'k \<Rightarrow> byte list \<Rightarrow> byte list \<Rightarrow> byte list \<times> byte list"
  aes_key :: "byte list"
  aes_iv :: "byte list"
  aes_ctx_0 :: 'k

definition qbt_aes_decrypt_init :: "'k tinycrypt \<Rightarrow> ('q, 'z, 'k) alg_state \<Rightarrow> ('q, 'z, 'k) alg_state" where
  "qbt_aes_decrypt_init tc a =
     (let len = (if length (aes_iv tc) > 16 then 16 else length (aes_iv tc)) in
      a\<lparr>qbt_aes_iv := take len (aes_iv tc) @ replicate (16 - len) 0,
        qbt_aes_ctx := tiny_aes_setkey_dec tc (aes_key tc) 256 (qbt_aes_ctx a)\<rparr>)"

definition qbt_aes_decrypt :: "'k tinycrypt \<Rightarrow> bufid \<times> nat \<Rightarrow> bufid \<times> nat \<Rightarrow> u32 \<Rightarrow> mem \<Rightarrow>
    ('q, 'z, 'k) alg_state \<Rightarrow> (mem \<times> ('q, 'z, 'k) alg_state) option" where
  "qbt_aes_decrypt tc dst src len m a =
     do {
       bs \<leftarrow> mem_read (fst src) (snd src) (unat len) m;
       let (plain, iv) = tiny_aes_crypt_cbc tc (qbt_aes_ctx a) (qbt_aes_iv a) bs;
       m1 \<leftarrow> mem_write (fst dst) (snd dst) plain m;
       Some (m1, a\<lparr>qbt_aes_iv := iv\<rparr>)
     }"

definition qbt_algo_aes_init ::
  "'k tinycrypt \<Rightarrow> ('q, 'z, 'k) alg_state \<Rightarrow> rt_err \<times> ('q, 'z, 'k) alg_state" where
  "qbt_algo_aes_init tc a = (RT_EOK, qbt_aes_decrypt_init tc a)"

definition qbt_algo_aes_crypt :: "'k tinycrypt \<Rightarrow> ('q, 'z, 'k) alg_state decrypt_fn" where
  "qbt_algo_aes_crypt tc out inp len m a =
     do { (m1, a1) \<leftarrow> qbt_aes_decrypt tc out inp len m a; Some (RT_EOK, m1, a1) }"

definition qbt_algo_aes_crypt_ops :: "'k tinycrypt \<Rightarrow> ('q, 'z, 'k) alg_state qboot_crypto_ops" where
  "qbt_algo_aes_crypt_ops tc = \<lparr>crypto_name = Some ''aes'', crypto_id = QBOOT_ALGO_CRYPT_AES,
     crypto_init = Some (qbt_algo_aes_init tc), decrypt = Some (qbt_algo_aes_crypt tc),
     crypto_deinit = None\<rparr>"

text \<open>
  CBC decryption gives as many bytes as it takes, and going on with the updated vector behind
  whole cipher blocks is the same as decrypting in one go; the key schedule overwrites the context.
\<close>

locale tinycrypt_library =
  fixes tc :: "'k tinycrypt"
  assumes cbc_length: "length (fst (tiny_aes_crypt_cbc tc k iv bs)) = length bs"
    and cbc_append: "16 dvd length x \<Longrightarrow> tiny_aes_crypt_cbc tc k iv (x @ y) =
      (fst (tiny_aes_crypt_cbc tc k iv x) @ fst (tiny_aes_crypt_cbc tc k (snd (tiny_aes_crypt_cbc tc k iv x)) y),
       snd (tiny_aes_crypt_cbc tc k (snd (tiny_aes_crypt_cbc tc k iv x)) y))"
    and setkey_fresh: "tiny_aes_setkey_dec tc key n k = tiny_aes_setkey_dec tc key n k'"

sublocale tinycrypt_library \<subseteq> cipher "qbt_algo_aes_crypt tc"
proof
  fix out inp :: "bufid \<times> nat" and len :: u32 and m :: mem and a :: "('q, 'z, 'k) alg_state"
  assume "snd out + unat len \<le> length (m (fst out))" "snd inp + unat len \<le> length (m (fst inp))"
  then show "\<exists>r. qbt_algo_aes_crypt tc out inp len m a = Some r"
    using cbc_length [of "qbt_aes_ctx a" "qbt_aes_iv a" "take (unat len) (drop (snd inp) (m (fst inp)))"]
    by (auto simp: qbt_algo_aes_crypt_def qbt_aes_decrypt_def mem_read_def mem_write_def split: prod.splits)
qed (auto simp: qbt_algo_aes_crypt_def qbt_aes_decrypt_def mem_read_def mem_write_def
    bind_eq_Some_conv take_overwrite_prefix split: if_splits prod.splits)

text \<open>A simple cipher of that shape, for the demonstrations: a key stream of equal bytes.\<close>

definition xor_tinycrypt :: "unit tinycrypt" where
  "xor_tinycrypt = \<lparr>tiny_aes_setkey_dec = (\<lambda>_ _ _. ()),
     tiny_aes_crypt_cbc = (\<lambda>_ iv bs. (map (\<lambda>b. b XOR 0x5A) bs, iv)),
     aes_key = [], aes_iv = [], aes_ctx_0 = ()\<rparr>"

interpretation xor_aes: tinycrypt_library xor_tinycrypt
  by unfold_locales (simp_all add: xor_tinycrypt_def)

section \<open>Startup\<close>

text \<open>
  \<open>qbot_algo_startup\<close> registers what the build selects, in this order, and stops at the first
  failure. The streaming entry of the HPatchLite handler of \<open>qboot_hpatchlite.c\<close> only refuses.
\<close>

record ('q, 'z, 'k) alg_libs =
  lib_fastlz :: fastlz_fn
  lib_qlz :: "'q qlz_fn"
  qlz_zero :: 'q
  lib_zlib :: "'z zlib"
  lib_tinycrypt :: "'k tinycrypt"

definition qbt_algo_hpatchlite_decompress :: "'a decompress_fn" where
  "qbt_algo_hpatchlite_decompress buf out ctx m a =
     Some (RT_ERROR, out\<lparr>consumed := 0, produced := 0, remaining_in := sb_in_len buf\<rparr>, m, a)"

definition qbt_algo_hpatchlite_cmprs_ops :: "'a qboot_cmprs_ops" where
  "qbt_algo_hpatchlite_cmprs_ops =
     \<lparr>cmprs_name = Some ''HPATCHLITE'', cmprs_id = QBOOT_ALGO_CMPRS_HPATCHLITE, cmprs_init = None,
      decompress = Some qbt_algo_hpatchlite_decompress, cmprs_deinit = None\<rparr>"

definition reg_step ::
  "('a algo_tables \<Rightarrow> rt_err \<times> 'a algo_tables) \<Rightarrow> rt_err \<times> 'a algo_tables \<Rightarrow> rt_err \<times> 'a algo_tables" where
  "reg_step f r = (if fst r \<noteq> RT_EOK then r
     else case f (snd r) of (e, t) \<Rightarrow> (if e \<noteq> RT_EOK then RT_ERROR else RT_EOK, t))"

definition qbot_algo_startup ::
  "qboot_cfg \<Rightarrow> ('q, 'z, 'k) alg_libs \<Rightarrow> ('q, 'z, 'k) alg_state algo_tables \<Rightarrow>
   rt_err \<times> ('q, 'z, 'k) alg_state algo_tables" where
  "qbot_algo_startup c L t =
     (let r1 = reg_step (qbt_algo_none_register c) (RT_EOK, t);
          r2 = (if using_gzip c
                then reg_step (qboot_cmprs_register (Some (qbt_algo_gzip_cmprs_ops (lib_zlib L)))) r1 else r1);
          r3 = (if using_aes c
                then reg_step (qboot_crypto_register (Some (qbt_algo_aes_crypt_ops (lib_tinycrypt L)))) r2 else r2);
          r4 = (if using_quicklz c
                then reg_step (qboot_cmprs_register
                       (Some (qbt_algo_quicklz_cmprs_ops (lib_qlz L) (qlz_zero L)))) r3 else r3);
          r5 = (if using_fastlz c
                then reg_step (qboot_cmprs_register (Some (qbt_algo_fastlz_cmprs_ops (lib_fastlz L)))) r4 else r4)
      in if using_hpatchlite c
         then reg_step (qboot_cmprs_register (Some qbt_algo_hpatchlite_cmprs_ops)) r5 else r5)"


lemma startup_tables:
  "qbot_algo_startup c L algo_tables_0 =
     (RT_EOK,
      \<lparr>g_cmprs_table =
         [Some (qbt_algo_none_cmprs_ops c),
          if using_gzip c then Some (qbt_algo_gzip_cmprs_ops (lib_zlib L)) else None,
          if using_quicklz c then Some (qbt_algo_quicklz_cmprs_ops (lib_qlz L) (qlz_zero L)) else None,
          if using_fastlz c then Some (qbt_algo_fastlz_cmprs_ops (lib_fastlz L)) else None,
          if using_hpatchlite c then Some qbt_algo_hpatchlite_cmprs_ops else None],
       g_crypt_table =
         [Some (qbt_algo_none_crypt_ops c), None,
          if using_aes c then Some (qbt_algo_aes_crypt_ops (lib_tinycrypt L)) else None]\<rparr>)"
proof -
  have t0: "algo_tables_0 = \<lparr>g_cmprs_table = [None, None, None, None, None],
      g_crypt_table = [None, None, None]\<rparr>"
    unfolding algo_tables_0_def algo_counts by (simp add: numeral_eq_Suc)
  note ids = qboot_cmprs_id_to_index_def qboot_crypto_id_to_index_def algo_id_defs
  have five: "\<not> (5 :: u32) \<le> 1" by (simp add: u32_le_iff)
  have n: "reg_step (qbt_algo_none_register c) (RT_EOK, algo_tables_0) =
    (RT_EOK, \<lparr>g_cmprs_table = [Some (qbt_algo_none_cmprs_ops c), None, None, None, None],
      g_crypt_table = [Some (qbt_algo_none_crypt_ops c), None, None]\<rparr>)"
    by (simp add: reg_step_def qbt_algo_none_register_def qboot_cmprs_register_def
      qboot_crypto_register_def t0 ids qbt_algo_none_cmprs_ops_def
      qbt_algo_none_crypt_ops_def)
  show ?thesis
    unfolding qbot_algo_startup_def n Let_def
    by (cases "using_gzip c"; cases "using_aes c"; cases "using_quicklz c"; cases "using_fastlz c";
        cases "using_hpatchlite c")
      (simp_all add: reg_step_def qboot_cmprs_register_def qboot_crypto_register_def ids five
        qbt_algo_gzip_cmprs_ops_def qbt_algo_aes_crypt_ops_def qbt_algo_quicklz_cmprs_ops_def
        qbt_algo_fastlz_cmprs_ops_def qbt_algo_hpatchlite_cmprs_ops_def)
qed

section \<open>The outcome of the FastLZ handler\<close>

text \<open>
  Over a library that stores no more than its capacity and decodes nothing from a negative length,
  the handler is defined for every block header. A size that wraps around with the length of the
  header passes the test for enough input, but is negative as an \<open>int\<close>.
\<close>

lemma block_wraps:
  assumes "4294967292 \<le> unat (n :: u32)"
  shows "unat (n + 4) < 4" and "sint n < 0"
proof -
  have "unat (n + 4) = (unat n + 4) mod 4294967296" using u32_add_wrap [of n 4] by simp
  also have "\<dots> = unat n + 4 - 4294967296"
  proof -
    have b: "4294967296 \<le> unat n + 4" "unat n + 4 - 4294967296 < 4294967296" using assms u32_less [of n] by linarith+
    show ?thesis unfolding le_mod_geq [OF b(1)] by (rule mod_less [OF b(2)])
  qed
  finally show "unat (n + 4) < 4" using u32_less [of n] by linarith
  have "2147483648 \<le> unat n" using assms by linarith
  then show "sint n < 0" using sint_large [of n] u32_less [of n] by linarith
qed

lemma fastlz_call:
  assumes "length (snd (lib bs (sint n) (sint cap))) \<le> nat (sint cap)" and "nat (sint cap) \<le> length (m out)"
    and "mem_read inp off (nat (sint n)) m = Some bs"
  shows "qbt_fastlz_decompress lib out cap (inp, off) n m = Some (fst (lib bs (sint n) (sint cap)),
    m(out := overwrite 0 (snd (lib bs (sint n) (sint cap))) (m out)))"
  using assms by (simp add: qbt_fastlz_decompress_def mem_write_def)

lemma fastlz_handler_outcome:
  assumes safe: "\<And>bs n c. length (snd (lib bs n c)) \<le> nat c" and neg: "\<And>bs n c. n < 0 \<Longrightarrow> fst (lib bs n c) \<le> 0"
    and inp: "unat (sb_in_len buf) \<le> length (m (sb_in buf))" "length (m (sb_in buf)) < 2147483648"
    and out: "unat (sb_out_len buf) \<le> length (m (sb_out buf))" "length (m (sb_out buf)) < 2147483648"
    and l: "l = unat (sb_in_len buf)" and k: "k = unat (qbt_fastlz_get_block_size (m (sb_in buf)))"
    and r: "r = lib (take k (drop 4 (m (sb_in buf)))) (int k) (int (unat (sb_out_len buf)))"
  obtains e st' m' where "qbt_algo_fastlz_decompress lib buf st ctx m a = Some (e, st', m', a)"
    and "e = RT_ENOSPC \<longleftrightarrow> l < 4 \<or> 0 < k \<and> k < 4294967292 \<and> l < k + 4"
    and "e = RT_EOK \<longleftrightarrow> 0 < k \<and> k + 4 \<le> l \<and> 0 < fst r"
    and "e = RT_EOK \<longrightarrow> unat (consumed st') = k + 4 \<and>
      int (unat (produced st')) = min (fst r) (int (unat (sb_out_len buf))) \<and>
      m' = m(sb_out buf := overwrite 0 (snd r) (m (sb_out buf)))"
    and "e \<noteq> RT_EOK \<longrightarrow> st' = st"
proof (cases "sb_in_len buf < 4")
  case True
  then have "l < 4" by (simp add: l u32_less_iff)
  then show ?thesis by (intro that [of RT_ENOSPC st m]) (use True in \<open>simp_all add: qbt_algo_fastlz_decompress_def\<close>)
next
  case False
  let ?M = "m (sb_in buf)" and ?c = "sb_out_len buf"
  let ?n = "qbt_fastlz_get_block_size ?M"
  note D = qbt_algo_fastlz_decompress_def Let_def
  have l4: "4 \<le> l" using False by (simp add: l u32_less_iff)
  have hdr: "mem_read (sb_in buf) 0 4 m = Some (take 4 ?M)" "qbt_fastlz_get_block_size (take 4 ?M) = ?n"
    using l4 inp(1) by (simp_all add: l mem_read_def block_size_take)
  have cap: "sint ?c = int (unat ?c)" using out by (intro sint_small) linarith
  show ?thesis
  proof (cases "?n = 0")
    case True
    then have "k = 0" by (simp add: k)
    then show ?thesis
      by (intro that [of RT_ERROR st m]) (use False hdr True l4 in \<open>simp_all add: D\<close>)
  next
    case n0: False
    then have k0: "0 < k" by (simp add: k unat_gt_0)
    show ?thesis
    proof (cases "4294967292 \<le> k")
      case True
      note w = block_wraps [of ?n, folded k, OF True]
      have go: "\<not> sb_in_len buf < ?n + 4" using w(1) l4 by (simp add: u32_less_iff flip: l)
      have e0: "mem_read (sb_in buf) 4 (nat (sint ?n)) m = Some []"
        using w(2) l4 inp(1) by (simp add: mem_read_def l)
      have "nat (sint ?c) \<le> length (m (sb_out buf))" using out(1) by (simp add: cap)
      from fastlz_call [where lib = lib and m = m and out = "sb_out buf", OF safe this e0] neg [OF w(2), of "[]" "sint ?c"] show ?thesis
        by (intro that [of RT_ERROR st "m(sb_out buf := overwrite 0 (snd (lib [] (sint ?n) (sint ?c))) (m (sb_out buf)))"])
          (use False hdr n0 go l4 True inp l in \<open>simp_all add: D\<close>)
    next
      case nw: False
      then have u: "unat (?n + 4) = k + 4" unfolding k by (intro trans [OF u32_add]) simp_all
      show ?thesis
      proof (cases "l < k + 4")
        case True
        then have "sb_in_len buf < ?n + 4" by (simp add: u32_less_iff u flip: l)
        with True False hdr n0 nw k0 show ?thesis by (intro that [of RT_ENOSPC st m]) (simp_all add: D)
      next
        case enough: False
        then have go: "\<not> sb_in_len buf < ?n + 4" by (simp add: u32_less_iff u flip: l)
        have "k < 2147483648" using enough inp by (simp add: l)
        then have ks: "sint ?n = int k" by (simp add: k sint_small)
        have rd: "mem_read (sb_in buf) 4 (nat (sint ?n)) m = Some (take k (drop 4 ?M))"
          using enough inp(1) by (simp add: ks mem_read_def l)
        have "nat (sint ?c) \<le> length (m (sb_out buf))" using out(1) by (simp add: cap)
        note call = fastlz_call [where lib = lib and m = m and out = "sb_out buf", OF safe this rd, unfolded ks cap, folded r]
        let ?m = "m(sb_out buf := overwrite 0 (snd r) (m (sb_out buf)))"
        show ?thesis
        proof (cases "fst r \<le> 0")
          case True
          then show ?thesis
            by (intro that [of RT_ERROR st ?m]) (use False hdr n0 go call k0 nw enough l4 in \<open>simp_all add: D\<close>)
        next
          case pos: False
          let ?p = "if fst r > int (unat ?c) then ?c else of_int (fst r)"
          have "int (unat ?p) = min (fst r) (int (unat ?c))"
          proof (cases "fst r > int (unat ?c)")
            case False
            then have r: "0 \<le> fst r" "fst r < 4294967296" using pos u32_less [of ?c] by linarith+
            then have "(of_int (fst r) :: u32) = of_nat (nat (fst r))" "nat (fst r) < 4294967296" by (simp_all add: nat_less_iff)
            then have "unat (of_int (fst r) :: u32) = nat (fst r)" by (metis u32_of_nat)
            then show ?thesis using False r by simp
          qed simp
          then show ?thesis
            by (intro that [of RT_EOK "st\<lparr>consumed := ?n + 4, produced := ?p\<rparr>" ?m])
              (use False hdr n0 go call k0 nw enough l4 pos u in \<open>simp_all add: D\<close>)
        qed
      qed
    qed
  qed
qed

end
