(* ===== verification/Qboot_Stream.thy ===== *)
theory Qboot_Stream
  imports Qboot_Codecs
begin

text \<open>
  The streaming pipeline of \<open>src/qboot_stream.c\<close>: read a package piece by piece, decrypt it
  into the staging buffer, decompress it under an output budget, and hand each chunk to a
  consumer that writes it to the destination or folds it into a CRC. The CRC library is the
  parameter \<open>crc\<close>, its \<open>crc32_cyc_cal\<close>.
\<close>

section \<open>Types\<close>

record ('s, 'a) world =
  w_dev :: 's
  w_mem :: mem
  w_alg :: 'a

record qbt_stream_state_t =
  dst_handle :: handle
  st_raw_pos :: u32
  st_raw_size :: u32

record 'a qbt_stream_cfg_t =
  src_handle :: handle
  cfg_fw_info :: fw_info_t
  algo_ops :: "'a qbt_algo_context_t"
  cmprs_buf :: bufid
  out_buf :: bufid
  crypt_buf :: bufid

text \<open>
  The \<open>void *\<close> context of a stream processor points to a CRC accumulator or to a stream state.
  Reading one as the other is undefined.
\<close>

datatype proc_ctx = Crc_ctx u32 | Write_ctx qbt_stream_state_t

type_synonym crc_fn = "u32 \<Rightarrow> byte list \<Rightarrow> u32"

type_synonym 's consumer = "proc_ctx \<Rightarrow> byte list \<Rightarrow> 's \<Rightarrow> (rt_err \<times> proc_ctx \<times> 's) option"

section \<open>Reading the package\<close>

definition dev_read_to ::
  "'s qboot_io_ops \<Rightarrow> handle \<Rightarrow> u32 \<Rightarrow> bufid \<times> nat \<Rightarrow> u32 \<Rightarrow> ('s, 'a) world \<Rightarrow> (rt_err \<times> ('s, 'a) world) option" where
  "dev_read_to io h off dst len w =
     (case io_read io h off len (w_dev w) of
        (Inl e, s) \<Rightarrow> Some (e, w\<lparr>w_dev := s\<rparr>)
      | (Inr bs, s) \<Rightarrow> do {
          m \<leftarrow> mem_write (fst dst) (snd dst) bs (w_mem w);
          Some (RT_EOK, w\<lparr>w_dev := s, w_mem := m\<rparr>)
        })"

definition qbt_fw_pkg_read ::
  "'s qboot_io_ops \<Rightarrow> handle \<Rightarrow> u32 \<Rightarrow> bufid \<times> nat \<Rightarrow> bufid \<Rightarrow> u32 \<Rightarrow> 'a qbt_algo_context_t \<Rightarrow>
   ('s, 'a) world \<Rightarrow> (bool \<times> ('s, 'a) world) option" where
  "qbt_fw_pkg_read io src src_off out crypt read_len ops w =
     (case crypt_ops ops of
        Some co \<Rightarrow> do {
          (e, w1) \<leftarrow> dev_read_to io src src_off (crypt, 0) read_len w;
          if e \<noteq> RT_EOK then Some (False, w1)
          else do {
            f \<leftarrow> decrypt co;
            (e2, m, a) \<leftarrow> f out (crypt, 0) read_len (w_mem w1) (w_alg w1);
            Some (e2 = RT_EOK, w1\<lparr>w_mem := m, w_alg := a\<rparr>)
          }
        }
      | None \<Rightarrow> do {
          (e, w1) \<leftarrow> dev_read_to io src src_off out read_len w;
          Some (e = RT_EOK, w1)
        })"

section \<open>Consumers\<close>

fun qbt_crc_chunk_consumer :: "crc_fn \<Rightarrow> 's consumer" where
  "qbt_crc_chunk_consumer crc (Crc_ctx acc) buf s = Some (RT_EOK, Crc_ctx (crc acc buf), s)"
| "qbt_crc_chunk_consumer crc (Write_ctx _) buf s = None"

fun qbt_write_chunk_consumer :: "'s qboot_io_ops \<Rightarrow> 's consumer" where
  "qbt_write_chunk_consumer io (Write_ctx state) buf s =
     (case io_write io (dst_handle state) (st_raw_pos state) buf s of
        (e, s1) \<Rightarrow>
          if e \<noteq> RT_EOK then Some (RT_ERROR, Write_ctx state, s1)
          else Some (RT_EOK, Write_ctx (state\<lparr>st_raw_pos := st_raw_pos state + of_nat (length buf)\<rparr>), s1))"
| "qbt_write_chunk_consumer io (Crc_ctx _) buf s = None"

fun set_raw_pos :: "u32 \<Rightarrow> proc_ctx \<Rightarrow> proc_ctx option" where
  "set_raw_pos p (Write_ctx state) = Some (Write_ctx (state\<lparr>st_raw_pos := p\<rparr>))"
| "set_raw_pos p (Crc_ctx _) = None"

section \<open>Decompressing buffered input\<close>

text \<open>
  The locals of \<open>qbt_decompress_with_consumer\<close>: the buffered length, the remaining output
  budget, the status of the last step, the accumulated status, the result, the consumer's
  context and the world.
\<close>

record ('s, 'a) dwc =
  d_len :: u32
  d_rem :: u32
  d_step :: qbt_stream_status_t
  d_out :: qbt_stream_status_t
  d_rst :: rt_err
  d_ctx :: proc_ctx
  d_world :: "('s, 'a) world"

definition dwc_body ::
  "'a decompress_fn \<Rightarrow> 's consumer \<Rightarrow> qbt_stream_buf_t \<Rightarrow> qbt_stream_ctx_t \<Rightarrow> ('s, 'a) dwc \<Rightarrow>
   (('s, 'a) dwc, ('s, 'a) dwc) iter option" where
  "dwc_body dec consumer sb cctx x =
     (if d_rem x = 0 then Some (Stop x)
      else
        let cur_cap = (if d_rem x < sb_out_len sb then d_rem x else sb_out_len sb);
            call_ctx = cctx\<lparr>raw_remaining := d_rem x,
                            ctx_consumed := ctx_consumed cctx + consumed (d_out x)\<rparr>
        in if d_len x = 0 \<and> ctx_consumed call_ctx < total call_ctx then Some (Stop x)
        else do {
          (rst, step, m, a) \<leftarrow>
            dec \<lparr>sb_in = sb_in sb, sb_in_len = d_len x, sb_out = sb_out sb, sb_out_len = cur_cap\<rparr>
                (d_step x) call_ctx (w_mem (d_world x)) (w_alg (d_world x));
          let x1 = x\<lparr>d_rst := rst, d_step := step,
                     d_world := (d_world x)\<lparr>w_mem := m, w_alg := a\<rparr>\<rparr>;
          if rst = RT_ENOSPC then Some (Stop x1)
          else if rst \<noteq> RT_EOK \<or> consumed step > d_len x \<or> produced step > cur_cap
          then Some (Stop x1)
          else if consumed step = 0 \<and> produced step = 0 then Some (Stop x1)
          else do {
            chunk \<leftarrow> mem_read (sb_out sb) 0 (unat (produced step)) m;
            (rst2, ctx2, s2) \<leftarrow> consumer (d_ctx x) chunk (w_dev (d_world x));
            let x2 = x1\<lparr>d_rst := rst2, d_ctx := ctx2, d_world := (d_world x1)\<lparr>w_dev := s2\<rparr>\<rparr>;
            if rst2 \<noteq> RT_EOK then Some (Stop x2)
            else
              let len' = d_len x - consumed step;
                  out' = (d_out x)\<lparr>consumed := consumed (d_out x) + consumed step,
                                   produced := produced (d_out x) + produced step\<rparr>
              in do {
                m3 \<leftarrow> (if len' > 0
                      then do { bs \<leftarrow> mem_read (sb_in sb) (unat (consumed step)) (unat len') m;
                                mem_write (sb_in sb) 0 bs m }
                      else Some m);
                Some (Again (x2\<lparr>d_len := len', d_rem := d_rem x - produced step, d_out := out',
                  d_world := (d_world x2)\<lparr>w_mem := m3\<rparr>\<rparr>))
              }
          }
        })"

definition status_0 :: qbt_stream_status_t where
  "status_0 = \<lparr>consumed = 0, produced = 0, remaining_in = 0\<rparr>"

definition dwc_start :: "qbt_stream_buf_t \<Rightarrow> qbt_stream_ctx_t \<Rightarrow> qbt_stream_status_t \<Rightarrow> proc_ctx \<Rightarrow>
    ('s, 'a) world \<Rightarrow> ('s, 'a) dwc" where
  "dwc_start sb cctx out ctx w =
     \<lparr>d_len = sb_in_len sb, d_rem = raw_remaining cctx, d_step = status_0, d_out = out,
      d_rst = RT_EOK, d_ctx = ctx, d_world = w\<rparr>"

text \<open>The result is the final state: \<open>out\<close> and the buffer's \<open>in_len\<close> are its \<open>d_out\<close> and \<open>d_len\<close>.\<close>

definition qbt_decompress_with_consumer ::
  "'a decompress_fn \<Rightarrow> qbt_stream_buf_t \<Rightarrow> qbt_stream_ctx_t \<Rightarrow> qbt_stream_status_t \<Rightarrow> 's consumer \<Rightarrow>
   proc_ctx \<Rightarrow> ('s, 'a) world \<Rightarrow> ('s, 'a) dwc option" where
  "qbt_decompress_with_consumer dec sb cctx out consumer ctx w =
     do {
       x \<leftarrow> run_loop (dwc_body dec consumer sb cctx) (dwc_start sb cctx out ctx w);
       Some (x\<lparr>d_out := (d_out x)\<lparr>remaining_in := d_len x\<rparr>\<rparr>)
     }"

type_synonym ('s, 'a) stream_proc =
  "'a decompress_fn \<Rightarrow> qbt_stream_buf_t \<Rightarrow> qbt_stream_ctx_t \<Rightarrow> qbt_stream_status_t \<Rightarrow> proc_ctx \<Rightarrow>
   ('s, 'a) world \<Rightarrow> ('s, 'a) dwc option"

definition qbt_stream_crc_proc :: "crc_fn \<Rightarrow> ('s, 'a) stream_proc" where
  "qbt_stream_crc_proc crc dec sb cctx out ctx w =
     qbt_decompress_with_consumer dec sb cctx out (qbt_crc_chunk_consumer crc) ctx w"

text \<open>The percentage the write processor prints is not part of the state.\<close>

definition qbt_stream_write_proc :: "'s qboot_io_ops \<Rightarrow> ('s, 'a) stream_proc" where
  "qbt_stream_write_proc io dec sb cctx out ctx w =
     qbt_decompress_with_consumer dec sb cctx out (qbt_write_chunk_consumer io) ctx w"

section \<open>The stream loop\<close>

text \<open>
  The comparison \<open>rst != -ENOSPC\<close> is with the C library's constant, the handlers return
  RT-Thread's.
\<close>

definition eq_posix_enospc :: "qboot_cfg \<Rightarrow> rt_err \<Rightarrow> bool" where
  "eq_posix_enospc c e \<longleftrightarrow> e = RT_ENOSPC \<and> enospc_is_posix c"

record ('s, 'a) stream_loc =
  l_read_pos :: u32
  l_raw_pos :: u32
  l_len :: u32
  l_ctx :: proc_ctx
  l_world :: "('s, 'a) world"

text \<open>The handler table is complete: \<open>qboot_cmprs_register\<close> refuses one without \<open>decompress\<close>.\<close>

definition dec_of :: "'a qbt_algo_context_t \<Rightarrow> 'a decompress_fn option" where
  "dec_of ctx = (case cmprs_ops ctx of None \<Rightarrow> None | Some co \<Rightarrow> decompress co)"

text \<open>The first half of a pass fetches input: \<open>None\<close> undefined, \<open>False\<close> the error return.\<close>

definition stream_fetch ::
  "qboot_cfg \<Rightarrow> 's qboot_io_ops \<Rightarrow> 'a qbt_stream_cfg_t \<Rightarrow> ('s, 'a) stream_loc \<Rightarrow>
   (bool \<times> ('s, 'a) stream_loc) option" where
  "stream_fetch c io cfg x =
     (let pkg_size = pkg_size (cfg_fw_info cfg) + qboot_src_read_pos c;
          remain_len = sint (pkg_size - l_read_pos x)
      in if remain_len > 0 then
           let read_len = (if int (unat QBOOT_CMPRS_READ_SIZE) > remain_len
                           then of_int remain_len else QBOOT_CMPRS_READ_SIZE)
           in do {
             (ok, w) \<leftarrow> qbt_fw_pkg_read io (src_handle cfg) (l_read_pos x)
                          (cmprs_buf cfg, unat (l_len x)) (crypt_buf cfg) read_len (algo_ops cfg)
                          (l_world x);
             if \<not> ok then Some (False, x\<lparr>l_world := w\<rparr>)
             else Some (True, x\<lparr>l_read_pos := l_read_pos x + read_len,
                               l_len := l_len x + read_len, l_world := w\<rparr>)
           }
         else if remain_len < 0 then Some (False, x)
         else if l_len x = 0 then Some (False, x)
         else Some (True, x))"

definition stream_body ::
  "qboot_cfg \<Rightarrow> 's qboot_io_ops \<Rightarrow> 'a qbt_stream_cfg_t \<Rightarrow> qbt_stream_purpose_t \<Rightarrow> ('s, 'a) stream_proc \<Rightarrow>
   ('s, 'a) stream_loc \<Rightarrow> (('s, 'a) stream_loc, bool \<times> proc_ctx \<times> ('s, 'a) world) iter option" where
  "stream_body c io cfg purp proc x =
     (if \<not> l_raw_pos x < raw_size (cfg_fw_info cfg) then Some (Stop (True, l_ctx x, l_world x))
      else do {
        (ok, y) \<leftarrow> stream_fetch c io cfg x;
        if \<not> ok then Some (Stop (False, l_ctx y, l_world y))
        else
          let cctx = \<lparr>total = pkg_size (cfg_fw_info cfg),
                      ctx_consumed = (l_read_pos y - qboot_src_read_pos c) - l_len y,
                      raw_remaining = raw_size (cfg_fw_info cfg) - l_raw_pos y,
                      purpose = purp\<rparr>;
              sb = \<lparr>sb_in = cmprs_buf cfg, sb_in_len = l_len y, sb_out = out_buf cfg,
                    sb_out_len = QBOOT_BUF_SIZE\<rparr>
          in do {
            ctx \<leftarrow> (if purp = QBT_STREAM_WRITE then set_raw_pos (l_raw_pos y) (l_ctx y)
                   else Some (l_ctx y));
            dec \<leftarrow> dec_of (algo_ops cfg);
            r \<leftarrow> proc dec sb cctx status_0 ctx (l_world y);
            if (d_rst r \<noteq> RT_EOK \<and> \<not> eq_posix_enospc c (d_rst r)) \<or> produced (d_out r) = 0
            then Some (Stop (False, d_ctx r, d_world r))
            else Some (Again (y\<lparr>l_raw_pos := l_raw_pos y + produced (d_out r), l_len := d_len r,
                               l_ctx := d_ctx r, l_world := d_world r\<rparr>))
          }
      })"

definition qbt_fw_stream_process ::
  "qboot_cfg \<Rightarrow> 's qboot_io_ops \<Rightarrow> 'a qbt_stream_cfg_t \<Rightarrow> qbt_stream_purpose_t \<Rightarrow> ('s, 'a) stream_proc \<Rightarrow>
   proc_ctx \<Rightarrow> ('s, 'a) world \<Rightarrow> (bool \<times> proc_ctx \<times> ('s, 'a) world) option" where
  "qbt_fw_stream_process c io cfg purp proc ctx w =
     run_loop (stream_body c io cfg purp proc)
       \<lparr>l_read_pos = qboot_src_read_pos c, l_raw_pos = 0, l_len = 0, l_ctx = ctx, l_world = w\<rparr>"

section \<open>One run of the decompression loop\<close>

text \<open>
  What a consumer keeps: \<open>J n\<close> holds when \<open>n\<close> output bytes have been consumed without an
  error, \<open>F\<close> whatever happened; at most \<open>N\<close> bytes are consumed.
\<close>

definition consumer_ok ::
  "'s consumer \<Rightarrow> (nat \<Rightarrow> proc_ctx \<Rightarrow> 's \<Rightarrow> bool) \<Rightarrow> (proc_ctx \<Rightarrow> 's \<Rightarrow> bool) \<Rightarrow> nat \<Rightarrow> bool" where
  "consumer_ok K J F N \<longleftrightarrow>
     (\<forall>n ctx s. J n ctx s \<longrightarrow> F ctx s) \<and>
     (\<forall>n ctx s bs. J n ctx s \<longrightarrow> n + length bs \<le> N \<longrightarrow>
        (\<exists>e ctx' s'. K ctx bs s = Some (e, ctx', s') \<and> F ctx' s' \<and>
           (e = RT_EOK \<longrightarrow> J (n + length bs) ctx' s') \<and> e \<noteq> RT_ENOSPC))"

lemma consumer_okD:
  assumes "consumer_ok K J F N" and "J n ctx s" and "n + length bs \<le> N"
  obtains e ctx' s' where "K ctx bs s = Some (e, ctx', s')" "F ctx' s'"
    "e = RT_EOK \<Longrightarrow> J (n + length bs) ctx' s'" "e \<noteq> RT_ENOSPC"
  using assms unfolding consumer_ok_def by blast

lemma consumer_ok_fin: "consumer_ok K J F N \<Longrightarrow> J n ctx s \<Longrightarrow> F ctx s"
  unfolding consumer_ok_def by blast

context decompressor
begin

text \<open>Some call has asked for more input on \<open>n\<close> bytes \<open>bs\<close>.\<close>

definition waiting :: "nat \<Rightarrow> byte list \<Rightarrow> bool" where
  "waiting n bs \<longleftrightarrow> (\<exists>buf st ctx m a st' m' a'. dec buf st ctx m a = Some (RT_ENOSPC, st', m', a') \<and>
     unat (sb_in_len buf) = n \<and> take n (m (sb_in buf)) = bs)"

lemma waiting_hold:
  assumes "waiting n bs" and "dec buf st ctx m a = Some (RT_EOK, st', m', a')"
    and "n \<le> unat (sb_in_len buf)" and "take n (m (sb_in buf)) = bs"
  shows "n \<le> unat (consumed st') + 3"
  using assms(1) dec_hold [OF _ assms(2)] assms(3,4) unfolding waiting_def by blast

lemma call_progress:
  assumes "dec buf st ctx m a = Some (RT_EOK, st', m', a')" and "0 < unat (sb_out_len buf)"
  shows "\<not> (consumed st' = 0 \<and> produced st' = 0)" and "unat (consumed st') \<le> unat (sb_in_len buf)"
  using dec_progress [OF assms] dec_consumed [OF assms(1)] by (auto simp: u32_le_iff)

end

definition cap_of :: "u32 \<Rightarrow> qbt_stream_buf_t \<Rightarrow> u32" where
  "cap_of r sb = (if r < sb_out_len sb then r else sb_out_len sb)"

definition dwc_call :: "qbt_stream_buf_t \<Rightarrow> ('s, 'a) dwc \<Rightarrow> qbt_stream_buf_t" where
  "dwc_call sb x = \<lparr>sb_in = sb_in sb, sb_in_len = d_len x, sb_out = sb_out sb,
     sb_out_len = cap_of (d_rem x) sb\<rparr>"

definition dwc_cctx :: "qbt_stream_ctx_t \<Rightarrow> ('s, 'a) dwc \<Rightarrow> qbt_stream_ctx_t" where
  "dwc_cctx cctx x = cctx\<lparr>raw_remaining := d_rem x,
     ctx_consumed := ctx_consumed cctx + consumed (d_out x)\<rparr>"

lemma unat_cap_of: "unat (cap_of r sb) = min (unat r) (unat (sb_out_len sb))"
  by (auto simp: cap_of_def u32_less_iff)

lemma dwc_call_simps [simp]:
  "sb_in (dwc_call sb x) = sb_in sb" "sb_in_len (dwc_call sb x) = d_len x"
  "sb_out (dwc_call sb x) = sb_out sb" "sb_out_len (dwc_call sb x) = cap_of (d_rem x) sb"
  by (simp_all add: dwc_call_def)

text \<open>What moving the rest of the input to the front of its buffer leaves.\<close>

definition compacted :: "bufid \<Rightarrow> nat \<Rightarrow> nat \<Rightarrow> mem \<Rightarrow> mem" where
  "compacted b k n m = (if n > 0 then m(b := overwrite 0 (take n (drop k (m b))) (m b)) else m)"

lemma compacted_props:
  assumes "k + n \<le> length (m b)"
  shows "length (compacted b k n m b') = length (m b')"
    and "take n (compacted b k n m b) = take n (drop k (m b))"
    and "b' \<noteq> b \<Longrightarrow> compacted b k n m b' = m b'"
  using assms by (auto simp: compacted_def overwrite_def)

lemma dwc_body_cases:
  assumes rem: "d_rem x \<noteq> 0" and go: "\<not> (d_len x = 0 \<and> ctx_consumed (dwc_cctx cctx x) < total cctx)"
    and call: "dec (dwc_call sb x) (d_step x) (dwc_cctx cctx x) (w_mem (d_world x)) (w_alg (d_world x)) =
      Some (e, step, m, a)"
  shows "e = RT_ENOSPC \<or> e \<noteq> RT_EOK \<or> consumed step > d_len x \<or> produced step > cap_of (d_rem x) sb \<or>
      (consumed step = 0 \<and> produced step = 0) \<Longrightarrow>
    dwc_body dec K sb cctx x = Some (Stop (x\<lparr>d_rst := e, d_step := step,
      d_world := (d_world x)\<lparr>w_mem := m, w_alg := a\<rparr>\<rparr>))"
    and "e = RT_EOK \<Longrightarrow> unat (consumed step) \<le> unat (d_len x) \<Longrightarrow>
      unat (produced step) \<le> unat (cap_of (d_rem x) sb) \<Longrightarrow>
      \<not> (consumed step = 0 \<and> produced step = 0) \<Longrightarrow>
      unat (produced step) \<le> length (m (sb_out sb)) \<Longrightarrow>
      unat (d_len x) \<le> length (m (sb_in sb)) \<Longrightarrow>
      K (d_ctx x) (take (unat (produced step)) (m (sb_out sb))) (w_dev (d_world x)) = Some (e2, ctx2, s2) \<Longrightarrow>
      dwc_body dec K sb cctx x =
        Some (if e2 \<noteq> RT_EOK
              then Stop (x\<lparr>d_rst := e2, d_step := step, d_ctx := ctx2,
                     d_world := (d_world x)\<lparr>w_mem := m, w_alg := a, w_dev := s2\<rparr>\<rparr>)
              else Again (x\<lparr>d_rst := e2, d_step := step, d_ctx := ctx2,
                     d_len := d_len x - consumed step, d_rem := d_rem x - produced step,
                     d_out := (d_out x)\<lparr>consumed := consumed (d_out x) + consumed step,
                                        produced := produced (d_out x) + produced step\<rparr>,
                     d_world := (d_world x)\<lparr>w_alg := a, w_dev := s2,
                       w_mem := compacted (sb_in sb) (unat (consumed step))
                                  (unat (d_len x) - unat (consumed step)) m\<rparr>\<rparr>))"
proof -
  have call': "dec \<lparr>sb_in = sb_in sb, sb_in_len = d_len x, sb_out = sb_out sb,
      sb_out_len = (if d_rem x < sb_out_len sb then d_rem x else sb_out_len sb)\<rparr> (d_step x)
      (cctx\<lparr>raw_remaining := d_rem x, ctx_consumed := ctx_consumed cctx + consumed (d_out x)\<rparr>)
      (w_mem (d_world x)) (w_alg (d_world x)) = Some (e, step, m, a)"
    using call by (simp add: dwc_call_def dwc_cctx_def cap_of_def)
  have go': "\<not> (d_len x = 0 \<and> ctx_consumed cctx + consumed (d_out x) < total cctx)"
    using go by (simp add: dwc_cctx_def)
  show "dwc_body dec K sb cctx x = Some (Stop (x\<lparr>d_rst := e, d_step := step,
      d_world := (d_world x)\<lparr>w_mem := m, w_alg := a\<rparr>\<rparr>))"
    if "e = RT_ENOSPC \<or> e \<noteq> RT_EOK \<or> consumed step > d_len x \<or> produced step > cap_of (d_rem x) sb \<or>
      (consumed step = 0 \<and> produced step = 0)"
    using that rem go' unfolding dwc_body_def Let_def call' by (auto simp: cap_of_def)
  assume ok: "e = RT_EOK" and c: "unat (consumed step) \<le> unat (d_len x)"
    and p: "unat (produced step) \<le> unat (cap_of (d_rem x) sb)"
    and pr: "\<not> (consumed step = 0 \<and> produced step = 0)"
    and o: "unat (produced step) \<le> length (m (sb_out sb))"
    and i: "unat (d_len x) \<le> length (m (sb_in sb))"
    and K: "K (d_ctx x) (take (unat (produced step)) (m (sb_out sb))) (w_dev (d_world x)) = Some (e2, ctx2, s2)"
  have len': "unat (d_len x - consumed step) = unat (d_len x) - unat (consumed step)"
    using c by (rule u32_sub)
  have mv: "(if 0 < d_len x - consumed step then mem_read (sb_in sb) (unat (consumed step))
        (unat (d_len x - consumed step)) m \<bind> (\<lambda>bs. mem_write (sb_in sb) 0 bs m) else Some m) =
      Some (compacted (sb_in sb) (unat (consumed step)) (unat (d_len x) - unat (consumed step)) m)"
    using c i len' by (auto simp: compacted_def mem_read_def mem_write_def u32_less_iff)
  have p': "\<not> (if d_rem x < sb_out_len sb then d_rem x else sb_out_len sb) < produced step"
    using p by (simp add: cap_of_def u32_less_iff not_less)
  have c': "\<not> d_len x < consumed step" using c by (simp add: u32_less_iff)
  have f1: "(d_len x = 0 \<and> ctx_consumed cctx + consumed (d_out x) < total cctx) = False"
    and f2: "(consumed step = 0 \<and> produced step = 0) = False"
    using go' pr by blast+
  have rd: "mem_read (sb_out sb) 0 (unat (produced step)) m =
      Some (take (unat (produced step)) (m (sb_out sb)))"
    using o by (simp add: mem_read_def)
  show "dwc_body dec K sb cctx x =
        Some (if e2 \<noteq> RT_EOK
              then Stop (x\<lparr>d_rst := e2, d_step := step, d_ctx := ctx2,
                     d_world := (d_world x)\<lparr>w_mem := m, w_alg := a, w_dev := s2\<rparr>\<rparr>)
              else Again (x\<lparr>d_rst := e2, d_step := step, d_ctx := ctx2,
                     d_len := d_len x - consumed step, d_rem := d_rem x - produced step,
                     d_out := (d_out x)\<lparr>consumed := consumed (d_out x) + consumed step,
                                        produced := produced (d_out x) + produced step\<rparr>,
                     d_world := (d_world x)\<lparr>w_alg := a, w_dev := s2,
                       w_mem := compacted (sb_in sb) (unat (consumed step))
                                  (unat (d_len x) - unat (consumed step)) m\<rparr>\<rparr>))"
    using rem ok p' c' K mv unfolding dwc_body_def Let_def call'
    by (simp add: rd f1 f2)
qed

text \<open>
  The invariant of the loop and what holds when it stops. \<open>n0\<close> bytes were consumed before;
  \<open>x0\<close> is the state the loop starts with.
\<close>

context decompressor
begin

definition takes_all :: bool where
  "takes_all \<longleftrightarrow> (\<forall>buf st ctx m a st' m' a'. dec buf st ctx m a = Some (RT_EOK, st', m', a') \<longrightarrow>
     consumed st' = sb_in_len buf)"

lemma shape: "takes_all \<or> (dec buf st ctx m a = Some (RT_EOK, st', m', a') \<longrightarrow> produced st' \<le> sb_out_len buf)"
  using dec_shape unfolding takes_all_def by blast

text \<open>The first call succeeded and took its share of the input.\<close>

definition first_call :: "qbt_stream_buf_t \<Rightarrow> qbt_stream_ctx_t \<Rightarrow> ('s, 'a) dwc \<Rightarrow> u32 \<Rightarrow> bool" where
  "first_call sb cctx x0 n \<longleftrightarrow>
     (\<exists>st m a. dec (dwc_call sb x0) (d_step x0) (dwc_cctx cctx x0) (w_mem (d_world x0)) (w_alg (d_world x0)) =
        Some (RT_EOK, st, m, a) \<and> unat n + unat (consumed st) \<le> unat (d_len x0))"

definition dwc_inv ::
  "qbt_stream_buf_t \<Rightarrow> qbt_stream_ctx_t \<Rightarrow> (nat \<Rightarrow> proc_ctx \<Rightarrow> 's \<Rightarrow> bool) \<Rightarrow> nat \<Rightarrow> ('s, 'a) dwc \<Rightarrow>
   ('s, 'a) dwc \<Rightarrow> bool" where
  "dwc_inv sb cctx J n0 x0 x \<longleftrightarrow>
     (\<forall>b. length (w_mem (d_world x) b) = length (w_mem (d_world x0) b)) \<and>
     unat (produced (d_out x)) + unat (d_rem x) = unat (d_rem x0) \<and>
     unat (d_len x) \<le> unat (d_len x0) \<and>
     J (n0 + unat (produced (d_out x))) (d_ctx x) (w_dev (d_world x)) \<and>
     d_rst x = RT_EOK \<and>
     (x = x0 \<or> (first_call sb cctx x0 (d_len x) \<and> (takes_all \<longrightarrow> d_len x = 0)))"

definition dwc_post ::
  "qbt_stream_buf_t \<Rightarrow> qbt_stream_ctx_t \<Rightarrow> (nat \<Rightarrow> proc_ctx \<Rightarrow> 's \<Rightarrow> bool) \<Rightarrow> (proc_ctx \<Rightarrow> 's \<Rightarrow> bool) \<Rightarrow>
   nat \<Rightarrow> ('s, 'a) dwc \<Rightarrow> ('s, 'a) dwc \<Rightarrow> bool" where
  "dwc_post sb cctx J F n0 x0 r \<longleftrightarrow>
     (\<forall>b. length (w_mem (d_world r) b) = length (w_mem (d_world x0) b)) \<and>
     unat (produced (d_out r)) + unat (d_rem r) = unat (d_rem x0) \<and>
     unat (d_len r) \<le> unat (d_len x0) \<and>
     F (d_ctx r) (w_dev (d_world r)) \<and>
     (d_rst r = RT_EOK \<or> d_rst r = RT_ENOSPC \<longrightarrow>
        J (n0 + unat (produced (d_out r))) (d_ctx r) (w_dev (d_world r))) \<and>
     (0 < unat (produced (d_out r)) \<longrightarrow> first_call sb cctx x0 (d_len r) \<and>
        (d_rst r = RT_EOK \<or> d_rst r = RT_ENOSPC \<longrightarrow>
           d_rem r = 0 \<or> d_len r = 0 \<or>
           (blocky \<and> waiting (unat (d_len r)) (take (unat (d_len r)) (w_mem (d_world r) (sb_in sb))))))"


lemma dwc_step:
  assumes K: "consumer_ok K J F N" and N: "n0 + unat (d_rem x0) \<le> N"
    and x0: "produced (d_out x0) = 0"
    and cap: "0 < unat (sb_out_len sb)" "unat (sb_out_len sb) \<le> length (w_mem (d_world x0) (sb_out sb))"
    and len: "unat (d_len x0) \<le> length (w_mem (d_world x0) (sb_in sb))"
    and sep: "blocky \<Longrightarrow> sb_in sb \<noteq> sb_out sb"
    and I: "dwc_inv sb cctx J n0 x0 x"
  shows "(dwc_body dec K sb cctx x = None \<and> \<not> safe_dec dec) \<or>
    (\<exists>r. dwc_body dec K sb cctx x = Some (Stop r) \<and> dwc_post sb cctx J F n0 x0 r) \<or>
    (\<exists>y. dwc_body dec K sb cctx x = Some (Again y) \<and> dwc_inv sb cctx J n0 x0 y \<and>
       unat (d_rem y) + unat (d_len y) < unat (d_rem x) + unat (d_len x))"
proof -
  note i = I [unfolded dwc_inv_def]
  let ?w = "d_world x"
  have F: "F (d_ctx x) (w_dev ?w)" using i consumer_ok_fin [OF K] by blast
  have stop: "dwc_post sb cctx J F n0 x0 x" if "d_rem x = 0 \<or> d_len x = 0"
    using i F that x0 unfolding dwc_post_def by auto
  show ?thesis
  proof (cases "d_rem x = 0 \<or> (d_len x = 0 \<and> ctx_consumed (dwc_cctx cctx x) < total cctx)")
    case True
    then have "dwc_body dec K sb cctx x = Some (Stop x)"
      by (auto simp: dwc_body_def Let_def dwc_cctx_def)
    with stop True show ?thesis by blast
  next
    case False
    then have rem: "d_rem x \<noteq> 0"
      and go: "\<not> (d_len x = 0 \<and> ctx_consumed (dwc_cctx cctx x) < total cctx)" by auto
    have cpos: "0 < unat (cap_of (d_rem x) sb)"
      using rem cap by (auto simp: unat_cap_of unat_gt_0)
    have bounds: "unat (sb_in_len (dwc_call sb x)) \<le> length (w_mem ?w (sb_in (dwc_call sb x)))"
      "unat (sb_out_len (dwc_call sb x)) \<le> length (w_mem ?w (sb_out (dwc_call sb x)))"
      using i len cap by (simp_all add: unat_cap_of)
    show ?thesis
    proof (cases "dec (dwc_call sb x) (d_step x) (dwc_cctx cctx x) (w_mem ?w) (w_alg ?w)")
      case None
      with bounds have "\<not> safe_dec dec" unfolding safe_dec_def by blast
      with None rem go show ?thesis
        by (auto simp: dwc_body_def Let_def dwc_call_def dwc_cctx_def cap_of_def)
    next
      case (Some r)
    obtain e step m a where r: "r = (e, step, m, a)" by (metis prod_cases4)
    note call = Some [unfolded r]
    note cases = dwc_body_cases [where dec = dec and K = K and sb = sb, OF rem go call]
    have ml: "length (m b) = length (w_mem ?w b)" for b using call by (rule dec_length)
    let ?s = "x\<lparr>d_rst := e, d_step := step, d_world := ?w\<lparr>w_mem := m, w_alg := a\<rparr>\<rparr>"
    show ?thesis
    proof (cases "e = RT_EOK \<and> produced step \<le> cap_of (d_rem x) sb")
      case no: False
      have b: "dwc_body dec K sb cctx x = Some (Stop ?s)"
        using cases(1) no by (auto simp: not_le)
      have fc: "first_call sb cctx x0 (d_len x)" "takes_all \<longrightarrow> d_len x = 0"
        if "0 < unat (produced (d_out x))" using i that x0 by auto
      have held: "d_rem x = 0 \<or> d_len x = 0 \<or> (blocky \<and> waiting (unat (d_len x)) (take (unat (d_len x)) (m (sb_in sb))))"
        if pos: "0 < unat (produced (d_out x))" and e: "e = RT_EOK \<or> e = RT_ENOSPC"
      proof (cases "e = RT_ENOSPC")
        case True
        have "waiting (unat (d_len x)) (take (unat (d_len x)) (w_mem ?w (sb_in sb)))"
          using call True unfolding waiting_def by force
        moreover have "m (sb_in sb) = w_mem ?w (sb_in sb)" if blocky
          using dec_frame [OF call] sep that by simp
        ultimately show ?thesis
          using dec_wait [OF call [unfolded True]] by (cases blocky) auto
      next
        case False
        with e no call have "takes_all" using shape by (metis dwc_call_simps(4))
        with fc(2) pos show ?thesis by simp
      qed
      have "dwc_post sb cctx J F n0 x0 ?s"
        using i F fc held ml unfolding dwc_post_def by auto
      with b show ?thesis by blast
    next
      case ok: True
      then have ok1: "e = RT_EOK" and p: "unat (produced step) \<le> unat (cap_of (d_rem x) sb)"
        by (auto simp: u32_le_iff)
      note call' = call [unfolded ok1]
      have c: "unat (consumed step) \<le> unat (d_len x)" and pr: "\<not> (consumed step = 0 \<and> produced step = 0)"
        using call_progress [OF call'] cpos by auto
      have o: "unat (produced step) \<le> length (m (sb_out sb))"
        using p i cap ml by (simp add: unat_cap_of)
      have il: "unat (d_len x) \<le> length (m (sb_in sb))" using i len ml by simp
      let ?chunk = "take (unat (produced step)) (m (sb_out sb))"
      have lc: "length ?chunk = unat (produced step)" using o by simp
      have prem: "unat (produced step) \<le> unat (d_rem x)" using p by (simp add: unat_cap_of)
      have Jx: "J (n0 + unat (produced (d_out x))) (d_ctx x) (w_dev ?w)" using i by blast
      have "n0 + unat (produced (d_out x)) + length ?chunk \<le> N"
        using N i prem lc by linarith
      from consumer_okD [OF K Jx this] obtain e2 ctx2 s2 where
        k: "K (d_ctx x) ?chunk (w_dev ?w) = Some (e2, ctx2, s2)" "F ctx2 s2"
        "e2 = RT_EOK \<Longrightarrow> J (n0 + unat (produced (d_out x)) + unat (produced step)) ctx2 s2"
        "e2 \<noteq> RT_ENOSPC"
        unfolding lc by blast
      note body = cases(2) [OF ok1 c p pr o il k(1)]
      have fcx: "first_call sb cctx x0 n" if "unat n + unat (consumed step) \<le> unat (d_len x)" for n
      proof (cases "x = x0")
        case True
        with call' that show ?thesis unfolding first_call_def by blast
      next
        case False
        with i have "first_call sb cctx x0 (d_len x)" by blast
        with that show ?thesis unfolding first_call_def by (auto intro: order_trans [rotated])
      qed
      show ?thesis
      proof (cases "e2 = RT_EOK")
        case False
        have fcd: "0 < unat (produced (d_out x)) \<Longrightarrow> first_call sb cctx x0 (d_len x)" using i x0 by auto
        have "dwc_post sb cctx J F n0 x0 (x\<lparr>d_rst := e2, d_step := step, d_ctx := ctx2,
            d_world := ?w\<lparr>w_mem := m, w_alg := a, w_dev := s2\<rparr>\<rparr>)"
          using i k(2,4) False ml fcd unfolding dwc_post_def by simp
        with body False show ?thesis by auto
      next
        case True
        let ?len = "d_len x - consumed step" and ?rem = "d_rem x - produced step"
        let ?m = "compacted (sb_in sb) (unat (consumed step)) (unat (d_len x) - unat (consumed step)) m"
        have len': "unat ?len = unat (d_len x) - unat (consumed step)" using c by (rule u32_sub)
        have rem': "unat ?rem = unat (d_rem x) - unat (produced step)" using prem by (rule u32_sub)
        have out': "unat (produced (d_out x) + produced step) = unat (produced (d_out x)) + unat (produced step)"
          using i prem u32_less [of "d_rem x0"] by (intro u32_add) linarith
        have ml': "length (?m b) = length (w_mem (d_world x0) b)" for b
          using compacted_props(1) [of "unat (consumed step)" "unat (d_len x) - unat (consumed step)" m "sb_in sb" b]
            il c ml i by simp
        have ta: "?len = 0" if takes_all using call' that unfolding takes_all_def by fastforce
        have ll: "unat ?len \<le> unat (d_len x0)" using len' i by linarith
        have fcl: "first_call sb cctx x0 ?len" using len' c by (intro fcx) simp
        have sum: "unat (produced (d_out x) + produced step) + unat ?rem = unat (d_rem x0)"
          using i out' rem' prem by linarith
        have Jn: "J (n0 + unat (produced (d_out x) + produced step)) ctx2 s2"
          using k(3) [OF True] out' by (simp add: add.assoc)
        have "dwc_inv sb cctx J n0 x0 (x\<lparr>d_rst := e2, d_step := step, d_ctx := ctx2,
            d_len := ?len, d_rem := ?rem,
            d_out := (d_out x)\<lparr>consumed := consumed (d_out x) + consumed step,
                               produced := produced (d_out x) + produced step\<rparr>,
            d_world := ?w\<lparr>w_alg := a, w_dev := s2, w_mem := ?m\<rparr>\<rparr>)"
          unfolding dwc_inv_def
        proof (intro conjI disjI2 allI impI, goal_cases)
          case (1 b)
          show ?case using ml' [of b] by simp
        next
          case 2
          show ?case using sum by simp
        next
          case 3
          show ?case using ll by simp
        next
          case 4
          show ?case using Jn by simp
        next
          case 5
          show ?case using True by simp
        next
          case 6
          show ?case using fcl by simp
        next
          case 7
          show ?case using ta [OF 7] by simp
        qed
        moreover have "unat ?rem + unat ?len < unat (d_rem x) + unat (d_len x)"
        proof -
          have "0 < unat (consumed step) \<or> 0 < unat (produced step)"
            using pr by (simp add: unat_gt_0)
          with c prem show ?thesis unfolding len' rem' by linarith
        qed
        ultimately show ?thesis using body True by auto
      qed
    qed
    qed
  qed
qed

text \<open>The loop ends, without leaving a buffer, and reports what it has left.\<close>

lemma dwc_total:
  fixes w :: "('s, 'a) world"
  assumes K: "consumer_ok K J F N" and N: "n0 + unat (raw_remaining cctx) \<le> N"
    and cap: "0 < unat (sb_out_len sb)" "unat (sb_out_len sb) \<le> length (w_mem w (sb_out sb))"
    and len: "unat (sb_in_len sb) \<le> length (w_mem w (sb_in sb))"
    and sep: "blocky \<Longrightarrow> sb_in sb \<noteq> sb_out sb"
    and J0: "J n0 ctx (w_dev w)"
  shows "(qbt_decompress_with_consumer dec sb cctx status_0 K ctx w = None \<and> \<not> safe_dec dec) \<or>
    (\<exists>r. qbt_decompress_with_consumer dec sb cctx status_0 K ctx w = Some r \<and>
      dwc_post sb cctx J F n0 (dwc_start sb cctx status_0 ctx w) r)"
proof -
  let ?x0 = "dwc_start sb cctx status_0 ctx w"
  have I0: "dwc_inv sb cctx J n0 ?x0 ?x0"
    using J0 by (simp add: dwc_inv_def dwc_start_def status_0_def)
  have "(run_loop (dwc_body dec K sb cctx) ?x0 = None \<and> \<not> safe_dec dec) \<or>
    (\<exists>r. run_loop (dwc_body dec K sb cctx) ?x0 = Some r \<and> dwc_post sb cctx J F n0 ?x0 r)"
  proof (rule run_loop_spec [where I = "dwc_inv sb cctx J n0 ?x0" and
        m = "\<lambda>x. unat (d_rem x) + unat (d_len x)", OF I0])
    fix x assume I: "dwc_inv sb cctx J n0 ?x0 x"
    show "(dwc_body dec K sb cctx x = None \<and> \<not> safe_dec dec) \<or>
      (\<exists>r. dwc_body dec K sb cctx x = Some (Stop r) \<and> dwc_post sb cctx J F n0 ?x0 r) \<or>
      (\<exists>y. dwc_body dec K sb cctx x = Some (Again y) \<and> dwc_inv sb cctx J n0 ?x0 y \<and>
         unat (d_rem y) + unat (d_len y) < unat (d_rem x) + unat (d_len x))"
      by (rule dwc_step [OF K _ _ _ _ _ sep I])
        (use N cap len in \<open>simp_all add: dwc_start_def status_0_def\<close>)
  qed
  then show ?thesis
    unfolding qbt_decompress_with_consumer_def by (auto simp: dwc_post_def)
qed

end

section \<open>One run of the stream\<close>

abbreviation "proc_of K \<equiv> (\<lambda>dec sb cctx out ctx w. qbt_decompress_with_consumer dec sb cctx out K ctx w)"

text \<open>The stream's handlers and buffers, as \<open>stream_cfg_of\<close> sets them up.\<close>

locale staged_cfg =
  fixes dec :: "'a decompress_fn" and f :: "'a decrypt_fn" and c :: qboot_cfg and cfg :: "'a qbt_stream_cfg_t"
  assumes cfg_dec: "dec_of (algo_ops cfg) = Some dec"
    and cfg_crypt: "\<exists>co. crypt_ops (algo_ops cfg) = Some co \<and> decrypt co = Some f"
    and cfg_bufs: "cmprs_buf cfg = B_CMPRS" "out_buf cfg = g_crypt_buf c" "crypt_buf cfg = g_crypt_buf c"
begin

definition sb_of :: "u32 \<Rightarrow> qbt_stream_buf_t" where
  "sb_of n = \<lparr>sb_in = cmprs_buf cfg, sb_in_len = n, sb_out = out_buf cfg, sb_out_len = QBOOT_BUF_SIZE\<rparr>"

lemma sb_of_simps [simp]:
  "sb_in (sb_of n) = B_CMPRS" "sb_in_len (sb_of n) = n" "sb_out (sb_of n) = g_crypt_buf c"
  "unat (sb_out_len (sb_of n)) = 4096"
  by (simp_all add: sb_of_def cfg_bufs buf_sizes)

end

locale stream_env = storage io view + decompressor dec blocky + cipher f + staged_cfg dec f c cfg
  for io :: "'s qboot_io_ops" and view :: "'s \<Rightarrow> handle \<Rightarrow> dev_view"
    and dec :: "'a decompress_fn" and blocky :: bool and f :: "'a decrypt_fn" and c and cfg +
  assumes blocky_cfg: "blocky \<Longrightarrow> using_quicklz c \<or> using_fastlz c"
begin

text \<open>
  A consumer for this stream: as \<open>consumer_ok\<close> asks; what it keeps depends on the device's view
  only, keeps the source open, and survives the reset of the write position.
\<close>

definition stream_consumer ::
  "qbt_stream_purpose_t \<Rightarrow> 's consumer \<Rightarrow> (nat \<Rightarrow> proc_ctx \<Rightarrow> 's \<Rightarrow> bool) \<Rightarrow> (proc_ctx \<Rightarrow> 's \<Rightarrow> bool) \<Rightarrow> bool" where
  "stream_consumer purp K J F \<longleftrightarrow>
     consumer_ok K J F (unat (raw_size (cfg_fw_info cfg))) \<and>
     (\<forall>n ctx s. J n ctx s \<longrightarrow> v_open (view s (src_handle cfg))) \<and>
     (\<forall>n ctx s s'. J n ctx s \<longrightarrow> view s' = view s \<longrightarrow> J n ctx s') \<and>
     (purp = QBT_STREAM_WRITE \<longrightarrow> (\<forall>n ctx s. J n ctx s \<longrightarrow>
        (\<exists>ctx'. set_raw_pos (of_nat n) ctx = Some ctx' \<and> J n ctx' s)))"

definition held :: "u32 \<Rightarrow> mem \<Rightarrow> bool" where
  "held n m \<longleftrightarrow> n = 0 \<or>
     (blocky \<and> unat n \<le> 4099 \<and> waiting (unat n) (take (unat n) (m B_CMPRS)))"

definition stream_inv :: "(nat \<Rightarrow> proc_ctx \<Rightarrow> 's \<Rightarrow> bool) \<Rightarrow> ('s, 'a) stream_loc \<Rightarrow> bool" where
  "stream_inv J x \<longleftrightarrow>
     wf_mem c (w_mem (l_world x)) \<and> l_raw_pos x \<le> raw_size (cfg_fw_info cfg) \<and>
     J (unat (l_raw_pos x)) (l_ctx x) (w_dev (l_world x)) \<and>
     (l_raw_pos x < raw_size (cfg_fw_info cfg) \<longrightarrow> held (l_len x) (w_mem (l_world x)))"

lemma blocky_sep: "blocky \<Longrightarrow> g_crypt_buf c \<noteq> B_CMPRS"
  using blocky_cfg by (auto simp: g_crypt_buf_def using_compression_def)

lemma room: "wf_mem c m \<Longrightarrow> (held n m \<longrightarrow> unat n + 4096 \<le> length (m B_CMPRS)) \<and>
    4096 \<le> length (m (g_crypt_buf c))"
  using blocky_cfg by (auto simp: wf_mem_def held_def g_crypt_buf_def buf_sizes)

lemma pkg_read:
  assumes wf: "wf_mem c (w_mem w)" and h: "held n (w_mem w)" and len: "unat len \<le> 4096"
    and o: "v_open (view (w_dev w) (src_handle cfg))"
  obtains ok w' where
    "qbt_fw_pkg_read io (src_handle cfg) off (cmprs_buf cfg, unat n) (crypt_buf cfg) len (algo_ops cfg) w =
      Some (ok, w')"
    "view (w_dev w') = view (w_dev w)" "wf_mem c (w_mem w')"
    "blocky \<Longrightarrow> take (unat n) (w_mem w' B_CMPRS) = take (unat n) (w_mem w B_CMPRS)"
proof -
  obtain co where co: "crypt_ops (algo_ops cfg) = Some co" "decrypt co = Some f" using cfg_crypt by blast
  obtain r s where rd: "io_read io (src_handle cfg) off len (w_dev w) = (r, s)" by fastforce
  have vs: "view s = view (w_dev w)" using read_view [OF o rd] .
  have rm: "unat n + unat len \<le> length (w_mem w B_CMPRS)" "unat len \<le> length (w_mem w (g_crypt_buf c))"
    using room [OF wf, of n] h len by linarith+
  show ?thesis
  proof (cases r)
    case (Inl e)
    show ?thesis
    proof (cases "e = RT_EOK")
      case False
      with that [of False "w\<lparr>w_dev := s\<rparr>"] Inl rd vs wf co show ?thesis
        by (simp add: qbt_fw_pkg_read_def dev_read_to_def cfg_bufs)
    next
      case True
      have "\<exists>r. f (B_CMPRS, unat n) (g_crypt_buf c, 0) len (w_mem w) (w_alg w) = Some r"
        by (rule cipher_safe) (use rm in simp_all)
      then obtain e2 m a where f: "f (B_CMPRS, unat n) (g_crypt_buf c, 0) len (w_mem w) (w_alg w) = Some (e2, m, a)"
        by (metis prod_cases3)
      have "take (unat n) (m B_CMPRS) = take (unat n) (w_mem w B_CMPRS)"
        using cipher_prefix [OF f] rm by simp
      moreover have "wf_mem c m" using wf cipher_length [OF f] wf_mem_lengths by metis
      ultimately show ?thesis
        using that [of "e2 = RT_EOK" "w\<lparr>w_dev := s, w_mem := m, w_alg := a\<rparr>"] Inl True rd vs co f
        by (simp add: qbt_fw_pkg_read_def dev_read_to_def cfg_bufs)
    qed
  next
    case (Inr bs)
    have lb: "length bs = unat len" using read_data [OF o rd [unfolded Inr]] by simp
    let ?m1 = "(w_mem w)(g_crypt_buf c := overwrite 0 bs (w_mem w (g_crypt_buf c)))"
    have w1: "mem_write (g_crypt_buf c) 0 bs (w_mem w) = Some ?m1"
      using rm lb by (simp add: mem_write_def)
    have l1: "length (?m1 b) = length (w_mem w b)" for b using mem_write_length [OF w1] .
    have "\<exists>r. f (B_CMPRS, unat n) (g_crypt_buf c, 0) len ?m1 (w_alg w) = Some r"
      by (rule cipher_safe) (use rm l1 [of B_CMPRS] l1 [of "g_crypt_buf c"] in \<open>simp_all del: fun_upd_apply\<close>)
    then obtain e2 m a where f: "f (B_CMPRS, unat n) (g_crypt_buf c, 0) len ?m1 (w_alg w) = Some (e2, m, a)"
      by (metis prod_cases3)
    have "take (unat n) (m B_CMPRS) = take (unat n) (?m1 B_CMPRS)"
      using cipher_prefix [OF f] rm l1 [of B_CMPRS] by (simp del: fun_upd_apply)
    moreover have "blocky \<Longrightarrow> ?m1 B_CMPRS = w_mem w B_CMPRS" using blocky_sep by auto
    moreover have "wf_mem c m" using wf cipher_length [OF f] l1 wf_mem_lengths by metis
    ultimately show ?thesis
      using that [of "e2 = RT_EOK" "w\<lparr>w_dev := s, w_mem := m, w_alg := a\<rparr>"] Inr rd vs co f w1
      by (simp add: qbt_fw_pkg_read_def dev_read_to_def cfg_bufs)
  qed
qed

text \<open>A fetch leaves room for what it brings and keeps the bytes held back in front.\<close>

lemma fetch:
  assumes wf: "wf_mem c (w_mem (l_world x))" and h: "held (l_len x) (w_mem (l_world x))"
    and o: "v_open (view (w_dev (l_world x)) (src_handle cfg))"
  obtains ok y where "stream_fetch c io cfg x = Some (ok, y)"
    "view (w_dev (l_world y)) = view (w_dev (l_world x))" "wf_mem c (w_mem (l_world y))"
    "l_ctx y = l_ctx x" "l_raw_pos y = l_raw_pos x"
    "blocky \<Longrightarrow> take (unat (l_len x)) (w_mem (l_world y) B_CMPRS) =
      take (unat (l_len x)) (w_mem (l_world x) B_CMPRS)"
    "unat (l_len x) \<le> unat (l_len y)" "unat (l_len y) \<le> unat (l_len x) + 4096"
proof -
  let ?rl = "sint (pkg_size (cfg_fw_info cfg) + qboot_src_read_pos c - l_read_pos x)"
  let ?n = "if int (unat QBOOT_CMPRS_READ_SIZE) > ?rl then of_int ?rl else QBOOT_CMPRS_READ_SIZE"
  show ?thesis
  proof (cases "0 < ?rl")
    case True
    have n: "unat ?n \<le> 4096"
    proof (cases "?rl < 4096")
      case lt: True
      have "(of_int ?rl :: u32) = of_nat (nat ?rl)" using True by simp
      moreover have "unat (of_nat (nat ?rl) :: u32) = nat ?rl" using lt by (intro u32_of_nat) linarith
      ultimately show ?thesis using lt by (simp add: buf_sizes)
    qed (simp add: buf_sizes)
    from pkg_read [OF wf h n o, of "l_read_pos x"] obtain ok w' where r:
      "qbt_fw_pkg_read io (src_handle cfg) (l_read_pos x) (cmprs_buf cfg, unat (l_len x)) (crypt_buf cfg)
        ?n (algo_ops cfg) (l_world x) = Some (ok, w')"
      "view (w_dev w') = view (w_dev (l_world x))" "wf_mem c (w_mem w')"
      "blocky \<Longrightarrow> take (unat (l_len x)) (w_mem w' B_CMPRS) = take (unat (l_len x)) (w_mem (l_world x) B_CMPRS)"
      by metis
    have "unat (l_len x) \<le> 4099" using h by (auto simp: held_def)
    with n have "unat (l_len x + ?n) = unat (l_len x) + unat ?n" by (intro u32_add) linarith
    with n r True show ?thesis
      using that [of ok "if ok then x\<lparr>l_read_pos := l_read_pos x + ?n, l_len := l_len x + ?n, l_world := w'\<rparr>
        else x\<lparr>l_world := w'\<rparr>"]
      by (simp add: stream_fetch_def Let_def)
  next
    case False
    with wf that [of "\<not> ?rl < 0 \<and> l_len x \<noteq> 0" x] show ?thesis
      by (simp add: stream_fetch_def Let_def)
  qed
qed

end

context stream_env
begin

text \<open>
  What a run of the decompression loop leaves: if it goes on, the input held back fits beside
  the next piece.
\<close>

lemma held_after:
  assumes h: "held l0 m0" and pre: "blocky \<Longrightarrow> take (unat l0) (w_mem w B_CMPRS) = take (unat l0) (m0 B_CMPRS)"
    and l: "unat l0 \<le> unat l1" "unat l1 \<le> unat l0 + 4096"
    and post: "dwc_post (sb_of l1) cctx J F n0 (dwc_start (sb_of l1) cctx status_0 ctx w) r"
    and go: "0 < unat (produced (d_out r))" "d_rst r = RT_EOK \<or> d_rst r = RT_ENOSPC" "d_rem r \<noteq> 0"
  shows "held (d_len r) (w_mem (d_world r))"
proof (cases "d_len r = 0")
  case True
  then show ?thesis by (simp add: held_def)
next
  case False
  let ?x0 = "dwc_start (sb_of l1) cctx status_0 ctx w"
  have b: blocky "waiting (unat (d_len r)) (take (unat (d_len r)) (w_mem (d_world r) B_CMPRS))"
    and fc: "first_call (sb_of l1) cctx ?x0 (d_len r)"
    using post go False unfolding dwc_post_def by auto
  from fc obtain st m a where call: "dec (dwc_call (sb_of l1) ?x0) (d_step ?x0) (dwc_cctx cctx ?x0)
      (w_mem w) (w_alg w) = Some (RT_EOK, st, m, a)"
    and le: "unat (d_len r) + unat (consumed st) \<le> unat l1"
    unfolding first_call_def by (auto simp: dwc_start_def)
  have "unat (d_len r) \<le> 4099"
  proof (cases "l0 = 0")
    case True
    with le l show ?thesis by simp
  next
    case False
    with h have w0: "waiting (unat l0) (take (unat l0) (m0 B_CMPRS))" by (simp add: held_def)
    have "unat l0 \<le> unat (consumed st) + 3"
      using waiting_hold [OF w0 call] pre [OF b(1)] l by (simp add: dwc_start_def)
    with le l show ?thesis by linarith
  qed
  with b show ?thesis unfolding held_def by blast
qed

definition stream_post ::
  "(nat \<Rightarrow> proc_ctx \<Rightarrow> 's \<Rightarrow> bool) \<Rightarrow> (proc_ctx \<Rightarrow> 's \<Rightarrow> bool) \<Rightarrow> bool \<times> proc_ctx \<times> ('s, 'a) world \<Rightarrow> bool" where
  "stream_post J F r \<longleftrightarrow> (case r of (ok, ctx, w) \<Rightarrow>
     wf_mem c (w_mem w) \<and> F ctx (w_dev w) \<and>
     (ok \<longrightarrow> J (unat (raw_size (cfg_fw_info cfg))) ctx (w_dev w)))"

lemma stream_step:
  assumes K: "stream_consumer purp K J F" and I: "stream_inv J x"
  shows "(stream_body c io cfg purp (proc_of K) x = None \<and> \<not> safe_dec dec) \<or>
    (\<exists>r. stream_body c io cfg purp (proc_of K) x = Some (Stop r) \<and> stream_post J F r) \<or>
    (\<exists>y. stream_body c io cfg purp (proc_of K) x = Some (Again y) \<and> stream_inv J y \<and>
       unat (raw_size (cfg_fw_info cfg)) - unat (l_raw_pos y) <
       unat (raw_size (cfg_fw_info cfg)) - unat (l_raw_pos x))"
proof -
  let ?raw = "raw_size (cfg_fw_info cfg)"
  note k = K [unfolded stream_consumer_def]
  note i = I [unfolded stream_inv_def]
  have Fx: "F ctx s" if "J n ctx s" for n ctx s by (rule consumer_ok_fin [OF conjunct1 [OF k] that])
  show ?thesis
  proof (cases "l_raw_pos x < ?raw")
    case False
    with i have "l_raw_pos x = ?raw" by simp
    with i Fx have "stream_post J F (True, l_ctx x, l_world x)" by (auto simp: stream_post_def)
    with False show ?thesis by (simp add: stream_body_def)
  next
    case True
    with i have h: "held (l_len x) (w_mem (l_world x))" by blast
    have o: "v_open (view (w_dev (l_world x)) (src_handle cfg))" using i k by blast
    from fetch [of x, OF _ h o] i obtain ok y where
      fe: "stream_fetch c io cfg x = Some (ok, y)" "view (w_dev (l_world y)) = view (w_dev (l_world x))"
        "wf_mem c (w_mem (l_world y))" "l_ctx y = l_ctx x" "l_raw_pos y = l_raw_pos x"
      and pre: "blocky \<Longrightarrow> take (unat (l_len x)) (w_mem (l_world y) B_CMPRS) =
        take (unat (l_len x)) (w_mem (l_world x) B_CMPRS)"
      and ll: "unat (l_len x) \<le> unat (l_len y)" "unat (l_len y) \<le> unat (l_len x) + 4096"
      by metis
    have Jy: "J (unat (l_raw_pos x)) (l_ctx y) (w_dev (l_world y))" using i k fe(2,4) by metis
    show ?thesis
    proof (cases ok)
      case False
      with fe Jy Fx have "stream_post J F (False, l_ctx y, l_world y)" by (auto simp: stream_post_def)
      with False True fe(1) show ?thesis by (simp add: stream_body_def)
    next
      case ok: True
      obtain ctx where ctx: "(if purp = QBT_STREAM_WRITE then set_raw_pos (l_raw_pos y) (l_ctx y)
          else Some (l_ctx y)) = Some ctx" "J (unat (l_raw_pos x)) ctx (w_dev (l_world y))"
      proof (cases "purp = QBT_STREAM_WRITE")
        case True
        from k Jy True obtain ctx' where "set_raw_pos (of_nat (unat (l_raw_pos x))) (l_ctx y) = Some ctx'"
          "J (unat (l_raw_pos x)) ctx' (w_dev (l_world y))" by blast
        with True that fe(5) show thesis by simp
      qed (use that Jy in simp)
      let ?cctx = "\<lparr>total = pkg_size (cfg_fw_info cfg),
        ctx_consumed = (l_read_pos y - qboot_src_read_pos c) - l_len y,
        raw_remaining = ?raw - l_raw_pos y, purpose = purp\<rparr>"
      have rr: "unat (?raw - l_raw_pos y) = unat ?raw - unat (l_raw_pos x)"
        using True fe(5) by (simp add: u32_sub u32_less_iff)
      note rm = room [OF fe(3)]
      have yl: "unat (l_len y) \<le> length (w_mem (l_world y) B_CMPRS)"
      proof -
        have "length (w_mem (l_world y) B_CMPRS) = length (w_mem (l_world x) B_CMPRS)"
          using i fe(3) by (simp add: wf_mem_def)
        with room [OF conjunct1 [OF i], of "l_len x"] h ll show ?thesis by linarith
      qed
      have run: "(qbt_decompress_with_consumer dec (sb_of (l_len y)) ?cctx status_0 K ctx (l_world y) = None \<and>
          \<not> safe_dec dec) \<or>
        (\<exists>r. qbt_decompress_with_consumer dec (sb_of (l_len y)) ?cctx status_0 K ctx (l_world y) = Some r \<and>
        dwc_post (sb_of (l_len y)) ?cctx J F (unat (l_raw_pos x))
          (dwc_start (sb_of (l_len y)) ?cctx status_0 ctx (l_world y)) r)"
      proof (rule dwc_total)
        show "consumer_ok K J F (unat ?raw)" using k by blast
        show "unat (l_raw_pos x) + unat (raw_remaining ?cctx) \<le> unat ?raw"
          using rr True by (simp add: u32_less_iff)
      qed (use ctx(2) rm yl blocky_sep in auto)
      show ?thesis
      proof (cases "qbt_decompress_with_consumer dec (sb_of (l_len y)) ?cctx status_0 K ctx (l_world y)")
        case None
        with run have "\<not> safe_dec dec" by auto
        moreover have "stream_body c io cfg purp (proc_of K) x = None"
          using True fe(1) ok ctx(1) cfg_dec None by (simp add: stream_body_def sb_of_def Let_def)
        ultimately show ?thesis by blast
      next
        case (Some r')
      with run obtain r where r: "qbt_decompress_with_consumer dec (sb_of (l_len y)) ?cctx status_0 K ctx (l_world y) = Some r"
        and post: "dwc_post (sb_of (l_len y)) ?cctx J F (unat (l_raw_pos x))
          (dwc_start (sb_of (l_len y)) ?cctx status_0 ctx (l_world y)) r" by auto
      note p = post [unfolded dwc_post_def]
      have body: "stream_body c io cfg purp (proc_of K) x =
        Some (if (d_rst r \<noteq> RT_EOK \<and> \<not> eq_posix_enospc c (d_rst r)) \<or> produced (d_out r) = 0
          then Stop (False, d_ctx r, d_world r)
          else Again (y\<lparr>l_raw_pos := l_raw_pos y + produced (d_out r), l_len := d_len r,
                       l_ctx := d_ctx r, l_world := d_world r\<rparr>))"
        using True fe(1) ok ctx(1) cfg_dec r
        by (simp add: stream_body_def sb_of_def Let_def)
      have wfr: "wf_mem c (w_mem (d_world r))"
        using p fe(3) wf_mem_lengths [of "w_mem (d_world r)" "w_mem (l_world y)"] by (simp add: dwc_start_def)
      show ?thesis
      proof (cases "(d_rst r \<noteq> RT_EOK \<and> \<not> eq_posix_enospc c (d_rst r)) \<or> produced (d_out r) = 0")
        case True
        have "stream_post J F (False, d_ctx r, d_world r)" using p wfr by (auto simp: stream_post_def)
        with True body show ?thesis by auto
      next
        case False
        then have g: "d_rst r = RT_EOK \<or> d_rst r = RT_ENOSPC" "0 < unat (produced (d_out r))"
          by (auto simp: eq_posix_enospc_def unat_gt_0)
        have pr: "unat (produced (d_out r)) + unat (d_rem r) = unat ?raw - unat (l_raw_pos x)"
          using p rr by (simp add: dwc_start_def)
        have np: "unat (l_raw_pos y + produced (d_out r)) = unat (l_raw_pos x) + unat (produced (d_out r))"
        proof -
          have "unat (l_raw_pos x) < unat ?raw" using True by (simp add: u32_less_iff)
          with pr u32_less [of ?raw] have "unat (l_raw_pos x) + unat (produced (d_out r)) < 4294967296"
            by linarith
          then show ?thesis unfolding fe(5) by (rule u32_add)
        qed
        let ?y = "y\<lparr>l_raw_pos := l_raw_pos y + produced (d_out r), l_len := d_len r,
                     l_ctx := d_ctx r, l_world := d_world r\<rparr>"
        have hd: "held (d_len r) (w_mem (d_world r))" if "l_raw_pos y + produced (d_out r) < ?raw"
        proof (rule held_after [OF h pre ll post g(2,1)])
          from that np pr show "d_rem r \<noteq> 0" by (auto simp: u32_less_iff)
        qed
        have "l_raw_pos y + produced (d_out r) \<le> ?raw"
          using np pr True by (simp add: u32_le_iff u32_less_iff)
        with p wfr hd g np have "stream_inv J ?y" by (auto simp: stream_inv_def)
        moreover have "unat ?raw - unat (l_raw_pos ?y) < unat ?raw - unat (l_raw_pos x)"
          using np g(2) True by (simp add: u32_less_iff)
        ultimately show ?thesis using body False by auto
      qed
      qed
    qed
  qed
qed

text \<open>
  The stream returns, stays inside its buffers, and on success has produced the raw size. The
  only way out of the defined behaviour is a decompressor that leaves a buffer by itself.
\<close>

lemma stream_spec:
  assumes K: "stream_consumer purp K J F" and wf: "wf_mem c (w_mem w)" and J0: "J 0 ctx (w_dev w)"
  shows "(qbt_fw_stream_process c io cfg purp (proc_of K) ctx w = None \<and> \<not> safe_dec dec) \<or>
    (\<exists>r. qbt_fw_stream_process c io cfg purp (proc_of K) ctx w = Some r \<and> stream_post J F r)"
  unfolding qbt_fw_stream_process_def
proof (rule run_loop_spec [where I = "stream_inv J" and
      m = "\<lambda>x. unat (raw_size (cfg_fw_info cfg)) - unat (l_raw_pos x)"])
  show "stream_inv J \<lparr>l_read_pos = qboot_src_read_pos c, l_raw_pos = 0, l_len = 0, l_ctx = ctx, l_world = w\<rparr>"
    using wf J0 by (simp add: stream_inv_def held_def)
qed (rule stream_step [OF K])

end

end
