(* ===== verification/Qboot_Transfer.thy ===== *)
theory Qboot_Transfer
  imports Qboot_Stream
begin

text \<open>
  What a stream transfers: the two consumers of \<open>src/qboot_stream.c\<close> as consumers in the sense
  of \<open>Qboot_Stream\<close>, what the write pass may touch for any algorithm, the exact result of both
  passes once a stream is known to transfer an image, and the stream of a package that is not
  compressed, under any cipher that decrypts piece by piece.
\<close>

section \<open>The two consumers\<close>

context stream_env
begin

definition only_dst :: "handle \<Rightarrow> nat \<Rightarrow> 's \<Rightarrow> 's \<Rightarrow> bool" where
  "only_dst dst n s0 s \<longleftrightarrow> (\<forall>h. h \<noteq> dst \<longrightarrow> view s h = view s0 h) \<and> v_open (view s dst) \<and>
     (\<forall>i \<ge> n. v_cell (view s dst) i = v_cell (view s0 dst) i)"

definition write_J :: "handle \<Rightarrow> 's \<Rightarrow> nat \<Rightarrow> proc_ctx \<Rightarrow> 's \<Rightarrow> bool" where
  "write_J dst s0 n ctx s \<longleftrightarrow> only_dst dst (unat (raw_size (cfg_fw_info cfg))) s0 s \<and>
     v_open (view s (src_handle cfg)) \<and> n \<le> unat (raw_size (cfg_fw_info cfg)) \<and>
     (\<exists>st. ctx = Write_ctx st \<and> dst_handle st = dst \<and> st_raw_pos st = of_nat n)"

lemma write_consumer:
  assumes "src_handle cfg \<noteq> dst"
  shows "stream_consumer purp (qbt_write_chunk_consumer io) (write_J dst s0)
    (\<lambda>ctx s. only_dst dst (unat (raw_size (cfg_fw_info cfg))) s0 s)"
proof -
  let ?raw = "raw_size (cfg_fw_info cfg)"
  have step: "\<exists>e ctx' s'. qbt_write_chunk_consumer io ctx bs s = Some (e, ctx', s') \<and>
      only_dst dst (unat ?raw) s0 s' \<and> (e = RT_EOK \<longrightarrow> write_J dst s0 (n + length bs) ctx' s') \<and>
      e \<noteq> RT_ENOSPC"
    if J: "write_J dst s0 n ctx s" and le: "n + length bs \<le> unat ?raw" for n ctx s bs
  proof -
    from J obtain st where st: "ctx = Write_ctx st" "dst_handle st = dst" "st_raw_pos st = of_nat n"
      and od: "only_dst dst (unat ?raw) s0 s" and so: "v_open (view s (src_handle cfg))"
      by (auto simp: write_J_def)
    have n: "unat (of_nat n :: u32) = n" and lb: "length bs < 4294967296"
    proof -
      have "n < 4294967296" "length bs < 4294967296" using le u32_less [of ?raw] by linarith+
      then show "unat (of_nat n :: u32) = n" "length bs < 4294967296" by (simp_all add: u32_of_nat)
    qed
    have o: "v_open (view s dst)" using od by (simp add: only_dst_def)
    obtain e s' where w: "io_write io dst (of_nat n) bs s = (e, s')" by fastforce
    have "only_dst dst (unat ?raw) s0 s'"
      using od write_other [OF o w lb] write_open [OF o w lb] write_outside [OF o w lb] n le
      by (auto simp: only_dst_def)
    moreover have "v_open (view s' (src_handle cfg))"
      using write_other [OF o w lb assms] so by simp
    ultimately show ?thesis
      using st w le by (auto simp: write_J_def)
  qed
  show ?thesis
    unfolding stream_consumer_def consumer_ok_def
    using step by (auto simp: write_J_def only_dst_def)
qed

definition crc_J :: "'s \<Rightarrow> nat \<Rightarrow> proc_ctx \<Rightarrow> 's \<Rightarrow> bool" where
  "crc_J s0 n ctx s \<longleftrightarrow> view s = view s0 \<and> v_open (view s (src_handle cfg)) \<and> (\<exists>acc. ctx = Crc_ctx acc)"

lemma crc_consumer:
  "stream_consumer QBT_STREAM_CRC (qbt_crc_chunk_consumer crc) (crc_J s0) (\<lambda>ctx s. view s = view s0)"
  unfolding stream_consumer_def consumer_ok_def by (auto simp: crc_J_def)

lemma write_stream:
  assumes "src_handle cfg \<noteq> dst" and "v_open (view (w_dev w) (src_handle cfg))"
    and "v_open (view (w_dev w) dst)" and "wf_mem c (w_mem w)"
    and "dst_handle st = dst" and "st_raw_pos st = 0"
  shows "(qbt_fw_stream_process c io cfg QBT_STREAM_WRITE (qbt_stream_write_proc io) (Write_ctx st) w = None \<and>
      \<not> safe_dec dec) \<or>
    (\<exists>ok ctx w'. qbt_fw_stream_process c io cfg QBT_STREAM_WRITE (qbt_stream_write_proc io) (Write_ctx st) w =
        Some (ok, ctx, w') \<and> wf_mem c (w_mem w') \<and>
      only_dst dst (unat (raw_size (cfg_fw_info cfg))) (w_dev w) (w_dev w'))"
proof -
  have "write_J dst (w_dev w) 0 (Write_ctx st) (w_dev w)"
    using assms by (simp add: write_J_def only_dst_def)
  from stream_spec [OF write_consumer [OF assms(1)] assms(4) this]
  show ?thesis by (auto simp: stream_post_def qbt_stream_write_proc_def [abs_def])
qed

lemma crc_stream:
  assumes "v_open (view (w_dev w) (src_handle cfg))" and "wf_mem c (w_mem w)"
  shows "(qbt_fw_stream_process c io cfg QBT_STREAM_CRC (qbt_stream_crc_proc crc) (Crc_ctx acc) w = None \<and>
      \<not> safe_dec dec) \<or>
    (\<exists>ok ctx w'. qbt_fw_stream_process c io cfg QBT_STREAM_CRC (qbt_stream_crc_proc crc) (Crc_ctx acc) w =
        Some (ok, ctx, w') \<and> wf_mem c (w_mem w') \<and> view (w_dev w') = view (w_dev w))"
proof -
  have "crc_J (w_dev w) 0 (Crc_ctx acc) (w_dev w)" using assms by (simp add: crc_J_def)
  from stream_spec [OF crc_consumer assms(2) this]
  show ?thesis by (auto simp: stream_post_def qbt_stream_crc_proc_def [abs_def])
qed

end

section \<open>Exact transfers\<close>

text \<open>
  A consumer that accepts the image \<open>raw\<close> while the source keeps the package body \<open>body\<close>:
  \<open>J k\<close> holds when the first \<open>k\<close> bytes of the image have been consumed.
\<close>

definition exact_consumer ::
  "('s \<Rightarrow> handle \<Rightarrow> dev_view) \<Rightarrow> qboot_cfg \<Rightarrow> 'a qbt_stream_cfg_t \<Rightarrow> qbt_stream_purpose_t \<Rightarrow> 's consumer \<Rightarrow>
   byte list \<Rightarrow> byte list \<Rightarrow> (nat \<Rightarrow> proc_ctx \<Rightarrow> 's \<Rightarrow> bool) \<Rightarrow> bool" where
  "exact_consumer view c cfg purp K body raw J \<longleftrightarrow>
     length body = unat (pkg_size (cfg_fw_info cfg)) \<and> length raw = unat (raw_size (cfg_fw_info cfg)) \<and>
     (\<forall>k ctx s. J k ctx s \<longrightarrow> v_open (view s (src_handle cfg)) \<and>
        cells (v_cell (view s (src_handle cfg))) (unat (qboot_src_read_pos c)) (length body) = body) \<and>
     (\<forall>k ctx s s'. J k ctx s \<longrightarrow> view s' = view s \<longrightarrow> J k ctx s') \<and>
     (purp = QBT_STREAM_WRITE \<longrightarrow> (\<forall>k ctx s. J k ctx s \<longrightarrow> set_raw_pos (of_nat k) ctx = Some ctx)) \<and>
     (\<forall>k n ctx s. J k ctx s \<longrightarrow> k + n \<le> length raw \<longrightarrow>
        (\<exists>ctx' s'. K ctx (take n (drop k raw)) s = Some (RT_EOK, ctx', s') \<and> J (k + n) ctx' s'))"

lemma exact_consumerD:
  assumes "exact_consumer view c cfg purp K body raw J" and "J k ctx s"
  shows "v_open (view s (src_handle cfg))"
    and "cells (v_cell (view s (src_handle cfg))) (unat (qboot_src_read_pos c)) (length body) = body"
    and "view s' = view s \<Longrightarrow> J k ctx s'"
    and "(if purp = QBT_STREAM_WRITE then set_raw_pos (of_nat k) ctx else Some ctx) = Some ctx"
proof -
  note c = assms(1) [unfolded exact_consumer_def]
  show "v_open (view s (src_handle cfg))"
    and "cells (v_cell (view s (src_handle cfg))) (unat (qboot_src_read_pos c)) (length body) = body"
    using c assms(2) by blast+
  show "view s' = view s \<Longrightarrow> J k ctx s'" using c assms(2) by blast
  have "purp = QBT_STREAM_WRITE \<Longrightarrow> set_raw_pos (of_nat k) ctx = Some ctx" using c assms(2) by blast
  then show "(if purp = QBT_STREAM_WRITE then set_raw_pos (of_nat k) ctx else Some ctx) = Some ctx" by simp
qed

lemma exact_consumer_lengths:
  assumes "exact_consumer view c cfg purp K body raw J"
  shows "length body = unat (pkg_size (cfg_fw_info cfg))" and "length raw = unat (raw_size (cfg_fw_info cfg))"
  using assms unfolding exact_consumer_def by auto

lemma exact_consumer_takes:
  assumes "exact_consumer view c cfg purp K body raw J" and "J k ctx s" and "k + n \<le> length raw"
  obtains ctx' s' where "K ctx (take n (drop k raw)) s = Some (RT_EOK, ctx', s')" "J (k + n) ctx' s'"
  using assms unfolding exact_consumer_def by blast

text \<open>
  A stream transfers the image \<open>raw\<close> from the body \<open>body\<close> when, from algorithm states in
  \<open>Ini\<close>, it succeeds and every such consumer has got the whole image.
\<close>

definition transfers ::
  "'s qboot_io_ops \<Rightarrow> ('s \<Rightarrow> handle \<Rightarrow> dev_view) \<Rightarrow> qboot_cfg \<Rightarrow> 'a qbt_stream_cfg_t \<Rightarrow> ('a \<Rightarrow> bool) \<Rightarrow>
   byte list \<Rightarrow> byte list \<Rightarrow> bool" where
  "transfers io view c cfg Ini body raw \<longleftrightarrow> (\<forall>purp K J ctx w.
     exact_consumer view c cfg purp K body raw J \<longrightarrow> wf_mem c (w_mem w) \<longrightarrow> J 0 ctx (w_dev w) \<longrightarrow> Ini (w_alg w) \<longrightarrow>
     (\<exists>ctx' w'. qbt_fw_stream_process c io cfg purp
          (\<lambda>dec sb cctx out ctx w. qbt_decompress_with_consumer dec sb cctx out K ctx w) ctx w = Some (True, ctx', w') \<and>
        wf_mem c (w_mem w') \<and> J (length raw) ctx' (w_dev w')))"

lemma transfersD:
  assumes "transfers io view c cfg Ini body raw" and "exact_consumer view c cfg purp K body raw J"
    and "wf_mem c (w_mem w)" and "J 0 ctx (w_dev w)" and "Ini (w_alg w)"
  obtains ctx' w' where "qbt_fw_stream_process c io cfg purp
      (\<lambda>dec sb cctx out ctx w. qbt_decompress_with_consumer dec sb cctx out K ctx w) ctx w = Some (True, ctx', w')"
    "wf_mem c (w_mem w')" "J (length raw) ctx' (w_dev w')"
  using assms unfolding transfers_def by blast

context reliable_storage
begin

text \<open>The write pass leaves the image in the destination, and touches nothing else.\<close>

lemma exact_write:
  assumes T: "transfers io view c cfg Ini body raw" and ini: "Ini (w_alg w)"
    and sd: "src_handle cfg \<noteq> dst" and so: "v_open (view (w_dev w) (src_handle cfg))"
    and do: "v_open (view (w_dev w) dst)" and wf: "wf_mem c (w_mem w)"
    and st: "dst_handle st = dst" "st_raw_pos st = 0"
    and rdy: "ready_range (view (w_dev w) dst) 0 (length raw)" and fit: "length raw \<le> dev_size dst"
    and len: "length body = unat (pkg_size (cfg_fw_info cfg))" "length raw = unat (raw_size (cfg_fw_info cfg))"
    and body: "cells (v_cell (view (w_dev w) (src_handle cfg))) (unat (qboot_src_read_pos c)) (length body) = body"
  obtains ctx w' where
    "qbt_fw_stream_process c io cfg QBT_STREAM_WRITE (qbt_stream_write_proc io) (Write_ctx st) w = Some (True, ctx, w')"
    "wf_mem c (w_mem w')" "\<And>h. h \<noteq> dst \<Longrightarrow> view (w_dev w') h = view (w_dev w) h"
    "v_open (view (w_dev w') dst)"
    "v_cell (view (w_dev w') dst) = splice 0 raw (v_cell (view (w_dev w) dst))"
    "\<And>i. length raw \<le> i \<Longrightarrow> v_ready (view (w_dev w) dst) i \<Longrightarrow> v_ready (view (w_dev w') dst) i"
proof -
  let ?s0 = "w_dev w"
  define J where "J k ctx s \<longleftrightarrow> (\<exists>z. ctx = Write_ctx z \<and> dst_handle z = dst \<and> st_raw_pos z = of_nat k) \<and>
      k \<le> length raw \<and> (\<forall>h. h \<noteq> dst \<longrightarrow> view s h = view ?s0 h) \<and> v_open (view s dst) \<and>
      v_cell (view s dst) = splice 0 (take k raw) (v_cell (view ?s0 dst)) \<and>
      (\<forall>i \<ge> k. v_ready (view ?s0 dst) i \<longrightarrow> v_ready (view s dst) i)" for k ctx s
  have step: "\<exists>ctx' s'. qbt_write_chunk_consumer io ctx (take n (drop k raw)) s = Some (RT_EOK, ctx', s') \<and>
      J (k + n) ctx' s'" if J: "J k ctx s" and le: "k + n \<le> length raw" for k n ctx s
  proof -
    let ?bs = "take n (drop k raw)"
    from J obtain z where z: "ctx = Write_ctx z" "dst_handle z = dst" "st_raw_pos z = of_nat k"
      and oth: "\<forall>h. h \<noteq> dst \<longrightarrow> view s h = view ?s0 h" and o: "v_open (view s dst)"
      and cel: "v_cell (view s dst) = splice 0 (take k raw) (v_cell (view ?s0 dst))"
      and rd: "\<forall>i \<ge> k. v_ready (view ?s0 dst) i \<longrightarrow> v_ready (view s dst) i"
      by (auto simp: J_def)
    have ln: "length ?bs = n" using le by simp
    have lt: "k + n < 4294967296" using le len(2) u32_less [of "raw_size (cfg_fw_info cfg)"] by linarith
    then have uk: "unat (of_nat k :: u32) = k" and l32: "length ?bs < 4294967296"
      using ln by (simp_all add: u32_of_nat)
    have "unat (of_nat k :: u32) + length ?bs \<le> dev_size dst" using uk ln le fit by linarith
    from write_total [OF o l32 this] obtain s' where
      w: "io_write io dst (of_nat k) ?bs s = (RT_EOK, s')" by blast
    have rr: "ready_range (view s dst) (unat (of_nat k :: u32)) (length ?bs)"
      unfolding uk ln ready_range_def
    proof (intro allI impI)
      fix i assume "k \<le> i \<and> i < k + n"
      with rdy le rd show "v_ready (view s dst) i" by (simp add: ready_range_def)
    qed
    have tk: "take k raw @ ?bs = take (k + n) raw" by (simp add: take_add)
    have "v_cell (view s' dst) = splice k ?bs (splice 0 (take k raw) (v_cell (view ?s0 dst)))"
      using write_cells [OF o w l32 rr] uk cel by simp
    also have "\<dots> = splice 0 (take (k + n) raw) (v_cell (view ?s0 dst))"
      using splice_append [of 0 "take k raw" ?bs] le by (simp add: tk)
    finally have c': "v_cell (view s' dst) = splice 0 (take (k + n) raw) (v_cell (view ?s0 dst))" .
    have "J (k + n) (Write_ctx (z\<lparr>st_raw_pos := st_raw_pos z + of_nat (length ?bs)\<rparr>)) s'"
      unfolding J_def
      using z le ln c' oth rd write_other [OF o w l32] write_open [OF o w l32]
        write_outside [OF o w l32] uk by auto
    with w z show ?thesis by simp
  qed
  have B: "exact_consumer view c cfg QBT_STREAM_WRITE (qbt_write_chunk_consumer io) body raw J"
    unfolding exact_consumer_def
  proof (intro conjI allI impI)
    fix k ctx s assume "J k ctx s"
    then show "v_open (view s (src_handle cfg))"
      and "cells (v_cell (view s (src_handle cfg))) (unat (qboot_src_read_pos c)) (length body) = body"
      using sd so body by (auto simp: J_def)
  next
    fix k ctx s s' assume "J k ctx s" "view s' = view s"
    then show "J k ctx s'" by (simp add: J_def)
  next
    fix k ctx s assume "J k ctx s"
    then show "set_raw_pos (of_nat k) ctx = Some ctx" by (auto simp: J_def)
  qed (fact len step)+
  have J0: "J 0 (Write_ctx st) ?s0" using st do by (simp add: J_def)
  obtain ctx w' where "qbt_fw_stream_process c io cfg QBT_STREAM_WRITE
      (\<lambda>dec sb cctx out ctx w. qbt_decompress_with_consumer dec sb cctx out (qbt_write_chunk_consumer io) ctx w)
      (Write_ctx st) w = Some (True, ctx, w')" "wf_mem c (w_mem w')" and J': "J (length raw) ctx (w_dev w')"
    by (rule transfersD [where w = w, OF T B wf J0 ini]) (rule that)
  with that [of ctx w'] show ?thesis
    by (auto simp: J_def qbt_stream_write_proc_def [abs_def])
qed

end

text \<open>
  The CRC library: a running CRC of a concatenation is the CRC of the parts in turn, and
  \<open>crc32_cal\<close> starts from all ones and inverts.
\<close>

locale crc_library =
  fixes crc :: crc_fn and cal :: "byte list \<Rightarrow> u32"
  assumes crc_nil: "crc a [] = a"
    and crc_append: "crc (crc a x) y = crc a (x @ y)"
    and crc_cal: "cal x = crc 0xFFFFFFFF x XOR 0xFFFFFFFF"
begin

text \<open>The CRC pass leaves the CRC of the image in its accumulator and changes no device.\<close>

lemma exact_crc:
  assumes T: "transfers io view c cfg Ini body raw" and ini: "Ini (w_alg w)"
    and so: "v_open (view (w_dev w) (src_handle cfg))" and wf: "wf_mem c (w_mem w)"
    and len: "length body = unat (pkg_size (cfg_fw_info cfg))" "length raw = unat (raw_size (cfg_fw_info cfg))"
    and body: "cells (v_cell (view (w_dev w) (src_handle cfg))) (unat (qboot_src_read_pos c)) (length body) = body"
  obtains w' where
    "qbt_fw_stream_process c io cfg QBT_STREAM_CRC (qbt_stream_crc_proc crc) (Crc_ctx acc) w =
      Some (True, Crc_ctx (crc acc raw), w')"
    "wf_mem c (w_mem w')" "view (w_dev w') = view (w_dev w)"
proof -
  define J where "J k ctx s \<longleftrightarrow> ctx = Crc_ctx (crc acc (take k raw)) \<and> view s = view (w_dev w)" for k ctx s
  have B: "exact_consumer view c cfg QBT_STREAM_CRC (qbt_crc_chunk_consumer crc) body raw J"
    unfolding exact_consumer_def using so body len
    by (auto simp: J_def crc_append take_add)
  have J0: "J 0 (Crc_ctx acc) (w_dev w)" by (simp add: J_def crc_nil)
  obtain ctx w' where "qbt_fw_stream_process c io cfg QBT_STREAM_CRC
      (\<lambda>dec sb cctx out ctx w. qbt_decompress_with_consumer dec sb cctx out (qbt_crc_chunk_consumer crc) ctx w)
      (Crc_ctx acc) w = Some (True, ctx, w')" "wf_mem c (w_mem w')" and J': "J (length raw) ctx (w_dev w')"
    by (rule transfersD [where w = w, OF T B wf J0 ini]) (rule that)
  with that [of w'] show ?thesis by (auto simp: J_def qbt_stream_crc_proc_def [abs_def])
qed

end

section \<open>Fetching\<close>

text \<open>
  A cipher that decrypts piece by piece: \<open>plain\<close> is the decryption from a chaining state \<open>'k\<close>,
  \<open>kst\<close> the chaining state inside the algorithm state. The law for the handler is stated for
  the two buffers the stream uses; without compression they are one buffer, used from its front.
\<close>

locale piece_cipher = cipher f
  for f :: "'a decrypt_fn" +
  fixes c :: qboot_cfg and kst :: "'a \<Rightarrow> 'k" and plain :: "'k \<Rightarrow> byte list \<Rightarrow> byte list \<times> 'k"
  assumes piece: "n + unat len \<le> length (m B_CMPRS) \<Longrightarrow> unat len \<le> length (m (g_crypt_buf c)) \<Longrightarrow>
      using_compression c \<or> n = 0 \<Longrightarrow>
      \<exists>m' a'. f (B_CMPRS, n) (g_crypt_buf c, 0) len m a = Some (RT_EOK, m', a') \<and>
        take (unat len) (drop n (m' B_CMPRS)) = fst (plain (kst a) (take (unat len) (m (g_crypt_buf c)))) \<and>
        kst a' = snd (plain (kst a) (take (unat len) (m (g_crypt_buf c))))"
    and plain_length: "length (fst (plain k bs)) = length bs"
    and plain_append: "4096 dvd length x \<Longrightarrow> plain k (x @ y) =
      (fst (plain k x) @ fst (plain (snd (plain k x)) y), snd (plain (snd (plain k x)) y))"
begin

text \<open>Decrypting a piece of 4096 bytes, or all that is left, splits the plain text.\<close>

lemma plain_piece:
  assumes pt: "fst (plain k bs) = pt" and n: "n = 4096 \<or> n = length bs" "n \<le> length bs"
  shows "fst (plain k (take n bs)) = take n pt"
    and "fst (plain (snd (plain k (take n bs))) (drop n bs)) = drop n pt"
proof -
  have l: "length (take n bs) = n" using n(2) by simp
  have "pt = fst (plain k (take n bs)) @ fst (plain (snd (plain k (take n bs))) (drop n bs))"
  proof (cases "n = 4096")
    case True
    then show ?thesis using pt plain_append [of "take n bs" k "drop n bs"] l by simp
  next
    case False
    then have "n = length bs" using n(1) by blast
    then show ?thesis using pt plain_length [of _ "[]"] by simp
  qed
  then show "fst (plain k (take n bs)) = take n pt"
    and "fst (plain (snd (plain k (take n bs))) (drop n bs)) = drop n pt"
    using plain_length [of k "take n bs"] l by simp_all
qed

end

text \<open>
  A stream on a reliable device whose package lies inside it, with a cipher of that kind. The
  decompressor's own state, \<open>dst\<close>, and the cipher's do not disturb each other.
\<close>

locale staged_package = reliable_storage io view dev_size + piece_cipher f c kst plain + staged_cfg dec f c cfg
  for io :: "'s qboot_io_ops" and view and dec :: "'a decompress_fn" and f and c and
    cfg :: "'a qbt_stream_cfg_t" and dev_size and kst :: "'a \<Rightarrow> 'k" and plain +
  fixes dst :: "'a \<Rightarrow> 'd"
  assumes dec_kst: "dec buf st ctx m a = Some (e, st', m', a') \<Longrightarrow> kst a' = kst a"
    and cipher_dst: "f out inp len m a = Some (e, m', a') \<Longrightarrow> dst a' = dst a"
    and pkg_small: "unat (qboot_src_read_pos c) + unat (pkg_size (cfg_fw_info cfg)) < 2147483648"
    and pkg_fits: "unat (qboot_src_read_pos c) + unat (pkg_size (cfg_fw_info cfg)) \<le> dev_size (src_handle cfg)"
begin

abbreviation "hdr \<equiv> unat (qboot_src_read_pos c)"
abbreviation "pkg \<equiv> unat (pkg_size (cfg_fw_info cfg))"

text \<open>How much of the package is left to read.\<close>

lemma remain_len:
  assumes "unat (l_read_pos x) = hdr + pos" and "pos \<le> pkg"
  shows "sint (pkg_size (cfg_fw_info cfg) + qboot_src_read_pos c - l_read_pos x) = int (pkg - pos)"
proof -
  have tot: "unat (pkg_size (cfg_fw_info cfg) + qboot_src_read_pos c) = pkg + hdr"
    using pkg_small by (simp add: u32_add)
  have diff: "unat (pkg_size (cfg_fw_info cfg) + qboot_src_read_pos c - l_read_pos x) = pkg - pos"
    using tot assms by (simp add: u32_sub)
  show ?thesis
    using sint_small [of "pkg_size (cfg_fw_info cfg) + qboot_src_read_pos c - l_read_pos x"] diff pkg_small
    by simp
qed

lemma fetch_end:
  assumes "unat (l_read_pos x) = hdr + pkg" and "l_len x \<noteq> 0"
  shows "stream_fetch c io cfg x = Some (True, x)"
  using remain_len [of x pkg] assms by (simp add: stream_fetch_def Let_def)

text \<open>Fetching brings the next piece of the plain text behind what the staging buffer holds.\<close>

lemma fetch_exact:
  assumes wf: "wf_mem c (w_mem (l_world x))"
    and rm: "unat (l_len x) + 4096 \<le> length (w_mem (l_world x) B_CMPRS)" "using_compression c \<or> l_len x = 0"
    and pos: "unat (l_read_pos x) = hdr + pos" "pos < pkg" and n: "n = min 4096 (pkg - pos)"
    and src: "v_open (view (w_dev (l_world x)) (src_handle cfg))"
      "cells (v_cell (view (w_dev (l_world x)) (src_handle cfg))) hdr pkg = body"
    and pt: "fst (plain (kst (w_alg (l_world x))) (drop pos body)) = drop pos pt"
  obtains w where
    "stream_fetch c io cfg x = Some (True, x\<lparr>l_read_pos := l_read_pos x + of_nat n,
       l_len := l_len x + of_nat n, l_world := w\<rparr>)"
    "view (w_dev w) = view (w_dev (l_world x))" "wf_mem c (w_mem w)"
    "take (unat (l_len x) + n) (w_mem w B_CMPRS) =
       take (unat (l_len x)) (w_mem (l_world x) B_CMPRS) @ take n (drop pos pt)"
    "fst (plain (kst (w_alg w)) (drop (pos + n) body)) = drop (pos + n) pt" "dst (w_alg w) = dst (w_alg (l_world x))"
proof -
  let ?w = "l_world x" and ?src = "src_handle cfg" and ?h = "unat (l_len x)"
  have lbd: "length body = pkg" using src(2) by (metis length_cells)
  have n4: "n \<le> 4096" "0 < n" "pos + n \<le> pkg" using n pos(2) by auto
  have un: "unat (of_nat n :: u32) = n" using n4 by (simp add: u32_of_nat)
  have rl: "sint (pkg_size (cfg_fw_info cfg) + qboot_src_read_pos c - l_read_pos x) = int (pkg - pos)"
    using remain_len [OF pos(1)] pos(2) by simp
  have rn: "(if int (unat QBOOT_CMPRS_READ_SIZE) > int (pkg - pos) then of_int (int (pkg - pos))
      else QBOOT_CMPRS_READ_SIZE) = (of_nat n :: u32)"
    using n by (auto simp: buf_sizes u32_eq_iff u32_of_nat)
  have "unat (l_read_pos x) + unat (of_nat n :: u32) \<le> dev_size ?src"
    using pos n4 pkg_fits un by linarith
  from read_exact [OF src(1) this] obtain s where
    rd: "io_read io ?src (l_read_pos x) (of_nat n) (w_dev ?w) =
      (Inr (cells (v_cell (view (w_dev ?w) ?src)) (hdr + pos) n), s)" and vs: "view s = view (w_dev ?w)"
    using pos un by auto
  let ?bs = "take n (drop pos body)"
  have bs: "cells (v_cell (view (w_dev ?w) ?src)) (hdr + pos) n = ?bs"
    using n4 by (simp add: src(2) [symmetric] take_cells drop_cells add.assoc min_absorb1)
  have lbs: "length ?bs = n" using bs by (metis length_cells)
  obtain co where co: "crypt_ops (algo_ops cfg) = Some co" "decrypt co = Some f"
    using cfg_crypt by blast
  have r: "n \<le> length (w_mem ?w (g_crypt_buf c))"
    using wf n4 by (auto simp: wf_mem_def g_crypt_buf_def buf_sizes split: if_splits)
  let ?m1 = "(w_mem ?w)(g_crypt_buf c := overwrite 0 ?bs (w_mem ?w (g_crypt_buf c)))"
  have w1: "mem_write (g_crypt_buf c) 0 ?bs (w_mem ?w) = Some ?m1"
    using r lbs by (simp add: mem_write_def)
  have wf1: "wf_mem c ?m1" using wf_mem_write [OF w1] wf by blast
  have l1: "length (?m1 b) = length (w_mem ?w b)" for b using mem_write_length [OF w1] .
  have keep: "take ?h (?m1 B_CMPRS) = take ?h (w_mem ?w B_CMPRS)"
    using rm(2) by (auto simp: g_crypt_buf_def)
  have pre: "?h + unat (of_nat n :: u32) \<le> length (?m1 B_CMPRS)" "unat (of_nat n :: u32) \<le> length (?m1 (g_crypt_buf c))"
    "using_compression c \<or> ?h = 0"
    unfolding l1 un using rm r n4 by auto
  have in1: "take (unat (of_nat n :: u32)) (?m1 (g_crypt_buf c)) = ?bs"
    using take_overwrite_0 [of n ?bs] lbs un by simp
  have "n = 4096 \<or> n = length (drop pos body)" "n \<le> length (drop pos body)" using n lbd n4 by auto
  note cut = plain_piece [OF pt this]
  obtain m a where f: "f (B_CMPRS, ?h) (g_crypt_buf c, 0) (of_nat n) ?m1 (w_alg ?w) = Some (RT_EOK, m, a)"
    "take n (drop ?h (m B_CMPRS)) = take n (drop pos pt)" "kst a = snd (plain (kst (w_alg ?w)) ?bs)"
    using piece [OF pre, of "w_alg ?w"] unfolding un in1 [unfolded un] cut(1) by blast
  have pr: "qbt_fw_pkg_read io ?src (l_read_pos x) (cmprs_buf cfg, ?h) (crypt_buf cfg)
      (of_nat n) (algo_ops cfg) ?w = Some (True, ?w\<lparr>w_dev := s, w_mem := m, w_alg := a\<rparr>)"
    using co rd [unfolded bs] w1 f(1)
    by (simp add: qbt_fw_pkg_read_def dev_read_to_def cfg_bufs del: fun_upd_apply)
  have gt: "0 < int (pkg - pos)" using pos(2) by linarith
  have fetch: "stream_fetch c io cfg x = Some (True, x\<lparr>l_read_pos := l_read_pos x + of_nat n,
      l_len := l_len x + of_nat n, l_world := ?w\<lparr>w_dev := s, w_mem := m, w_alg := a\<rparr>\<rparr>)"
    unfolding stream_fetch_def Let_def rl rn if_P [OF gt] pr by simp
  have "take ?h (m B_CMPRS) = take ?h (w_mem ?w B_CMPRS)"
    using cipher_prefix [OF f(1)] pre(1) keep by (simp del: fun_upd_apply)
  then have tk: "take (?h + n) (m B_CMPRS) = take ?h (w_mem ?w B_CMPRS) @ take n (drop pos pt)"
    using f(2) by (simp add: take_add)
  have wfm: "wf_mem c m" using wf_mem_lengths [of m ?m1] cipher_length [OF f(1)] wf1 by metis
  show ?thesis
    by (rule that [OF fetch])
      (use vs wfm tk cut(2) f(3) cipher_dst [OF f(1)] in \<open>simp_all add: add.commute\<close>)
qed

end

text \<open>
  A pass of the decompression loop whose call hands on the next bytes of the image: the consumer
  takes them, and the rest of the input moves to the front of the staging buffer.
\<close>

context staged_package
begin

lemma hands_on:
  assumes B: "exact_consumer view c cfg purp K body raw J" and wf: "wf_mem c (w_mem (d_world x))"
    and rem: "d_rem x \<noteq> 0" and sum: "unat (produced (d_out x)) + unat (d_rem x) \<le> length raw"
    and go: "\<not> (d_len x = 0 \<and> ctx_consumed (dwc_cctx cctx x) < total cctx)"
    and l: "unat (d_len x) \<le> length (w_mem (d_world x) B_CMPRS)"
    and J: "J (length raw - unat (d_rem x)) (d_ctx x) (w_dev (d_world x))"
    and call: "dec (dwc_call (sb_of n) x) (d_step x) (dwc_cctx cctx x) (w_mem (d_world x)) (w_alg (d_world x)) =
      Some (RT_EOK, step, m, a)"
    and cs: "unat (consumed step) \<le> unat (d_len x)"
    and pr: "0 < unat (produced step)" "unat (produced step) \<le> unat (cap_of (d_rem x) (sb_of n))"
    and out: "take (unat (produced step)) (m (g_crypt_buf c)) = take (unat (produced step)) (drop (length raw - unat (d_rem x)) raw)"
    and m: "\<And>b. length (m b) = length (w_mem (d_world x) b)" "m B_CMPRS = w_mem (d_world x) B_CMPRS"
  obtains y where "dwc_body dec K (sb_of n) cctx x = Some (Again y)"
    "wf_mem c (w_mem (d_world y))" "w_alg (d_world y) = a" "d_rst y = RT_EOK"
    "unat (d_len y) = unat (d_len x) - unat (consumed step)" "unat (d_rem y) = unat (d_rem x) - unat (produced step)"
    "unat (produced (d_out y)) = unat (produced (d_out x)) + unat (produced step)"
    "consumed (d_out y) = consumed (d_out x) + consumed step"
    "take (unat (d_len y)) (w_mem (d_world y) B_CMPRS) = drop (unat (consumed step)) (take (unat (d_len x)) (w_mem (d_world x) B_CMPRS))"
    "J (length raw - unat (d_rem y)) (d_ctx y) (w_dev (d_world y))"
proof -
  let ?N = "length raw" and ?r = "unat (d_rem x)" and ?p = "unat (produced step)" and ?c = "unat (consumed step)"
    and ?l = "unat (d_len x)" and ?w = "d_world x"
  have p: "?p \<le> ?r" "?p \<le> 4096" "?r \<le> ?N" using pr(2) sum by (simp_all add: unat_cap_of)
  obtain ctx' s' where k: "K (d_ctx x) (take ?p (drop (?N - ?r) raw)) (w_dev ?w) = Some (RT_EOK, ctx', s')"
    "J (?N - ?r + ?p) ctx' s'"
    by (rule exact_consumer_takes [OF B J, of ?p]) (use p in simp, rule that)
  let ?m = "compacted B_CMPRS ?c (?l - ?c) m"
  let ?y = "x\<lparr>d_rst := RT_EOK, d_step := step, d_ctx := ctx', d_len := d_len x - consumed step, d_rem := d_rem x - produced step,
      d_out := (d_out x)\<lparr>consumed := consumed (d_out x) + consumed step,
                         produced := produced (d_out x) + produced step\<rparr>,
      d_world := ?w\<lparr>w_alg := a, w_dev := s', w_mem := compacted (sb_in (sb_of n)) ?c (?l - ?c) m\<rparr>\<rparr>"
  have lo: "?p \<le> length (m (sb_out (sb_of n)))"
    using wf p(2) m(1) by (auto simp: wf_mem_def g_crypt_buf_def buf_sizes split: if_splits)
  have Kx: "K (d_ctx x) (take ?p (m (sb_out (sb_of n)))) (w_dev ?w) = Some (RT_EOK, ctx', s')" using k(1) out by simp
  have np: "\<not> (consumed step = 0 \<and> produced step = 0)" using pr(1) by auto
  have li: "?l \<le> length (m (sb_in (sb_of n)))" using l m(1) by simp
  have body: "dwc_body dec K (sb_of n) cctx x = Some (Again ?y)"
    using dwc_body_cases(2) [where dec = dec and sb = "sb_of n" and K = K, OF rem go call refl cs pr(2) np lo li Kx] by simp
  have l': "unat (d_len ?y) = ?l - ?c" using cs by (simp add: u32_sub)
  have cm: "?c + (?l - ?c) \<le> length (m B_CMPRS)" using cs li by simp
  show ?thesis
  proof (rule that [OF body])
    show "unat (d_rem ?y) = ?r - ?p" using p(1) by (simp add: u32_sub)
    then have "?N - unat (d_rem ?y) = ?N - ?r + ?p" using p(1,3) by linarith
    then show "J (?N - unat (d_rem ?y)) (d_ctx ?y) (w_dev (d_world ?y))" using k(2) by simp
    have "unat (produced (d_out x)) + ?p < 4294967296"
      using sum p(1) u32_less [of "raw_size (cfg_fw_info cfg)"] exact_consumer_lengths(2) [OF B] by linarith
    then show "unat (produced (d_out ?y)) = unat (produced (d_out x)) + ?p" by (simp add: u32_add)
    show "wf_mem c (w_mem (d_world ?y))"
      using wf m(1) compacted_props(1) [where b = B_CMPRS and m = m, OF cm] wf_mem_lengths [of ?m "w_mem ?w"] by simp
    show "take (unat (d_len ?y)) (w_mem (d_world ?y) B_CMPRS) = drop ?c (take ?l (w_mem ?w B_CMPRS))"
      using compacted_props(2) [where b = B_CMPRS and m = m, OF cm] m(2) cs unfolding l' by (simp add: drop_take)
  qed (use l' in simp_all)
qed

end

text \<open>The same over a decompressor that keeps its contract.\<close>

locale exact_stream = stream_env io view dec blocky f c cfg + staged_package io view dec f c cfg dev_size kst plain dst
  for io :: "'s qboot_io_ops" and view and dec :: "'a decompress_fn" and blocky and f and c and
    cfg :: "'a qbt_stream_cfg_t" and dev_size and kst :: "'a \<Rightarrow> 'k" and plain and dst :: "'a \<Rightarrow> 'd"

section \<open>A package that is not compressed\<close>

text \<open>
  With its raw size the package's, the stream hands the plain text to the consumer in order, in
  pieces of at most 4096 bytes, and succeeds.
\<close>

locale none_stream =
  exact_stream io view "qbt_algo_none_decompress c" False f c cfg dev_size kst plain "\<lambda>_. ()"
  for io :: "'s qboot_io_ops" and view and f :: "'a decrypt_fn" and c and cfg and dev_size and
    kst :: "'a \<Rightarrow> 'k" and plain +
  assumes raw_is_pkg: "raw_size (cfg_fw_info cfg) = pkg_size (cfg_fw_info cfg)"
begin

definition none_inv :: "byte list \<Rightarrow> byte list \<Rightarrow> (nat \<Rightarrow> proc_ctx \<Rightarrow> 's \<Rightarrow> bool) \<Rightarrow> ('s, 'a) stream_loc \<Rightarrow> bool" where
  "none_inv body pt J x \<longleftrightarrow> wf_mem c (w_mem (l_world x)) \<and> unat (l_raw_pos x) \<le> pkg \<and> l_len x = 0 \<and>
     unat (l_read_pos x) = hdr + unat (l_raw_pos x) \<and>
     J (unat (l_raw_pos x)) (l_ctx x) (w_dev (l_world x)) \<and>
     fst (plain (kst (w_alg (l_world x))) (drop (unat (l_raw_pos x)) body)) = drop (unat (l_raw_pos x)) pt"

text \<open>One run of the decompression loop passes the piece on and takes all of it.\<close>

lemma none_run:
  assumes wf: "wf_mem c (w_mem w)" and n: "0 < n" "n \<le> 4096" "n \<le> unat (raw_remaining cctx)"
    and tot: "unat (raw_remaining cctx) + unat (ctx_consumed cctx) = unat (total cctx)"
    and bs: "take n (w_mem w B_CMPRS) = bs" "length bs = n"
    and K: "K ctx bs (w_dev w) = Some (RT_EOK, ctx', s')"
  obtains r where
    "qbt_decompress_with_consumer (qbt_algo_none_decompress c) (sb_of (of_nat n)) cctx status_0 K ctx w = Some r"
    "d_rst r = RT_EOK" "produced (d_out r) = of_nat n" "d_len r = 0" "d_ctx r = ctx'"
    "w_dev (d_world r) = s'" "wf_mem c (w_mem (d_world r))" "w_alg (d_world r) = w_alg w"
proof -
  let ?sb = "sb_of (of_nat n)" and ?x0 = "dwc_start (sb_of (of_nat n)) cctx status_0 ctx w"
  have un: "unat (of_nat n :: u32) = n" using n by (simp add: u32_of_nat)
  have nz: "(of_nat n :: u32) \<noteq> 0" using un n(1) by auto
  have r: "n \<le> length (w_mem w B_CMPRS)" "n \<le> length (w_mem w (g_crypt_buf c))"
    using room [OF wf, of 0] n by (auto simp: held_def)
  have cap: "n \<le> unat (cap_of (d_rem ?x0) ?sb)"
    using n un by (simp add: unat_cap_of dwc_start_def)
  have x0: "d_len ?x0 = of_nat n" "d_rem ?x0 = raw_remaining cctx" "d_world ?x0 = w" "d_ctx ?x0 = ctx"
    "d_out ?x0 = status_0" "d_step ?x0 = status_0" by (simp_all add: dwc_start_def)
  let ?m = "if using_compression c
    then (w_mem w)(B_CRYPT := overwrite 0 bs (w_mem w B_CRYPT)) else w_mem w"
  let ?st = "status_0\<lparr>consumed := of_nat n, produced := of_nat n\<rparr>"
  have lm: "length (?m b) = length (w_mem w b)" for b
    using r bs by (auto simp: g_crypt_buf_def)
  have tk: "take n (?m (sb_out ?sb)) = bs"
    using bs r take_overwrite_0 [of n bs] by (auto simp: g_crypt_buf_def)
  have cmin: "(if (of_nat n :: u32) < cap_of (d_rem ?x0) ?sb then of_nat n else cap_of (d_rem ?x0) ?sb) = of_nat n"
    using cap un by (auto simp: u32_less_iff u32_eq_iff)
  have call: "qbt_algo_none_decompress c (dwc_call ?sb ?x0) (d_step ?x0) (dwc_cctx cctx ?x0)
      (w_mem (d_world ?x0)) (w_alg (d_world ?x0)) = Some (RT_EOK, ?st, ?m, w_alg w)"
    using nz r bs un cmin n(1)
    by (auto simp: qbt_algo_none_decompress_def x0 Let_def mem_read_def mem_write_def g_crypt_buf_def
        u32_less_iff)
  have rem0: "d_rem ?x0 \<noteq> 0" using n x0 by auto
  have go: "\<not> (d_len ?x0 = 0 \<and> ctx_consumed (dwc_cctx cctx ?x0) < total cctx)" using nz x0 by simp
  define y where "y = ?x0\<lparr>d_rst := RT_EOK, d_step := ?st, d_ctx := ctx', d_len := d_len ?x0 - of_nat n,
      d_rem := d_rem ?x0 - of_nat n,
      d_out := (d_out ?x0)\<lparr>consumed := consumed (d_out ?x0) + of_nat n,
                          produced := produced (d_out ?x0) + of_nat n\<rparr>,
      d_world := (d_world ?x0)\<lparr>w_alg := w_alg w, w_dev := s',
        w_mem := compacted (sb_in ?sb) n (unat (d_len ?x0) - n) ?m\<rparr>\<rparr>"
  have Kx: "K (d_ctx ?x0) (take (unat (produced ?st)) (?m (sb_out ?sb))) (w_dev (d_world ?x0)) =
      Some (RT_EOK, ctx', s')"
    using K un tk x0 by (simp del: sb_of_simps)
  have pre: "unat (consumed ?st) \<le> unat (d_len ?x0)" "unat (produced ?st) \<le> unat (cap_of (d_rem ?x0) ?sb)"
    "\<not> (consumed ?st = 0 \<and> produced ?st = 0)" "unat (produced ?st) \<le> length (?m (sb_out ?sb))"
    "unat (d_len ?x0) \<le> length (?m (sb_in ?sb))"
    using un nz cap lm r x0 by (simp_all del: sb_of_simps) (simp_all add: lm)
  have "dwc_body (qbt_algo_none_decompress c) K ?sb cctx ?x0 = Some (Again y)"
    using dwc_body_cases(2) [where K = K and sb = ?sb and x = ?x0 and m = ?m and step = ?st and
        dec = "qbt_algo_none_decompress c" and cctx = cctx and ?e2.0 = RT_EOK and ?ctx2.0 = ctx' and ?s2.0 = s',
        OF rem0 go call refl pre Kx] un
    by (simp add: y_def x0)
  moreover have "dwc_body (qbt_algo_none_decompress c) K ?sb cctx y = Some (Stop y)"
  proof (cases "d_rem y = 0")
    case True
    then show ?thesis by (simp add: dwc_body_def)
  next
    case False
    have y: "d_rem y = raw_remaining cctx - of_nat n" "d_len y = 0" "consumed (d_out y) = of_nat n"
      by (simp_all add: y_def x0) (simp_all add: status_0_def)
    have ry: "unat (d_rem y) = unat (raw_remaining cctx) - n"
      using un n by (simp add: y u32_sub)
    have "unat (ctx_consumed cctx + of_nat n) = unat (ctx_consumed cctx) + n"
    proof -
      have "unat (ctx_consumed cctx) + n < 4294967296" using tot n u32_less [of "total cctx"] by linarith
      with un show ?thesis by (simp add: u32_add)
    qed
    moreover have "unat (ctx_consumed cctx) + n < unat (total cctx)"
      using False ry tot n by (simp add: u32_eq_iff)
    ultimately show ?thesis
      using False y by (simp add: dwc_body_def Let_def u32_less_iff)
  qed
  ultimately have "run_loop (dwc_body (qbt_algo_none_decompress c) K ?sb cctx) ?x0 = Some y"
    by (simp add: run_loop_again run_loop_stop)
  then have run: "qbt_decompress_with_consumer (qbt_algo_none_decompress c) ?sb cctx status_0 K ctx w =
      Some (y\<lparr>d_out := (d_out y)\<lparr>remaining_in := d_len y\<rparr>\<rparr>)"
    by (simp add: qbt_decompress_with_consumer_def)
  have "wf_mem c (w_mem (d_world y))"
    using wf lm wf_mem_lengths [of ?m "w_mem w"] un by (simp add: y_def x0 compacted_def)
  then show ?thesis
    by (intro that [OF run]) (simp_all add: y_def x0, simp_all add: status_0_def)
qed

lemma none_step:
  assumes I: "none_inv body pt J x" and B: "exact_consumer view c cfg purp K body pt J"
  shows "(\<exists>r. stream_body c io cfg purp (proc_of K) x = Some (Stop r) \<and>
      (\<exists>ctx w. r = (True, ctx, w) \<and> wf_mem c (w_mem w) \<and> J pkg ctx (w_dev w))) \<or>
    (\<exists>y. stream_body c io cfg purp (proc_of K) x = Some (Again y) \<and> none_inv body pt J y \<and>
       pkg - unat (l_raw_pos y) < pkg - unat (l_raw_pos x))"
proof (cases "unat (l_raw_pos x) < pkg")
  case False
  then have "unat (l_raw_pos x) = pkg" using I by (simp add: none_inv_def)
  with I show ?thesis
    by (auto simp: stream_body_def none_inv_def raw_is_pkg u32_less_iff)
next
  case lt: True
  let ?k = "unat (l_raw_pos x)"
  define n where "n = min 4096 (pkg - ?k)"
  have n: "0 < n" "n \<le> 4096" "?k + n \<le> pkg" using lt by (auto simp: n_def)
  have un: "unat (of_nat n :: u32) = n" using n by (simp add: u32_of_nat)
  note i = I [unfolded none_inv_def]
  note lens = exact_consumer_lengths [OF B, unfolded raw_is_pkg]
  have Jx: "J ?k (l_ctx x) (w_dev (l_world x))" and len0: "l_len x = 0"
    and rp0: "unat (l_read_pos x) = hdr + ?k" and wf0: "wf_mem c (w_mem (l_world x))"
    and pt0: "fst (plain (kst (w_alg (l_world x))) (drop ?k body)) = drop ?k pt"
    using i by blast+
  note src = exact_consumerD(1) [OF B Jx] exact_consumerD(2) [OF B Jx, unfolded lens(1)]
  have rm: "unat (l_len x) + 4096 \<le> length (w_mem (l_world x) B_CMPRS)" "using_compression c \<or> l_len x = 0"
    using room [OF wf0, of 0] len0 by (simp_all add: held_def)
  obtain w where f: "stream_fetch c io cfg x = Some (True, x\<lparr>l_read_pos := l_read_pos x + of_nat n,
      l_len := l_len x + of_nat n, l_world := w\<rparr>)"
    and w: "view (w_dev w) = view (w_dev (l_world x))" "wf_mem c (w_mem w)"
      "take (unat (l_len x) + n) (w_mem w B_CMPRS) = take (unat (l_len x)) (w_mem (l_world x) B_CMPRS) @ take n (drop ?k pt)"
      "fst (plain (kst (w_alg w)) (drop (?k + n) body)) = drop (?k + n) pt"
    by (rule fetch_exact [OF wf0 rm rp0 lt n_def src pt0]) (rule that)
  have tk: "take n (w_mem w B_CMPRS) = take n (drop ?k pt)" using w(3) len0 by simp
  have Jw: "J ?k (l_ctx x) (w_dev w)" by (rule exact_consumerD(3) [OF B Jx w(1)])
  have kn: "?k + n \<le> length pt" using lens(2) n(3) by simp
  obtain ctx' s' where k: "K (l_ctx x) (take n (drop ?k pt)) (w_dev w) = Some (RT_EOK, ctx', s')"
    "J (?k + n) ctx' s'" by (rule exact_consumer_takes [OF B Jw kn])
  have rp: "unat (l_read_pos x + of_nat n) = hdr + ?k + n"
    using rp0 un n pkg_small by (simp add: u32_add)
  let ?cctx = "\<lparr>total = pkg_size (cfg_fw_info cfg),
    ctx_consumed = l_read_pos x + of_nat n - qboot_src_read_pos c - of_nat n,
    raw_remaining = raw_size (cfg_fw_info cfg) - l_raw_pos x, purpose = purp\<rparr>"
  have rr: "unat (raw_remaining ?cctx) = pkg - ?k"
    using lt by (simp add: raw_is_pkg u32_sub)
  have cc: "unat (ctx_consumed ?cctx) = ?k"
    using rp0 by (simp add: u32_sub)
  have lb: "length (take n (drop ?k pt)) = n" using kn by simp
  obtain r where r: "qbt_decompress_with_consumer (qbt_algo_none_decompress c) (sb_of (of_nat n)) ?cctx
      status_0 K (l_ctx x) w = Some r"
    "d_rst r = RT_EOK" "produced (d_out r) = of_nat n" "d_len r = 0" "d_ctx r = ctx'"
    "w_dev (d_world r) = s'" "wf_mem c (w_mem (d_world r))" "w_alg (d_world r) = w_alg w"
    by (rule none_run [where K = K and ctx = "l_ctx x" and cctx = ?cctx and ctx' = ctx' and s' = s',
        OF w(2) n(1,2) _ _ tk lb k(1)]) (use rr cc n lt in simp_all)
  have ctx: "(if purp = QBT_STREAM_WRITE then set_raw_pos (l_raw_pos x) (l_ctx x) else Some (l_ctx x)) =
      Some (l_ctx x)"
    using exact_consumerD(4) [OF B Jx] unfolding u32_of_nat_unat .
  let ?y = "x\<lparr>l_read_pos := l_read_pos x + of_nat n, l_raw_pos := l_raw_pos x + of_nat n, l_len := 0,
    l_ctx := ctx', l_world := d_world r\<rparr>"
  have nz: "(of_nat n :: u32) \<noteq> 0" using un n(1) by auto
  have lt': "l_raw_pos x < raw_size (cfg_fw_info cfg)" using lt by (simp add: raw_is_pkg u32_less_iff)
  have "stream_body c io cfg purp (proc_of K) x = Some (Again ?y)"
    unfolding stream_body_def using lt' f ctx cfg_dec r nz len0
    by (cases purp) (simp_all add: Let_def sb_of_def)
  moreover have np: "unat (l_raw_pos x + of_nat n) = ?k + n"
  proof -
    have "?k + n < 4294967296" using n u32_less [of "pkg_size (cfg_fw_info cfg)"] by linarith
    with un show ?thesis by (simp add: u32_add)
  qed
  then have "none_inv body pt J ?y" using r k(2) rp n w(4) by (simp add: none_inv_def)
  moreover have "pkg - unat (l_raw_pos ?y) < pkg - ?k" using np lt n by simp
  ultimately show ?thesis by blast
qed

text \<open>The stream succeeds and the consumer has got the whole plain text.\<close>

lemma none_transfers:
  "transfers io view c cfg (\<lambda>a. fst (plain (kst a) body) = pt) body pt"
  unfolding transfers_def
proof (intro allI impI)
  fix purp K J ctx and w :: "('s, 'a) world"
  assume B: "exact_consumer view c cfg purp K body pt J" and wf: "wf_mem c (w_mem w)" and J0: "J 0 ctx (w_dev w)"
    and ini: "fst (plain (kst (w_alg w)) body) = pt"
  let ?x = "\<lparr>l_read_pos = qboot_src_read_pos c, l_raw_pos = 0, l_len = 0, l_ctx = ctx, l_world = w\<rparr>"
  have I0: "none_inv body pt J ?x" using wf J0 ini by (simp add: none_inv_def)
  have len: "length pt = pkg" using exact_consumer_lengths(2) [OF B] by (simp add: raw_is_pkg)
  have "\<exists>r. run_loop (stream_body c io cfg purp (proc_of K)) ?x = Some r \<and>
      (\<exists>ctx w. r = (True, ctx, w) \<and> wf_mem c (w_mem w) \<and> J pkg ctx (w_dev w))"
    by (rule run_loop_total [where I = "none_inv body pt J" and m = "\<lambda>x. pkg - unat (l_raw_pos x)"])
      (use I0 none_step [OF _ B] in blast)+
  then show "\<exists>ctx' w'. qbt_fw_stream_process c io cfg purp (proc_of K) ctx w = Some (True, ctx', w') \<and>
      wf_mem c (w_mem w') \<and> J (length pt) ctx' (w_dev w')"
    by (auto simp: qbt_fw_stream_process_def len)
qed

end

end
