(* ===== verification/Qboot_Firmware.thy ===== *)
theory Qboot_Firmware
  imports Qboot_Transfer
begin

text \<open>
  Checking, releasing and verifying a firmware package: the first half of \<open>src/qboot.c\<close>, and
  the functions by which the download helper of \<open>src/qboot_update.c\<close> replaces the checks.
\<close>

section \<open>Environment and state\<close>

text \<open>
  What the functions use and do not change: the build configuration, the store choices, the
  registered tables, the CRC library, and the HPatchLite release of
  \<open>algorithm/qboot_hpatchlite.c\<close>, which is given the patch and the destination handle, the
  package size, the raw size and the patch offset.
\<close>

record ('s, 'a) boot_env =
  e_cfg :: qboot_cfg
  e_stores :: stores
  e_io :: "'s qboot_io_ops"
  e_parser :: "'s qboot_header_parser_ops"
  e_tables :: "'a algo_tables"
  e_crc :: crc_fn
  e_cal :: "byte list \<Rightarrow> u32"
  e_hpatch :: "handle \<Rightarrow> handle \<Rightarrow> u32 \<Rightarrow> u32 \<Rightarrow> u32 \<Rightarrow> ('s, 'a) world \<Rightarrow> (int \<times> ('s, 'a) world) option"

text \<open>
  The state: the global \<open>fw_info\<close>, the flag \<open>s_dl.ok\<close> of the download helper, and the devices,
  buffers and algorithm states.
\<close>

record ('s, 'a) boot =
  g_fw_info :: fw_info_t
  s_dl_ok :: bool
  b_world :: "('s, 'a) world"

definition QBOOT_ALGO2_VERIFY_CRC :: u16 where "QBOOT_ALGO2_VERIFY_CRC = 1"
definition QBOOT_ALGO2_VERIFY_MASK :: u16 where "QBOOT_ALGO2_VERIFY_MASK = 0x0F"

section \<open>Checks\<close>

text \<open>The header CRC covers the first \<open>qboot_src_read_pos() - 4\<close> bytes of the struct.\<close>

definition qbt_fw_info_check :: "('s, 'a) boot_env \<Rightarrow> fw_info_t \<Rightarrow> bool" where
  "qbt_fw_info_check E fw =
     (if \<not> rt_streq (fw_type fw) ''RBL'' then False
      else e_cal E (take (unat (qboot_src_read_pos (e_cfg E) - 4)) (bytes_of_fw_info fw)) = hdr_crc fw)"

record ('s, 'a) crc_loc =
  k_pos :: u32
  k_crc :: u32
  k_world :: "('s, 'a) world"

text \<open>
  \<open>int gzip_remain_len = size - pos\<close> and \<open>int read_len\<close> are signed: a remainder of
  \<open>2 ^ 31\<close> bytes or more is negative, taken as the length, and passed on as unsigned.
\<close>

definition chunk_len :: "u32 \<Rightarrow> u32" where
  "chunk_len remain = (if int (unat QBOOT_BUF_SIZE) > sint remain then remain else QBOOT_BUF_SIZE)"

definition crc_body ::
  "('s, 'a) boot_env \<Rightarrow> handle \<Rightarrow> u32 \<Rightarrow> u32 \<Rightarrow> ('s, 'a) crc_loc \<Rightarrow>
   (('s, 'a) crc_loc, bool \<times> u32 \<times> ('s, 'a) world) iter option" where
  "crc_body E h addr n x =
     (if \<not> k_pos x < n then Some (Stop (True, k_crc x, k_world x))
      else let read_len = chunk_len (n - k_pos x) in do {
        (e, w) \<leftarrow> dev_read_to (e_io E) h (addr + k_pos x) (B_CMPRS, 0) read_len (k_world x);
        if e \<noteq> RT_EOK then Some (Stop (False, k_crc x, w))
        else do {
          bs \<leftarrow> mem_read B_CMPRS 0 (unat read_len) (w_mem w);
          Some (Again \<lparr>k_pos = k_pos x + read_len, k_crc = e_crc E (k_crc x) bs, k_world = w\<rparr>)
        }
      })"

definition qbt_fw_crc_check ::
  "('s, 'a) boot_env \<Rightarrow> handle \<Rightarrow> u32 \<Rightarrow> u32 \<Rightarrow> u32 \<Rightarrow> ('s, 'a) world \<Rightarrow> (bool \<times> ('s, 'a) world) option" where
  "qbt_fw_crc_check E h addr n crc w =
     do {
       (ok, c, w') \<leftarrow> run_loop (crc_body E h addr n) \<lparr>k_pos = 0, k_crc = 0xFFFFFFFF, k_world = w\<rparr>;
       Some (ok \<and> c XOR 0xFFFFFFFF = crc, w')
     }"

definition stream_cfg_of ::
  "qboot_cfg \<Rightarrow> handle \<Rightarrow> fw_info_t \<Rightarrow> 'a qbt_algo_context_t \<Rightarrow> 'a qbt_stream_cfg_t" where
  "stream_cfg_of c src fw ops = \<lparr>src_handle = src, cfg_fw_info = fw, algo_ops = ops,
     cmprs_buf = B_CMPRS, out_buf = g_crypt_buf c, crypt_buf = g_crypt_buf c\<rparr>"

definition alg_init ::
  "'a qbt_algo_context_t \<Rightarrow> ('s, 'a) world \<Rightarrow> bool \<times> ('s, 'a) world" where
  "alg_init ctx w = (case qbt_fw_algo_init ctx (w_alg w) of (ok, a) \<Rightarrow> (ok, w\<lparr>w_alg := a\<rparr>))"

definition alg_deinit :: "'a qbt_algo_context_t \<Rightarrow> ('s, 'a) world \<Rightarrow> ('s, 'a) world" where
  "alg_deinit ctx w = w\<lparr>w_alg := qbt_fw_algo_deinit ctx (w_alg w)\<rparr>"

definition qbt_app_crc_check ::
  "('s, 'a) boot_env \<Rightarrow> handle \<Rightarrow> fw_info_t \<Rightarrow> ('s, 'a) world \<Rightarrow> (bool \<times> ('s, 'a) world) option" where
  "qbt_app_crc_check E src fw w =
     (case qbt_fw_get_algo_context (e_tables E) fw of
        (False, _) \<Rightarrow> Some (False, w)
      | (True, ops) \<Rightarrow>
          (case alg_init ops w of
             (False, w1) \<Rightarrow> Some (False, w1)
           | (True, w1) \<Rightarrow> do {
               (ret, ctx, w2) \<leftarrow> qbt_fw_stream_process (e_cfg E) (e_io E) (stream_cfg_of (e_cfg E) src fw ops)
                  QBT_STREAM_CRC (qbt_stream_crc_proc (e_crc E)) (Crc_ctx 0xFFFFFFFF) w1;
               Some (ret \<and> (case ctx of Crc_ctx acc \<Rightarrow> acc XOR 0xFFFFFFFF = raw_crc fw | Write_ctx _ \<Rightarrow> False),
                     alg_deinit ops w2)
             }))"

section \<open>Release\<close>

definition erase_w :: "'s qboot_io_ops \<Rightarrow> handle \<Rightarrow> u32 \<Rightarrow> u32 \<Rightarrow> ('s, 'a) world \<Rightarrow> rt_err \<times> ('s, 'a) world" where
  "erase_w io h off len w =
     (case qbt_erase_with_feed io h off len (w_dev w) of (e, s) \<Rightarrow> (e, w\<lparr>w_dev := s\<rparr>))"

definition info_write_w ::
  "qboot_cfg \<Rightarrow> 's qboot_io_ops \<Rightarrow> handle \<Rightarrow> u32 \<Rightarrow> fw_info_t \<Rightarrow> bool \<Rightarrow> ('s, 'a) world \<Rightarrow> bool \<times> ('s, 'a) world" where
  "info_write_w c io h len fw tail w =
     (case qbt_fw_info_write c io h len fw tail (w_dev w) of (ok, s) \<Rightarrow> (ok, w\<lparr>w_dev := s\<rparr>))"

definition info_read_w ::
  "qboot_cfg \<Rightarrow> 's qboot_io_ops \<Rightarrow> handle \<Rightarrow> u32 \<Rightarrow> fw_info_t \<Rightarrow> bool \<Rightarrow> ('s, 'a) world \<Rightarrow>
   bool \<times> fw_info_t \<times> ('s, 'a) world" where
  "info_read_w c io h len fw tail w =
     (case qbt_fw_info_read c io h len fw tail (w_dev w) of (ok, fw', s) \<Rightarrow> (ok, fw', w\<lparr>w_dev := s\<rparr>))"

text \<open>The two erases before the stream: the raw size at the front, the header at the tail.\<close>

definition release_erase ::
  "('s, 'a) boot_env \<Rightarrow> handle \<Rightarrow> u32 \<Rightarrow> fw_info_t \<Rightarrow> ('s, 'a) world \<Rightarrow> bool \<times> ('s, 'a) world" where
  "release_erase E dst dst_size fw w =
     (case erase_w (e_io E) dst 0 (raw_size fw) w of
        (e1, w1) \<Rightarrow>
          if e1 \<noteq> RT_EOK then (False, w1)
          else (case erase_w (e_io E) dst (dst_size - qboot_src_read_pos (e_cfg E))
                       (qboot_src_read_pos (e_cfg E)) w1 of
            (e2, w2) \<Rightarrow> (e2 = RT_EOK, w2)))"

definition qbt_fw_release ::
  "('s, 'a) boot_env \<Rightarrow> handle \<Rightarrow> u32 \<Rightarrow> handle \<Rightarrow> fw_info_t \<Rightarrow> ('s, 'a) world \<Rightarrow> (bool \<times> ('s, 'a) world) option" where
  "qbt_fw_release E dst dst_size src fw w =
     (case qbt_fw_get_algo_context (e_tables E) fw of
        (False, _) \<Rightarrow> Some (False, w)
      | (True, ops) \<Rightarrow>
          (case alg_init ops w of
             (False, w1) \<Rightarrow> Some (False, w1)
           | (True, w1) \<Rightarrow>
               if using_hpatchlite (e_cfg E) \<and>
                  map_option cmprs_id (cmprs_ops ops) = Some QBOOT_ALGO_CMPRS_HPATCHLITE
               then do {
                 (r, w2) \<leftarrow> e_hpatch E src dst (pkg_size fw) (raw_size fw) (qboot_src_read_pos (e_cfg E)) w1;
                 if r = 1
                 then Some (info_write_w (e_cfg E) (e_io E) dst dst_size fw True (alg_deinit ops w2))
                 else Some (False, w2)
               }
               else (case release_erase E dst dst_size fw w1 of
                  (False, w2) \<Rightarrow> Some (False, alg_deinit ops w2)
                | (True, w2) \<Rightarrow> do {
                    (ok, _, w3) \<leftarrow> qbt_fw_stream_process (e_cfg E) (e_io E)
                       (stream_cfg_of (e_cfg E) src fw ops) QBT_STREAM_WRITE (qbt_stream_write_proc (e_io E))
                       (Write_ctx \<lparr>dst_handle = dst, st_raw_pos = 0, st_raw_size = raw_size fw\<rparr>) w2;
                    if \<not> ok then Some (False, alg_deinit ops w3)
                    else Some (info_write_w (e_cfg E) (e_io E) dst dst_size fw True (alg_deinit ops w3))
                  })))"

section \<open>Verification of the destination\<close>

text \<open>
  The weak default reads the header into the global \<open>fw_info\<close>. The download helper replaces
  it by a function that accepts.
\<close>

definition dest_part_verify_default ::
  "('s, 'a) boot_env \<Rightarrow> handle \<Rightarrow> u32 \<Rightarrow> ('s, 'a) boot \<Rightarrow> (bool \<times> ('s, 'a) boot) option" where
  "dest_part_verify_default E h part_len b =
     (case info_read_w (e_cfg E) (e_io E) h part_len (g_fw_info b) True (b_world b) of
        (ok, fw, w) \<Rightarrow>
          let b1 = b\<lparr>g_fw_info := fw, b_world := w\<rparr> in
          if \<not> ok then Some (False, b1)
          else if \<not> qbt_fw_info_check E fw then Some (False, b1)
          else if algo2 fw AND QBOOT_ALGO2_VERIFY_MASK = QBOOT_ALGO2_VERIFY_CRC then do {
            (ok2, w2) \<leftarrow> qbt_fw_crc_check E h 0 (raw_size fw) (raw_crc fw) w;
            Some (ok2, b1\<lparr>b_world := w2\<rparr>)
          }
          else Some (True, b1))"

definition dest_part_verify_helper :: "handle \<Rightarrow> u32 \<Rightarrow> ('s, 'a) boot \<Rightarrow> (bool \<times> ('s, 'a) boot) option" where
  "dest_part_verify_helper h part_len b = Some (True, b)"

definition qbt_dest_part_verify ::
  "('s, 'a) boot_env \<Rightarrow> handle \<Rightarrow> u32 \<Rightarrow> ('s, 'a) boot \<Rightarrow> (bool \<times> ('s, 'a) boot) option" where
  "qbt_dest_part_verify E h part_len b =
     (if using_download_helper (e_cfg E) then dest_part_verify_helper h part_len b
      else dest_part_verify_default E h part_len b)"

section \<open>Verification of the package\<close>

text \<open>
  The callers pass the address of the global \<open>fw_info\<close>, so the header goes there. The name is
  a role name, or the argument of a shell command.
\<close>

definition fw_check_default ::
  "('s, 'a) boot_env \<Rightarrow> handle \<Rightarrow> u32 \<Rightarrow> ('s, 'a) boot \<Rightarrow> (bool \<times> ('s, 'a) boot) option" where
  "fw_check_default E h part_len b =
     (case info_read_w (e_cfg E) (e_io E) h part_len (g_fw_info b) False (b_world b) of
        (ok, fw, w) \<Rightarrow>
          let b1 = b\<lparr>g_fw_info := fw, b_world := w\<rparr> in
          if \<not> ok then Some (False, b1)
          else if \<not> qbt_fw_info_check E fw then Some (False, b1)
          else do {
            (ok2, w2) \<leftarrow> qbt_fw_crc_check E h (qboot_src_read_pos (e_cfg E)) (pkg_size fw) (pkg_crc fw) w;
            let b2 = b1\<lparr>b_world := w2\<rparr>;
            if \<not> ok2 then Some (False, b2)
            else if algo fw AND QBOOT_ALGO_CMPRS_MASK \<noteq> QBOOT_ALGO_CMPRS_HPATCHLITE \<and>
                    algo2 fw AND QBOOT_ALGO2_VERIFY_MASK = QBOOT_ALGO2_VERIFY_CRC then do {
              (ok3, w3) \<leftarrow> qbt_app_crc_check E h fw w2;
              Some (ok3, b2\<lparr>b_world := w3\<rparr>)
            }
            else Some (True, b2)
          })"

text \<open>\<open>rt_strcpy\<close> of a literal into a field, with its terminating NUL.\<close>

definition rt_strcpy :: "byte list \<Rightarrow> string \<Rightarrow> byte list" where
  "rt_strcpy dst s = overwrite 0 (str_bytes s @ [0]) dst"

definition fw_check_helper ::
  "u32 \<Rightarrow> byte list \<Rightarrow> ('s, 'a) boot \<Rightarrow> (bool \<times> ('s, 'a) boot) option" where
  "fw_check_helper part_len name b =
     (let allow = (if rt_streq name QBOOT_DOWNLOAD_PART_NAME then s_dl_ok b
                   else rt_streq name QBOOT_FACTORY_PART_NAME)
      in if \<not> allow then Some (False, b)
         else Some (True, b\<lparr>g_fw_info := (g_fw_info b)\<lparr>algo := 0,
                part_name := rt_strcpy (part_name (g_fw_info b)) QBOOT_APP_PART_NAME,
                raw_size := part_len, pkg_size := part_len\<rparr>\<rparr>))"

definition qbt_fw_check ::
  "('s, 'a) boot_env \<Rightarrow> handle \<Rightarrow> u32 \<Rightarrow> byte list \<Rightarrow> ('s, 'a) boot \<Rightarrow> (bool \<times> ('s, 'a) boot) option" where
  "qbt_fw_check E h part_len name b =
     (if using_download_helper (e_cfg E) then fw_check_helper part_len name b
      else fw_check_default E h part_len b)"

text \<open>\<open>qbt_fw_update\<close> gets the global header by address: the verification may change it.\<close>

definition qbt_fw_update ::
  "('s, 'a) boot_env \<Rightarrow> handle \<Rightarrow> u32 \<Rightarrow> handle \<Rightarrow> ('s, 'a) boot \<Rightarrow> (bool \<times> ('s, 'a) boot) option" where
  "qbt_fw_update E dst dst_size src b =
     do {
       (rst, w) \<leftarrow> qbt_fw_release E dst dst_size src (g_fw_info b) (b_world b);
       let b1 = b\<lparr>b_world := w\<rparr>;
       if \<not> rst then Some (False, b1)
       else do {
         (ok, b2) \<leftarrow> qbt_dest_part_verify E dst dst_size b1;
         if \<not> ok then Some (False, b2) else Some (True, b2)
       }
     }"

section \<open>Reading and checksumming\<close>

lemma chunk_len_small:
  assumes "unat r < 2147483648"
  shows "unat (chunk_len r) = min 4096 (unat r)"
proof -
  have "sint r < 4096 \<longleftrightarrow> unat r < 4096" using sint_small [OF assms] by linarith
  then show ?thesis by (simp add: chunk_len_def buf_sizes)
qed

lemma wf_mem_cmprs: "wf_mem c m \<Longrightarrow> 4096 \<le> length (m B_CMPRS)"
  by (simp add: wf_mem_def buf_sizes split: if_splits)

context reliable_storage
begin

lemma dev_read_exact:
  assumes o: "v_open (view (w_dev w) h)" and fit: "unat off + unat n \<le> dev_size h"
    and wf: "wf_mem c (w_mem w)" and n: "unat n \<le> 4096"
  obtains w' where "dev_read_to io h off (B_CMPRS, 0) n w = Some (RT_EOK, w')"
    "view (w_dev w') = view (w_dev w)" "wf_mem c (w_mem w')" "w_alg w' = w_alg w"
    "mem_read B_CMPRS 0 (unat n) (w_mem w') = Some (cells (v_cell (view (w_dev w) h)) (unat off) (unat n))"
proof -
  let ?bs = "cells (v_cell (view (w_dev w) h)) (unat off) (unat n)"
  obtain s where rd: "io_read io h off n (w_dev w) = (Inr ?bs, s)" and v: "view s = view (w_dev w)"
    using read_exact [OF o fit] by blast
  have le: "unat n \<le> length (w_mem w B_CMPRS)" using wf_mem_cmprs [OF wf] n by linarith
  let ?m = "(w_mem w)(B_CMPRS := overwrite 0 ?bs (w_mem w B_CMPRS))"
  have wr: "mem_write B_CMPRS 0 ?bs (w_mem w) = Some ?m" using le by (simp add: mem_write_def)
  show ?thesis
  proof (rule that [of "w\<lparr>w_dev := s, w_mem := ?m\<rparr>"])
    show "dev_read_to io h off (B_CMPRS, 0) n w = Some (RT_EOK, w\<lparr>w_dev := s, w_mem := ?m\<rparr>)"
      by (simp add: dev_read_to_def rd wr)
    show "wf_mem c (w_mem (w\<lparr>w_dev := s, w_mem := ?m\<rparr>))" using wf_mem_write [OF wr wf] by simp
    show "mem_read B_CMPRS 0 (unat n) (w_mem (w\<lparr>w_dev := s, w_mem := ?m\<rparr>)) = Some ?bs"
      using le take_overwrite_0 [of "unat n" ?bs] by (simp add: mem_read_def)
  qed (use v in simp_all)
qed

end

text \<open>On a reliable device the check compares the CRC of exactly the region it is given.\<close>

locale boot_dev = reliable_storage io view dev_size + crc_library crc cal
  for io :: "'s qboot_io_ops" and view and dev_size and crc :: crc_fn and cal +
  fixes E :: "('s, 'a) boot_env"
  assumes env_io: "e_io E = io" and env_crc: "e_crc E = crc" and env_cal: "e_cal E = cal"
begin

lemma crc_check_exact:
  assumes o: "v_open (view (w_dev w) h)" and fit: "unat addr + unat n \<le> dev_size h"
    and wrap: "unat addr + unat n < 4294967296" and small: "unat n < 2147483648"
    and wf: "wf_mem c (w_mem w)"
  obtains w' where
    "qbt_fw_crc_check E h addr n x w =
      Some (cal (cells (v_cell (view (w_dev w) h)) (unat addr) (unat n)) = x, w')"
    "view (w_dev w') = view (w_dev w)" "wf_mem c (w_mem w')" "w_alg w' = w_alg w"
proof -
  let ?f = "v_cell (view (w_dev w) h)" and ?x0 = "\<lparr>k_pos = 0, k_crc = 0xFFFFFFFF, k_world = w\<rparr>"
  define I where "I y \<longleftrightarrow> unat (k_pos y) \<le> unat n \<and>
      k_crc y = crc 0xFFFFFFFF (cells ?f (unat addr) (unat (k_pos y))) \<and>
      view (w_dev (k_world y)) = view (w_dev w) \<and> wf_mem c (w_mem (k_world y)) \<and>
      w_alg (k_world y) = w_alg w" for y :: "('s, 'a) crc_loc"
  define Q where "Q r \<longleftrightarrow> (\<exists>w'. r = (True, crc 0xFFFFFFFF (cells ?f (unat addr) (unat n)), w') \<and>
      view (w_dev w') = view (w_dev w) \<and> wf_mem c (w_mem w') \<and> w_alg w' = w_alg w)" for r :: "bool \<times> u32 \<times> ('s, 'a) world"
  have "\<exists>r. run_loop (crc_body E h addr n) ?x0 = Some r \<and> Q r"
  proof (rule run_loop_total [where I = I and m = "\<lambda>y. unat n - unat (k_pos y)"])
    show "I ?x0" using wf by (simp add: I_def crc_nil)
  next
    fix y assume I: "I y"
    show "(\<exists>r. crc_body E h addr n y = Some (Stop r) \<and> Q r) \<or>
      (\<exists>z. crc_body E h addr n y = Some (Again z) \<and> I z \<and> unat n - unat (k_pos z) < unat n - unat (k_pos y))"
    proof (cases "k_pos y < n")
      case False
      then have "k_pos y = n" using I by (simp add: I_def u32_cmp)
      with I have "Q (True, k_crc y, k_world y)" by (auto simp: I_def Q_def)
      with False show ?thesis by (simp add: crc_body_def)
    next
      case True
      let ?p = "unat (k_pos y)" and ?l = "chunk_len (n - k_pos y)"
      have lt: "?p < unat n" using True by (simp add: u32_less_iff)
      have d: "unat (n - k_pos y) = unat n - ?p" using lt by (simp add: u32_sub)
      have l: "unat ?l = min 4096 (unat n - ?p)" using chunk_len_small [of "n - k_pos y"] d small by simp
      have ap: "unat (addr + k_pos y) = unat addr + ?p" using wrap lt by (simp add: u32_add)
      have l': "?p + unat ?l \<le> unat n" "0 < unat ?l" "unat ?l \<le> 4096" using l lt by auto
      have oy: "v_open (view (w_dev (k_world y)) h)" using I o by (simp add: I_def)
      have fy: "unat (addr + k_pos y) + unat ?l \<le> dev_size h" using ap l' fit by linarith
      have wy: "wf_mem c (w_mem (k_world y))" using I by (simp add: I_def)
      obtain w' where r: "dev_read_to io h (addr + k_pos y) (B_CMPRS, 0) ?l (k_world y) = Some (RT_EOK, w')"
        "view (w_dev w') = view (w_dev (k_world y))" "wf_mem c (w_mem w')" "w_alg w' = w_alg (k_world y)"
        "mem_read B_CMPRS 0 (unat ?l) (w_mem w') = Some (cells ?f (unat addr + ?p) (unat ?l))"
        using dev_read_exact [OF oy fy wy l'(3)] I by (auto simp: I_def ap)
      let ?z = "\<lparr>k_pos = k_pos y + ?l, k_crc = crc (k_crc y) (cells ?f (unat addr + ?p) (unat ?l)), k_world = w'\<rparr>"
      have b: "crc_body E h addr n y = Some (Again ?z)"
        using True r by (simp add: crc_body_def Let_def env_io env_crc)
      have zp: "unat (k_pos y + ?l) = ?p + unat ?l"
        using l' u32_less [of n] by (intro u32_add) linarith
      have "I ?z" using I r zp l' by (simp add: I_def crc_append cells_add)
      moreover have "unat n - unat (k_pos ?z) < unat n - ?p" using zp l' lt by simp
      ultimately show ?thesis using b by blast
    qed
  qed
  then obtain w' where "run_loop (crc_body E h addr n) ?x0 =
      Some (True, crc 0xFFFFFFFF (cells ?f (unat addr) (unat n)), w')"
    "view (w_dev w') = view (w_dev w)" "wf_mem c (w_mem w')" "w_alg w' = w_alg w"
    unfolding Q_def by blast
  then show ?thesis
    by (intro that [of w']) (simp_all add: qbt_fw_crc_check_def crc_cal)
qed

lemma erase_w_total:
  assumes o: "v_open (view (w_dev w) h)" and fit: "unat off + unat n \<le> dev_size h"
  obtains w' where "erase_w io h off n w = (RT_EOK, w')" "v_open (view (w_dev w') h)"
    "ready_range (view (w_dev w') h) (unat off) (unat n)"
    "\<And>i. v_ready (view (w_dev w) h) i \<Longrightarrow> v_ready (view (w_dev w') h) i"
    "\<And>h'. h' \<noteq> h \<Longrightarrow> view (w_dev w') h' = view (w_dev w) h'" "w_mem w' = w_mem w" "w_alg w' = w_alg w"
proof -
  obtain s where e: "io_erase io h off n (w_dev w) = (RT_EOK, s)" using erase_total [OF o fit] by blast
  show ?thesis
    by (rule that [of "w\<lparr>w_dev := s\<rparr>"])
      (use e erase_open [OF o e] erase_ready [OF o e] erase_keeps [OF o e] erase_other [OF o e] in
        \<open>simp_all add: erase_w_def\<close>)
qed

end

section \<open>A package and its installation\<close>

text \<open>
  The header and the body of a package on a device, behind the 96 bytes of the header,
  and what an installation leaves on the destination: the image in front, the header in the
  last 96 bytes. \<open>fits\<close> says that the package lies in the
  source and its size leaves the 32-bit and signed arithmetic of the code exact, \<open>room_for\<close>
  that the destination holds the body and the header.
\<close>

definition header_of :: "('s \<Rightarrow> handle \<Rightarrow> dev_view) \<Rightarrow> 's \<Rightarrow> handle \<Rightarrow> fw_info_t" where
  "header_of view s h = fw_info_of_bytes (cells (v_cell (view s h)) 0 96)"

definition body_of :: "('s \<Rightarrow> handle \<Rightarrow> dev_view) \<Rightarrow> 's \<Rightarrow> handle \<Rightarrow> fw_info_t \<Rightarrow> byte list" where
  "body_of view s src fw = cells (v_cell (view s src)) 96 (unat (pkg_size fw))"

definition installed ::
  "('s \<Rightarrow> handle \<Rightarrow> dev_view) \<Rightarrow> 's \<Rightarrow> handle \<Rightarrow> u32 \<Rightarrow> fw_info_t \<Rightarrow> byte list \<Rightarrow> bool" where
  "installed view s dst n fw body \<longleftrightarrow> cells (v_cell (view s dst)) 0 (unat (raw_size fw)) = body \<and>
     cells (v_cell (view s dst)) (unat n - 96) 96 = bytes_of_fw_info fw"

definition fits :: "(handle \<Rightarrow> nat) \<Rightarrow> handle \<Rightarrow> fw_info_t \<Rightarrow> bool" where
  "fits dev_size src fw \<longleftrightarrow> 96 + unat (pkg_size fw) < 2147483648 \<and> 96 + unat (pkg_size fw) \<le> dev_size src"

definition room_for :: "(handle \<Rightarrow> nat) \<Rightarrow> handle \<Rightarrow> u32 \<Rightarrow> fw_info_t \<Rightarrow> bool" where
  "room_for dev_size dst n fw \<longleftrightarrow> unat (raw_size fw) + 96 \<le> unat n \<and> unat n \<le> dev_size dst"

locale boot_base = boot_dev io view dev_size crc cal E
  for io :: "'s qboot_io_ops" and view and dev_size and crc and cal and
    E :: "('s, ('q, 'z, 'k) alg_state) boot_env" +
  assumes startup: "\<exists>L. qbot_algo_startup (e_cfg E) L algo_tables_0 = (RT_EOK, e_tables E)"
    and no_helper: "\<not> using_download_helper (e_cfg E)"
begin

abbreviation "cf \<equiv> e_cfg E"

lemma src_pos [simp]: "unat (qboot_src_read_pos cf) = 96"
  using no_helper by (simp add: unat_src_read_pos sizeof_fw_info_def)

text \<open>The header of a device, read over a struct of the right shape.\<close>

lemma info_read_front:
  assumes o: "v_open (view (w_dev w) h)" and fit: "96 \<le> dev_size h" and wf: "wf_fw_info fw0"
  obtains w' where
    "info_read_w cf io h n fw0 False w = (True, fw_info_of_bytes (cells (v_cell (view (w_dev w) h)) 0 96), w')"
    "view (w_dev w') = view (w_dev w)" "w_mem w' = w_mem w" "w_alg w' = w_alg w"
proof -
  have "unat (0 :: u32) + unat (qboot_src_read_pos cf) \<le> dev_size h" using fit by simp
  from read_exact [OF o this] obtain s where
    rd: "io_read io h 0 (qboot_src_read_pos cf) (w_dev w) = (Inr (cells (v_cell (view (w_dev w) h)) 0 96), s)"
    and v: "view s = view (w_dev w)" by auto
  show ?thesis
    by (rule that [of "w\<lparr>w_dev := s\<rparr>"])
      (use wf v in \<open>simp_all add: info_read_w_def qbt_fw_info_read_def rd overwrite_all sizeof_fw_info_def\<close>)
qed

lemma info_read_tail:
  assumes o: "v_open (view (w_dev w) h)" and len: "96 \<le> unat n" "unat n \<le> dev_size h" and wf: "wf_fw_info fw0"
  obtains w' where
    "info_read_w cf io h n fw0 True w =
      (True, fw_info_of_bytes (cells (v_cell (view (w_dev w) h)) (unat n - 96) 96), w')"
    "view (w_dev w') = view (w_dev w)" "w_mem w' = w_mem w" "w_alg w' = w_alg w"
proof -
  have u: "unat (n - qboot_src_read_pos cf) = unat n - 96" using len by (simp add: u32_sub)
  have "unat (n - qboot_src_read_pos cf) + unat (qboot_src_read_pos cf) \<le> dev_size h" using len u by simp
  from read_exact [OF o this] obtain s where
    rd: "io_read io h (n - qboot_src_read_pos cf) (qboot_src_read_pos cf) (w_dev w) =
      (Inr (cells (v_cell (view (w_dev w) h)) (unat n - 96) 96), s)"
    and v: "view s = view (w_dev w)" using u by auto
  have "\<not> n < qboot_src_read_pos cf" using len by (simp add: u32_less_iff)
  then show ?thesis
    by (intro that [of "w\<lparr>w_dev := s\<rparr>"])
      (use wf v in \<open>simp_all add: info_read_w_def qbt_fw_info_read_def rd overwrite_all sizeof_fw_info_def\<close>)
qed

lemma info_write_tail:
  assumes o: "v_open (view (w_dev w) h)" and len: "96 \<le> unat n" "unat n \<le> dev_size h" and wf: "wf_fw_info fw"
    and rdy: "ready_range (view (w_dev w) h) (unat n - 96) 96"
  obtains w' where
    "info_write_w cf io h n fw True w = (True, w')"
    "v_cell (view (w_dev w') h) = splice (unat n - 96) (bytes_of_fw_info fw) (v_cell (view (w_dev w) h))"
    "v_open (view (w_dev w') h)" "\<And>h'. h' \<noteq> h \<Longrightarrow> view (w_dev w') h' = view (w_dev w) h'"
    "w_mem w' = w_mem w" "w_alg w' = w_alg w"
proof -
  have u: "unat (n - qboot_src_read_pos cf) = unat n - 96" using len by (simp add: u32_sub)
  have lb: "length (bytes_of_fw_info fw) = 96" using wf by (simp add: sizeof_fw_info_def)
  then have l32: "length (bytes_of_fw_info fw) < 4294967296" by simp
  have "unat (n - qboot_src_read_pos cf) + length (bytes_of_fw_info fw) \<le> dev_size h" using len u lb by simp
  from write_total [OF o l32 this] obtain s where
    wr: "io_write io h (n - qboot_src_read_pos cf) (bytes_of_fw_info fw) (w_dev w) = (RT_EOK, s)" by blast
  have rr: "ready_range (view (w_dev w) h) (unat (n - qboot_src_read_pos cf)) (length (bytes_of_fw_info fw))"
    using rdy u lb by simp
  show ?thesis
    by (rule that [of "w\<lparr>w_dev := s\<rparr>"])
      (use write_cells [OF o wr l32 rr] write_open [OF o wr l32] write_other [OF o wr l32] u lb wr in
        \<open>simp_all add: info_write_w_def qbt_fw_info_write_def Let_def\<close>)
qed

lemma release_erase_total:
  assumes o: "v_open (view (w_dev w) dst)" and r: "room_for dev_size dst n fw"
  obtains w' where "release_erase E dst n fw w = (True, w')" "v_open (view (w_dev w') dst)"
    "ready_range (view (w_dev w') dst) 0 (unat (raw_size fw))"
    "ready_range (view (w_dev w') dst) (unat n - 96) 96"
    "\<And>h'. h' \<noteq> dst \<Longrightarrow> view (w_dev w') h' = view (w_dev w) h'" "w_mem w' = w_mem w" "w_alg w' = w_alg w"
proof -
  have u: "unat (n - qboot_src_read_pos cf) = unat n - 96"
    using r by (simp add: room_for_def u32_sub)
  have f1: "unat (0 :: u32) + unat (raw_size fw) \<le> dev_size dst" using r by (simp add: room_for_def)
  obtain w1 where w1: "erase_w io dst 0 (raw_size fw) w = (RT_EOK, w1)" "v_open (view (w_dev w1) dst)"
    "ready_range (view (w_dev w1) dst) 0 (unat (raw_size fw))"
    "\<And>h'. h' \<noteq> dst \<Longrightarrow> view (w_dev w1) h' = view (w_dev w) h'" "w_mem w1 = w_mem w" "w_alg w1 = w_alg w"
    by (rule erase_w_total [OF o f1, unfolded unsigned_0]) (rule that)
  have f2: "unat (n - qboot_src_read_pos cf) + unat (qboot_src_read_pos cf) \<le> dev_size dst"
    using r u by (simp add: room_for_def)
  obtain w2 where w2: "erase_w io dst (n - qboot_src_read_pos cf) (qboot_src_read_pos cf) w1 = (RT_EOK, w2)"
    "v_open (view (w_dev w2) dst)" "ready_range (view (w_dev w2) dst) (unat n - 96) 96"
    "\<And>i. v_ready (view (w_dev w1) dst) i \<Longrightarrow> v_ready (view (w_dev w2) dst) i"
    "\<And>h'. h' \<noteq> dst \<Longrightarrow> view (w_dev w2) h' = view (w_dev w1) h'" "w_mem w2 = w_mem w1" "w_alg w2 = w_alg w1"
    by (rule erase_w_total [OF w1(2) f2, unfolded u src_pos]) (rule that)
  show ?thesis
    by (rule that [of w2])
      (use w1 w2 in \<open>auto simp: release_erase_def env_io ready_range_def\<close>)
qed

text \<open>The verification of an installation reads its header and compares the CRC of the image.\<close>

lemma verify_exact:
  assumes inst: "installed view (w_dev (b_world b)) dst n fw body"
    and o: "v_open (view (w_dev (b_world b)) dst)" and r: "room_for dev_size dst n fw"
    and wff: "wf_fw_info fw" "wf_fw_info (g_fw_info b)" and small: "unat (raw_size fw) < 2147483648"
    and wf: "wf_mem cf (w_mem (b_world b))"
  obtains b' where
    "qbt_dest_part_verify E dst n b = Some (qbt_fw_info_check E fw \<and>
       (algo2 fw AND QBOOT_ALGO2_VERIFY_MASK = QBOOT_ALGO2_VERIFY_CRC \<longrightarrow> cal body = raw_crc fw), b')"
    "g_fw_info b' = fw" "view (w_dev (b_world b')) = view (w_dev (b_world b))" "wf_mem cf (w_mem (b_world b'))"
proof -
  let ?w = "b_world b"
  have len: "96 \<le> unat n" "unat n \<le> dev_size dst" using r by (simp_all add: room_for_def)
  have hdr: "fw_info_of_bytes (cells (v_cell (view (w_dev ?w) dst)) (unat n - 96) 96) = fw"
    using inst fw_info_of_bytes_of [OF wff(1), of "[]"] by (simp add: installed_def)
  obtain w2 where w2: "info_read_w cf io dst n (g_fw_info b) True ?w = (True, fw, w2)"
    "view (w_dev w2) = view (w_dev ?w)" "w_mem w2 = w_mem ?w"
    using info_read_tail [OF o len wff(2)] hdr by metis
  have o2: "v_open (view (w_dev w2) dst)" and wf2: "wf_mem cf (w_mem w2)" using o wf w2 by simp_all
  have "unat (0 :: u32) + unat (raw_size fw) \<le> dev_size dst" "unat (0 :: u32) + unat (raw_size fw) < 4294967296"
    "unat (raw_size fw) < 2147483648"
    using r small by (simp_all add: room_for_def)
  from crc_check_exact [OF o2 this wf2, of "raw_crc fw"] obtain w3 where
    c: "qbt_fw_crc_check E dst 0 (raw_size fw) (raw_crc fw) w2 = Some (cal body = raw_crc fw, w3)"
    "view (w_dev w3) = view (w_dev ?w)" "wf_mem cf (w_mem w3)"
    using w2(2) inst by (auto simp: installed_def)
  let ?v = "algo2 fw AND QBOOT_ALGO2_VERIFY_MASK = QBOOT_ALGO2_VERIFY_CRC"
  have "qbt_dest_part_verify E dst n b = Some (qbt_fw_info_check E fw \<and> (?v \<longrightarrow> cal body = raw_crc fw),
      if qbt_fw_info_check E fw \<and> ?v then b\<lparr>g_fw_info := fw, b_world := w3\<rparr>
      else b\<lparr>g_fw_info := fw, b_world := w2\<rparr>)"
    using w2(1) c(1) no_helper
    by (auto simp: qbt_dest_part_verify_def dest_part_verify_default_def env_io Let_def)
  then show ?thesis by (rule that) (use w2 c wf2 in auto)
qed

end

end
