(* ===== verification/Qboot_Blocks.thy ===== *)
theory Qboot_Blocks
  imports Qboot_Transfer
begin

text \<open>
  Compressed packages: a sequence of blocks, each behind its size, as \<open>algorithm/qboot_fastlz.c\<close>
  and \<open>algorithm/qboot_quicklz.c\<close> read them. A decoder over the whole package is the reference;
  the stream, which sees the package through a staging buffer and hands on one block at a time,
  transfers exactly the image the reference gives.
\<close>

section \<open>The reference decoder\<close>

definition front_block :: "byte list \<Rightarrow> byte list option" where
  "front_block bs =
     (if length bs < 4 then None
      else let n = unat (qbt_fastlz_get_block_size bs)
           in if n = 0 \<or> length bs < 4 + n then None else Some (take n (drop 4 bs)))"

text \<open>Decoding one block, from a state that carries over to the next.\<close>

type_synonym 'd block_fn = "'d \<Rightarrow> byte list \<Rightarrow> (byte list \<times> 'd) option"

text \<open>
  The blocks up to a raw size. A block must fit one read of the package with its size, and its
  output the output buffer.
\<close>

function unpack_blocks :: "'d block_fn \<Rightarrow> 'd \<Rightarrow> nat \<Rightarrow> byte list \<Rightarrow> byte list option" where
  "unpack_blocks ub d r bs =
     (if r = 0 then Some []
      else case front_block bs of
        None \<Rightarrow> None
      | Some b \<Rightarrow>
          if 4096 < 4 + length b then None
          else case ub d b of
            None \<Rightarrow> None
          | Some (out, d') \<Rightarrow>
              if out = [] \<or> 4096 < length out \<or> r < length out then None
              else map_option ((@) out) (unpack_blocks ub d' (r - length out) (drop (4 + length b) bs)))"
  by pat_completeness auto
termination by (relation "measure (\<lambda>(ub, d, r, bs). r)") auto

declare unpack_blocks.simps [simp del]

lemma front_block_take:
  assumes "front_block bs = Some b"
  shows "front_block (take l bs) = (if 4 + length b \<le> l then Some b else None)"
proof -
  let ?n = "unat (qbt_fastlz_get_block_size bs)"
  from assms have b: "4 \<le> length bs" "?n \<noteq> 0" "4 + ?n \<le> length bs" "b = take ?n (drop 4 bs)"
    by (auto simp: front_block_def Let_def split: if_splits)
  then have lb: "length b = ?n" by simp
  show ?thesis
  proof (cases "4 \<le> l")
    case True
    then have "qbt_fastlz_get_block_size (take l bs) = qbt_fastlz_get_block_size bs" by (rule block_size_take)
    with True b lb show ?thesis by (auto simp: front_block_def Let_def drop_take min_absorb1)
  next
    case False
    then have "length (take l bs) < 4" by simp
    with False lb show ?thesis by (simp add: front_block_def)
  qed
qed

lemma front_block_length: "front_block bs = Some b \<Longrightarrow> 0 < length b \<and> 4 + length b \<le> length bs"
  by (auto simp: front_block_def Let_def split: if_splits)

lemma unpack_0 [simp]: "unpack_blocks ub d 0 bs = Some []"
  by (simp add: unpack_blocks.simps)

lemma unpack_cases:
  assumes "unpack_blocks ub d r bs = Some raw" and "0 < r"
  obtains b out d' raw' where "front_block bs = Some b" "4 + length b \<le> 4096" "ub d b = Some (out, d')"
    "0 < length out" "length out \<le> 4096" "length out \<le> r" "raw = out @ raw'"
    "unpack_blocks ub d' (r - length out) (drop (4 + length b) bs) = Some raw'"
  using assms
  by (subst (asm) unpack_blocks.simps) (auto split: option.splits if_splits prod.splits)

section \<open>Block decompressors\<close>

text \<open>
  What the stream relies on beyond the decompressor contract: the handler decodes a complete
  block at the front of its input, and asks for more on one that is not complete.
\<close>

locale block_codec =
  fixes dec :: "'a decompress_fn" and dst :: "'a \<Rightarrow> 'd" and ub :: "'d block_fn"
  assumes dec_block: "unat (sb_in_len buf) \<le> length (m (sb_in buf)) \<Longrightarrow> unat (sb_out_len buf) \<le> length (m (sb_out buf)) \<Longrightarrow>
      unat (sb_out_len buf) < 2147483648 \<Longrightarrow> front_block (take (unat (sb_in_len buf)) (m (sb_in buf))) = Some b \<Longrightarrow> 4 + length b \<le> 4096 \<Longrightarrow>
      ub (dst a) b = Some (out, d') \<Longrightarrow> 0 < length out \<Longrightarrow> length out \<le> unat (sb_out_len buf) \<Longrightarrow>
      \<exists>st' m' a'. dec buf st ctx m a = Some (RT_EOK, st', m', a') \<and> unat (consumed st') = 4 + length b \<and>
        unat (produced st') = length out \<and> take (length out) (m' (sb_out buf)) = out \<and> dst a' = d'"
    and dec_short: "unat (sb_in_len buf) \<le> length (m (sb_in buf)) \<Longrightarrow>
      take (unat (sb_in_len buf)) (m (sb_in buf)) = take (unat (sb_in_len buf)) bs \<Longrightarrow>
      front_block bs = Some b \<Longrightarrow> 4 + length b \<le> 4096 \<Longrightarrow> unat (sb_in_len buf) < 4 + length b \<Longrightarrow>
      dec buf st ctx m a = Some (RT_ENOSPC, st, m, a)"

text \<open>How both handlers read the header of a block.\<close>

lemma front_block_whole:
  fixes buf :: qbt_stream_buf_t
  assumes len: "unat (sb_in_len buf) \<le> length (m (sb_in buf))"
    and b: "front_block (take (unat (sb_in_len buf)) (m (sb_in buf))) = Some b" "4 + length b \<le> 4096"
  defines "n \<equiv> qbt_fastlz_get_block_size (take 4 (m (sb_in buf)))"
  shows "\<not> sb_in_len buf < 4" "mem_read (sb_in buf) 0 4 m = Some (take 4 (m (sb_in buf)))" "n \<noteq> 0"
    "unat n = length b" "unat (n + 4) = 4 + length b" "\<not> sb_in_len buf < n + 4"
    "mem_read (sb_in buf) 4 (length b) m = Some b"
    "\<exists>rest. drop 4 (m (sb_in buf)) = b @ rest"
proof -
  let ?l = "unat (sb_in_len buf)" and ?M = "m (sb_in buf)"
  have l4: "4 \<le> ?l" using b(1) len by (auto simp: front_block_def split: if_splits)
  have sz: "qbt_fastlz_get_block_size (take ?l ?M) = n"
    unfolding n_def using block_size_take [OF l4, of ?M] block_size_take [of 4 ?M] by simp
  have f: "unat n \<noteq> 0" "4 + unat n \<le> ?l" "b = take (unat n) (drop 4 (take ?l ?M))"
    using b(1) len l4 unfolding front_block_def sz by (auto simp: Let_def split: if_splits)
  show lb: "unat n = length b" using f len by simp
  have tb: "take (length b) (drop 4 ?M) = b"
  proof -
    have "b = take (unat n) (drop 4 ?M)" using f by (simp add: drop_take min_absorb1)
    then show ?thesis unfolding lb by (rule sym)
  qed
  show "\<not> sb_in_len buf < 4" using l4 by (simp add: u32_less_iff)
  show "n \<noteq> 0" using f(1) by auto
  show u: "unat (n + 4) = 4 + length b" using lb b(2) by (simp add: u32_add)
  show "\<not> sb_in_len buf < n + 4" using f(2) lb u by (simp add: u32_less_iff)
  show "mem_read (sb_in buf) 0 4 m = Some (take 4 ?M)" using l4 len by (simp add: mem_read_def)
  show "mem_read (sb_in buf) 4 (length b) m = Some b" using tb f(2) lb len by (simp add: mem_read_def)
  show "\<exists>rest. drop 4 ?M = b @ rest" 
    using append_take_drop_id [of "length b" "drop 4 ?M", unfolded tb] by (intro exI) (rule sym)
qed

lemma front_block_short:
  fixes buf :: qbt_stream_buf_t
  assumes len: "unat (sb_in_len buf) \<le> length (m (sb_in buf))"
    and eq: "take (unat (sb_in_len buf)) (m (sb_in buf)) = take (unat (sb_in_len buf)) bs"
    and b: "front_block bs = Some b" "4 + length b \<le> 4096" and short: "unat (sb_in_len buf) < 4 + length b"
  defines "n \<equiv> qbt_fastlz_get_block_size (take 4 (m (sb_in buf)))"
  shows "sb_in_len buf < 4 \<or> (mem_read (sb_in buf) 0 4 m = Some (take 4 (m (sb_in buf))) \<and> n \<noteq> 0 \<and> sb_in_len buf < n + 4)"
proof (cases "unat (sb_in_len buf) < 4")
  case False
  let ?l = "unat (sb_in_len buf)" and ?M = "m (sb_in buf)"
  have "take 4 ?M = take 4 bs" using False arg_cong [OF eq, of "take 4"] by (simp add: min_absorb1)
  then have n: "n = qbt_fastlz_get_block_size bs" using block_size_take [of 4 bs] by (simp add: n_def)
  have f: "n \<noteq> 0" "unat n = length b" using b(1) by (auto simp: front_block_def Let_def n split: if_splits)
  have "unat (n + 4) = 4 + length b" using f(2) b(2) by (simp add: u32_add)
  with f False short len show ?thesis by (simp add: u32_less_iff mem_read_def)
qed (simp add: u32_less_iff)

text \<open>
  FastLZ: a block that decodes to so many bytes does so with every capacity that holds them.
\<close>

locale fastlz_library =
  fixes lib :: fastlz_fn
  assumes fastlz_fits: "lib b (int (length b)) n = (int (length out), out) \<Longrightarrow> 0 < length out \<Longrightarrow> int (length out) \<le> n' \<Longrightarrow>
    lib b (int (length b)) n' = (int (length out), out)"

definition fastlz_block :: "fastlz_fn \<Rightarrow> 'd block_fn" where
  "fastlz_block lib d b = (case lib b (int (length b)) 4096 of (n, out) \<Rightarrow> if n = int (length out) then Some (out, d) else None)"

sublocale fastlz_library \<subseteq> block_codec "qbt_algo_fastlz_decompress lib" "\<lambda>_. ()" "fastlz_block lib"
proof
  fix buf :: qbt_stream_buf_t and m b and out :: "byte list" and d' st ctx and a :: 'b
  assume len: "unat (sb_in_len buf) \<le> length (m (sb_in buf))" "unat (sb_out_len buf) \<le> length (m (sb_out buf))"
      "unat (sb_out_len buf) < 2147483648"
    and fb: "front_block (take (unat (sb_in_len buf)) (m (sb_in buf))) = Some b" "4 + length b \<le> 4096"
    and ub: "fastlz_block lib () b = Some (out, d')" and out: "0 < length out" "length out \<le> unat (sb_out_len buf)"
  note w = front_block_whole [where buf = buf and m = m, OF len(1) fb]
  let ?n = "qbt_fastlz_get_block_size (take 4 (m (sb_in buf)))"
  have "lib b (int (length b)) 4096 = (int (length out), out)" using ub by (auto simp: fastlz_block_def split: prod.splits if_splits)
  moreover have "int (length out) \<le> int (unat (sb_out_len buf))" using out(2) by linarith
  ultimately have lib: "lib b (int (length b)) (int (unat (sb_out_len buf))) = (int (length out), out)"
    by (rule fastlz_fits [OF _ out(1)])
  have sg: "sint ?n = int (length b)" "sint (sb_out_len buf) = int (unat (sb_out_len buf))"
    using w(4) fb(2) len(3) by (simp_all add: sint_small)
  let ?m = "m(sb_out buf := overwrite 0 out (m (sb_out buf)))"
  have lt: "length out < 4294967296" using out(2) u32_less [of "sb_out_len buf"] by linarith
  have call: "qbt_fastlz_decompress lib (sb_out buf) (sb_out_len buf) (sb_in buf, 4) ?n m = Some (int (length out), ?m)"
    using w(7) lib out(2) len(2) by (simp add: qbt_fastlz_decompress_def mem_write_def sg)
  have "int (length out) \<le> int (unat (sb_out_len buf))" using out(2) by linarith
  then have nb: "\<not> uint (sb_out_len buf) < int (length out)" by simp
  have "qbt_algo_fastlz_decompress lib buf st ctx m a =
      Some (RT_EOK, st\<lparr>consumed := ?n + 4, produced := of_nat (length out)\<rparr>, ?m, a)"
    using w(1-3,6) call out(1) nb by (simp add: qbt_algo_fastlz_decompress_def Let_def)
  then show "\<exists>st' m' a'. qbt_algo_fastlz_decompress lib buf st ctx m a = Some (RT_EOK, st', m', a') \<and>
      unat (consumed st') = 4 + length b \<and> unat (produced st') = length out \<and>
      take (length out) (m' (sb_out buf)) = out \<and> () = d'"
    using w(5) lt take_overwrite_0 [of "length out" out] by (simp add: u32_of_nat)
next
  fix buf :: qbt_stream_buf_t and m bs b st ctx and a :: 'b
  assume len: "unat (sb_in_len buf) \<le> length (m (sb_in buf))"
    and eq: "take (unat (sb_in_len buf)) (m (sb_in buf)) = take (unat (sb_in_len buf)) bs"
    and b: "front_block bs = Some b" "4 + length b \<le> 4096" and short: "unat (sb_in_len buf) < 4 + length b"
  show "qbt_algo_fastlz_decompress lib buf st ctx m a = Some (RT_ENOSPC, st, m, a)"
    using front_block_short [where buf = buf and m = m, OF len eq b short] by (auto simp: qbt_algo_fastlz_decompress_def Let_def)
qed

text \<open>
  QuickLZ: a block is self-delimiting, what is behind it in memory does not matter. Its state
  carries over from block to block.
\<close>

locale quicklz_library =
  fixes qlib :: "'q qlz_fn"
  assumes quicklz_front: "qlib b q = (n, out, q') \<Longrightarrow> unat n = length out \<Longrightarrow> 0 < length out \<Longrightarrow>
    qlib (b @ rest) q = (n, out, q')"

definition quicklz_block :: "'q qlz_fn \<Rightarrow> 'q block_fn" where
  "quicklz_block lib q b = (case lib b q of (n, out, q') \<Rightarrow> if unat n = length out then Some (out, q') else None)"

sublocale quicklz_library \<subseteq> block_codec "qbt_algo_quicklz_decompress qlib :: ('q, 'z, 'k) alg_state decompress_fn" qbt_quicklz_state "quicklz_block qlib"
proof
  fix buf :: qbt_stream_buf_t and m b and out :: "byte list" and d' st ctx and a :: "('q, 'z, 'k) alg_state"
  assume len: "unat (sb_in_len buf) \<le> length (m (sb_in buf))" "unat (sb_out_len buf) \<le> length (m (sb_out buf))"
      "unat (sb_out_len buf) < 2147483648"
    and fb: "front_block (take (unat (sb_in_len buf)) (m (sb_in buf))) = Some b" "4 + length b \<le> 4096"
    and ub: "quicklz_block qlib (qbt_quicklz_state a) b = Some (out, d')"
    and out: "0 < length out" "length out \<le> unat (sb_out_len buf)"
  note w = front_block_whole [where buf = buf and m = m, OF len(1) fb]
  let ?n = "qbt_fastlz_get_block_size (take 4 (m (sb_in buf)))"
  obtain k where k: "qlib b (qbt_quicklz_state a) = (k, out, d')" "unat k = length out"
    using ub by (auto simp: quicklz_block_def split: prod.splits if_splits)
  obtain rest where "drop 4 (m (sb_in buf)) = b @ rest" using w(8) by blast
  then have lib: "qlib (drop 4 (m (sb_in buf))) (qbt_quicklz_state a) = (k, out, d')"
    using quicklz_front [OF k out(1)] by simp
  let ?m = "m(sb_out buf := overwrite 0 out (m (sb_out buf)))"
  have call: "qbt_quicklz_decompress qlib (sb_out buf) (sb_in buf, 4) m a = Some (k, ?m, a\<lparr>qbt_quicklz_state := d'\<rparr>)"
    using lib out(2) len(2) by (simp add: qbt_quicklz_decompress_def mem_write_def)
  have kb: "k \<noteq> 0" "\<not> sb_out_len buf < k" using k(2) out by (auto simp: u32_less_iff)
  have "qbt_algo_quicklz_decompress qlib buf st ctx m a =
      Some (RT_EOK, st\<lparr>consumed := ?n + 4, produced := k\<rparr>, ?m, a\<lparr>qbt_quicklz_state := d'\<rparr>)"
    using w(1-3,6) call kb by (simp add: qbt_algo_quicklz_decompress_def quicklz_block_size Let_def)
  then show "\<exists>st' m' a'. qbt_algo_quicklz_decompress qlib buf st ctx m a = Some (RT_EOK, st', m', a') \<and>
      unat (consumed st') = 4 + length b \<and> unat (produced st') = length out \<and>
      take (length out) (m' (sb_out buf)) = out \<and> qbt_quicklz_state a' = d'"
    using w(5) k(2) take_overwrite_0 [of "length out" out] by simp
next
  fix buf :: qbt_stream_buf_t and m bs b st ctx and a :: "('q, 'z, 'k) alg_state"
  assume len: "unat (sb_in_len buf) \<le> length (m (sb_in buf))"
    and eq: "take (unat (sb_in_len buf)) (m (sb_in buf)) = take (unat (sb_in_len buf)) bs"
    and b: "front_block bs = Some b" "4 + length b \<le> 4096" and short: "unat (sb_in_len buf) < 4 + length b"
  show "qbt_algo_quicklz_decompress qlib buf st ctx m a = Some (RT_ENOSPC, st, m, a)"
    using front_block_short [where buf = buf and m = m, OF len eq b short]
    by (auto simp: qbt_algo_quicklz_decompress_def quicklz_block_size Let_def)
qed

section \<open>Streaming the blocks\<close>

text \<open>The error numbers must be the C library's, because the stream compares with them.\<close>

locale block_stream = exact_stream io view dec True f c cfg dev_size kst plain dst + block_codec dec dst ub
  for io :: "'s qboot_io_ops" and view and dec :: "'a decompress_fn" and f and c and cfg and dev_size and
    kst :: "'a \<Rightarrow> 'k" and plain and dst :: "'a \<Rightarrow> 'd" and ub :: "'d block_fn" +
  assumes posix: "enospc_is_posix c"
begin

text \<open>
  The loop over the staged input: it holds the plain text from \<open>q\<close> to \<open>Q\<close>, the rest of which
  decodes to the rest of the image, and the consumer has got what was before.
\<close>

definition block_at ::
  "byte list \<Rightarrow> byte list \<Rightarrow> (nat \<Rightarrow> proc_ctx \<Rightarrow> 's \<Rightarrow> bool) \<Rightarrow> nat \<Rightarrow> nat \<Rightarrow> nat \<Rightarrow> 'k \<Rightarrow> nat \<Rightarrow> ('s, 'a) dwc \<Rightarrow> bool" where
  "block_at pt raw J q0 Q R k q x \<longleftrightarrow>
     wf_mem c (w_mem (d_world x)) \<and> unat (produced (d_out x)) + unat (d_rem x) = R \<and>
     (produced (d_out x) = 0 \<longrightarrow> q = q0) \<and> q + unat (d_len x) = Q \<and>
     take (unat (d_len x)) (w_mem (d_world x) B_CMPRS) = take (unat (d_len x)) (drop q pt) \<and>
     unpack_blocks ub (dst (w_alg (d_world x))) (unat (d_rem x)) (drop q pt) =
       Some (drop (length raw - unat (d_rem x)) raw) \<and>
     J (length raw - unat (d_rem x)) (d_ctx x) (w_dev (d_world x)) \<and> kst (w_alg (d_world x)) = k"

definition block_inv ::
  "byte list \<Rightarrow> byte list \<Rightarrow> (nat \<Rightarrow> proc_ctx \<Rightarrow> 's \<Rightarrow> bool) \<Rightarrow> nat \<Rightarrow> nat \<Rightarrow> nat \<Rightarrow> 'k \<Rightarrow> ('s, 'a) dwc \<Rightarrow> bool" where
  "block_inv pt raw J q0 Q R k x \<longleftrightarrow> (\<exists>q. block_at pt raw J q0 Q R k q x) \<and> d_rst x = RT_EOK"

text \<open>It stops when the image is complete, or in front of a block that is not.\<close>

definition block_post ::
  "byte list \<Rightarrow> byte list \<Rightarrow> (nat \<Rightarrow> proc_ctx \<Rightarrow> 's \<Rightarrow> bool) \<Rightarrow> nat \<Rightarrow> nat \<Rightarrow> nat \<Rightarrow> 'k \<Rightarrow> ('s, 'a) dwc \<Rightarrow> bool" where
  "block_post pt raw J q0 Q R k x \<longleftrightarrow> (\<exists>q. block_at pt raw J q0 Q R k q x \<and>
     (d_rem x = 0 \<or> (\<exists>b. front_block (drop q pt) = Some b \<and> 4 + length b \<le> 4096 \<and> unat (d_len x) < 4 + length b))) \<and>
     (d_rst x = RT_EOK \<or> d_rst x = RT_ENOSPC)"

lemma staging: "wf_mem c m \<Longrightarrow> length (m B_CMPRS) = 8224 \<and> length (m (g_crypt_buf c)) = 4096"
  using blocky_cfg by (auto simp: wf_mem_def g_crypt_buf_def buf_sizes using_compression_def)

lemma block_step:
  assumes B: "exact_consumer view c cfg purp K body raw J" and I: "block_inv pt raw J q0 Q R k x"
    and R: "R \<le> length raw" and QL: "unat (d_len x) \<le> 8224"
  shows "(\<exists>r. dwc_body dec K (sb_of n) cctx x = Some (Stop r) \<and> block_post pt raw J q0 Q R k r) \<or>
    (\<exists>y. dwc_body dec K (sb_of n) cctx x = Some (Again y) \<and> block_inv pt raw J q0 Q R k y \<and>
       unat (d_rem y) < unat (d_rem x) \<and> unat (d_len y) \<le> unat (d_len x))"
proof -
  let ?w = "d_world x" and ?l = "unat (d_len x)" and ?N = "length raw" and ?r = "unat (d_rem x)"
  from I obtain q where q: "block_at pt raw J q0 Q R k q x" and e0: "d_rst x = RT_EOK"
    by (auto simp: block_inv_def)
  note i = q [unfolded block_at_def]
  have wf: "wf_mem c (w_mem ?w)" using i by blast
  note st = staging [OF wf]
  show ?thesis
  proof (cases "d_rem x = 0")
    case True
    then have "dwc_body dec K (sb_of n) cctx x = Some (Stop x)" by (simp add: dwc_body_def)
    with True q e0 show ?thesis by (auto simp: block_post_def)
  next
    case False
    then have pos: "0 < ?r" by (simp add: unat_gt_0)
    have up: "unpack_blocks ub (dst (w_alg ?w)) ?r (drop q pt) = Some (drop (?N - ?r) raw)" using i by blast
    obtain b out d' raw' where b: "front_block (drop q pt) = Some b" "4 + length b \<le> 4096"
      "ub (dst (w_alg ?w)) b = Some (out, d')" "0 < length out" "length out \<le> 4096" "length out \<le> ?r"
      "drop (?N - ?r) raw = out @ raw'"
      "unpack_blocks ub d' (?r - length out) (drop (4 + length b) (drop q pt)) = Some raw'"
      by (rule unpack_cases [OF up pos])
    have bounds: "unat (sb_in_len (dwc_call (sb_of n) x)) \<le> length (w_mem ?w (sb_in (dwc_call (sb_of n) x)))"
      "unat (sb_out_len (dwc_call (sb_of n) x)) \<le> length (w_mem ?w (sb_out (dwc_call (sb_of n) x)))"
      using st QL by (simp_all add: unat_cap_of)
    have small: "unat (sb_out_len (dwc_call (sb_of n) x)) < 2147483648" using bounds(2) st by simp
    have fr: "take ?l (w_mem ?w B_CMPRS) = take ?l (drop q pt)" using i by blast
    show ?thesis
    proof (cases "?l < 4 + length b")
      case short: True
      show ?thesis
      proof (cases "d_len x = 0 \<and> ctx_consumed (dwc_cctx cctx x) < total cctx")
        case True
        then have "dwc_body dec K (sb_of n) cctx x = Some (Stop x)"
          using False by (auto simp: dwc_body_def Let_def dwc_cctx_def)
        with q e0 b(1,2) short show ?thesis by (auto simp: block_post_def)
      next
        case go: False
        have call: "dec (dwc_call (sb_of n) x) (d_step x) (dwc_cctx cctx x) (w_mem ?w) (w_alg ?w) =
            Some (RT_ENOSPC, d_step x, w_mem ?w, w_alg ?w)"
          by (rule dec_short [where bs = "drop q pt" and b = b]) (use bounds(1) b fr short in simp_all)
        let ?s = "x\<lparr>d_rst := RT_ENOSPC, d_step := d_step x, d_world := ?w\<lparr>w_mem := w_mem ?w, w_alg := w_alg ?w\<rparr>\<rparr>"
        have "dwc_body dec K (sb_of n) cctx x = Some (Stop ?s)"
          by (rule dwc_body_cases(1) [where dec = dec and sb = "sb_of n", OF False go call]) simp
        moreover have "block_at pt raw J q0 Q R k q ?s" using q by (simp add: block_at_def)
        ultimately show ?thesis using b(1,2) short by (auto simp: block_post_def)
      qed
    next
      case whole: False
      have fb: "front_block (take (unat (sb_in_len (dwc_call (sb_of n) x))) (w_mem ?w (sb_in (dwc_call (sb_of n) x)))) = Some b"
        using front_block_take [OF b(1), of ?l] fr whole by simp
      have oc: "length out \<le> unat (sb_out_len (dwc_call (sb_of n) x))"
        using b(5,6) by (simp add: unat_cap_of)
      obtain step m a where call: "dec (dwc_call (sb_of n) x) (d_step x) (dwc_cctx cctx x) (w_mem ?w) (w_alg ?w) =
          Some (RT_EOK, step, m, a)" and cs: "unat (consumed step) = 4 + length b"
        and pr: "unat (produced step) = length out" and om: "take (length out) (m (g_crypt_buf c)) = out"
        and da: "dst a = d'"
        using dec_block [OF bounds small fb b(2,3,4) oc] by fastforce
      have go: "\<not> (d_len x = 0 \<and> ctx_consumed (dwc_cctx cctx x) < total cctx)" using whole by auto
      have J: "J (?N - ?r) (d_ctx x) (w_dev ?w)" and sum: "unat (produced (d_out x)) + ?r \<le> ?N" using i R by auto
      have m: "length (m z) = length (w_mem ?w z)" "m B_CMPRS = w_mem ?w B_CMPRS" for z
        using call by (rule dec_length) (use dec_frame [OF call] blocky_sep in simp)
      have out: "take (unat (produced step)) (m (g_crypt_buf c)) = take (unat (produced step)) (drop (?N - ?r) raw)"
        using om pr b(7) by simp
      have step: "unat (consumed step) \<le> ?l" "0 < unat (produced step)" "unat (produced step) \<le> unat (cap_of (d_rem x) (sb_of n))"
        "?l \<le> length (w_mem ?w B_CMPRS)"
        using cs whole pr b(4) oc bounds by simp_all
      obtain y where y: "dwc_body dec K (sb_of n) cctx x = Some (Again y)"
        "wf_mem c (w_mem (d_world y))" "w_alg (d_world y) = a" "d_rst y = RT_EOK"
        "unat (d_len y) = ?l - unat (consumed step)" "unat (d_rem y) = ?r - unat (produced step)"
        "unat (produced (d_out y)) = unat (produced (d_out x)) + unat (produced step)"
        "take (unat (d_len y)) (w_mem (d_world y) B_CMPRS) = drop (unat (consumed step)) (take ?l (w_mem ?w B_CMPRS))"
        "J (?N - unat (d_rem y)) (d_ctx y) (w_dev (d_world y))"
        by (rule hands_on [where x = x, OF B wf False sum go step(4) J call step(1-3) out m]) (rule that)
      have q': "q + (4 + length b) + unat (d_len y) = Q" using y(5) cs whole i by simp
      have tk: "take (unat (d_len y)) (w_mem (d_world y) B_CMPRS) = take (unat (d_len y)) (drop (q + (4 + length b)) pt)"
        unfolding y(8) unfolding fr using cs whole y(5) by (simp add: drop_take add.commute add.left_commute)
      have rN: "?r \<le> ?N" using sum by linarith
      have rest: "raw' = drop (?N - unat (d_rem y)) raw"
      proof -
        have "raw' = drop (length out) (drop (?N - ?r) raw)" by (simp add: b(7))
        moreover have "?N - ?r + length out = ?N - unat (d_rem y)" using y(6) pr b(6) rN by linarith
        ultimately show ?thesis by (simp add: add.commute)
      qed
      have "block_at pt raw J q0 Q R k (q + (4 + length b)) y"
        unfolding block_at_def
      proof (intro conjI)
        show "unat (produced (d_out y)) + unat (d_rem y) = R" using y(6,7) pr b(6) i by simp
        show "produced (d_out y) = 0 \<longrightarrow> q + (4 + length b) = q0" using y(7) pr b(4) by auto
        show "unpack_blocks ub (dst (w_alg (d_world y))) (unat (d_rem y)) (drop (q + (4 + length b)) pt) =
            Some (drop (?N - unat (d_rem y)) raw)"
          using b(8) da y(3,6) pr rest by (simp add: add.commute add.left_commute)
        show "kst (w_alg (d_world y)) = k" using dec_kst [OF call] y(3) i by simp
      qed (fact y(2,9) q' tk)+
      then have "block_inv pt raw J q0 Q R k y" using y(4) by (auto simp: block_inv_def)
      moreover have "unat (d_rem y) < ?r" "unat (d_len y) \<le> ?l" using y(5,6) pr cs b(4,6) pos by linarith+
      ultimately show ?thesis using y(1) by blast
    qed
  qed
qed

text \<open>One run of the loop over freshly staged input.\<close>

lemma block_run:
  assumes B: "exact_consumer view c cfg purp K body raw J"
    and I: "block_at pt raw J q0 Q R k q0 (dwc_start (sb_of l) cctx status_0 ctx w)"
    and R: "R \<le> length raw" and l: "unat l \<le> 8224"
  obtains r where "qbt_decompress_with_consumer dec (sb_of l) cctx status_0 K ctx w = Some r"
    "block_post pt raw J q0 Q R k r"
proof -
  let ?x0 = "dwc_start (sb_of l) cctx status_0 ctx w"
  let ?I = "\<lambda>x. block_inv pt raw J q0 Q R k x \<and> unat (d_len x) \<le> 8224"
  have "\<exists>r. run_loop (dwc_body dec K (sb_of l) cctx) ?x0 = Some r \<and> block_post pt raw J q0 Q R k r"
  proof (rule run_loop_total [where I = ?I and m = "\<lambda>x. unat (d_rem x)"])
    show "?I ?x0" using I l by (auto simp: block_inv_def dwc_start_def)
  next
    fix x assume "?I x"
    then have i: "block_inv pt raw J q0 Q R k x" and le: "unat (d_len x) \<le> 8224" by blast+
    show "(\<exists>r. dwc_body dec K (sb_of l) cctx x = Some (Stop r) \<and> block_post pt raw J q0 Q R k r) \<or>
      (\<exists>y. dwc_body dec K (sb_of l) cctx x = Some (Again y) \<and> ?I y \<and> unat (d_rem y) < unat (d_rem x))"
      using block_step [OF B i R le, of l cctx] le by (meson order_trans)
  qed
  then obtain r where r: "run_loop (dwc_body dec K (sb_of l) cctx) ?x0 = Some r" "block_post pt raw J q0 Q R k r"
    by blast
  show ?thesis
    by (rule that [of "r\<lparr>d_out := (d_out r)\<lparr>remaining_in := d_len r\<rparr>\<rparr>"])
      (use r in \<open>simp_all add: qbt_decompress_with_consumer_def block_post_def block_at_def\<close>)
qed

text \<open>
  The stream between two passes: it has read the package up to \<open>q\<close> and what is staged, and the
  plain text from \<open>q\<close> on decodes to the rest of the image.
\<close>

definition blocks_at ::
  "byte list \<Rightarrow> byte list \<Rightarrow> byte list \<Rightarrow> (nat \<Rightarrow> proc_ctx \<Rightarrow> 's \<Rightarrow> bool) \<Rightarrow> nat \<Rightarrow> ('s, 'a) stream_loc \<Rightarrow> bool" where
  "blocks_at body pt raw J q x \<longleftrightarrow>
     wf_mem c (w_mem (l_world x)) \<and> unat (l_raw_pos x) \<le> length raw \<and>
     q + unat (l_len x) \<le> pkg \<and> unat (l_read_pos x) = hdr + (q + unat (l_len x)) \<and>
     take (unat (l_len x)) (w_mem (l_world x) B_CMPRS) = take (unat (l_len x)) (drop q pt) \<and>
     unpack_blocks ub (dst (w_alg (l_world x))) (length raw - unat (l_raw_pos x)) (drop q pt) =
       Some (drop (unat (l_raw_pos x)) raw) \<and>
     J (unat (l_raw_pos x)) (l_ctx x) (w_dev (l_world x)) \<and>
     fst (plain (kst (w_alg (l_world x))) (drop (q + unat (l_len x)) body)) = drop (q + unat (l_len x)) pt"

definition blocks_inv ::
  "byte list \<Rightarrow> byte list \<Rightarrow> byte list \<Rightarrow> (nat \<Rightarrow> proc_ctx \<Rightarrow> 's \<Rightarrow> bool) \<Rightarrow> ('s, 'a) stream_loc \<Rightarrow> bool" where
  "blocks_inv body pt raw J x \<longleftrightarrow> (\<exists>q. blocks_at body pt raw J q x) \<and>
     (unat (l_raw_pos x) < length raw \<longrightarrow> unat (l_len x) < 4096)"

text \<open>A fetch stages the next piece, so that the block at \<open>q\<close> is complete.\<close>

lemma blocks_fetch:
  assumes B: "exact_consumer view c cfg purp K body raw J" and q: "blocks_at body pt raw J q x"
    and len: "unat (l_len x) < 4096" and more: "unat (l_raw_pos x) < length raw" and lp: "length pt = pkg"
  obtains y where "stream_fetch c io cfg x = Some (True, y)" "blocks_at body pt raw J q y"
    "l_raw_pos y = l_raw_pos x" "l_ctx y = l_ctx x" "unat (l_len y) \<le> 8192"
    "\<And>b. front_block (drop q pt) = Some b \<Longrightarrow> 4 + length b \<le> 4096 \<Longrightarrow> 4 + length b \<le> unat (l_len y)"
proof -
  note i = q [unfolded blocks_at_def]
  let ?l = "unat (l_len x)" and ?w = "l_world x"
  have wf: "wf_mem c (w_mem ?w)" and rp: "unat (l_read_pos x) = hdr + (q + ?l)"
    and dec: "fst (plain (kst (w_alg ?w)) (drop (q + ?l) body)) = drop (q + ?l) pt"
    and J: "J (unat (l_raw_pos x)) (l_ctx x) (w_dev ?w)" and stg: "take ?l (w_mem ?w B_CMPRS) = take ?l (drop q pt)"
    using i by blast+
  note src = exact_consumerD(1) [OF B J] exact_consumerD(2) [OF B J, unfolded exact_consumer_lengths(1) [OF B]]
  have up: "unpack_blocks ub (dst (w_alg ?w)) (length raw - unat (l_raw_pos x)) (drop q pt) =
      Some (drop (unat (l_raw_pos x)) raw)" using i by blast
  have "0 < length raw - unat (l_raw_pos x)" using more by simp
  from unpack_cases [OF up this] obtain b0 where "front_block (drop q pt) = Some b0" by metis
  then have b0: "4 \<le> pkg - q" using front_block_length [of "drop q pt" b0] lp by simp
  show ?thesis
  proof (cases "q + ?l < pkg")
    case False
    then have e: "q + ?l = pkg" using i by linarith
    then have nz: "l_len x \<noteq> 0" using b0 by auto
    have "stream_fetch c io cfg x = Some (True, x)" by (rule fetch_end) (use rp e nz in simp_all)
    then show ?thesis
    proof (rule that)
      show "4 + length b \<le> ?l" if "front_block (drop q pt) = Some b" for b
        using conjunct2 [OF front_block_length [OF that]] e unfolding length_drop lp by linarith
    qed (use q len in simp_all)
  next
    case True
    define n where "n = min 4096 (pkg - (q + ?l))"
    have rm: "?l + 4096 \<le> length (w_mem ?w B_CMPRS)" "using_compression c \<or> l_len x = 0"
      using staging [OF wf] len blocky_cfg by (auto simp: using_compression_def)
    obtain w where f: "stream_fetch c io cfg x = Some (True, x\<lparr>l_read_pos := l_read_pos x + of_nat n,
        l_len := l_len x + of_nat n, l_world := w\<rparr>)"
      and w: "view (w_dev w) = view (w_dev ?w)" "wf_mem c (w_mem w)"
        "take (?l + n) (w_mem w B_CMPRS) = take ?l (w_mem ?w B_CMPRS) @ take n (drop (q + ?l) pt)"
        "fst (plain (kst (w_alg w)) (drop (q + ?l + n) body)) = drop (q + ?l + n) pt" "dst (w_alg w) = dst (w_alg ?w)"
      by (rule fetch_exact [OF wf rm rp True n_def src dec]) (rule that)
    have n: "n \<le> 4096" "q + ?l + n \<le> pkg" using True by (auto simp: n_def)
    have un: "unat (of_nat n :: u32) = n" using n by (simp add: u32_of_nat)
    have ul: "unat (l_len x + of_nat n) = ?l + n" using len n un by (simp add: u32_add)
    have ur: "unat (l_read_pos x + of_nat n) = hdr + (q + ?l + n)" using rp n un pkg_small by (simp add: u32_add)
    have tk: "take (?l + n) (w_mem w B_CMPRS) = take (?l + n) (drop q pt)"
      using take_add [of ?l n "drop q pt"] w(3) stg by (simp add: add.commute [of ?l q])
    show ?thesis
    proof (rule that [OF f])
      show "blocks_at body pt raw J q (x\<lparr>l_read_pos := l_read_pos x + of_nat n, l_len := l_len x + of_nat n, l_world := w\<rparr>)"
        using i w(2,4,5) ul ur n tk exact_consumerD(3) [OF B J w(1)]
        by (simp add: blocks_at_def add.assoc)
      show "4 + length b \<le> unat (l_len (x\<lparr>l_read_pos := l_read_pos x + of_nat n, l_len := l_len x + of_nat n, l_world := w\<rparr>))"
        if "front_block (drop q pt) = Some b" "4 + length b \<le> 4096" for b
        using front_block_length [OF that(1)] that(2) lp ul by (auto simp: n_def)
    qed (use ul len n in simp_all)
  qed
qed

lemma blocks_step:
  assumes B: "exact_consumer view c cfg purp K body raw J" and I: "blocks_inv body pt raw J x" and lp: "length pt = pkg"
  shows "(\<exists>r. stream_body c io cfg purp (proc_of K) x = Some (Stop r) \<and>
      (\<exists>ctx w. r = (True, ctx, w) \<and> wf_mem c (w_mem w) \<and> J (length raw) ctx (w_dev w))) \<or>
    (\<exists>y. stream_body c io cfg purp (proc_of K) x = Some (Again y) \<and> blocks_inv body pt raw J y \<and>
       length raw - unat (l_raw_pos y) < length raw - unat (l_raw_pos x))"
proof -
  let ?k = "unat (l_raw_pos x)" and ?raw = "raw_size (cfg_fw_info cfg)"
  note lens = exact_consumer_lengths [OF B]
  from I obtain q where q: "blocks_at body pt raw J q x" by (auto simp: blocks_inv_def)
  show ?thesis
  proof (cases "?k < length raw")
    case False
    then have "?k = length raw" using q by (simp add: blocks_at_def)
    with q False show ?thesis by (auto simp: stream_body_def blocks_at_def lens(2) u32_less_iff)
  next
    case more: True
    then have len: "unat (l_len x) < 4096" using I by (simp add: blocks_inv_def)
    obtain y where f: "stream_fetch c io cfg x = Some (True, y)" "l_raw_pos y = l_raw_pos x" "l_ctx y = l_ctx x"
        "unat (l_len y) \<le> 8192"
      and qy: "blocks_at body pt raw J q y"
      and whole: "\<And>b. front_block (drop q pt) = Some b \<Longrightarrow> 4 + length b \<le> 4096 \<Longrightarrow> 4 + length b \<le> unat (l_len y)"
      by (rule blocks_fetch [OF B q len more lp]) (rule that)
    note i = qy [unfolded blocks_at_def f(2)]
    have Jy: "J ?k (l_ctx y) (w_dev (l_world y))" using i by blast
    have ctx: "(if purp = QBT_STREAM_WRITE then set_raw_pos (l_raw_pos y) (l_ctx y) else Some (l_ctx y)) = Some (l_ctx y)"
      using exact_consumerD(4) [OF B Jy] unfolding u32_of_nat_unat f(2) .
    let ?cctx = "\<lparr>total = pkg_size (cfg_fw_info cfg),
      ctx_consumed = (l_read_pos y - qboot_src_read_pos c) - l_len y,
      raw_remaining = ?raw - l_raw_pos y, purpose = purp\<rparr>"
    let ?R = "length raw - ?k" and ?Q = "q + unat (l_len y)"
    have rr: "unat (?raw - l_raw_pos y) = ?R" using more f(2) by (simp add: lens(2) u32_sub)
    have at: "block_at pt raw J q ?Q ?R (kst (w_alg (l_world y))) q
        (dwc_start (sb_of (l_len y)) ?cctx status_0 (l_ctx y) (l_world y))"
      using i more rr by (simp add: block_at_def dwc_start_def status_0_def)
    have l: "unat (l_len y) \<le> 8224" using f(4) by simp
    obtain r where r: "qbt_decompress_with_consumer dec (sb_of (l_len y)) ?cctx status_0 K (l_ctx y) (l_world y) = Some r"
      and post: "block_post pt raw J q ?Q ?R (kst (w_alg (l_world y))) r"
      by (rule block_run [OF B at _ l]) (simp, rule that)
    from post obtain q' where q': "block_at pt raw J q ?Q ?R (kst (w_alg (l_world y))) q' r"
      and stop: "d_rem r = 0 \<or> (\<exists>b. front_block (drop q' pt) = Some b \<and> 4 + length b \<le> 4096 \<and> unat (d_len r) < 4 + length b)"
      and rst: "d_rst r = RT_EOK \<or> d_rst r = RT_ENOSPC"
      by (auto simp: block_post_def)
    note p = q' [unfolded block_at_def]
    have prod: "produced (d_out r) \<noteq> 0"
    proof
      assume z: "produced (d_out r) = 0"
      then have "q' = q" "d_len r = l_len y" using p by (auto simp: u32_eq_iff)
      moreover have "d_rem r \<noteq> 0" using p z more by auto
      ultimately show False using stop whole by fastforce
    qed
    let ?y = "y\<lparr>l_raw_pos := l_raw_pos y + produced (d_out r), l_len := d_len r, l_ctx := d_ctx r, l_world := d_world r\<rparr>"
    have body: "stream_body c io cfg purp (proc_of K) x = Some (Again ?y)"
    proof -
      have "l_raw_pos x < ?raw" using more by (simp add: lens(2) u32_less_iff)
      moreover have "\<not> (d_rst r \<noteq> RT_EOK \<and> \<not> eq_posix_enospc c (d_rst r))"
        using rst posix by (auto simp: eq_posix_enospc_def)
      ultimately show ?thesis
        using f(1) ctx cfg_dec r prod by (simp add: stream_body_def sb_of_def Let_def)
    qed
    have np: "unat (l_raw_pos y + produced (d_out r)) = ?k + unat (produced (d_out r))"
    proof -
      have "?k + unat (produced (d_out r)) < 4294967296"
        using p more lens(2) u32_less [of ?raw] by linarith
      then show ?thesis unfolding f(2) by (rule u32_add)
    qed
    have nk: "?k + unat (produced (d_out r)) \<le> length raw"
      "length raw - (?k + unat (produced (d_out r))) = unat (d_rem r)"
      "length raw - unat (d_rem r) = ?k + unat (produced (d_out r))" using p more by linarith+
    have "blocks_at body pt raw J q' ?y"
      using i p np nk by (simp add: blocks_at_def)
    moreover have "unat (d_len r) < 4096" if "?k + unat (produced (d_out r)) < length raw"
      using stop that nk(2) by auto
    ultimately have "blocks_inv body pt raw J ?y" using np by (auto simp: blocks_inv_def)
    moreover have "length raw - unat (l_raw_pos ?y) < length raw - ?k"
      using np prod more by (simp add: u32_eq_iff)
    ultimately show ?thesis using body by blast
  qed
qed

text \<open>The stream transfers the image of the reference decoder.\<close>

lemma block_transfers:
  assumes up: "unpack_blocks ub d0 (length raw) pt = Some raw"
  shows "transfers io view c cfg (\<lambda>a. fst (plain (kst a) body) = pt \<and> dst a = d0) body raw"
  unfolding transfers_def
proof (intro allI impI)
  fix purp K J ctx and w :: "('s, 'a) world"
  assume B: "exact_consumer view c cfg purp K body raw J" and wf: "wf_mem c (w_mem w)" and J0: "J 0 ctx (w_dev w)"
    and ini: "fst (plain (kst (w_alg w)) body) = pt \<and> dst (w_alg w) = d0"
  let ?x = "\<lparr>l_read_pos = qboot_src_read_pos c, l_raw_pos = 0, l_len = 0, l_ctx = ctx, l_world = w\<rparr>"
  have lp: "length pt = pkg" using ini plain_length [of "kst (w_alg w)" body] exact_consumer_lengths(1) [OF B] by simp
  have "blocks_at body pt raw J 0 ?x" using wf J0 ini up by (simp add: blocks_at_def)
  then have I0: "blocks_inv body pt raw J ?x" by (auto simp: blocks_inv_def)
  have "\<exists>r. run_loop (stream_body c io cfg purp (proc_of K)) ?x = Some r \<and>
      (\<exists>ctx w. r = (True, ctx, w) \<and> wf_mem c (w_mem w) \<and> J (length raw) ctx (w_dev w))"
    by (rule run_loop_total [where I = "blocks_inv body pt raw J" and m = "\<lambda>x. length raw - unat (l_raw_pos x)"])
      (use I0 blocks_step [OF B _ lp] in blast)+
  then show "\<exists>ctx' w'. qbt_fw_stream_process c io cfg purp (proc_of K) ctx w = Some (True, ctx', w') \<and>
      wf_mem c (w_mem w') \<and> J (length raw) ctx' (w_dev w')"
    by (auto simp: qbt_fw_stream_process_def)
qed

end

end
