(* ===== verification/Qboot_Gzip.thy ===== *)
theory Qboot_Gzip
  imports Qboot_Transfer
begin

text \<open>
  Packages compressed by gzip, as \<open>algorithm/qboot_gzip.c\<close> reads them. The reference decoder takes the
  package in the pieces in which the stream reads it and inflates each into room for at most 4096
  bytes; the stream, with the handler's remainder buffer and its alignment to 32 bytes in between,
  transfers exactly the image it gives. A package of one piece has what one call of \<open>inflate\<close> gives
  as its image, unless that is shorter than 32 bytes: the handler gives up on such a tail, and the
  last section shows that no image so short is ever delivered.
\<close>

section \<open>One call of the handler\<close>

definition inflate_ok :: "int \<Rightarrow> bool" where
  "inflate_ok ret \<longleftrightarrow> ret \<noteq> Z_NEED_DICT \<and> ret \<noteq> Z_DATA_ERROR \<and> ret \<noteq> Z_MEM_ERROR"

text \<open>
  What a call hands on of the \<open>n\<close> bytes it inflated into room for \<open>k\<close>: all of them if they do not
  fill the room, else a multiple of 32.
\<close>

definition handed_on :: "nat \<Rightarrow> nat \<Rightarrow> nat" where
  "handed_on k n = (if n < k then n else n - n mod 32)"

lemma handed_on_le: "handed_on k n \<le> n"
  by (simp add: handed_on_def)

text \<open>The stream state of zlib, the remainder of the last call and its length, and the input left.\<close>

definition gz_of :: "('q, 'z, 'k) alg_state \<Rightarrow> 'z \<times> byte list \<times> u32 \<times> u32" where
  "gz_of a = (qbt_strm a, take (unat (qbt_gzip_remain_len a)) (qbt_gzip_remain_buf a), qbt_gzip_remain_len a, qbt_avail_in a)"

abbreviation at_end :: "qbt_stream_ctx_t \<Rightarrow> u32 \<Rightarrow> bool" where
  "at_end ctx l \<equiv> total ctx > 0 \<and> ctx_consumed ctx + l \<ge> total ctx"

lemma unat_mod_32: "unat (n mod GZIP_REMAIN_BUF_SIZE :: u32) = unat n mod 32"
  by (simp add: GZIP_REMAIN_BUF_SIZE_def unat_mod)

lemma gzip_call:
  assumes l: "0 < unat (sb_in_len buf)" "unat (sb_in_len buf) \<le> length (m (sb_in buf))"
    and cap: "unat (sb_out_len buf) \<le> 4096" "unat (sb_out_len buf) \<le> length (m (sb_out buf))"
    and r0: "qbt_gzip_remain_len a = 0"
    and inf: "inflate zl (take (unat (sb_in_len buf)) (m (sb_in buf))) (unat (sb_out_len buf)) (qbt_strm a) = (ret, av, out, z)"
    and ok: "inflate_ok ret" "unat av < unat (sb_in_len buf)" "length out \<le> unat (sb_out_len buf)"
    and last: "length out < unat (sb_out_len buf) \<Longrightarrow> \<not> at_end ctx (sb_in_len buf)"
  defines "n \<equiv> handed_on (unat (sb_out_len buf)) (length out)"
  obtains st' m' a' where
    "qbt_algo_gzip_decompress zl buf st ctx m a = Some (if n = 0 then RT_ERROR else RT_EOK, st', m', a')"
    "unat (consumed st') = unat (sb_in_len buf) - unat av" "unat (produced st') = n"
    "take (length out) (m' (sb_out buf)) = out" "\<And>b. b \<noteq> sb_out buf \<Longrightarrow> m' b = m b" "\<And>b. length (m' b) = length (m b)"
    "gz_of a' = (z, drop n out, of_nat (length out - n), av)"
proof -
  let ?l = "unat (sb_in_len buf)" and ?k = "unat (sb_out_len buf)" and ?n = "length out"
  let ?m = "m(sb_out buf := overwrite 0 out (m (sb_out buf)))"
  let ?a = "a\<lparr>qbt_strm := z, qbt_avail_in := av\<rparr>"
  let ?e = "of_nat ?n :: u32"
  have un: "unat ?e = ?n" using ok(3) cap(1) by (simp add: u32_of_nat)
  have lin: "sb_in_len buf \<noteq> 0" using l(1) by auto
  have sk: "sint (sb_out_len buf) = int ?k" using cap(1) by (intro sint_small) simp
  have lt: "int ?n < uint (sb_out_len buf) \<longleftrightarrow> ?n < ?k" by (metis of_nat_less_iff uint_nat)
  have inp: "mem_read (sb_in buf) 0 ?l m = Some (take ?l (m (sb_in buf)))" using l(2) by (simp add: mem_read_def)
  have wr: "mem_write (sb_out buf) 0 out m = Some ?m" using ok(3) cap(2) by (simp add: mem_write_def)
  have gd: "qbt_gzip_decompress zl (take ?l (m (sb_in buf))) (sb_out buf, 0) (sb_out_len buf) m a = Some (int ?n, ?m, ?a)"
    using inf ok(1) wr by (simp add: qbt_gzip_decompress_def inflate_ok_def Let_def)
  have call: "qbt_algo_gzip_decompress zl buf st ctx m a =
      qbt_gzip_emit buf st (purpose ctx = QBT_STREAM_WRITE) (at_end ctx (sb_in_len buf)) (?n < ?k) (int ?n) ?m ?a"
    using r0 lin inp gd sk lt by (simp add: qbt_algo_gzip_decompress_def Let_def)
  let ?t = "?e mod GZIP_REMAIN_BUF_SIZE"
  have ut: "unat ?t = ?n mod 32" by (simp add: unat_mod_32 un)
  have ua: "unat (?e - ?t) = ?n - ?n mod 32" using ut un by (simp add: u32_sub)
  have np: "\<not> (?n < ?k \<and> at_end ctx (sb_in_len buf))" using last by blast
  have lm: "length (?m b) = length (m b)" for b using ok(3) cap(2) by simp
  have rest: "mem_read (sb_out buf) (?n - ?n mod 32) (?n mod 32) ?m = Some (drop (?n - ?n mod 32) out)"
    using ok(3) cap(2) by (simp add: mem_read_def overwrite_def drop_take)
  let ?full = "\<not> ?n < ?k"
  define e where "e = ?e"
  define t where "t = ?t"
  define o' where "o' = (if ?full then e - t else e)"
  have tot: "of_int (int ?n) + qbt_gzip_remain_len ?a = e" "e mod GZIP_REMAIN_BUF_SIZE = t" "e - t + t = e"
    using r0 by (simp_all add: e_def t_def)
  have ut': "unat t = ?n mod 32" "unat (e - t) = ?n - ?n mod 32" "0 < t \<longleftrightarrow> ?n mod 32 \<noteq> 0"
    using ut ua by (simp_all add: e_def t_def word_gt_0 u32_eq_iff)
  have uo: "unat o' = n" using ua un by (simp add: n_def handed_on_def o'_def e_def t_def)
  let ?rb = "if ?n mod 32 = 0 then qbt_gzip_remain_buf a
    else overwrite 0 (drop (?n - ?n mod 32) out) (qbt_gzip_remain_buf a)"
  let ?st = "st\<lparr>consumed := sb_in_len buf - av, produced := o'\<rparr>"
  let ?a' = "?a\<lparr>qbt_gzip_remain_buf := ?rb, qbt_gzip_remain_len := if ?full then t else 0\<rparr>"
  have cz: "unat (sb_in_len buf - av) = ?l - unat av" using ok(2) by (simp add: u32_sub)
  then have c0: "sb_in_len buf - av \<noteq> 0" using ok(2) by (auto simp: u32_eq_iff)
  have o0: "o' = 0 \<longleftrightarrow> n = 0" using uo by (simp add: u32_eq_iff)
  have emit: "qbt_gzip_emit buf st p (at_end ctx (sb_in_len buf)) (?n < ?k) (int ?n) ?m ?a =
      Some (if n = 0 then RT_ERROR else RT_EOK, ?st, ?m, ?a')" for p
  proof (cases "?n mod 32 = 0")
    case True
    then have t0: "t = 0" using ut'(1) by (simp add: u32_eq_iff)
    then have "o' = e" by (simp add: o'_def)
    with True t0 show ?thesis
      using c0 o0 np unfolding qbt_gzip_emit_def Let_def tot(1,2) by auto
  next
    case False
    then show ?thesis
      using rest c0 o0 np tot(3) unfolding qbt_gzip_emit_def Let_def tot(1,2) ut' by (auto simp: o'_def)
  qed
  have "gz_of ?a' = (z, drop n out, of_nat (?n - n), av)"
  proof (cases ?full)
    case True
    have tk: "take (?n mod 32) (overwrite 0 (drop (?n - ?n mod 32) out) (qbt_gzip_remain_buf a)) = drop (?n - ?n mod 32) out"
      by (simp add: take_overwrite_0)
    have "t = of_nat (?n mod 32)" using ut'(1) by (simp add: u32_eq_iff u32_of_nat)
    with True tk ut'(1) show ?thesis by (simp add: gz_of_def n_def handed_on_def)
  next
    case False
    then show ?thesis by (simp add: gz_of_def n_def handed_on_def)
  qed
  then show ?thesis
    by (intro that [OF call [unfolded emit]]) (use cz uo take_overwrite_0 [of ?n out] lm in simp_all)
qed

text \<open>The remainder of the last call goes out when all input has been taken.\<close>

lemma gzip_flush:
  assumes a: "gz_of a = (z, rho, of_nat (length rho), 0)" and rho: "0 < length rho" "length rho < 32"
    and buf: "sb_in_len buf = 0" "unat (sb_out_len buf) = length rho" "length rho \<le> length (m (sb_out buf))"
    and fin: "at_end ctx 0"
  obtains st' m' a' where
    "qbt_algo_gzip_decompress zl buf st ctx m a = Some (RT_EOK, st', m', a')"
    "consumed st' = 0" "unat (produced st') = length rho"
    "take (length rho) (m' (sb_out buf)) = rho" "\<And>b. b \<noteq> sb_out buf \<Longrightarrow> m' b = m b" "\<And>b. length (m' b) = length (m b)"
    "gz_of a' = (z, [], 0, 0)"
proof -
  let ?n = "of_nat (length rho) :: u32"
  let ?m = "m(sb_out buf := overwrite 0 rho (m (sb_out buf)))"
  have un: "unat ?n = length rho" using rho by (simp add: u32_of_nat)
  then have nz: "?n \<noteq> 0" using rho(1) by auto
  have f: "qbt_strm a = z" "qbt_gzip_remain_len a = ?n" "take (length rho) (qbt_gzip_remain_buf a) = rho" "qbt_avail_in a = 0"
    using a un by (auto simp: gz_of_def)
  have ol: "sb_out_len buf = ?n" using buf(2) un by (simp add: u32_eq_iff)
  have tot: "?n mod GZIP_REMAIN_BUF_SIZE = ?n" using un rho(2) by (simp add: u32_eq_iff unat_mod_32)
  have fit: "\<not> (0 :: u32) + GZIP_REMAIN_BUF_SIZE \<le> ?n"
    using un rho(2) by (simp add: GZIP_REMAIN_BUF_SIZE_def u32_le_iff)
  have wr: "mem_write (sb_out buf) 0 rho m = Some ?m" using buf(3) by (simp add: mem_write_def)
  have rd: "mem_read (sb_out buf) 0 (length rho) ?m = Some rho"
    using buf(3) by (simp add: mem_read_def take_overwrite_0)
  let ?rb = "overwrite 0 rho (qbt_gzip_remain_buf a)"
  have "qbt_algo_gzip_decompress zl buf st ctx m a = Some (RT_EOK, st\<lparr>consumed := 0, produced := ?n\<rparr>, ?m,
      a\<lparr>qbt_gzip_remain_buf := ?rb, qbt_gzip_remain_len := 0\<rparr>)"
    using f buf(1) ol nz tot fit wr rd un fin rho
    by (simp add: qbt_algo_gzip_decompress_def qbt_gzip_emit_def Let_def word_gt_0)
  then show ?thesis
    by (rule that) (use un take_overwrite_0 [of "length rho" rho] buf(3) f in \<open>simp_all add: gz_of_def\<close>)
qed

text \<open>The handler leaves the state of the cipher alone.\<close>

lemma gzip_aes:
  assumes "qbt_algo_gzip_decompress zl buf st ctx m a = Some (e, st', m', a')"
  shows "qbt_aes_ctx a' = qbt_aes_ctx a" "qbt_aes_iv a' = qbt_aes_iv a"
proof -
  have em: "qbt_aes_ctx a2 = qbt_aes_ctx a1 \<and> qbt_aes_iv a2 = qbt_aes_iv a1"
    if "qbt_gzip_emit buf st p l i d m1 a1 = Some (e, st2, m2, a2)" for p l i d m1 a1 st2 m2 a2
    using that by (auto simp: qbt_gzip_emit_def Let_def bind_eq_Some_conv split: if_splits)
  have de: "qbt_aes_ctx a2 = qbt_aes_ctx a \<and> qbt_aes_iv a2 = qbt_aes_iv a"
    if "qbt_gzip_decompress zl inp out n m1 a = Some (d, m2, a2)" for inp out n m1 d m2 a2
    using that by (auto simp: qbt_gzip_decompress_def Let_def bind_eq_Some_conv split: if_splits prod.splits)
  show "qbt_aes_ctx a' = qbt_aes_ctx a" "qbt_aes_iv a' = qbt_aes_iv a"
    using assms by (auto simp: qbt_algo_gzip_decompress_def Let_def bind_eq_Some_conv dest!: em de split: if_splits)
qed

section \<open>The reference decoder\<close>

text \<open>
  \<open>r\<close> bytes of the image are still to come, \<open>s\<close> is the rest of the piece that has been read and \<open>u\<close>
  what has not been read. Each call must take some input, hand something on, and fill its room on
  the last piece; what a full room leaves over must be the end of everything.
\<close>

function gunzip :: "'z zlib \<Rightarrow> 'z \<Rightarrow> nat \<Rightarrow> byte list \<Rightarrow> byte list \<Rightarrow> byte list option" where
  "gunzip zl z r s u =
     (if r = 0 then Some []
      else if s = [] then (if u = [] then None else gunzip zl z r (take 4096 u) (drop 4096 u))
      else case inflate zl s (min r 4096) z of
        (ret, av, out, z') \<Rightarrow>
          let s' = drop (length s - unat av) s; n = handed_on (min r 4096) (length out)
          in if \<not> inflate_ok ret \<or> length s \<le> unat av \<or> min r 4096 < length out \<or> n = 0 \<or>
                (length out < min r 4096 \<and> u = []) then None
             else if n < length out then (if s' = [] \<and> u = [] then Some out else None)
             else map_option ((@) out) (gunzip zl z' (r - length out) s' u))"
  by pat_completeness auto
termination
proof (relation "measure (\<lambda>(zl, z, r, s, u). 2 * (length s + length u) + (if s = [] then 1 else 0))")
qed auto

declare gunzip.simps [simp del]

lemma gunzip_0 [simp]: "gunzip zl z 0 s u = Some []"
  by (simp add: gunzip.simps)

lemma gunzip_refill:
  assumes "gunzip zl z r [] u = Some raw" and "0 < r"
  shows "u \<noteq> []" and "gunzip zl z r (take 4096 u) (drop 4096 u) = Some raw"
  using assms by (simp_all add: gunzip.simps [of zl z r "[]"] split: if_splits)

lemma gunzip_cases:
  assumes g: "gunzip zl z r s u = Some raw" and "0 < r" "s \<noteq> []"
  obtains ret av out z' where "inflate zl s (min r 4096) z = (ret, av, out, z')" "inflate_ok ret" "unat av < length s"
    "length out \<le> min r 4096" "0 < handed_on (min r 4096) (length out)" "length out < min r 4096 \<Longrightarrow> u \<noteq> []"
    "(handed_on (min r 4096) (length out) = length out \<and>
       (\<exists>raw'. raw = out @ raw' \<and> gunzip zl z' (r - length out) (drop (length s - unat av) s) u = Some raw')) \<or>
     (handed_on (min r 4096) (length out) < length out \<and> av = 0 \<and> u = [] \<and> raw = out \<and> length out = r \<and> r < 4096)"
proof -
  obtain ret av out z' where i: "inflate zl s (min r 4096) z = (ret, av, out, z')" by (metis prod_cases4)
  let ?n = "handed_on (min r 4096) (length out)"
  have ok: "inflate_ok ret" "unat av < length s" "length out \<le> min r 4096" "0 < ?n" "length out < min r 4096 \<Longrightarrow> u \<noteq> []"
    and rest: "if ?n < length out then drop (length s - unat av) s = [] \<and> u = [] \<and> raw = out
      else \<exists>raw'. raw = out @ raw' \<and> gunzip zl z' (r - length out) (drop (length s - unat av) s) u = Some raw'"
    using g assms(2,3) by (simp_all add: gunzip.simps [of zl z r s] i Let_def not_less not_le split: if_splits) (auto simp: min_def split: if_splits)
  show ?thesis
  proof (cases "?n < length out")
    case True
    then have full: "length out = min r 4096" "length out mod 32 \<noteq> 0" using ok(3) by (auto simp: handed_on_def split: if_splits)
    then have "r < 4096" by (cases "r < 4096") auto
    moreover have "av = 0" using rest True ok(2) by (auto simp: u32_eq_iff)
    ultimately show ?thesis using that [OF i ok] rest True full(1) by simp
  next
    case False
    then have "?n = length out" using handed_on_le [of "min r 4096" "length out"] by simp
    then show ?thesis using that [OF i ok] rest by simp
  qed
qed

lemma gunzip_length: "gunzip zl z r s u = Some raw \<Longrightarrow> length raw = r"
proof (induction zl z r s u arbitrary: raw rule: gunzip.induct)
  case (1 zl z r s u)
  show ?case
  proof (cases "r = 0")
    case False
    then have r: "0 < r" by simp
    show ?thesis
    proof (cases "s = []")
      case True
      note g = gunzip_refill [OF "1.prems" [unfolded True] r]
      show ?thesis by (rule "1.IH"(1) [OF False True g(1) g(2)])
    next
      case s: False
      obtain ret av out z' where
        c: "inflate zl s (min r 4096) z = (ret, av, out, z')" "inflate_ok ret" "unat av < length s"
        "length out \<le> min r 4096" "0 < handed_on (min r 4096) (length out)" "length out < min r 4096 \<Longrightarrow> u \<noteq> []"
        and d: "(handed_on (min r 4096) (length out) = length out \<and>
           (\<exists>raw'. raw = out @ raw' \<and> gunzip zl z' (r - length out) (drop (length s - unat av) s) u = Some raw')) \<or>
         (handed_on (min r 4096) (length out) < length out \<and> av = 0 \<and> u = [] \<and> raw = out \<and> length out = r \<and> r < 4096)"
        by (rule gunzip_cases [OF "1.prems" r s]) (rule that)
      from d show ?thesis
      proof
        assume "handed_on (min r 4096) (length out) = length out \<and>
           (\<exists>raw'. raw = out @ raw' \<and> gunzip zl z' (r - length out) (drop (length s - unat av) s) u = Some raw')"
        then obtain raw' where n: "handed_on (min r 4096) (length out) = length out" "raw = out @ raw'"
          "gunzip zl z' (r - length out) (drop (length s - unat av) s) u = Some raw'" by blast
        have "length raw' = r - length out"
          by (rule "1.IH"(2) [OF False s c(1) [symmetric] refl refl refl refl _ _ n(3)]) (use c n in auto)
        then show ?thesis using n(2) c(4) by simp
      qed simp
    qed
  qed (use "1.prems" in simp)
qed

text \<open>
  A package in one piece whose image fits the output buffer: the decoder gives what one call of
  \<open>inflate\<close> gives, unless that is shorter than 32 bytes.
\<close>

lemma gunzip_one:
  assumes inf: "inflate zl pt (length raw) z = (ret, 0, raw, z')" and ok: "inflate_ok ret"
    and pt: "0 < length pt" "length pt \<le> 4096" and raw: "0 < length raw" "length raw \<le> 4096"
  shows "gunzip zl z (length raw) [] pt = (if 32 \<le> length raw then Some raw else None)"
proof -
  have h: "handed_on (length raw) (length raw) = 0 \<longleftrightarrow> length raw < 32"
    using raw(1) by (auto simp: handed_on_def)
  have "gunzip zl z (length raw) [] pt = gunzip zl z (length raw) pt []"
    using pt raw by (subst gunzip.simps) auto
  also have "\<dots> = (if 32 \<le> length raw then Some raw else None)"
    using inf ok pt raw h by (subst gunzip.simps) (auto simp: Let_def handed_on_le min_absorb1 not_less not_le)
  finally show ?thesis .
qed

section \<open>Streaming the package\<close>

locale gzip_stream = staged_package io view "qbt_algo_gzip_decompress zl" f c cfg dev_size kst plain gz_of
  for io :: "'s qboot_io_ops" and view and zl :: "'z zlib" and f :: "('q, 'z, 'k) alg_state decrypt_fn" and c and cfg and
    dev_size and kst :: "('q, 'z, 'k) alg_state \<Rightarrow> 'c" and plain +
  assumes gzip_cfg: "using_gzip c"
begin

lemma staging: "wf_mem c m \<Longrightarrow> 4096 \<le> length (m B_CMPRS) \<and> length (m (g_crypt_buf c)) = 4096"
  using gzip_cfg by (auto simp: wf_mem_def g_crypt_buf_def buf_sizes using_compression_def)

lemma gzip_sep: "g_crypt_buf c \<noteq> B_CMPRS"
  using gzip_cfg by (simp add: g_crypt_buf_def using_compression_def)

text \<open>
  The handler with \<open>q\<close> bytes taken, \<open>l\<close> staged behind them and \<open>r\<close> of the image to come: it goes on
  like the decoder, or it holds the end of the image in its remainder buffer.
\<close>

definition gz_state :: "byte list \<Rightarrow> byte list \<Rightarrow> nat \<Rightarrow> nat \<Rightarrow> nat \<Rightarrow> ('q, 'z, 'k) alg_state \<Rightarrow> bool" where
  "gz_state pt raw q l r a \<longleftrightarrow> (\<exists>z rho av. gz_of a = (z, rho, of_nat (length rho), av) \<and>
     (if rho = [] then gunzip zl z r (take l (drop q pt)) (drop (q + l) pt) = Some (drop (length raw - r) raw)
      else 0 < q \<and> q = length pt \<and> l = 0 \<and> av = 0 \<and> length rho = r \<and> r < 32 \<and> rho = drop (length raw - r) raw))"

text \<open>The loop over the piece of the plain text from \<open>q0\<close> to \<open>Q\<close>, at \<open>q\<close>.\<close>

definition gz_at ::
  "byte list \<Rightarrow> byte list \<Rightarrow> (nat \<Rightarrow> proc_ctx \<Rightarrow> 's \<Rightarrow> bool) \<Rightarrow> qbt_stream_ctx_t \<Rightarrow> nat \<Rightarrow> nat \<Rightarrow> nat \<Rightarrow> 'c \<Rightarrow> nat \<Rightarrow>
   ('s, ('q, 'z, 'k) alg_state) dwc \<Rightarrow> bool" where
  "gz_at pt raw J cctx q0 Q R k q x \<longleftrightarrow>
     wf_mem c (w_mem (d_world x)) \<and> unat (produced (d_out x)) + unat (d_rem x) = R \<and>
     (produced (d_out x) = 0 \<longrightarrow> q = q0) \<and> q + unat (d_len x) = Q \<and>
     unat (ctx_consumed cctx + consumed (d_out x)) = q \<and>
     take (unat (d_len x)) (w_mem (d_world x) B_CMPRS) = take (unat (d_len x)) (drop q pt) \<and>
     gz_state pt raw q (unat (d_len x)) (unat (d_rem x)) (w_alg (d_world x)) \<and>
     J (length raw - unat (d_rem x)) (d_ctx x) (w_dev (d_world x)) \<and> kst (w_alg (d_world x)) = k"

definition gz_inv where
  "gz_inv pt raw J cctx q0 Q R k x \<longleftrightarrow> (\<exists>q. gz_at pt raw J cctx q0 Q R k q x) \<and> d_rst x = RT_EOK \<and> unat (d_len x) \<le> 4096"

text \<open>It stops when the image is complete, or at the end of a piece that is not the last.\<close>

definition gz_post where
  "gz_post pt raw J cctx q0 Q R k x \<longleftrightarrow> (\<exists>q. gz_at pt raw J cctx q0 Q R k q x \<and>
     (d_rem x = 0 \<or> d_len x = 0 \<and> q < length pt)) \<and> d_rst x = RT_EOK"

text \<open>A call that hands on the next bytes and leaves the handler in such a state keeps the loop's.\<close>

lemma gz_again:
  assumes B: "exact_consumer view c cfg purp K body raw J" and q: "gz_at pt raw J cctx q0 Q R k q x" and R: "R \<le> length raw"
    and len: "unat (d_len x) \<le> 4096" and Q: "Q \<le> pkg" and rem: "d_rem x \<noteq> 0"
    and go: "\<not> (d_len x = 0 \<and> ctx_consumed (dwc_cctx cctx x) < total cctx)"
    and call: "qbt_algo_gzip_decompress zl (dwc_call (sb_of n) x) (d_step x) (dwc_cctx cctx x) (w_mem (d_world x))
      (w_alg (d_world x)) = Some (RT_EOK, step, m, a)"
    and cs: "unat (consumed step) \<le> unat (d_len x)"
    and pr: "0 < unat (produced step)" "unat (produced step) \<le> unat (d_rem x)" "unat (produced step) \<le> 4096"
    and out: "take (unat (produced step)) (m (g_crypt_buf c)) = take (unat (produced step)) (drop (length raw - unat (d_rem x)) raw)"
    and m: "\<And>b. b \<noteq> g_crypt_buf c \<Longrightarrow> m b = w_mem (d_world x) b" "\<And>b. length (m b) = length (w_mem (d_world x) b)"
    and st: "gz_state pt raw (q + unat (consumed step)) (unat (d_len x) - unat (consumed step))
      (unat (d_rem x) - unat (produced step)) a"
  shows "\<exists>y. dwc_body (qbt_algo_gzip_decompress zl) K (sb_of n) cctx x = Some (Again y) \<and>
    gz_inv pt raw J cctx q0 Q R k y \<and> unat (d_rem y) < unat (d_rem x)"
proof -
  note i = q [unfolded gz_at_def]
  let ?N = "length raw" and ?r = "unat (d_rem x)" and ?l = "unat (d_len x)" and ?w = "d_world x"
  have wf: "wf_mem c (w_mem ?w)" and sum: "unat (produced (d_out x)) + ?r \<le> ?N"
    and J: "J (?N - ?r) (d_ctx x) (w_dev ?w)" using i R by auto
  have l: "?l \<le> length (w_mem ?w B_CMPRS)" using staging [OF wf] len by simp
  have cap: "unat (produced step) \<le> unat (cap_of (d_rem x) (sb_of n))" using pr by (simp add: unat_cap_of)
  obtain y where y: "dwc_body (qbt_algo_gzip_decompress zl) K (sb_of n) cctx x = Some (Again y)"
    "wf_mem c (w_mem (d_world y))" "w_alg (d_world y) = a" "d_rst y = RT_EOK"
    "unat (d_len y) = ?l - unat (consumed step)" "unat (d_rem y) = ?r - unat (produced step)"
    "unat (produced (d_out y)) = unat (produced (d_out x)) + unat (produced step)"
    "consumed (d_out y) = consumed (d_out x) + consumed step"
    "take (unat (d_len y)) (w_mem (d_world y) B_CMPRS) = drop (unat (consumed step)) (take ?l (w_mem ?w B_CMPRS))"
    "J (?N - unat (d_rem y)) (d_ctx y) (w_dev (d_world y))"
    by (rule hands_on [where x = x, OF B wf rem sum go l J call cs pr(1) cap out m(2)])
      (use m(1) [of B_CMPRS] gzip_sep in simp, rule that)
  have fr: "take ?l (w_mem ?w B_CMPRS) = take ?l (drop q pt)" using i by blast
  have "gz_at pt raw J cctx q0 Q R k (q + unat (consumed step)) y"
    unfolding gz_at_def
  proof (intro conjI)
    show "unat (produced (d_out y)) + unat (d_rem y) = R" using y(6,7) pr(2) i by simp
    show "produced (d_out y) = 0 \<longrightarrow> q + unat (consumed step) = q0" using y(7) pr(1) by auto
    show "q + unat (consumed step) + unat (d_len y) = Q" using y(5) cs i by simp
    have "q + unat (consumed step) < 4294967296" using cs i Q u32_less [of "pkg_size (cfg_fw_info cfg)"] by linarith
    then show "unat (ctx_consumed cctx + consumed (d_out y)) = q + unat (consumed step)"
      using i u32_add [of "ctx_consumed cctx + consumed (d_out x)" "consumed step"] by (simp add: y(8) add.assoc)
    show "take (unat (d_len y)) (w_mem (d_world y) B_CMPRS) = take (unat (d_len y)) (drop (q + unat (consumed step)) pt)"
      unfolding y(9) unfolding fr using cs y(5) by (simp add: drop_take add.commute)
    show "gz_state pt raw (q + unat (consumed step)) (unat (d_len y)) (unat (d_rem y)) (w_alg (d_world y))"
      using st by (simp add: y(3,5,6))
    show "kst (w_alg (d_world y)) = k" using dec_kst [OF call] y(3) i by simp
  qed (fact y(2,10))+
  with y(1,4,5,6) len pr rem show ?thesis by (auto simp: gz_inv_def unat_gt_0)
qed

lemma gz_step:
  assumes B: "exact_consumer view c cfg purp K body raw J" and I: "gz_inv pt raw J cctx q0 Q R k x"
    and R: "R \<le> length raw" and Q: "Q \<le> pkg" and lp: "length pt = pkg" and tot: "total cctx = pkg_size (cfg_fw_info cfg)"
  shows "(\<exists>r. dwc_body (qbt_algo_gzip_decompress zl) K (sb_of n) cctx x = Some (Stop r) \<and> gz_post pt raw J cctx q0 Q R k r) \<or>
    (\<exists>y. dwc_body (qbt_algo_gzip_decompress zl) K (sb_of n) cctx x = Some (Again y) \<and> gz_inv pt raw J cctx q0 Q R k y \<and>
       unat (d_rem y) < unat (d_rem x))"
proof -
  let ?N = "length raw" and ?r = "unat (d_rem x)" and ?l = "unat (d_len x)" and ?w = "d_world x"
  let ?buf = "dwc_call (sb_of n) x"
  from I obtain q where q: "gz_at pt raw J cctx q0 Q R k q x" and e: "d_rst x = RT_EOK" and len: "?l \<le> 4096"
    by (auto simp: gz_inv_def)
  note i = q [unfolded gz_at_def]
  have wf: "wf_mem c (w_mem ?w)" and qQ: "q + ?l = Q" and cons: "unat (ctx_consumed (dwc_cctx cctx x)) = q"
    and fr: "take ?l (w_mem ?w B_CMPRS) = take ?l (drop q pt)" and rN: "?r \<le> ?N"
    using i R by (auto simp: dwc_cctx_def)
  have qp: "q \<le> pkg" using qQ Q by linarith
  from i obtain z rho av where a: "gz_of (w_alg ?w) = (z, rho, of_nat (length rho), av)"
    and st: "if rho = [] then gunzip zl z ?r (take ?l (drop q pt)) (drop (q + ?l) pt) = Some (drop (?N - ?r) raw)
      else 0 < q \<and> q = length pt \<and> ?l = 0 \<and> av = 0 \<and> length rho = ?r \<and> ?r < 32 \<and> rho = drop (?N - ?r) raw"
    by (auto simp: gz_state_def)
  note sm = staging [OF wf]
  have cap: "unat (cap_of (d_rem x) (sb_of n)) = min ?r 4096" by (simp add: unat_cap_of)
  show ?thesis
  proof (cases "d_rem x = 0")
    case True
    then have "dwc_body (qbt_algo_gzip_decompress zl) K (sb_of n) cctx x = Some (Stop x)" by (simp add: dwc_body_def)
    moreover have "gz_post pt raw J cctx q0 Q R k x" using True q e by (auto simp: gz_post_def)
    ultimately show ?thesis by blast
  next
    case rem: False
    then have pos: "0 < ?r" by (simp add: unat_gt_0)
    show ?thesis
    proof (cases "rho = []")
      case False
      then have f: "0 < pkg" "q = pkg" "?l = 0" "av = 0" "length rho = ?r" "?r < 32" "rho = drop (?N - ?r) raw"
        using st lp rN by simp_all
      then have l0: "d_len x = 0" by (simp add: u32_eq_iff)
      have fin: "at_end (dwc_cctx cctx x) 0" using f(1,2) cons tot by (simp add: dwc_cctx_def u32_le_iff word_gt_0 u32_eq_iff)
      have go: "\<not> (d_len x = 0 \<and> ctx_consumed (dwc_cctx cctx x) < total cctx)" using f(2) cons tot by (simp add: u32_less_iff)
      have buf: "sb_in_len ?buf = 0" "unat (sb_out_len ?buf) = length rho" "length rho \<le> length (w_mem ?w (sb_out ?buf))"
        using f cap sm l0 by simp_all
      obtain step m a' where c: "qbt_algo_gzip_decompress zl ?buf (d_step x) (dwc_cctx cctx x) (w_mem ?w) (w_alg ?w) = Some (RT_EOK, step, m, a')"
        "consumed step = 0" "unat (produced step) = length rho" "take (length rho) (m (sb_out ?buf)) = rho"
        "\<And>b. b \<noteq> sb_out ?buf \<Longrightarrow> m b = w_mem ?w b" "\<And>b. length (m b) = length (w_mem ?w b)" "gz_of a' = (z, [], 0, 0)"
        by (rule gzip_flush [where buf = ?buf and m = "w_mem ?w" and ctx = "dwc_cctx cctx x" and st = "d_step x" and zl = zl,
            OF a [unfolded f(4)] _ _ buf fin]) (use f pos in simp, use f in simp, rule that)
      have "gz_state pt raw (q + unat (consumed step)) (?l - unat (consumed step)) (?r - unat (produced step)) a'"
        using c(2,3,7) f(5) by (simp add: gz_state_def)
      then show ?thesis
        by (intro disjI2 gz_again [OF B q R len Q rem go c(1)]) (use c f pos in simp_all)
    next
      case True
      have g: "gunzip zl z ?r (take ?l (drop q pt)) (drop (q + ?l) pt) = Some (drop (?N - ?r) raw)" using st True by simp
      show ?thesis
      proof (cases "d_len x = 0")
        case l0: True
        have "gunzip zl z ?r [] (drop q pt) = Some (drop (?N - ?r) raw)" using g l0 by simp
        from gunzip_refill(1) [OF this pos] have lt: "q < pkg" using lp by simp
        then have "dwc_body (qbt_algo_gzip_decompress zl) K (sb_of n) cctx x = Some (Stop x)"
          using rem l0 cons tot by (auto simp: dwc_body_def Let_def dwc_cctx_def u32_less_iff)
        moreover have "gz_post pt raw J cctx q0 Q R k x" using q e l0 lt lp by (auto simp: gz_post_def)
        ultimately show ?thesis by blast
      next
        case l0: False
        then have go: "\<not> (d_len x = 0 \<and> ctx_consumed (dwc_cctx cctx x) < total cctx)" by simp
        have lpos: "0 < ?l" using l0 by (simp add: unat_gt_0)
        have ls: "length (take ?l (drop q pt)) = ?l" using qQ Q lp by simp
        then have ne: "take ?l (drop q pt) \<noteq> []" using lpos by (metis list.size(3) less_irrefl)
        obtain ret av' out z' where d: "inflate zl (take ?l (drop q pt)) (min ?r 4096) z = (ret, av', out, z')" "inflate_ok ret"
          "unat av' < ?l" "length out \<le> min ?r 4096" "0 < handed_on (min ?r 4096) (length out)"
          "length out < min ?r 4096 \<Longrightarrow> drop (q + ?l) pt \<noteq> []"
          and nx: "(handed_on (min ?r 4096) (length out) = length out \<and>
              (\<exists>raw'. drop (?N - ?r) raw = out @ raw' \<and> gunzip zl z' (?r - length out) (drop (?l - unat av') (take ?l (drop q pt))) (drop (q + ?l) pt) = Some raw')) \<or>
            (handed_on (min ?r 4096) (length out) < length out \<and> av' = 0 \<and> drop (q + ?l) pt = [] \<and> drop (?N - ?r) raw = out \<and> length out = ?r \<and> ?r < 4096)"
          by (rule gunzip_cases [OF g pos ne, unfolded ls]) (rule that)
        let ?n = "handed_on (min ?r 4096) (length out)"
        have az: "qbt_gzip_remain_len (w_alg ?w) = 0" "qbt_strm (w_alg ?w) = z" using a True by (simp_all add: gz_of_def)
        have "Q < 4294967296" using Q u32_less [of "pkg_size (cfg_fw_info cfg)"] by linarith
        then have "unat (ctx_consumed (dwc_cctx cctx x) + d_len x) = q + ?l"
          using cons qQ by (subst u32_add) simp_all
        then have notend: "\<not> at_end (dwc_cctx cctx x) (sb_in_len ?buf)" if "length out < unat (sb_out_len ?buf)"
          using d(6) that lp tot by (simp add: cap u32_le_iff dwc_cctx_def)
        have pre: "0 < unat (sb_in_len ?buf)" "unat (sb_in_len ?buf) \<le> length (w_mem ?w (sb_in ?buf))"
          "unat (sb_out_len ?buf) \<le> 4096" "unat (sb_out_len ?buf) \<le> length (w_mem ?w (sb_out ?buf))"
          "unat av' < unat (sb_in_len ?buf)" "length out \<le> unat (sb_out_len ?buf)"
          using lpos len sm cap d(3,4) by simp_all
        have inf: "inflate zl (take (unat (sb_in_len ?buf)) (w_mem ?w (sb_in ?buf))) (unat (sb_out_len ?buf)) (qbt_strm (w_alg ?w)) = (ret, av', out, z')"
          using d(1) by (simp add: fr cap az)
        have bn: "handed_on (unat (sb_out_len ?buf)) (length out) = ?n" "?n \<noteq> 0" using d(5) by (simp_all add: cap)
        obtain step m a' where c: "qbt_algo_gzip_decompress zl ?buf (d_step x) (dwc_cctx cctx x) (w_mem ?w) (w_alg ?w) =
            Some (if ?n = 0 then RT_ERROR else RT_EOK, step, m, a')"
          "unat (consumed step) = unat (sb_in_len ?buf) - unat av'" "unat (produced step) = ?n"
          "take (length out) (m (sb_out ?buf)) = out"
          "\<And>b. b \<noteq> sb_out ?buf \<Longrightarrow> m b = w_mem ?w b" "\<And>b. length (m b) = length (w_mem ?w b)"
          "gz_of a' = (z', drop ?n out, of_nat (length out - ?n), av')"
          by (rule gzip_call [where buf = ?buf and m = "w_mem ?w" and ctx = "dwc_cctx cctx x" and st = "d_step x",
              OF pre(1-4) az(1) inf d(2) pre(5,6) notend, unfolded bn(1)]) (assumption, rule that)
        note c = c(1) [unfolded if_not_P [OF bn(2)]] c(2) [unfolded dwc_call_simps] c(3-7)
        have nl: "?n \<le> length out" by (rule handed_on_le)
        have cl: "?l - unat (consumed step) = unat av'" "q + unat (consumed step) + unat av' = q + ?l" using c(2) d(3) by simp_all
        have dd: "drop (?N - (?r - ?n)) raw = drop ?n (drop (?N - ?r) raw)"
          using nl d(4) rN by (simp add: add.commute)
        have tk: "take ?n (m (g_crypt_buf c)) = take ?n (drop (?N - ?r) raw)"
        proof -
          have "take ?n (m (g_crypt_buf c)) = take ?n out" using arg_cong [OF c(4), of "take ?n"] nl by (simp add: min_absorb1)
          also have "\<dots> = take ?n (drop (?N - ?r) raw)" using nx nl by auto
          finally show ?thesis .
        qed
        have "gz_state pt raw (q + unat (consumed step)) (?l - unat (consumed step)) (?r - unat (produced step)) a'"
          using nx
        proof
          assume "?n = length out \<and> (\<exists>raw'. drop (?N - ?r) raw = out @ raw' \<and>
            gunzip zl z' (?r - length out) (drop (?l - unat av') (take ?l (drop q pt))) (drop (q + ?l) pt) = Some raw')"
          then obtain raw' where n: "?n = length out" "drop (?N - ?r) raw = out @ raw'"
            "gunzip zl z' (?r - length out) (drop (?l - unat av') (take ?l (drop q pt))) (drop (q + ?l) pt) = Some raw'" by blast
          have "drop (?N - (?r - ?n)) raw = raw'" using dd n(1) by (simp add: n(2))
          with n show ?thesis
            using c(2,3,7) cl d(3) by (simp add: gz_state_def drop_take add.commute)
        next
          assume n: "?n < length out \<and> av' = 0 \<and> drop (q + ?l) pt = [] \<and> drop (?N - ?r) raw = out \<and> length out = ?r \<and> ?r < 4096"
          then have "?r - ?n < 32" by (simp add: handed_on_def split: if_splits)
          then show ?thesis using n c(2,3,7) dd lpos qQ Q lp by (auto simp: gz_state_def)
        qed
        then show ?thesis
          by (intro disjI2 gz_again [OF B q R len Q rem go c(1)]) (use c d nl tk in simp_all)
      qed
    qed
  qed
qed

lemma gz_run:
  assumes B: "exact_consumer view c cfg purp K body raw J"
    and I: "gz_at pt raw J cctx q0 Q R k q0 (dwc_start (sb_of l) cctx status_0 ctx w)" and l: "unat l \<le> 4096"
    and R: "R \<le> length raw" and Q: "Q \<le> pkg" and lp: "length pt = pkg" and tot: "total cctx = pkg_size (cfg_fw_info cfg)"
  obtains r where "qbt_decompress_with_consumer (qbt_algo_gzip_decompress zl) (sb_of l) cctx status_0 K ctx w = Some r"
    "gz_post pt raw J cctx q0 Q R k r"
proof -
  let ?x0 = "dwc_start (sb_of l) cctx status_0 ctx w"
  have I0: "gz_inv pt raw J cctx q0 Q R k ?x0" using I l by (auto simp: gz_inv_def dwc_start_def)
  have "\<exists>r. run_loop (dwc_body (qbt_algo_gzip_decompress zl) K (sb_of l) cctx) ?x0 = Some r \<and> gz_post pt raw J cctx q0 Q R k r"
    by (rule run_loop_total [where I = "gz_inv pt raw J cctx q0 Q R k" and m = "\<lambda>x. unat (d_rem x)"])
      (use I0 gz_step [OF B _ R Q lp tot] in blast)+
  then obtain r where r: "run_loop (dwc_body (qbt_algo_gzip_decompress zl) K (sb_of l) cctx) ?x0 = Some r"
    "gz_post pt raw J cctx q0 Q R k r" by blast
  show ?thesis
    by (rule that [of "r\<lparr>d_out := (d_out r)\<lparr>remaining_in := d_len r\<rparr>\<rparr>"])
      (use r in \<open>simp_all add: qbt_decompress_with_consumer_def gz_post_def gz_at_def\<close>)
qed

text \<open>The stream between two passes: each takes all it has read, until the image is complete.\<close>

definition gzip_inv ::
  "byte list \<Rightarrow> byte list \<Rightarrow> byte list \<Rightarrow> (nat \<Rightarrow> proc_ctx \<Rightarrow> 's \<Rightarrow> bool) \<Rightarrow> ('s, ('q, 'z, 'k) alg_state) stream_loc \<Rightarrow> bool" where
  "gzip_inv body pt raw J x \<longleftrightarrow>
     wf_mem c (w_mem (l_world x)) \<and> unat (l_raw_pos x) \<le> length raw \<and>
     J (unat (l_raw_pos x)) (l_ctx x) (w_dev (l_world x)) \<and>
     (unat (l_raw_pos x) < length raw \<longrightarrow> (\<exists>q < pkg. unat (l_read_pos x) = hdr + q \<and> l_len x = 0 \<and>
        gz_state pt raw q 0 (length raw - unat (l_raw_pos x)) (w_alg (l_world x)) \<and>
        fst (plain (kst (w_alg (l_world x))) (drop q body)) = drop q pt))"

lemma gz_state_refill:
  assumes "gz_state pt raw q 0 r a" and "q < length pt" and "0 < r" and "gz_of a' = gz_of a"
  shows "gz_state pt raw q (min 4096 (length pt - q)) r a'"
proof -
  from assms obtain z av where z: "gz_of a' = (z, [], 0, av)" "gunzip zl z r [] (drop q pt) = Some (drop (length raw - r) raw)"
    by (auto simp: gz_state_def split: if_splits)
  let ?n = "min 4096 (length pt - q)"
  have "take 4096 (drop q pt) = take ?n (drop q pt)" "drop 4096 (drop q pt) = drop (q + ?n) pt"
    by (auto simp: min_def add.commute)
  with gunzip_refill(2) [OF z(2) assms(3)] z(1) show ?thesis by (simp add: gz_state_def)
qed

lemma gzip_step:
  assumes B: "exact_consumer view c cfg purp K body raw J" and I: "gzip_inv body pt raw J x" and lp: "length pt = pkg"
  shows "(\<exists>r. stream_body c io cfg purp (proc_of K) x = Some (Stop r) \<and>
      (\<exists>ctx w. r = (True, ctx, w) \<and> wf_mem c (w_mem w) \<and> J (length raw) ctx (w_dev w))) \<or>
    (\<exists>y. stream_body c io cfg purp (proc_of K) x = Some (Again y) \<and> gzip_inv body pt raw J y \<and>
       length raw - unat (l_raw_pos y) < length raw - unat (l_raw_pos x))"
proof -
  let ?p = "unat (l_raw_pos x)" and ?raw = "raw_size (cfg_fw_info cfg)" and ?w = "l_world x"
  note lens = exact_consumer_lengths [OF B]
  note i = I [unfolded gzip_inv_def]
  show ?thesis
  proof (cases "?p < length raw")
    case False
    then have "?p = length raw" using i by simp
    with i False show ?thesis by (auto simp: stream_body_def lens(2) u32_less_iff)
  next
    case more: True
    with i obtain q where q: "q < pkg" "unat (l_read_pos x) = hdr + q" "l_len x = 0"
      "gz_state pt raw q 0 (length raw - ?p) (w_alg ?w)" "fst (plain (kst (w_alg ?w)) (drop q body)) = drop q pt" by blast
    have wf: "wf_mem c (w_mem ?w)" and Jx: "J ?p (l_ctx x) (w_dev ?w)" using i by blast+
    note src = exact_consumerD(1) [OF B Jx] exact_consumerD(2) [OF B Jx, unfolded lens(1)]
    define n where "n = min 4096 (pkg - q)"
    have n: "0 < n" "n \<le> 4096" "q + n \<le> pkg" using q(1) by (auto simp: n_def)
    have un: "unat (of_nat n :: u32) = n" using n by (simp add: u32_of_nat)
    have rm: "unat (l_len x) + 4096 \<le> length (w_mem ?w B_CMPRS)" "using_compression c \<or> l_len x = 0"
      using staging [OF wf] q(3) by simp_all
    obtain w where f: "stream_fetch c io cfg x = Some (True, x\<lparr>l_read_pos := l_read_pos x + of_nat n,
        l_len := l_len x + of_nat n, l_world := w\<rparr>)"
      and w: "view (w_dev w) = view (w_dev ?w)" "wf_mem c (w_mem w)"
        "take (unat (l_len x) + n) (w_mem w B_CMPRS) = take (unat (l_len x)) (w_mem ?w B_CMPRS) @ take n (drop q pt)"
        "fst (plain (kst (w_alg w)) (drop (q + n) body)) = drop (q + n) pt" "gz_of (w_alg w) = gz_of (w_alg ?w)"
      by (rule fetch_exact [OF wf rm q(2,1) n_def src q(5)]) (rule that)
    have Jw: "J ?p (l_ctx x) (w_dev w)" by (rule exact_consumerD(3) [OF B Jx w(1)])
    have ctx: "(if purp = QBT_STREAM_WRITE then set_raw_pos (l_raw_pos x) (l_ctx x) else Some (l_ctx x)) = Some (l_ctx x)"
      using exact_consumerD(4) [OF B Jx] unfolding u32_of_nat_unat .
    have rp: "unat (l_read_pos x + of_nat n) = hdr + (q + n)" using q(2) un n pkg_small by (simp add: u32_add)
    let ?cctx = "\<lparr>total = pkg_size (cfg_fw_info cfg),
      ctx_consumed = l_read_pos x + of_nat n - qboot_src_read_pos c - of_nat n,
      raw_remaining = ?raw - l_raw_pos x, purpose = purp\<rparr>"
    let ?R = "length raw - ?p"
    have rr: "unat (?raw - l_raw_pos x) = ?R" using more by (simp add: lens(2) u32_sub)
    have cc: "unat (ctx_consumed ?cctx) = q" using q(2) by (simp add: u32_sub)
    have lt: "q < length pt" using q(1) lp by simp
    have Rpos: "0 < ?R" using more by simp
    have l4: "unat (of_nat n :: u32) \<le> 4096" using un n(2) by simp
    have tot: "total ?cctx = pkg_size (cfg_fw_info cfg)" by simp
    have at: "gz_at pt raw J ?cctx q (q + n) ?R (kst (w_alg w)) q (dwc_start (sb_of (of_nat n)) ?cctx status_0 (l_ctx x) w)"
      using w(2,3) rr cc un q(3) Jw more gz_state_refill [OF q(4) lt Rpos w(5)]
      by (simp add: gz_at_def dwc_start_def status_0_def lp flip: n_def)
    obtain r where r: "qbt_decompress_with_consumer (qbt_algo_gzip_decompress zl) (sb_of (of_nat n)) ?cctx status_0 K (l_ctx x) w = Some r"
      and post: "gz_post pt raw J ?cctx q (q + n) ?R (kst (w_alg w)) r"
      by (rule gz_run [OF B at l4 _ n(3) lp tot]) (simp, rule that)
    from post obtain q' where q': "gz_at pt raw J ?cctx q (q + n) ?R (kst (w_alg w)) q' r"
      and stop: "d_rem r = 0 \<or> d_len r = 0 \<and> q' < length pt" and e: "d_rst r = RT_EOK" by (auto simp: gz_post_def)
    note p = q' [unfolded gz_at_def]
    have prod: "produced (d_out r) \<noteq> 0"
    proof
      assume z: "produced (d_out r) = 0"
      then have "q' = q" "unat (d_rem r) = ?R" using p by simp_all
      with stop p n(1) Rpos show False by auto
    qed
    let ?y = "x\<lparr>l_read_pos := l_read_pos x + of_nat n, l_raw_pos := l_raw_pos x + produced (d_out r),
      l_len := d_len r, l_ctx := d_ctx r, l_world := d_world r\<rparr>"
    have body: "stream_body c io cfg purp (proc_of K) x = Some (Again ?y)"
    proof -
      have "l_raw_pos x < ?raw" using more by (simp add: lens(2) u32_less_iff)
      then show ?thesis
        unfolding stream_body_def using f ctx cfg_dec r e prod q(3) by (cases purp) (simp_all add: sb_of_def Let_def)
    qed
    have np: "unat (l_raw_pos x + produced (d_out r)) = ?p + unat (produced (d_out r))"
    proof -
      have "?p + unat (produced (d_out r)) < 4294967296" using p more lens(2) u32_less [of ?raw] by linarith
      then show ?thesis by (rule u32_add)
    qed
    have nk: "?p + unat (produced (d_out r)) \<le> length raw"
      "length raw - (?p + unat (produced (d_out r))) = unat (d_rem r)"
      "length raw - unat (d_rem r) = ?p + unat (produced (d_out r))" using p more by linarith+
    have "gzip_inv body pt raw J ?y"
      unfolding gzip_inv_def
    proof (intro conjI impI)
      assume "unat (l_raw_pos ?y) < length raw"
      then have "d_rem r \<noteq> 0" using np nk(2) by auto
      with stop have d: "d_len r = 0" "q' < pkg" using lp by simp_all
      then have "q' = q + n" using p by simp
      with d p w(4) rp np nk(2) show "\<exists>q<pkg. unat (l_read_pos ?y) = hdr + q \<and> l_len ?y = 0 \<and>
          gz_state pt raw q 0 (length raw - unat (l_raw_pos ?y)) (w_alg (l_world ?y)) \<and>
          fst (plain (kst (w_alg (l_world ?y))) (drop q body)) = drop q pt"
        by (intro exI [of _ q']) simp
    qed (use p np nk in simp_all)
    moreover have "length raw - unat (l_raw_pos ?y) < length raw - ?p"
      using np prod more by (simp add: u32_eq_iff)
    ultimately show ?thesis using body by blast
  qed
qed

text \<open>The stream transfers the image of the reference decoder.\<close>

lemma gzip_transfers:
  assumes g: "gunzip zl z0 (length raw) [] pt = Some raw"
  shows "transfers io view c cfg (\<lambda>a. fst (plain (kst a) body) = pt \<and> gz_of a = (z0, [], 0, 0)) body raw"
  unfolding transfers_def
proof (intro allI impI)
  fix purp K J ctx and w :: "('s, ('q, 'z, 'k) alg_state) world"
  assume B: "exact_consumer view c cfg purp K body raw J" and wf: "wf_mem c (w_mem w)" and J0: "J 0 ctx (w_dev w)"
    and ini: "fst (plain (kst (w_alg w)) body) = pt \<and> gz_of (w_alg w) = (z0, [], 0, 0)"
  let ?x = "\<lparr>l_read_pos = qboot_src_read_pos c, l_raw_pos = 0, l_len = 0, l_ctx = ctx, l_world = w\<rparr>"
  have lp: "length pt = pkg" using ini plain_length [of "kst (w_alg w)" body] exact_consumer_lengths(1) [OF B] by simp
  have "0 < length pt" if "0 < length raw" using gunzip_refill(1) [OF g that] by simp
  then have I0: "gzip_inv body pt raw J ?x" using wf J0 ini g unfolding lp by (auto simp: gzip_inv_def gz_state_def)
  have "\<exists>r. run_loop (stream_body c io cfg purp (proc_of K)) ?x = Some r \<and>
      (\<exists>ctx w. r = (True, ctx, w) \<and> wf_mem c (w_mem w) \<and> J (length raw) ctx (w_dev w))"
    by (rule run_loop_total [where I = "gzip_inv body pt raw J" and m = "\<lambda>x. length raw - unat (l_raw_pos x)"])
      (use I0 gzip_step [OF B _ lp] in blast)+
  then show "\<exists>ctx' w'. qbt_fw_stream_process c io cfg purp (proc_of K) ctx w = Some (True, ctx', w') \<and>
      wf_mem c (w_mem w') \<and> J (length raw) ctx' (w_dev w')"
    by (auto simp: qbt_fw_stream_process_def)
qed

end

section \<open>Images shorter than 32 bytes\<close>

text \<open>\<open>inflate\<close> stays inside the room it is given.\<close>

locale zlib_library =
  fixes zl :: "'z zlib"
  assumes inflate_room: "inflate zl bs k z = (ret, av, out, z') \<Longrightarrow> length out \<le> k"
begin

text \<open>The end of a call with at most 31 bytes: they go out if the room is not full, else they are held.\<close>

lemma emit_short:
  assumes "qbt_gzip_emit buf st pad fin is_end d m a = Some (e, st', m', a')"
    and "unat (of_int d + qbt_gzip_remain_len a) = t" "t < 32" "unat (sb_out_len buf) < 32"
  shows "unat (qbt_gzip_remain_len a') = (if is_end then 0 else t)"
    and "e = RT_EOK \<Longrightarrow> is_end \<and> unat (produced st') = t"
proof -
  let ?t = "of_int d + qbt_gzip_remain_len a"
  have t: "?t mod GZIP_REMAIN_BUF_SIZE = ?t" using assms(2,3) by (simp add: u32_eq_iff unat_mod_32)
  have np: "\<not> GZIP_REMAIN_BUF_SIZE \<le> sb_out_len buf" using assms(4) by (simp add: GZIP_REMAIN_BUF_SIZE_def u32_le_iff)
  note u = assms(1) [unfolded qbt_gzip_emit_def Let_def t]
  show "unat (qbt_gzip_remain_len a') = (if is_end then 0 else t)"
    using u np assms(2) by (auto simp: bind_eq_Some_conv split: if_splits)
  show "e = RT_EOK \<Longrightarrow> is_end \<and> unat (produced st') = t"
    using u np assms(2) by (auto simp: bind_eq_Some_conv split: if_splits)
qed

text \<open>
  With room for at most 31 bytes a successful call leaves some of it, and nothing behind. A call that
  asks for more input may hold all of the room's bytes, in front of input it has not taken.
\<close>

definition short_state :: "nat \<Rightarrow> u32 \<Rightarrow> ('q, 'z, 'k) alg_state \<Rightarrow> bool" where
  "short_state r l a \<longleftrightarrow> qbt_gzip_remain_len a = 0 \<or> (unat (qbt_gzip_remain_len a) = r \<and> 0 < l)"

lemma short_call:
  assumes call: "qbt_algo_gzip_decompress zl buf st ctx m a = Some (e, st', m', a')"
    and k: "unat (sb_out_len buf) = k" "0 < k" "k < 32" and a: "short_state k (sb_in_len buf) a"
  shows "e = RT_EOK \<Longrightarrow> unat (produced st') < k \<and> qbt_gzip_remain_len a' = 0"
    and "e = RT_ENOSPC \<Longrightarrow> short_state k (sb_in_len buf) a'"
proof -
  let ?r = "qbt_gzip_remain_len a"
  have rk: "unat ?r \<le> k" "?r = 0 \<or> unat ?r = k" using a by (auto simp: short_state_def)
  have le: "\<not> sb_out_len buf < ?r" using rk(1) k(1) by (simp add: u32_less_iff)
  have rm: "unat (sb_out_len buf - ?r) = k - unat ?r" using k(1) rk(1) by (simp add: u32_sub)
  have sm: "sint (sb_out_len buf - ?r) = int (k - unat ?r)" using rm k(3) sint_small [of "sb_out_len buf - ?r"] by simp
  have "(e = RT_EOK \<longrightarrow> unat (produced st') < k \<and> qbt_gzip_remain_len a' = 0) \<and>
    (e = RT_ENOSPC \<longrightarrow> short_state k (sb_in_len buf) a')"
  proof (cases "sb_in_len buf = 0")
    case True
    then have "?r = 0" using a by (simp add: short_state_def)
    with True call le show ?thesis by (auto simp: qbt_algo_gzip_decompress_def Let_def short_state_def)
  next
    case False
    then have l: "0 < sb_in_len buf" by (simp add: word_gt_0)
    obtain m1 inp d m2 a1 where g: "qbt_gzip_decompress zl inp (sb_out buf, unat ?r) (sb_out_len buf - ?r) m1 a = Some (d, m2, a1)"
      and t: "(if d < 0 then Some (RT_ERROR, st, m2, a1)
        else qbt_gzip_emit buf st (purpose ctx = QBT_STREAM_WRITE) (at_end ctx (sb_in_len buf))
          (d < sint (sb_out_len buf - ?r)) d m2 a1) = Some (e, st', m', a')"
      using call False le by (auto simp: qbt_algo_gzip_decompress_def Let_def bind_eq_Some_conv split: if_splits)
    show ?thesis
    proof (cases "d < 0")
      case True
      with t show ?thesis by auto
    next
      case d: False
      have dk: "d \<le> int (k - unat ?r)" and a1: "qbt_gzip_remain_len a1 = ?r"
        using g d rm by (auto simp: qbt_gzip_decompress_def Let_def z_code_defs bind_eq_Some_conv dest: inflate_room split: prod.splits if_splits)
      have ud: "unat (of_int d :: u32) = nat d"
      proof -
        have "(of_int d :: u32) = of_nat (nat d)" using d by simp
        moreover have "nat d < 4294967296" using dk k(3) by linarith
        ultimately show ?thesis by (simp add: u32_of_nat)
      qed
      have t32: "nat d + unat ?r < 32" using dk d k(3) rk(1) by linarith
      then have tot: "unat (of_int d + qbt_gzip_remain_len a1) = nat d + unat ?r"
        unfolding a1 using u32_add [of "of_int d" ?r] by (simp add: ud)
      have o32: "unat (sb_out_len buf) < 32" using k by simp
      have em: "qbt_gzip_emit buf st (purpose ctx = QBT_STREAM_WRITE) (at_end ctx (sb_in_len buf)) (d < sint (sb_out_len buf - ?r)) d m2 a1 =
        Some (e, st', m', a')" using t d by simp
      note es = emit_short [OF em tot t32 o32, unfolded sm]
      have "unat (qbt_gzip_remain_len a') = 0 \<or> unat (qbt_gzip_remain_len a') = k"
        using es(1) d dk rk by (auto split: if_splits)
      moreover have "unat (produced st') < k" "unat (qbt_gzip_remain_len a') = 0" if "e = RT_EOK"
      proof -
        from es(2) [OF that] have p: "d < int (k - unat ?r)" "unat (produced st') = nat d + unat ?r" by blast+
        show "unat (qbt_gzip_remain_len a') = 0" unfolding es(1) if_P [OF p(1)] ..
        show "unat (produced st') < k" using p d rk(1) by linarith
      qed
      ultimately show ?thesis using l by (auto simp: short_state_def u32_eq_iff)
    qed
  qed
  then show "e = RT_EOK \<Longrightarrow> unat (produced st') < k \<and> qbt_gzip_remain_len a' = 0"
    and "e = RT_ENOSPC \<Longrightarrow> short_state k (sb_in_len buf) a'" by blast+
qed

text \<open>The loop never hands on the last byte of such an image.\<close>

definition short_dwc :: "nat \<Rightarrow> nat \<Rightarrow> ('s, ('q, 'z, 'k) alg_state) dwc \<Rightarrow> bool" where
  "short_dwc R L x \<longleftrightarrow> unat (produced (d_out x)) + unat (d_rem x) = R \<and> 0 < unat (d_rem x) \<and> unat (d_len x) \<le> L \<and>
     short_state (unat (d_rem x)) (d_len x) (w_alg (d_world x))"

lemma short_body:
  assumes b: "dwc_body (qbt_algo_gzip_decompress zl) K sb cctx x = Some i"
    and sb: "unat (sb_out_len sb) = 4096" and I: "short_dwc R L x" and R: "R < 32"
  shows "case i of Again y \<Rightarrow> short_dwc R L y
    | Stop r \<Rightarrow> d_rst r = RT_EOK \<or> d_rst r = RT_ENOSPC \<longrightarrow> short_dwc R L r"
proof -
  let ?k = "unat (d_rem x)"
  have k: "0 < ?k" "?k < 32" and ss: "short_state ?k (sb_in_len (dwc_call sb x)) (w_alg (d_world x))"
    using I R by (auto simp: short_dwc_def)
  have cap: "unat (sb_out_len (dwc_call sb x)) = ?k" using k(2) sb by (simp add: unat_cap_of)
  have rem: "d_rem x \<noteq> 0" using k(1) by auto
  show ?thesis
  proof (cases "d_len x = 0 \<and> ctx_consumed (dwc_cctx cctx x) < total cctx")
    case True
    with b rem I show ?thesis by (auto simp: dwc_body_def Let_def dwc_cctx_def)
  next
    case go: False
    obtain e step m a where call: "qbt_algo_gzip_decompress zl (dwc_call sb x) (d_step x) (dwc_cctx cctx x) (w_mem (d_world x))
        (w_alg (d_world x)) = Some (e, step, m, a)"
      using b rem go by (auto simp: dwc_body_def Let_def bind_eq_Some_conv dwc_call_def dwc_cctx_def cap_of_def split: if_splits)
    note sc = short_call [OF call cap k ss]
    note call' = call [unfolded dwc_call_def dwc_cctx_def cap_of_def]
    show ?thesis
    proof (cases "e = RT_EOK")
      case True
      then have p: "unat (produced step) < ?k" "qbt_gzip_remain_len a = 0" using sc(1) by blast+
      have s0: "short_state r l a" for r l using p(2) by (simp add: short_state_def)
      have pr: "unat (d_rem x - produced step) = ?k - unat (produced step)" using p(1) by (simp add: u32_sub)
      have po: "unat (produced (d_out x) + produced step) = unat (produced (d_out x)) + unat (produced step)"
        using I R p(1) by (intro u32_add) (simp add: short_dwc_def)
      have cl: "unat (d_len x - consumed step) \<le> L" if "\<not> d_len x < consumed step"
        using that I by (auto simp: short_dwc_def u32_sub u32_less_iff)
      show ?thesis
        using b rem go True s0 pr po cl p(1) I
        by (auto simp: dwc_body_def Let_def call' dwc_cctx_def short_dwc_def bind_eq_Some_conv split: if_splits)
    next
      case False
      with b rem go sc(2) I show ?thesis
        by (auto simp: dwc_body_def Let_def call' dwc_cctx_def short_dwc_def split: if_splits)
    qed
  qed
qed

definition short_loc ::
  "qboot_cfg \<Rightarrow> ('q, 'z, 'k) alg_state qbt_stream_cfg_t \<Rightarrow> ('s, ('q, 'z, 'k) alg_state) stream_loc \<Rightarrow> bool" where
  "short_loc c cfg x \<longleftrightarrow> unat (l_raw_pos x) < unat (raw_size (cfg_fw_info cfg)) \<and>
     short_state (unat (raw_size (cfg_fw_info cfg)) - unat (l_raw_pos x)) (l_len x) (w_alg (l_world x)) \<and>
     unat (l_len x) + unat (qboot_src_read_pos c) \<le> unat (l_read_pos x) \<and>
     unat (l_read_pos x) \<le> unat (qboot_src_read_pos c) + unat (pkg_size (cfg_fw_info cfg))"

text \<open>A cipher that leaves the remainder of the gzip handler alone.\<close>

definition apart :: "('q, 'z, 'k) alg_state qbt_stream_cfg_t \<Rightarrow> bool" where
  "apart cfg \<longleftrightarrow> (\<forall>co f out inp n m a e m' a'. crypt_ops (algo_ops cfg) = Some co \<longrightarrow> decrypt co = Some f \<longrightarrow>
     f out inp n m a = Some (e, m', a') \<longrightarrow> qbt_gzip_remain_len a' = qbt_gzip_remain_len a)"

lemma pkg_read_apart:
  assumes "apart cfg" and "qbt_fw_pkg_read io h off out buf n (algo_ops cfg) w = Some (ok, w')"
  shows "qbt_gzip_remain_len (w_alg w') = qbt_gzip_remain_len (w_alg w)"
proof -
  have d: "w_alg w1 = w_alg w" if "dev_read_to io h off dst n w = Some (e, w1)" for dst e w1
    using that by (auto simp: dev_read_to_def bind_eq_Some_conv split: sum.splits prod.splits)
  show ?thesis
  proof (cases "crypt_ops (algo_ops cfg)")
    case None
    then obtain e1 where "dev_read_to io h off out n w = Some (e1, w')"
      using assms(2) by (auto simp: qbt_fw_pkg_read_def bind_eq_Some_conv)
    with d [of "out"] show ?thesis by simp
  next
    case (Some co)
    obtain e1 w1 where rd: "dev_read_to io h off (buf, 0) n w = Some (e1, w1)"
      using assms(2) Some by (auto simp: qbt_fw_pkg_read_def bind_eq_Some_conv)
    note w1 = d [OF rd]
    show ?thesis
    proof (cases "e1 = RT_EOK")
      case False
      with assms(2) Some rd w1 show ?thesis by (simp add: qbt_fw_pkg_read_def)
    next
      case True
      then obtain g e2 m a where "decrypt co = Some g" "g out (buf, 0) n (w_mem w1) (w_alg w1) = Some (e2, m, a)"
        and w': "w' = w1\<lparr>w_mem := m, w_alg := a\<rparr>"
        using assms(2) Some rd by (auto simp: qbt_fw_pkg_read_def bind_eq_Some_conv)
      then have "qbt_gzip_remain_len a = qbt_gzip_remain_len (w_alg w1)"
        using assms(1) Some unfolding apart_def by blast
      with w' w1 show ?thesis by simp
    qed
  qed
qed

lemma fetch_short:
  assumes ap: "apart cfg" and I: "short_loc c cfg x"
    and small: "unat (qboot_src_read_pos c) + unat (pkg_size (cfg_fw_info cfg)) < 2147483648"
    and f: "stream_fetch c io cfg x = Some (True, y)"
  shows "short_loc c cfg y" "l_raw_pos y = l_raw_pos x"
proof -
  let ?h = "unat (qboot_src_read_pos c)" and ?p = "unat (pkg_size (cfg_fw_info cfg))"
  note i = I [unfolded short_loc_def]
  let ?d = "pkg_size (cfg_fw_info cfg) + qboot_src_read_pos c - l_read_pos x"
  have t: "unat (pkg_size (cfg_fw_info cfg) + qboot_src_read_pos c) = ?p + ?h" using small by (simp add: u32_add)
  have d: "unat ?d = ?p + ?h - unat (l_read_pos x)" using i by (subst u32_sub) (simp_all add: t)
  define k where "k = unat ?d"
  have sd: "sint ?d = int k" using d small sint_small [of ?d] by (simp add: k_def)
  let ?n = "if int (unat QBOOT_CMPRS_READ_SIZE) > sint ?d then of_int (sint ?d) else QBOOT_CMPRS_READ_SIZE"
  have n: "unat ?n \<le> k"
    unfolding sd by (auto simp: buf_sizes u32_of_nat)
  have "short_loc c cfg y \<and> l_raw_pos y = l_raw_pos x"
  proof (cases "0 < sint ?d")
    case False
    with f I show ?thesis by (auto simp: stream_fetch_def Let_def split: if_splits)
  next
    case True
    then obtain w where r: "qbt_fw_pkg_read io (src_handle cfg) (l_read_pos x) (cmprs_buf cfg, unat (l_len x)) (crypt_buf cfg) ?n
        (algo_ops cfg) (l_world x) = Some (True, w)"
      and y: "y = x\<lparr>l_read_pos := l_read_pos x + ?n, l_len := l_len x + ?n, l_world := w\<rparr>"
      using f by (auto simp: stream_fetch_def Let_def bind_eq_Some_conv split: if_splits)
    have rp: "unat (l_read_pos x + ?n) = unat (l_read_pos x) + unat ?n" "unat (l_len x + ?n) = unat (l_len x) + unat ?n"
      using i n d small k_def by (intro u32_add; linarith)+
    have "short_state r (l_len x + ?n) (w_alg w)" if "short_state r (l_len x) (w_alg (l_world x))" for r
      using that pkg_read_apart [OF ap r] rp(2) by (auto simp: short_state_def word_gt_0 u32_eq_iff)
    with i rp n d k_def show ?thesis unfolding short_loc_def y by auto
  qed
  then show "short_loc c cfg y" "l_raw_pos y = l_raw_pos x" by blast+
qed

lemma short_step:
  assumes dec: "dec_of (algo_ops cfg) = Some (qbt_algo_gzip_decompress zl)" and ap: "apart cfg"
    and small: "unat (qboot_src_read_pos c) + unat (pkg_size (cfg_fw_info cfg)) < 2147483648"
    and raw: "unat (raw_size (cfg_fw_info cfg)) < 32" and I: "short_loc c cfg x"
    and b: "stream_body c io cfg purp (proc_of K) x = Some i"
  shows "case i of Again y \<Rightarrow> short_loc c cfg y | Stop (ok, ctx, w) \<Rightarrow> \<not> ok"
proof -
  let ?raw = "unat (raw_size (cfg_fw_info cfg))"
  have lt: "l_raw_pos x < raw_size (cfg_fw_info cfg)" using I by (simp add: short_loc_def u32_less_iff)
  then obtain ok y where f: "stream_fetch c io cfg x = Some (ok, y)"
    using b by (auto simp: stream_body_def bind_eq_Some_conv)
  show ?thesis
  proof (cases ok)
    case False
    with b lt f show ?thesis by (auto simp: stream_body_def)
  next
    case True
    note fs = fetch_short [OF ap I small f [unfolded True [THEN eqTrueI]]]
    note j = fs(1) [unfolded short_loc_def]
    let ?cctx = "\<lparr>total = pkg_size (cfg_fw_info cfg), ctx_consumed = (l_read_pos y - qboot_src_read_pos c) - l_len y,
      raw_remaining = raw_size (cfg_fw_info cfg) - l_raw_pos y, purpose = purp\<rparr>"
    let ?sb = "\<lparr>sb_in = cmprs_buf cfg, sb_in_len = l_len y, sb_out = out_buf cfg, sb_out_len = QBOOT_BUF_SIZE\<rparr>"
    obtain ctx r where r: "qbt_decompress_with_consumer (qbt_algo_gzip_decompress zl) ?sb ?cctx status_0 K ctx (l_world y) = Some r"
      and ri: "(if (d_rst r \<noteq> RT_EOK \<and> \<not> eq_posix_enospc c (d_rst r)) \<or> produced (d_out r) = 0
        then Some (Stop (False, d_ctx r, d_world r))
        else Some (Again (y\<lparr>l_raw_pos := l_raw_pos y + produced (d_out r), l_len := d_len r, l_ctx := d_ctx r, l_world := d_world r\<rparr>))) = Some i"
      using b lt f True dec unfolding stream_body_def by (auto simp: bind_eq_Some_conv Let_def)
    obtain x1 where x1: "run_loop (dwc_body (qbt_algo_gzip_decompress zl) K ?sb ?cctx) (dwc_start ?sb ?cctx status_0 ctx (l_world y)) = Some x1"
      and rx: "r = x1\<lparr>d_out := (d_out x1)\<lparr>remaining_in := d_len x1\<rparr>\<rparr>"
      using r by (auto simp: qbt_decompress_with_consumer_def bind_eq_Some_conv)
    let ?R = "?raw - unat (l_raw_pos y)" and ?L = "unat (l_len y)"
    have rr: "unat (raw_size (cfg_fw_info cfg) - l_raw_pos y) = ?R" using j by (simp add: u32_sub)
    have sz: "unat (sb_out_len ?sb) = 4096" by (simp add: buf_sizes)
    have R: "?R < 32" using raw by simp
    have start: "short_dwc ?R ?L (dwc_start ?sb ?cctx status_0 ctx (l_world y))"
      using j rr by (simp add: short_dwc_def dwc_start_def status_0_def)
    have p: "d_rst x1 = RT_EOK \<or> d_rst x1 = RT_ENOSPC \<longrightarrow> short_dwc ?R ?L x1"
      by (rule run_loop_partial [where I = "short_dwc ?R ?L", OF x1 start]) (use short_body [OF _ sz _ R] in fastforce)+
    show ?thesis
    proof (cases "(d_rst r \<noteq> RT_EOK \<and> \<not> eq_posix_enospc c (d_rst r)) \<or> produced (d_out r) = 0")
      case True
      with ri show ?thesis by auto
    next
      case False
      then have d: "short_dwc ?R ?L x1" using p by (auto simp: rx eq_posix_enospc_def)
      then have "unat (l_raw_pos y) + unat (produced (d_out x1)) < 4294967296" using raw by (auto simp: short_dwc_def)
      then have np: "unat (l_raw_pos y + produced (d_out x1)) = unat (l_raw_pos y) + unat (produced (d_out x1))" by (rule u32_add)
      from d np have "?raw - unat (l_raw_pos y + produced (d_out x1)) = unat (d_rem x1)"
        by (auto simp: short_dwc_def)
      with False ri d np j show ?thesis by (auto simp: short_loc_def short_dwc_def rx)
    qed
  qed
qed

text \<open>Whatever the consumer, such a stream never succeeds.\<close>

lemma short_refused:
  assumes "dec_of (algo_ops cfg) = Some (qbt_algo_gzip_decompress zl)" and "apart cfg"
    and "unat (qboot_src_read_pos c) + unat (pkg_size (cfg_fw_info cfg)) < 2147483648"
    and "0 < unat (raw_size (cfg_fw_info cfg))" "unat (raw_size (cfg_fw_info cfg)) < 32"
    and "qbt_gzip_remain_len (w_alg w) = 0"
    and "qbt_fw_stream_process c io cfg purp (proc_of K) ctx w = Some (ok, ctx', w')"
  shows "\<not> ok"
proof -
  let ?x = "\<lparr>l_read_pos = qboot_src_read_pos c, l_raw_pos = 0, l_len = 0, l_ctx = ctx, l_world = w\<rparr>"
  have run: "run_loop (stream_body c io cfg purp (proc_of K)) ?x = Some (ok, ctx', w')"
    using assms(7) by (simp add: qbt_fw_stream_process_def)
  have start: "short_loc c cfg ?x" using assms(4,6) by (simp add: short_loc_def short_state_def)
  have "\<not> fst (ok, ctx', w')"
    by (rule run_loop_partial [where I = "short_loc c cfg", OF run start]) (use short_step [OF assms(1-3,5)] in fastforce)+
  then show ?thesis by simp
qed

end

end
