(* ===== verification/Qboot_Package.thy ===== *)
theory Qboot_Package
  imports Qboot_Firmware Qboot_Blocks Qboot_Gzip
begin

text \<open>
  Checking and installing a package of any algorithm but the in-place patch. The image of a package
  is what a decoder over its whole body gives: decrypt, then unpack. The functions of
  \<open>src/qboot.c\<close>, which stream the package piece by piece, check and install exactly that image.
\<close>

section \<open>The image of a package\<close>

text \<open>CBC decryption as a function of the context and the chaining vector.\<close>

definition aes_plain :: "'k tinycrypt \<Rightarrow> 'k \<times> byte list \<Rightarrow> byte list \<Rightarrow> byte list \<times> 'k \<times> byte list" where
  "aes_plain tc ki bs = (case tiny_aes_crypt_cbc tc (fst ki) (snd ki) bs of (pt, iv) \<Rightarrow> (pt, fst ki, iv))"

definition aes_start :: "'k tinycrypt \<Rightarrow> 'k \<times> byte list" where
  "aes_start tc = (tiny_aes_setkey_dec tc (aes_key tc) 256 (aes_ctx_0 tc),
     take 16 (aes_iv tc) @ replicate (16 - length (aes_iv tc)) 0)"

definition deciphered :: "qboot_cfg \<Rightarrow> ('q, 'z, 'k) alg_libs \<Rightarrow> fw_info_t \<Rightarrow> byte list \<Rightarrow> byte list option" where
  "deciphered c L fw body =
     (let i = algo fw AND QBOOT_ALGO_CRYPT_MASK in
      if i = QBOOT_ALGO_CRYPT_NONE then Some body
      else if i = QBOOT_ALGO_CRYPT_AES \<and> using_aes c
      then Some (fst (aes_plain (lib_tinycrypt L) (aes_start (lib_tinycrypt L)) body))
      else None)"

text \<open>On a build whose error numbers are not the C library's, block packages have no image.\<close>

definition unpacked :: "qboot_cfg \<Rightarrow> ('q, 'z, 'k) alg_libs \<Rightarrow> fw_info_t \<Rightarrow> byte list \<Rightarrow> byte list option" where
  "unpacked c L fw pt =
     (let i = algo fw AND QBOOT_ALGO_CMPRS_MASK; r = unat (raw_size fw) in
      if i = QBOOT_ALGO_CMPRS_NONE then (if length pt = r then Some pt else None)
      else if i = QBOOT_ALGO_CMPRS_FASTLZ \<and> using_fastlz c \<and> enospc_is_posix c
      then unpack_blocks (fastlz_block (lib_fastlz L)) () r pt
      else if i = QBOOT_ALGO_CMPRS_QUICKLZ \<and> using_quicklz c \<and> enospc_is_posix c
      then unpack_blocks (quicklz_block (lib_qlz L)) (qlz_zero L) r pt
      else if i = QBOOT_ALGO_CMPRS_GZIP \<and> using_gzip c
      then gunzip (lib_zlib L) (inflate_init (lib_zlib L)) r [] pt
      else None)"

definition package_image :: "qboot_cfg \<Rightarrow> ('q, 'z, 'k) alg_libs \<Rightarrow> fw_info_t \<Rightarrow> byte list \<Rightarrow> byte list option" where
  "package_image c L fw body = Option.bind (deciphered c L fw body) (unpacked c L fw)"

lemma unpack_length: "unpack_blocks ub d r bs = Some raw \<Longrightarrow> length raw = r"
proof (induction ub d r bs arbitrary: raw rule: unpack_blocks.induct)
  case (1 ub d r bs)
  show ?case
  proof (cases "r = 0")
    case False
    then have "0 < r" by simp
    from unpack_cases [OF "1.prems" this] obtain b out d' raw' where b: "front_block bs = Some b" "4 + length b \<le> 4096"
      "ub d b = Some (out, d')" "0 < length out" "length out \<le> 4096" "length out \<le> r" "raw = out @ raw'"
      "unpack_blocks ub d' (r - length out) (drop (4 + length b) bs) = Some raw'" .
    have "length raw' = r - length out"
      by (rule "1.IH" [OF False b(1) _ b(3) refl _ b(8)]) (use b in auto)
    with b show ?thesis by simp
  qed (use "1.prems" in simp)
qed

lemma image_length: "package_image c L fw body = Some raw \<Longrightarrow> length raw = unat (raw_size fw)"
  by (auto simp: package_image_def unpacked_def Let_def bind_eq_Some_conv dest: unpack_length gunzip_length split: if_splits)

text \<open>The image of a package that is neither compressed nor encrypted is its body.\<close>

definition plain_fw :: "fw_info_t \<Rightarrow> bool" where
  "plain_fw fw \<longleftrightarrow> algo fw AND QBOOT_ALGO_CRYPT_MASK = QBOOT_ALGO_CRYPT_NONE \<and>
     algo fw AND QBOOT_ALGO_CMPRS_MASK = QBOOT_ALGO_CMPRS_NONE \<and> raw_size fw = pkg_size fw"

lemma plain_image: "plain_fw fw \<Longrightarrow> length body = unat (pkg_size fw) \<Longrightarrow> package_image c L fw body = Some body"
  by (simp add: package_image_def deciphered_def unpacked_def plain_fw_def)

section \<open>The handlers of the ciphers\<close>

text \<open>
  A registered cipher of that kind: its handler starts the chaining state afresh, and keeps apart
  from the states of the decompressors.
\<close>

locale crypt_handler = piece_cipher f c kst plain
  for f :: "('q, 'z, 'k) alg_state decrypt_fn" and c and kst :: "('q, 'z, 'k) alg_state \<Rightarrow> 'c" and plain +
  fixes co :: "('q, 'z, 'k) alg_state qboot_crypto_ops" and k0 :: 'c
  assumes handler_decrypt: "decrypt co = Some f"
    and handler_init: "\<exists>a'. call_opt (crypto_init co) a = (RT_EOK, a') \<and> kst a' = k0"
    and handler_apart: "qbt_aes_ctx a' = qbt_aes_ctx a \<Longrightarrow> qbt_aes_iv a' = qbt_aes_iv a \<Longrightarrow> kst a' = kst a"
    and handler_codec: "f out inp len m a = Some (e, m', a') \<Longrightarrow> qbt_quicklz_state a' = qbt_quicklz_state a \<and> gz_of a' = gz_of a"

context crypt_handler
begin

lemma handler_quicklz: "kst (a\<lparr>qbt_quicklz_state := q\<rparr>) = kst a"
  and handler_gzip: "kst (qbt_gzip_init zl a) = kst a"
  by (rule handler_apart; simp add: qbt_gzip_init_def)+

end

text \<open>A package body without encryption is its own plain text.\<close>

interpretation none_handler: crypt_handler "qbt_algo_none_crypt c" c "\<lambda>_. ()" "\<lambda>k bs. (bs, k)" "qbt_algo_none_crypt_ops c" "()"
  for c
proof
  fix n :: nat and len :: u32 and m :: mem and a :: "('a, 'b, 'c) alg_state"
  assume l: "n + unat len \<le> length (m B_CMPRS)" "unat len \<le> length (m (g_crypt_buf c))"
    and u: "using_compression c \<or> n = 0"
  let ?bs = "take (unat len) (m (g_crypt_buf c))"
  let ?m = "if using_compression c then m(B_CMPRS := overwrite n ?bs (m B_CMPRS)) else m"
  have "qbt_algo_none_crypt c (B_CMPRS, n) (g_crypt_buf c, 0) len m a = Some (RT_EOK, ?m, a)"
    using l by (simp add: qbt_algo_none_crypt_def mem_read_def mem_write_def)
  moreover have "take (unat len) (drop n (?m B_CMPRS)) = ?bs"
    using l u by (auto simp: overwrite_def g_crypt_buf_def)
  ultimately show "\<exists>m' a'. qbt_algo_none_crypt c (B_CMPRS, n) (g_crypt_buf c, 0) len m a = Some (RT_EOK, m', a') \<and>
      take (unat len) (drop n (m' B_CMPRS)) = fst (?bs, ()) \<and> () = snd (?bs, ())" by simp
qed (auto simp: qbt_algo_none_crypt_ops_def qbt_algo_none_crypt_def call_opt_def bind_eq_Some_conv split: if_splits)

sublocale tinycrypt_library \<subseteq> aes: crypt_handler "qbt_algo_aes_crypt tc" c "\<lambda>a. (qbt_aes_ctx a, qbt_aes_iv a)"
  "aes_plain tc" "qbt_algo_aes_crypt_ops tc" "aes_start tc" for c
proof
  fix n :: nat and len :: u32 and m :: mem and a :: "('q, 'z, 'k) alg_state"
  assume l: "n + unat len \<le> length (m B_CMPRS)" "unat len \<le> length (m (g_crypt_buf c))"
  let ?bs = "take (unat len) (m (g_crypt_buf c))"
  let ?r = "tiny_aes_crypt_cbc tc (qbt_aes_ctx a) (qbt_aes_iv a) ?bs"
  have len: "length (fst ?r) = unat len" using l(2) by (simp add: cbc_length)
  have "qbt_algo_aes_crypt tc (B_CMPRS, n) (g_crypt_buf c, 0) len m a =
      Some (RT_EOK, m(B_CMPRS := overwrite n (fst ?r) (m B_CMPRS)), a\<lparr>qbt_aes_iv := snd ?r\<rparr>)"
    using l len by (simp add: qbt_algo_aes_crypt_def qbt_aes_decrypt_def mem_read_def mem_write_def case_prod_beta)
  moreover have "take (unat len) (drop n (overwrite n (fst ?r) (m B_CMPRS))) = fst ?r"
    using l(1) len by (simp add: overwrite_def)
  ultimately show "\<exists>m' a'. qbt_algo_aes_crypt tc (B_CMPRS, n) (g_crypt_buf c, 0) len m a = Some (RT_EOK, m', a') \<and>
      take (unat len) (drop n (m' B_CMPRS)) = fst (aes_plain tc (qbt_aes_ctx a, qbt_aes_iv a) ?bs) \<and>
      (qbt_aes_ctx a', qbt_aes_iv a') = snd (aes_plain tc (qbt_aes_ctx a, qbt_aes_iv a) ?bs)"
    by (auto simp: aes_plain_def case_prod_beta)
next
  fix x y :: "byte list" and k :: "'k \<times> byte list"
  assume "4096 dvd length x"
  then have "16 dvd length x" by (rule dvd_trans [rotated]) simp
  then show "aes_plain tc k (x @ y) = (fst (aes_plain tc k x) @ fst (aes_plain tc (snd (aes_plain tc k x)) y),
      snd (aes_plain tc (snd (aes_plain tc k x)) y))"
    by (simp add: aes_plain_def cbc_append case_prod_beta)
next
  fix a :: "('q, 'z, 'k) alg_state"
  show "\<exists>a'. call_opt (crypto_init (qbt_algo_aes_crypt_ops tc)) a = (RT_EOK, a') \<and> (qbt_aes_ctx a', qbt_aes_iv a') = aes_start tc"
    using setkey_fresh [of "aes_key tc" 256 "qbt_aes_ctx a" "aes_ctx_0 tc"]
    by (auto simp: qbt_algo_aes_crypt_ops_def call_opt_def qbt_algo_aes_init_def qbt_aes_decrypt_init_def aes_start_def Let_def)
qed (auto simp: gz_of_def aes_plain_def cbc_length case_prod_beta qbt_algo_aes_crypt_ops_def qbt_algo_aes_crypt_def
    qbt_aes_decrypt_def mem_read_def mem_write_def bind_eq_Some_conv split: if_splits prod.splits)

context tinycrypt_library
begin

lemmas aes_handler = aes.crypt_handler_axioms

end

section \<open>Streams that give the image\<close>

text \<open>
  The stream over the handlers of \<open>cfg\<close> gives \<open>raw\<close> from \<open>body\<close> once they have been
  initialised, whatever their state was before.
\<close>

definition decodes ::
  "'s qboot_io_ops \<Rightarrow> ('s \<Rightarrow> handle \<Rightarrow> dev_view) \<Rightarrow> qboot_cfg \<Rightarrow> 'a qbt_stream_cfg_t \<Rightarrow> byte list \<Rightarrow> byte list \<Rightarrow> bool" where
  "decodes io view c cfg body raw \<longleftrightarrow>
     (\<exists>Ini. (\<forall>a. \<exists>a'. qbt_fw_algo_init (algo_ops cfg) a = (True, a') \<and> Ini a') \<and> transfers io view c cfg Ini body raw)"

context fastlz_library
begin

lemma fastlz_codec: "block_codec (qbt_algo_fastlz_decompress lib) (\<lambda>_. ()) (fastlz_block lib)"
  by unfold_locales

end

context quicklz_library
begin

lemma quicklz_codec: "block_codec (qbt_algo_quicklz_decompress qlib) qbt_quicklz_state (quicklz_block qlib)"
  by unfold_locales

end

text \<open>The stream over such a cipher, for a package that lies inside its source.\<close>

locale handler_stream = crypt_handler f c kst plain co k0 + reliable_storage io view dev_size
  for io :: "'s qboot_io_ops" and view and dev_size and f :: "('q, 'z, 'k) alg_state decrypt_fn" and c and
    kst :: "('q, 'z, 'k) alg_state \<Rightarrow> 'c" and plain and co and k0 +
  fixes src :: handle and fw :: fw_info_t
  assumes pkg_in: "unat (qboot_src_read_pos c) + unat (pkg_size fw) < 2147483648"
      "unat (qboot_src_read_pos c) + unat (pkg_size fw) \<le> dev_size src"
begin

abbreviation "ctx_of zo \<equiv> \<lparr>crypt_ops = Some co, cmprs_ops = Some zo\<rparr>"

lemma decodesI:
  assumes "transfers io view c (stream_cfg_of c src fw (ctx_of zo)) (\<lambda>a. fst (plain (kst a) body) = pt \<and> dst a = d0) body raw"
    and "fst (plain k0 body) = pt"
    and "\<And>a. \<exists>a'. call_opt (cmprs_init zo) a = (RT_EOK, a') \<and> kst a' = kst a \<and> dst a' = d0"
  shows "decodes io view c (stream_cfg_of c src fw (ctx_of zo)) body raw"
proof -
  have "\<exists>a'. qbt_fw_algo_init (ctx_of zo) a = (True, a') \<and> fst (plain (kst a') body) = pt \<and> dst a' = d0" for a
  proof -
    obtain a1 where a1: "call_opt (crypto_init co) a = (RT_EOK, a1)" "kst a1 = k0" using handler_init by blast
    obtain a2 where "call_opt (cmprs_init zo) a1 = (RT_EOK, a2)" "kst a2 = kst a1" "dst a2 = d0" using assms(3) by blast
    with a1 assms(2) show ?thesis by (simp add: qbt_fw_algo_init_def)
  qed
  then show ?thesis
    unfolding decodes_def
    by (intro exI [of _ "\<lambda>a. fst (plain (kst a) body) = pt \<and> dst a = d0"] conjI allI) (simp_all add: stream_cfg_of_def assms(1) [unfolded stream_cfg_of_def])
qed

lemma none_decodes:
  assumes "raw_size fw = pkg_size fw"
  shows "decodes io view c (stream_cfg_of c src fw (ctx_of (qbt_algo_none_cmprs_ops c))) body (fst (plain k0 body))"
proof -
  have "none_stream io view f c (stream_cfg_of c src fw (ctx_of (qbt_algo_none_cmprs_ops c))) dev_size kst plain"
    by unfold_locales
      (use assms pkg_in handler_decrypt in \<open>auto simp: stream_cfg_of_def dec_of_def qbt_algo_none_cmprs_ops_def
        qbt_algo_none_decompress_def bind_eq_Some_conv Let_def split: if_splits\<close>)
  from none_stream.none_transfers [OF this, of body "fst (plain k0 body)"]
  show ?thesis
    by (intro decodesI [where dst = "\<lambda>_. ()" and pt = "fst (plain k0 body)"])
      (simp_all add: call_opt_def qbt_algo_none_cmprs_ops_def)
qed

lemma fastlz_stream:
  assumes lib: "fastlz_library lib" and "using_fastlz c" and "enospc_is_posix c"
  shows "block_stream io view (qbt_algo_fastlz_decompress lib) f c
    (stream_cfg_of c src fw (ctx_of (qbt_algo_fastlz_cmprs_ops lib))) dev_size kst plain (\<lambda>_. ()) (fastlz_block lib)"
proof -
  have "exact_stream io view (qbt_algo_fastlz_decompress lib) True f c
      (stream_cfg_of c src fw (ctx_of (qbt_algo_fastlz_cmprs_ops lib))) dev_size kst plain (\<lambda>_. ())"
    by unfold_locales
      (use assms pkg_in handler_decrypt in \<open>auto simp: stream_cfg_of_def dec_of_def qbt_algo_fastlz_cmprs_ops_def
        qbt_algo_fastlz_decompress_def bind_eq_Some_conv Let_def split: if_splits\<close>)
  then show ?thesis
    by (rule block_stream.intro [OF _ fastlz_library.fastlz_codec [OF lib] block_stream_axioms.intro [OF assms(3)]])
qed

lemma fastlz_decodes:
  assumes lib: "fastlz_library lib" and "using_fastlz c" and "enospc_is_posix c"
    and up: "unpack_blocks (fastlz_block lib) () (length raw) (fst (plain k0 body)) = Some raw"
  shows "decodes io view c (stream_cfg_of c src fw (ctx_of (qbt_algo_fastlz_cmprs_ops lib))) body raw"
  by (rule decodesI [OF block_stream.block_transfers [OF fastlz_stream [OF assms(1-3)] up]])
    (simp_all add: call_opt_def qbt_algo_fastlz_cmprs_ops_def)

lemma quicklz_stream:
  assumes lib: "quicklz_library lib" and "using_quicklz c" and "enospc_is_posix c"
  shows "block_stream io view (qbt_algo_quicklz_decompress lib) f c
    (stream_cfg_of c src fw (ctx_of (qbt_algo_quicklz_cmprs_ops lib zero))) dev_size kst plain qbt_quicklz_state (quicklz_block lib)"
proof -
  have "exact_stream io view (qbt_algo_quicklz_decompress lib) True f c
      (stream_cfg_of c src fw (ctx_of (qbt_algo_quicklz_cmprs_ops lib zero))) dev_size kst plain qbt_quicklz_state"
    by unfold_locales
      (use assms pkg_in handler_decrypt handler_quicklz handler_codec in \<open>auto simp: stream_cfg_of_def dec_of_def qbt_algo_quicklz_cmprs_ops_def
        qbt_algo_quicklz_decompress_def qbt_quicklz_decompress_def bind_eq_Some_conv Let_def split: if_splits prod.splits\<close>)
  then show ?thesis
    by (rule block_stream.intro [OF _ quicklz_library.quicklz_codec [OF lib] block_stream_axioms.intro [OF assms(3)]])
qed

lemma quicklz_decodes:
  assumes lib: "quicklz_library lib" and "using_quicklz c" and "enospc_is_posix c"
    and up: "unpack_blocks (quicklz_block lib) zero (length raw) (fst (plain k0 body)) = Some raw"
  shows "decodes io view c (stream_cfg_of c src fw (ctx_of (qbt_algo_quicklz_cmprs_ops lib zero))) body raw"
  by (rule decodesI [OF block_stream.block_transfers [OF quicklz_stream [OF assms(1-3)] up]])
    (simp_all add: call_opt_def qbt_algo_quicklz_cmprs_ops_def qbt_algo_quicklz_init_def qbt_quicklz_state_init_def handler_quicklz)

lemma gzip_stream:
  assumes "using_gzip c"
  shows "gzip_stream io view zl f c (stream_cfg_of c src fw (ctx_of (qbt_algo_gzip_cmprs_ops zl))) dev_size kst plain"
proof
  fix buf st ctx m e st' m' and a a' :: "('q, 'z, 'k) alg_state"
  assume "qbt_algo_gzip_decompress zl buf st ctx m a = Some (e, st', m', a')"
  then show "kst a' = kst a" by (intro handler_apart gzip_aes)
qed (use assms pkg_in handler_decrypt handler_codec in \<open>auto simp: stream_cfg_of_def dec_of_def qbt_algo_gzip_cmprs_ops_def\<close>)

lemma gzip_decodes:
  assumes "using_gzip c" and g: "gunzip zl (inflate_init zl) (length raw) [] (fst (plain k0 body)) = Some raw"
  shows "decodes io view c (stream_cfg_of c src fw (ctx_of (qbt_algo_gzip_cmprs_ops zl))) body raw"
proof (rule decodesI [OF gzip_stream.gzip_transfers [OF gzip_stream [OF assms(1)] g] refl])
  fix a :: "('q, 'z, 'k) alg_state"
  show "\<exists>a'. call_opt (cmprs_init (qbt_algo_gzip_cmprs_ops zl)) a = (RT_EOK, a') \<and> kst a' = kst a \<and>
      gz_of a' = (inflate_init zl, [], 0, 0)"
    by (simp add: call_opt_def qbt_algo_gzip_cmprs_ops_def qbt_algo_gzip_init_def handler_gzip)
      (simp add: gz_of_def qbt_gzip_init_def)
qed

end

section \<open>The packages of a build\<close>

text \<open>
  The tables registered at startup, over libraries that keep their contracts. The handlers of a
  package with an image are registered, and their stream gives the image.
\<close>

definition package_ctx :: "qboot_cfg \<Rightarrow> ('q, 'z, 'k) alg_libs \<Rightarrow> fw_info_t \<Rightarrow> ('q, 'z, 'k) alg_state qbt_algo_context_t" where
  "package_ctx c L fw =
     \<lparr>crypt_ops = Some (if algo fw AND QBOOT_ALGO_CRYPT_MASK = QBOOT_ALGO_CRYPT_NONE
        then qbt_algo_none_crypt_ops c else qbt_algo_aes_crypt_ops (lib_tinycrypt L)),
      cmprs_ops = Some (if algo fw AND QBOOT_ALGO_CMPRS_MASK = QBOOT_ALGO_CMPRS_NONE then qbt_algo_none_cmprs_ops c
        else if algo fw AND QBOOT_ALGO_CMPRS_MASK = QBOOT_ALGO_CMPRS_FASTLZ then qbt_algo_fastlz_cmprs_ops (lib_fastlz L)
        else if algo fw AND QBOOT_ALGO_CMPRS_MASK = QBOOT_ALGO_CMPRS_GZIP then qbt_algo_gzip_cmprs_ops (lib_zlib L)
        else qbt_algo_quicklz_cmprs_ops (lib_qlz L) (qlz_zero L))\<rparr>"

lemma deciphered_cases:
  assumes "deciphered c L fw body = Some pt"
  obtains "algo fw AND QBOOT_ALGO_CRYPT_MASK = QBOOT_ALGO_CRYPT_NONE" "pt = body"
  | "algo fw AND QBOOT_ALGO_CRYPT_MASK = QBOOT_ALGO_CRYPT_AES" "using_aes c"
    "pt = fst (aes_plain (lib_tinycrypt L) (aes_start (lib_tinycrypt L)) body)"
  using assms by (auto simp: deciphered_def Let_def split: if_splits)

lemma unpacked_cases:
  assumes "unpacked c L fw pt = Some raw"
  obtains "algo fw AND QBOOT_ALGO_CMPRS_MASK = QBOOT_ALGO_CMPRS_NONE" "length pt = unat (raw_size fw)" "raw = pt"
  | "algo fw AND QBOOT_ALGO_CMPRS_MASK = QBOOT_ALGO_CMPRS_FASTLZ" "using_fastlz c" "enospc_is_posix c"
    "unpack_blocks (fastlz_block (lib_fastlz L)) () (unat (raw_size fw)) pt = Some raw"
  | "algo fw AND QBOOT_ALGO_CMPRS_MASK = QBOOT_ALGO_CMPRS_QUICKLZ" "using_quicklz c" "enospc_is_posix c"
    "unpack_blocks (quicklz_block (lib_qlz L)) (qlz_zero L) (unat (raw_size fw)) pt = Some raw"
  | "algo fw AND QBOOT_ALGO_CMPRS_MASK = QBOOT_ALGO_CMPRS_GZIP" "using_gzip c"
    "gunzip (lib_zlib L) (inflate_init (lib_zlib L)) (unat (raw_size fw)) [] pt = Some raw"
  using assms by (auto simp: unpacked_def Let_def split: if_splits)

lemma package_image_cases:
  assumes "package_image c L fw body = Some raw"
  obtains pt where "deciphered c L fw body = Some pt" "unpacked c L fw pt = Some raw"
  using assms by (auto simp: package_image_def bind_eq_Some_conv)

lemma find_package_crypto:
  assumes t: "qbot_algo_startup c L algo_tables_0 = (RT_EOK, t)" and d: "deciphered c L fw body = Some pt"
  shows "qboot_find_crypto t (algo fw AND QBOOT_ALGO_CRYPT_MASK) = crypt_ops (package_ctx c L fw)"
  using d
  by (rule deciphered_cases)
    (use t in \<open>auto simp: startup_tables qboot_find_crypto_def qboot_crypto_id_to_index_def package_ctx_def algo_id_defs\<close>)

lemma find_package_cmprs:
  assumes t: "qbot_algo_startup c L algo_tables_0 = (RT_EOK, t)" and u: "unpacked c L fw pt = Some raw"
  shows "qboot_find_cmprs t (algo fw AND QBOOT_ALGO_CMPRS_MASK) = cmprs_ops (package_ctx c L fw)"
proof -
  have five: "\<not> (5 :: u32) \<le> 1" by (simp add: u32_le_iff)
  from u show ?thesis
    by (rule unpacked_cases)
      (use t five in \<open>auto simp: startup_tables qboot_find_cmprs_def qboot_cmprs_id_to_index_def package_ctx_def algo_id_defs\<close>)
qed

lemma package_context:
  assumes t: "qbot_algo_startup c L algo_tables_0 = (RT_EOK, t)" and i: "package_image c L fw body = Some raw"
  shows "qbt_fw_get_algo_context t fw = (True, package_ctx c L fw)"
proof -
  obtain pt where "deciphered c L fw body = Some pt" "unpacked c L fw pt = Some raw"
    by (rule package_image_cases [OF i])
  note f = find_package_crypto [OF t this(1)] find_package_cmprs [OF t this(2)]
  show ?thesis
    by (simp add: qbt_fw_get_algo_context_def f) (simp add: package_ctx_def)
qed

lemma package_not_hpatch: "map_option cmprs_id (cmprs_ops (package_ctx c L fw)) \<noteq> Some QBOOT_ALGO_CMPRS_HPATCHLITE"
  by (simp add: package_ctx_def qbt_algo_none_cmprs_ops_def qbt_algo_fastlz_cmprs_ops_def
      qbt_algo_quicklz_cmprs_ops_def qbt_algo_gzip_cmprs_ops_def algo_id_defs)

text \<open>What the check of a package and the update decide: its CRCs, and that of its image.\<close>

definition image_of :: "('s \<Rightarrow> handle \<Rightarrow> dev_view) \<Rightarrow> qboot_cfg \<Rightarrow> ('q, 'z, 'k) alg_libs \<Rightarrow> 's \<Rightarrow> handle \<Rightarrow> byte list option" where
  "image_of view c L s src = package_image c L (header_of view s src) (body_of view s src (header_of view s src))"

definition package_ok ::
  "('s \<Rightarrow> handle \<Rightarrow> dev_view) \<Rightarrow> ('s, 'a) boot_env \<Rightarrow> 's \<Rightarrow> handle \<Rightarrow> fw_info_t \<Rightarrow> byte list \<Rightarrow> bool" where
  "package_ok view E s src fw raw \<longleftrightarrow> qbt_fw_info_check E fw \<and> e_cal E (body_of view s src fw) = pkg_crc fw \<and>
     (algo2 fw AND QBOOT_ALGO2_VERIFY_MASK = QBOOT_ALGO2_VERIFY_CRC \<longrightarrow> e_cal E raw = raw_crc fw)"

lemma body_length [simp]: "length (body_of view s src fw) = unat (pkg_size fw)"
  by (simp add: body_of_def)

lemma alg_deinit_fields [simp]:
  "w_dev (alg_deinit ops w) = w_dev w" "w_mem (alg_deinit ops w) = w_mem w"
  by (simp_all add: alg_deinit_def)

text \<open>A build whose libraries, as far as it selects them, keep their contracts.\<close>

locale boot_pkg = boot_base io view dev_size crc cal E
  for io :: "'s qboot_io_ops" and view and dev_size and crc and cal and
    E :: "('s, ('q, 'z, 'k) alg_state) boot_env" and L :: "('q, 'z, 'k) alg_libs" +
  assumes startup_libs: "qbot_algo_startup (e_cfg E) L algo_tables_0 = (RT_EOK, e_tables E)"
    and fastlz_lib: "using_fastlz (e_cfg E) \<Longrightarrow> fastlz_library (lib_fastlz L)"
    and quicklz_lib: "using_quicklz (e_cfg E) \<Longrightarrow> quicklz_library (lib_qlz L)"
    and aes_lib: "using_aes (e_cfg E) \<Longrightarrow> tinycrypt_library (lib_tinycrypt L)"
begin

text \<open>Whatever the handlers of a package with an image, their stream gives the image.\<close>

lemma handler_decodes:
  assumes h: "crypt_handler f cf kst plain co k0" and f: "fits dev_size src fw"
    and u: "unpacked cf L fw (fst (plain k0 body)) = Some raw" and len: "length body = unat (pkg_size fw)"
    and co: "crypt_ops (package_ctx cf L fw) = Some co"
  shows "decodes io view cf (stream_cfg_of cf src fw (package_ctx cf L fw)) body raw"
proof -
  have "handler_stream io view dev_size f cf kst plain co k0 src fw"
    using f by (intro handler_stream.intro h reliable_storage_axioms handler_stream_axioms.intro) (simp_all add: fits_def)
  note d = handler_stream.none_decodes [OF this] handler_stream.fastlz_decodes [OF this fastlz_lib]
    handler_stream.quicklz_decodes [OF this quicklz_lib] handler_stream.gzip_decodes [OF this]
  have lp: "length (fst (plain k0 body)) = length body"
    by (rule piece_cipher.plain_length [OF crypt_handler.axioms(1) [OF h]])
  from u show ?thesis
  proof (cases rule: unpacked_cases)
    case 1
    then have "raw_size fw = pkg_size fw" using lp len by (simp add: u32_eq_iff)
    from d(1) [OF this, of body] 1 show ?thesis using co by (simp add: package_ctx_def)
  next
    case 2
    have "length raw = unat (raw_size fw)" by (rule unpack_length [OF 2(4)])
    from d(2) [OF 2(2) 2(2,3), of raw body, unfolded this, OF 2(4)] 2(1) show ?thesis
      using co by (simp add: package_ctx_def algo_id_defs)
  next
    case 3
    have "length raw = unat (raw_size fw)" by (rule unpack_length [OF 3(4)])
    from d(3) [OF 3(2) 3(2,3), of "qlz_zero L" raw body, unfolded this, OF 3(4)] 3(1) show ?thesis
      using co by (simp add: package_ctx_def algo_id_defs)
  next
    case 4
    have "length raw = unat (raw_size fw)" by (rule gunzip_length [OF 4(3)])
    from d(4) [OF 4(2), of "lib_zlib L" raw body, unfolded this, OF 4(3)] 4(1) show ?thesis
      using co by (simp add: package_ctx_def algo_id_defs)
  qed
qed

lemma package_decodes:
  assumes i: "package_image cf L fw body = Some raw" and f: "fits dev_size src fw" and len: "length body = unat (pkg_size fw)"
  shows "decodes io view cf (stream_cfg_of cf src fw (package_ctx cf L fw)) body raw"
proof -
  obtain pt where d: "deciphered cf L fw body = Some pt" and u: "unpacked cf L fw pt = Some raw"
    by (rule package_image_cases [OF i])
  from d show ?thesis
  proof (cases rule: deciphered_cases)
    case 1
    show ?thesis
      by (rule handler_decodes [OF none_handler.crypt_handler_axioms f _ len]) (use u 1 in \<open>simp_all add: package_ctx_def\<close>)
  next
    case 2
    show ?thesis
      by (rule handler_decodes [OF tinycrypt_library.aes_handler [OF aes_lib [OF 2(2)]] f _ len]) (use u 2 in \<open>simp_all add: package_ctx_def algo_id_defs\<close>)
  qed
qed

lemma start_package:
  assumes i: "package_image cf L fw body = Some raw" and f: "fits dev_size src fw" and len: "length body = unat (pkg_size fw)"
  obtains w' Ini where "alg_init (package_ctx cf L fw) w = (True, w')" "Ini (w_alg w')" "w_dev w' = w_dev w" "w_mem w' = w_mem w"
    "transfers io view cf (stream_cfg_of cf src fw (package_ctx cf L fw)) Ini body raw"
proof -
  obtain Ini where init: "\<And>a. \<exists>a'. qbt_fw_algo_init (package_ctx cf L fw) a = (True, a') \<and> Ini a'"
    and t: "transfers io view cf (stream_cfg_of cf src fw (package_ctx cf L fw)) Ini body raw"
    using package_decodes [OF i f len] by (auto simp: decodes_def stream_cfg_of_def)
  obtain a' where "qbt_fw_algo_init (package_ctx cf L fw) (w_alg w) = (True, a')" "Ini a'" using init by blast
  then show ?thesis
    by (intro that [of "w\<lparr>w_alg := a'\<rparr>" Ini] t) (simp_all add: alg_init_def)
qed

lemma app_crc_image:
  assumes i: "package_image cf L fw (body_of view (w_dev w) src fw) = Some raw" and f: "fits dev_size src fw"
    and o: "v_open (view (w_dev w) src)" and wf: "wf_mem cf (w_mem w)"
  obtains w' where "qbt_app_crc_check E src fw w = Some (cal raw = raw_crc fw, w')"
    "view (w_dev w') = view (w_dev w)" "wf_mem cf (w_mem w')"
proof -
  let ?cfg = "stream_cfg_of cf src fw (package_ctx cf L fw)" and ?body = "body_of view (w_dev w) src fw"
  obtain w1 Ini where w1: "alg_init (package_ctx cf L fw) w = (True, w1)" "Ini (w_alg w1)" "w_dev w1 = w_dev w"
    "w_mem w1 = w_mem w" and T: "transfers io view cf ?cfg Ini ?body raw"
    by (rule start_package [OF i f]) (simp, rule that)
  have pre: "v_open (view (w_dev w1) (src_handle ?cfg))" "wf_mem cf (w_mem w1)"
    "length ?body = unat (pkg_size (cfg_fw_info ?cfg))" "length raw = unat (raw_size (cfg_fw_info ?cfg))"
    "cells (v_cell (view (w_dev w1) (src_handle ?cfg))) (unat (qboot_src_read_pos cf)) (length ?body) = ?body"
    using o wf w1 image_length [OF i] by (simp_all add: stream_cfg_of_def) (simp add: body_of_def)
  obtain w' where r: "qbt_fw_stream_process cf io ?cfg QBT_STREAM_CRC (qbt_stream_crc_proc crc)
      (Crc_ctx 0xFFFFFFFF) w1 = Some (True, Crc_ctx (crc 0xFFFFFFFF raw), w')"
    "wf_mem cf (w_mem w')" "view (w_dev w') = view (w_dev w1)"
    by (rule exact_crc [where w = w1, OF T w1(2) pre]) (rule that)
  have "qbt_app_crc_check E src fw w = Some (cal raw = raw_crc fw, alg_deinit (package_ctx cf L fw) w')"
    unfolding qbt_app_crc_check_def package_context [OF startup_libs i]
    by (simp add: env_io env_crc w1(1) r(1) crc_cal)
  then show ?thesis by (rule that) (use r w1 in simp_all)
qed

text \<open>
  The check of a package decides exactly this, and changes no device: the package of a header with
  a valid checksum must lie in its source, and that of a body with a valid checksum have an image.
\<close>

lemma fw_check_image:
  assumes o: "v_open (view (w_dev (b_world b)) src)" and fit: "96 \<le> dev_size src"
    and wf0: "wf_fw_info (g_fw_info b)" and wf: "wf_mem cf (w_mem (b_world b))"
    and fw: "fw = header_of view (w_dev (b_world b)) src"
    and f: "qbt_fw_info_check E fw \<Longrightarrow> fits dev_size src fw"
    and i: "qbt_fw_info_check E fw \<Longrightarrow> cal (body_of view (w_dev (b_world b)) src fw) = pkg_crc fw \<Longrightarrow>
      package_image cf L fw (body_of view (w_dev (b_world b)) src fw) = Some raw"
  obtains b' where
    "qbt_fw_check E src n name b = Some (package_ok view E (w_dev (b_world b)) src fw raw, b')"
    "g_fw_info b' = fw" "s_dl_ok b' = s_dl_ok b"
    "view (w_dev (b_world b')) = view (w_dev (b_world b))" "wf_mem cf (w_mem (b_world b'))"
proof -
  let ?w = "b_world b"
  obtain w1 where h: "info_read_w cf io src n (g_fw_info b) False ?w = (True, fw, w1)"
    "view (w_dev w1) = view (w_dev ?w)" "w_mem w1 = w_mem ?w"
    using info_read_front [OF o fit wf0] fw unfolding header_of_def by metis
  let ?b1 = "b\<lparr>g_fw_info := fw, b_world := w1\<rparr>"
  have o1: "v_open (view (w_dev w1) src)" and wf1: "wf_mem cf (w_mem w1)" using h o wf by simp_all
  let ?ok1 = "qbt_fw_info_check E fw" and ?ok2 = "cal (body_of view (w_dev ?w) src fw) = pkg_crc fw"
  note defs = qbt_fw_check_def no_helper fw_check_default_def env_io Let_def h(1) package_ok_def env_cal
  show ?thesis
  proof (cases ?ok1)
    case False
    then show ?thesis by (intro that [of ?b1]) (use h wf1 in \<open>simp_all add: defs\<close>)
  next
    case ok1: True
    have "unat (qboot_src_read_pos cf) + unat (pkg_size fw) \<le> dev_size src"
      "unat (qboot_src_read_pos cf) + unat (pkg_size fw) < 4294967296"
      "unat (pkg_size fw) < 2147483648" using f [OF ok1] by (simp_all add: fits_def)
    from crc_check_exact [OF o1 this wf1, of "pkg_crc fw"] obtain w2 where
      c: "qbt_fw_crc_check E src (qboot_src_read_pos cf) (pkg_size fw) (pkg_crc fw) w1 = Some (?ok2, w2)"
      "view (w_dev w2) = view (w_dev ?w)" "wf_mem cf (w_mem w2)"
      using h(2) by (auto simp: body_of_def)
    show ?thesis
    proof (cases ?ok2)
      case False
      then show ?thesis by (intro that [of "?b1\<lparr>b_world := w2\<rparr>"]) (use ok1 c in \<open>simp_all add: defs\<close>)
    next
      case ok2: True
      have o2: "v_open (view (w_dev w2) src)" using c o by simp
      have i2: "package_image cf L fw (body_of view (w_dev w2) src fw) = Some raw"
        using i [OF ok1 ok2] by (simp add: body_of_def c(2))
      obtain w3 where a: "qbt_app_crc_check E src fw w2 = Some (cal raw = raw_crc fw, w3)"
        "view (w_dev w3) = view (w_dev w2)" "wf_mem cf (w_mem w3)"
        by (rule app_crc_image [OF i2 f [OF ok1] o2 c(3)]) (rule that)
      have nh: "algo fw AND QBOOT_ALGO_CMPRS_MASK \<noteq> QBOOT_ALGO_CMPRS_HPATCHLITE"
      proof -
        obtain pt where "unpacked cf L fw pt = Some raw" by (rule package_image_cases [OF i2])
        then show ?thesis by (rule unpacked_cases) (simp_all add: algo_id_defs)
      qed
      show ?thesis
        by (intro that [of "?b1\<lparr>b_world := if algo2 fw AND QBOOT_ALGO2_VERIFY_MASK = QBOOT_ALGO2_VERIFY_CRC then w3 else w2\<rparr>"])
          (use ok1 ok2 c a nh in \<open>simp_all add: defs\<close>)
    qed
  qed
qed

text \<open>The release leaves the image and the header on the destination.\<close>

lemma release_image:
  assumes i: "package_image cf L fw (body_of view (w_dev w) src fw) = Some raw"
    and f: "fits dev_size src fw" and r: "room_for dev_size dst n fw" and wff: "wf_fw_info fw"
    and sd: "src \<noteq> dst" and so: "v_open (view (w_dev w) src)" and od: "v_open (view (w_dev w) dst)"
    and wf: "wf_mem cf (w_mem w)"
  obtains w' where
    "qbt_fw_release E dst n src fw w = Some (True, w')" "wf_mem cf (w_mem w')"
    "installed view (w_dev w') dst n fw raw"
    "\<And>h. h \<noteq> dst \<Longrightarrow> view (w_dev w') h = view (w_dev w) h" "v_open (view (w_dev w') dst)"
proof -
  let ?ops = "package_ctx cf L fw" and ?body = "body_of view (w_dev w) src fw"
  let ?cfg = "stream_cfg_of cf src fw ?ops"
  let ?st = "\<lparr>dst_handle = dst, st_raw_pos = 0, st_raw_size = raw_size fw\<rparr>"
  have lr: "length raw = unat (raw_size fw)" by (rule image_length [OF i])
  obtain w0 Ini where w0: "alg_init ?ops w = (True, w0)" "Ini (w_alg w0)" "w_dev w0 = w_dev w"
    "w_mem w0 = w_mem w" and T: "transfers io view cf ?cfg Ini ?body raw"
    by (rule start_package [OF i f]) (simp, rule that)
  obtain w1 where e: "release_erase E dst n fw w0 = (True, w1)" "v_open (view (w_dev w1) dst)"
    "ready_range (view (w_dev w1) dst) 0 (unat (raw_size fw))" "ready_range (view (w_dev w1) dst) (unat n - 96) 96"
    "\<And>h'. h' \<noteq> dst \<Longrightarrow> view (w_dev w1) h' = view (w_dev w) h'" "w_mem w1 = w_mem w" "w_alg w1 = w_alg w0"
    by (rule release_erase_total [of w0, OF _ r]) (use od w0(3,4) that in auto)
  have ini: "Ini (w_alg w1)" using w0(2) e(7) by simp
  have pre: "src_handle ?cfg \<noteq> dst" "v_open (view (w_dev w1) (src_handle ?cfg))" "v_open (view (w_dev w1) dst)"
    "wf_mem cf (w_mem w1)" "dst_handle ?st = dst" "st_raw_pos ?st = 0"
    "ready_range (view (w_dev w1) dst) 0 (length raw)" "length raw \<le> dev_size dst"
    "length ?body = unat (pkg_size (cfg_fw_info ?cfg))" "length raw = unat (raw_size (cfg_fw_info ?cfg))"
    using sd so wf r lr e by (simp_all add: stream_cfg_of_def room_for_def)
  have body: "cells (v_cell (view (w_dev w1) (src_handle ?cfg))) (unat (qboot_src_read_pos cf)) (length ?body) = ?body"
    using e(5) sd by (simp add: stream_cfg_of_def) (simp add: body_of_def)
  obtain ctx w2 where s: "qbt_fw_stream_process cf io ?cfg QBT_STREAM_WRITE (qbt_stream_write_proc io) (Write_ctx ?st) w1 =
      Some (True, ctx, w2)" "wf_mem cf (w_mem w2)" "\<And>h. h \<noteq> dst \<Longrightarrow> view (w_dev w2) h = view (w_dev w1) h"
    "v_open (view (w_dev w2) dst)" "v_cell (view (w_dev w2) dst) = splice 0 raw (v_cell (view (w_dev w1) dst))"
    "\<And>i. length raw \<le> i \<Longrightarrow> v_ready (view (w_dev w1) dst) i \<Longrightarrow> v_ready (view (w_dev w2) dst) i"
    by (rule exact_write [where w = w1, OF T ini pre body]) (rule that)
  let ?w2 = "alg_deinit ?ops w2"
  have len: "96 \<le> unat n" "unat n \<le> dev_size dst" "unat (raw_size fw) \<le> unat n - 96"
    using r unfolding room_for_def by linarith+
  have rdy2: "ready_range (view (w_dev ?w2) dst) (unat n - 96) 96"
    using e(4) s(6) len lr by (auto simp: ready_range_def)
  have o2: "v_open (view (w_dev ?w2) dst)" using s(4) by simp
  obtain w3 where h: "info_write_w cf io dst n fw True ?w2 = (True, w3)"
    "v_cell (view (w_dev w3) dst) = splice (unat n - 96) (bytes_of_fw_info fw) (v_cell (view (w_dev ?w2) dst))"
    "v_open (view (w_dev w3) dst)" "\<And>h'. h' \<noteq> dst \<Longrightarrow> view (w_dev w3) h' = view (w_dev ?w2) h'"
    "w_mem w3 = w_mem ?w2"
    by (rule info_write_tail [OF o2 len(1,2) wff rdy2]) (rule that)
  have lh: "length (bytes_of_fw_info fw) = 96" using wff by (simp add: sizeof_fw_info_def)
  have "cells (v_cell (view (w_dev w3) dst)) (unat n - 96) 96 = bytes_of_fw_info fw"
    using cells_splice_same [of "unat n - 96" "bytes_of_fw_info fw"] by (simp add: h(2) lh)
  moreover have "cells (v_cell (view (w_dev w3) dst)) 0 (unat (raw_size fw)) = raw"
    using cells_splice_disjoint [of "unat n - 96" "bytes_of_fw_info fw" 0 "unat (raw_size fw)"]
      cells_splice_same [of 0 raw] len lr by (simp add: h(2) s(5))
  ultimately have inst: "installed view (w_dev w3) dst n fw raw" by (simp add: installed_def)
  have "qbt_fw_release E dst n src fw w = Some (True, w3)"
    unfolding qbt_fw_release_def package_context [OF startup_libs i]
    using w0(1) e(1) s(1) h(1) by (simp add: env_io package_not_hpatch del: map_option_eq_Some)
  then show ?thesis
  proof (rule that)
    show "wf_mem cf (w_mem w3)" using s(2) h(5) by simp
    show "view (w_dev w3) h' = view (w_dev w) h'" if "h' \<noteq> dst" for h'
      using h(4) [OF that] s(3) [OF that] e(5) [OF that] by simp
  qed (fact inst h(3))+
qed

text \<open>A checked package updates: the destination holds its image and its header.\<close>

lemma update_image:
  assumes fw: "fw = g_fw_info b"
    and i: "package_image cf L fw (body_of view (w_dev (b_world b)) src fw) = Some raw"
    and f: "fits dev_size src fw" and r: "room_for dev_size dst n fw" and small: "unat (raw_size fw) < 2147483648" and wff: "wf_fw_info fw"
    and sd: "src \<noteq> dst" and so: "v_open (view (w_dev (b_world b)) src)"
    and od: "v_open (view (w_dev (b_world b)) dst)"
    and wf: "wf_mem cf (w_mem (b_world b))" and ok: "package_ok view E (w_dev (b_world b)) src fw raw"
  obtains b' where
    "qbt_fw_update E dst n src b = Some (True, b')" "g_fw_info b' = fw" "wf_mem cf (w_mem (b_world b'))"
    "installed view (w_dev (b_world b')) dst n fw raw"
    "\<And>h. h \<noteq> dst \<Longrightarrow> view (w_dev (b_world b')) h = view (w_dev (b_world b)) h"
    "v_open (view (w_dev (b_world b')) dst)"
proof -
  obtain w1 where w1: "qbt_fw_release E dst n src fw (b_world b) = Some (True, w1)" "wf_mem cf (w_mem w1)"
    "installed view (w_dev w1) dst n fw raw"
    "\<And>h. h \<noteq> dst \<Longrightarrow> view (w_dev w1) h = view (w_dev (b_world b)) h" "v_open (view (w_dev w1) dst)"
    by (rule release_image [OF i f r wff sd so od wf]) (rule that)
  let ?b1 = "b\<lparr>b_world := w1\<rparr>"
  have pre: "installed view (w_dev (b_world ?b1)) dst n fw raw" "v_open (view (w_dev (b_world ?b1)) dst)"
    "wf_fw_info (g_fw_info ?b1)" "wf_mem cf (w_mem (b_world ?b1))"
    using w1(2,3,5) wff fw by simp_all
  obtain b2 where v: "qbt_dest_part_verify E dst n ?b1 = Some (qbt_fw_info_check E fw \<and>
       (algo2 fw AND QBOOT_ALGO2_VERIFY_MASK = QBOOT_ALGO2_VERIFY_CRC \<longrightarrow> cal raw = raw_crc fw), b2)"
    "g_fw_info b2 = fw" "view (w_dev (b_world b2)) = view (w_dev (b_world ?b1))" "wf_mem cf (w_mem (b_world b2))"
    by (rule verify_exact [OF pre(1,2) r wff pre(3) small pre(4)]) (rule that)
  have "qbt_fw_info_check E fw \<and>
      (algo2 fw AND QBOOT_ALGO2_VERIFY_MASK = QBOOT_ALGO2_VERIFY_CRC \<longrightarrow> cal raw = raw_crc fw)"
    using ok unfolding package_ok_def env_cal by blast
  then have "qbt_dest_part_verify E dst n ?b1 = Some (True, b2)" unfolding v(1) by blast
  then have "qbt_fw_update E dst n src b = Some (True, b2)"
    using w1(1) fw by (simp add: qbt_fw_update_def)
  then show ?thesis
    by (rule that) (use w1 v in \<open>auto simp: installed_def\<close>)
qed

text \<open>The two together: what the check accepts, the update installs.\<close>

lemma check_then_update:
  assumes sd: "src \<noteq> dst" and fit: "96 \<le> dev_size src"
    and so: "v_open (view (w_dev (b_world b)) src)" and od: "v_open (view (w_dev (b_world b)) dst)"
    and wf0: "wf_fw_info (g_fw_info b)" and wf: "wf_mem cf (w_mem (b_world b))"
    and fw: "fw = header_of view (w_dev (b_world b)) src"
    and f: "qbt_fw_info_check E fw \<Longrightarrow> fits dev_size src fw"
    and i: "qbt_fw_info_check E fw \<Longrightarrow> cal (body_of view (w_dev (b_world b)) src fw) = pkg_crc fw \<Longrightarrow>
      package_image cf L fw (body_of view (w_dev (b_world b)) src fw) = Some raw \<and>
      room_for dev_size dst n fw \<and> unat (raw_size fw) < 2147483648"
  shows "\<exists>b1. qbt_fw_check E src m name b = Some (package_ok view E (w_dev (b_world b)) src fw raw, b1) \<and>
    (package_ok view E (w_dev (b_world b)) src fw raw \<longrightarrow>
      (\<exists>b2. qbt_fw_update E dst n src b1 = Some (True, b2) \<and>
        installed view (w_dev (b_world b2)) dst n fw raw \<and>
        (\<forall>h. h \<noteq> dst \<longrightarrow> view (w_dev (b_world b2)) h = view (w_dev (b_world b)) h)))"
proof -
  have i': "package_image cf L fw (body_of view (w_dev (b_world b)) src fw) = Some raw"
    if "qbt_fw_info_check E fw" "cal (body_of view (w_dev (b_world b)) src fw) = pkg_crc fw" using i that by blast
  obtain b1 where c: "qbt_fw_check E src m name b = Some (package_ok view E (w_dev (b_world b)) src fw raw, b1)"
    "g_fw_info b1 = fw" "s_dl_ok b1 = s_dl_ok b" "view (w_dev (b_world b1)) = view (w_dev (b_world b))"
    "wf_mem cf (w_mem (b_world b1))"
    by (rule fw_check_image [OF so fit wf0 wf fw f i']) (assumption | rule that)+
  have wff: "wf_fw_info fw" by (simp add: fw header_of_def sizeof_fw_info_def)
  have so1: "v_open (view (w_dev (b_world b1)) src)" and od1: "v_open (view (w_dev (b_world b1)) dst)"
    using so od c(4) by simp_all
  have body: "body_of view (w_dev (b_world b1)) src fw = body_of view (w_dev (b_world b)) src fw"
    by (simp add: body_of_def c(4))
  have "\<exists>b2. qbt_fw_update E dst n src b1 = Some (True, b2) \<and> installed view (w_dev (b_world b2)) dst n fw raw \<and>
        (\<forall>h. h \<noteq> dst \<longrightarrow> view (w_dev (b_world b2)) h = view (w_dev (b_world b)) h)"
    if ok: "package_ok view E (w_dev (b_world b)) src fw raw"
  proof -
    have v: "qbt_fw_info_check E fw" "cal (body_of view (w_dev (b_world b)) src fw) = pkg_crc fw"
      using ok by (simp_all add: package_ok_def env_cal)
    have ok1: "package_ok view E (w_dev (b_world b1)) src fw raw" using ok by (simp add: package_ok_def body)
    have im: "package_image cf L fw (body_of view (w_dev (b_world b1)) src fw) = Some raw"
      and room: "room_for dev_size dst n fw" "unat (raw_size fw) < 2147483648" using i [OF v] body by simp_all
    show ?thesis
      by (rule update_image [OF c(2) [symmetric] im f [OF v(1)] room wff sd so1 od1 c(5) ok1])
        (use c(4) in auto)
  qed
  with c(1) show ?thesis by blast
qed

end

section \<open>Gzip images shorter than 32 bytes\<close>

definition short_gzip_fw :: "fw_info_t \<Rightarrow> bool" where
  "short_gzip_fw fw \<longleftrightarrow> algo fw AND QBOOT_ALGO_CMPRS_MASK = QBOOT_ALGO_CMPRS_GZIP \<and>
     0 < unat (raw_size fw) \<and> unat (raw_size fw) < 32"

text \<open>The handlers of such a package, where the build has them all.\<close>

lemma gzip_context:
  assumes t: "qbot_algo_startup c L algo_tables_0 = (RT_EOK, t)" and g: "algo fw AND QBOOT_ALGO_CMPRS_MASK = QBOOT_ALGO_CMPRS_GZIP"
    and ctx: "qbt_fw_get_algo_context t fw = (True, ops)"
  shows "cmprs_ops ops = Some (qbt_algo_gzip_cmprs_ops (lib_zlib L))"
    and "crypt_ops ops = Some (qbt_algo_none_crypt_ops c) \<or> crypt_ops ops = Some (qbt_algo_aes_crypt_ops (lib_tinycrypt L))"
proof -
  note d = ctx [unfolded qbt_fw_get_algo_context_def g]
  show "cmprs_ops ops = Some (qbt_algo_gzip_cmprs_ops (lib_zlib L))"
    using d t by (auto simp: startup_tables qboot_find_cmprs_def qboot_cmprs_id_to_index_def Let_def algo_id_defs split: if_splits)
  show "crypt_ops ops = Some (qbt_algo_none_crypt_ops c) \<or> crypt_ops ops = Some (qbt_algo_aes_crypt_ops (lib_tinycrypt L))"
  proof -
    let ?i = "algo fw AND QBOOT_ALGO_CRYPT_MASK"
    obtain co where co: "qboot_find_crypto t ?i = Some co" "crypt_ops ops = Some co" using d by (auto simp: Let_def split: if_splits)
    then have "\<not> QBOOT_ALGO_CRYPT_COUNT \<le> qboot_crypto_id_to_index ?i" and nth: "g_crypt_table t ! unat ?i = Some co"
      by (auto simp: qboot_find_crypto_def Let_def split: if_splits)
    from this(1) have "unat ?i < 3" by (rule masked_crypto_index(2))
    then consider "unat ?i = 0" | "unat ?i = 1" | "unat ?i = 2" by linarith
    then show ?thesis
      by cases (use nth co(2) t in \<open>auto simp: startup_tables split: if_splits\<close>)
  qed
qed

lemma gzip_start:
  assumes "cmprs_ops ops = Some (qbt_algo_gzip_cmprs_ops zl)" and "alg_init ops w = (True, w')"
  shows "qbt_gzip_remain_len (w_alg w') = 0"
  using assms by (auto simp: alg_init_def qbt_fw_algo_init_def call_opt_def qbt_algo_gzip_cmprs_ops_def qbt_algo_gzip_init_def
      qbt_gzip_init_def split: prod.splits if_splits option.splits)

lemma release_erase_alg: "release_erase E dst n fw w = (ok, w') \<Longrightarrow> w_alg w' = w_alg w"
  by (auto simp: release_erase_def erase_w_def split: prod.splits if_splits)

lemma crypt_remain:
  "qbt_algo_none_crypt c out inp n m (a :: ('q, 'z, 'k) alg_state) = Some (e, m', a') \<Longrightarrow> qbt_gzip_remain_len a' = qbt_gzip_remain_len a"
  "qbt_algo_aes_crypt tc out inp n m a = Some (e, m', a') \<Longrightarrow> qbt_gzip_remain_len a' = qbt_gzip_remain_len a"
  by (auto simp: qbt_algo_none_crypt_def qbt_algo_aes_crypt_def qbt_aes_decrypt_def bind_eq_Some_conv case_prod_beta split: if_splits)

lemma short_gzip_stream:
  assumes t: "qbot_algo_startup c L algo_tables_0 = (RT_EOK, t)" and zl: "zlib_library (lib_zlib L)"
    and fw: "short_gzip_fw fw" and ctx: "qbt_fw_get_algo_context t fw = (True, ops)"
    and small: "unat (qboot_src_read_pos c) + unat (pkg_size fw) < 2147483648"
    and a: "qbt_gzip_remain_len (w_alg w) = 0"
    and run: "qbt_fw_stream_process c io (stream_cfg_of c src fw ops) purp (proc_of K) pc w = Some (ok, pc', w')"
  shows "\<not> ok"
proof -
  note h = gzip_context [OF t _ ctx] and g = fw [unfolded short_gzip_fw_def]
  have dec: "dec_of (algo_ops (stream_cfg_of c src fw ops)) = Some (qbt_algo_gzip_decompress (lib_zlib L))"
    using h(1) g by (simp add: stream_cfg_of_def dec_of_def qbt_algo_gzip_cmprs_ops_def)
  have ap: "zlib_library.apart (stream_cfg_of c src fw ops)"
    using h(2) g by (auto simp: zlib_library.apart_def [OF zl] stream_cfg_of_def qbt_algo_none_crypt_ops_def
        qbt_algo_aes_crypt_ops_def crypt_remain)
  show ?thesis
    by (rule zlib_library.short_refused [OF zl dec ap _ _ _ a run]) (use small g in \<open>simp_all add: stream_cfg_of_def\<close>)
qed

text \<open>Neither the check of the image nor the release succeeds on such a package.\<close>

lemma short_gzip_refused:
  assumes t: "qbot_algo_startup (e_cfg E) L algo_tables_0 = (RT_EOK, e_tables E)" and zl: "zlib_library (lib_zlib L)"
    and fw: "short_gzip_fw fw" and small: "unat (qboot_src_read_pos (e_cfg E)) + unat (pkg_size fw) < 2147483648"
  shows "qbt_app_crc_check E src fw w = Some (ok, w') \<Longrightarrow> \<not> ok"
    and "qbt_fw_release E dst n src fw w = Some (ok, w') \<Longrightarrow> \<not> ok"
proof -
  obtain found ops where ctx: "qbt_fw_get_algo_context (e_tables E) fw = (found, ops)" by fastforce
  obtain started w1 where init: "alg_init ops w = (started, w1)" by fastforce
  have id: "map_option cmprs_id (cmprs_ops ops) \<noteq> Some QBOOT_ALGO_CMPRS_HPATCHLITE" if found
    using gzip_context(1) [OF t _ ctx [unfolded that [THEN eqTrueI]]] fw
    by (simp add: short_gzip_fw_def qbt_algo_gzip_cmprs_ops_def algo_id_defs)
  have rl: "qbt_gzip_remain_len (w_alg w1) = 0" if found started
    using gzip_start [OF gzip_context(1) [OF t _ ctx [unfolded that(1) [THEN eqTrueI]]] init [unfolded that(2) [THEN eqTrueI]]] fw
    by (simp add: short_gzip_fw_def)
  have st: "\<not> b" if found "qbt_gzip_remain_len (w_alg w2) = 0"
    "qbt_fw_stream_process (e_cfg E) (e_io E) (stream_cfg_of (e_cfg E) src fw ops) purp (proc_of K) pc w2 = Some (b, pc', w3)"
    for b w2 purp K pc pc' w3
    by (rule short_gzip_stream [OF t zl fw ctx [unfolded that(1) [THEN eqTrueI]] small that(2,3)])
  show "\<not> ok" if r: "qbt_app_crc_check E src fw w = Some (ok, w')"
  proof
    assume ok: ok
    with r ctx init obtain pc' w3 where found started "qbt_fw_stream_process (e_cfg E) (e_io E) (stream_cfg_of (e_cfg E) src fw ops)
        QBT_STREAM_CRC (proc_of (qbt_crc_chunk_consumer (e_crc E))) (Crc_ctx 0xFFFFFFFF) w1 = Some (True, pc', w3)"
      by (auto simp: qbt_app_crc_check_def bind_eq_Some_conv qbt_stream_crc_proc_def [abs_def] split: bool.splits)
    then show False using st [OF _ rl] by blast
  qed
  show "\<not> ok" if r: "qbt_fw_release E dst n src fw w = Some (ok, w')"
  proof
    assume ok: ok
    with r ctx init id obtain w2 pc' w3 where found started and e: "release_erase E dst n fw w1 = (True, w2)"
      and s: "qbt_fw_stream_process (e_cfg E) (e_io E) (stream_cfg_of (e_cfg E) src fw ops) QBT_STREAM_WRITE
        (proc_of (qbt_write_chunk_consumer (e_io E))) (Write_ctx \<lparr>dst_handle = dst, st_raw_pos = 0, st_raw_size = raw_size fw\<rparr>) w2 =
        Some (True, pc', w3)"
      by (fastforce simp: qbt_fw_release_def bind_eq_Some_conv qbt_stream_write_proc_def [abs_def] split: bool.splits if_splits prod.splits)
    have "qbt_gzip_remain_len (w_alg w2) = 0" using rl [OF \<open>found\<close> \<open>started\<close>] release_erase_alg [OF e] by simp
    then show False using st [OF \<open>found\<close> _ s] by blast
  qed
qed

end
