(* ===== verification/Qboot_Instance.thy ===== *)
theory Qboot_Instance
  imports Qboot_Custom Qboot_Package
begin

text \<open>
  The contracts on concrete data: the CRC-32 the package is built with, the reference NOR flash
  of \<open>Qboot_Custom\<close> behind the custom backend, libraries for its build, and three small packages
  for its \<open>download\<close> target: a plain one, and two that are compressed and encrypted, one in blocks and one by
  gzip. Every locale a bootloader function is proved in is interpreted here on the model's definitions.
\<close>

section \<open>CRC-32\<close>

text \<open>The reflected polynomial \<open>0xEDB88320\<close>, bit by bit.\<close>

fun crc32_bits :: "nat \<Rightarrow> u32 \<Rightarrow> u32" where
  "crc32_bits 0 x = x"
| "crc32_bits (Suc n) x = crc32_bits n (if bit x 0 then drop_bit 1 x XOR 0xEDB88320 else drop_bit 1 x)"

definition crc32_step :: "u32 \<Rightarrow> byte \<Rightarrow> u32" where
  "crc32_step x b = crc32_bits 8 (x XOR ucast b)"

definition crc32_cyc_cal :: crc_fn where
  "crc32_cyc_cal x bs = foldl crc32_step x bs"

definition crc32_cal :: "byte list \<Rightarrow> u32" where
  "crc32_cal bs = crc32_cyc_cal 0xFFFFFFFF bs XOR 0xFFFFFFFF"

interpretation crc32: crc_library crc32_cyc_cal crc32_cal
  by unfold_locales (simp_all add: crc32_cyc_cal_def crc32_cal_def)

section \<open>A bootloader on the reference flash\<close>

text \<open>
  Small libraries with the contracts of the real ones: a block of run lengths for FastLZ, a stored
  block behind its length for QuickLZ, a copy for zlib, and the cipher of \<open>Qboot_Codecs\<close>.
\<close>

fun unrle :: "byte list \<Rightarrow> byte list" where
  "unrle (n # b # bs) = replicate (unat n) b @ unrle bs"
| "unrle _ = []"

definition rle_lib :: fastlz_fn where
  "rle_lib bs n cap = (if 0 \<le> n \<and> int (length (unrle bs)) \<le> cap then (int (length (unrle bs)), unrle bs) else (0, []))"

fun stored_lib :: "unit qlz_fn" where
  "stored_lib (n # bs) q = (if unat n \<le> length bs then (ucast n, take (unat n) bs, ()) else (0, [], ()))"
| "stored_lib [] q = (0, [], ())"

interpretation rle: fastlz_library rle_lib
  by unfold_locales (auto simp: rle_lib_def split: if_splits)

interpretation stored: quicklz_library stored_lib
proof
  fix b rest out :: "byte list" and q q' :: unit and n :: u32
  assume "stored_lib b q = (n, out, q')" "unat n = length out" "0 < length out"
  then show "stored_lib (b @ rest) q = (n, out, q')" by (cases b) (auto split: if_splits)
qed

definition copy_zlib :: "unit zlib" where
  "copy_zlib = \<lparr>inflate_init = (), inflate = (\<lambda>bs k z. (0, of_nat (length bs - k), take k bs, z)), inflateEnd = (\<lambda>z. z)\<rparr>"

interpretation copy: zlib_library copy_zlib
  by unfold_locales (auto simp: copy_zlib_def)

definition nor_libs :: "(unit, unit, unit) alg_libs" where
  "nor_libs = \<lparr>lib_fastlz = rle_lib, lib_qlz = stored_lib, qlz_zero = (),
     lib_zlib = copy_zlib,
     lib_tinycrypt = xor_tinycrypt\<rparr>"

definition nor_env :: "(nat \<Rightarrow> byte, (unit, unit, unit) alg_state) boot_env" where
  "nor_env = \<lparr>e_cfg = nor_cfg, e_stores = nor_stores,
     e_io = g_qboot_io_custom nor_cfg nor_stores (nor_hooks 512),
     e_parser = g_qboot_header_parser_custom nor_cfg nor_stores (nor_hooks 512),
     e_tables = snd (qbot_algo_startup nor_cfg nor_libs algo_tables_0),
     e_crc = crc32_cyc_cal, e_cal = crc32_cal,
     e_hpatch = (\<lambda>_ _ _ _ _ w. Some (- 1, w))\<rparr>"

lemma nor_env_simps [simp]:
  "e_cfg nor_env = nor_cfg" "e_stores nor_env = nor_stores"
  "e_io nor_env = g_qboot_io_custom nor_cfg nor_stores (nor_hooks 512)"
  "e_parser nor_env = g_qboot_header_parser_custom nor_cfg nor_stores (nor_hooks 512)"
  "e_tables nor_env = snd (qbot_algo_startup nor_cfg nor_libs algo_tables_0)"
  "e_crc nor_env = crc32_cyc_cal" "e_cal nor_env = crc32_cal"
  by (simp_all add: nor_env_def)

interpretation nor_base: boot_base "g_qboot_io_custom nor_cfg nor_stores (nor_hooks 512)"
  "custom_view nor_cfg nor_stores (\<lambda>s. s)" "custom_dev_size nor_cfg nor_stores"
  crc32_cyc_cal crc32_cal nor_env
proof unfold_locales
  show "\<exists>L. qbot_algo_startup (e_cfg nor_env) L algo_tables_0 = (RT_EOK, e_tables nor_env)"
    by (rule exI [of _ nor_libs]) (simp add: startup_tables)
qed (simp_all add: nor_cfg_def)

lemma nor_libs_laws: "fastlz_library (lib_fastlz nor_libs)" "quicklz_library (lib_qlz nor_libs)"
  "tinycrypt_library (lib_tinycrypt nor_libs)"
  using rle.fastlz_library_axioms stored.quicklz_library_axioms xor_aes.tinycrypt_library_axioms
  by (simp_all add: nor_libs_def)

interpretation nor_boot: boot_pkg "g_qboot_io_custom nor_cfg nor_stores (nor_hooks 512)"
  "custom_view nor_cfg nor_stores (\<lambda>s. s)" "custom_dev_size nor_cfg nor_stores"
  crc32_cyc_cal crc32_cal nor_env nor_libs
  by (intro boot_pkg.intro nor_base.boot_base_axioms boot_pkg_axioms.intro nor_libs_laws)
    (simp add: startup_tables)

section \<open>The packages\<close>

text \<open>
  A header of the given algorithms for a body and its image, with its checksums, for the
  application, and the flash that has such a package on its \<open>download\<close> target.
\<close>

definition demo_head_of :: "u16 \<Rightarrow> byte list \<Rightarrow> byte list \<Rightarrow> fw_info_t" where
  "demo_head_of alg body raw = \<lparr>fw_type = str_bytes ''RBL'' @ [0], algo = alg, algo2 = 1, time_stamp = 0,
     part_name = str_bytes ''app'' @ replicate 13 0, fw_ver = replicate 24 0,
     prod_code = replicate 24 0, pkg_crc = crc32_cal body, raw_crc = crc32_cal raw,
     raw_size = of_nat (length raw), pkg_size = of_nat (length body), hdr_crc = 0\<rparr>"

definition sealed_head :: "fw_info_t \<Rightarrow> fw_info_t" where
  "sealed_head fw = fw\<lparr>hdr_crc := crc32_cal (take 92 (bytes_of_fw_info fw))\<rparr>"

definition flash_of :: "fw_info_t \<Rightarrow> byte list \<Rightarrow> nat \<Rightarrow> byte" where
  "flash_of fw body = splice 8192 (bytes_of_fw_info fw @ body) (\<lambda>_. 0xFF)"

definition demo_body :: "byte list" where
  "demo_body = [1, 2, 3, 4, 5, 6, 7, 8]"

definition demo_head :: fw_info_t where "demo_head = demo_head_of 0 demo_body demo_body"
definition demo_fw :: fw_info_t where "demo_fw = sealed_head demo_head"
definition demo_flash :: "nat \<Rightarrow> byte" where "demo_flash = flash_of demo_fw demo_body"

text \<open>Two blocks of run lengths, behind their sizes, under the cipher.\<close>

definition zip_raw :: "byte list" where
  "zip_raw = [9, 9, 9, 9, 9, 1, 1, 2]"

definition zip_body :: "byte list" where
  "zip_body = map (\<lambda>b. b XOR 0x5A) [0, 0, 0, 2, 5, 9, 0, 0, 0, 4, 2, 1, 1, 2]"

definition zip_fw :: fw_info_t where
  "zip_fw = sealed_head (demo_head_of (QBOOT_ALGO_CMPRS_FASTLZ OR QBOOT_ALGO_CRYPT_AES) zip_body zip_raw)"

definition zip_flash :: "nat \<Rightarrow> byte" where "zip_flash = flash_of zip_fw zip_body"

text \<open>One piece for the gzip handler, longer than its remainder buffer.\<close>

definition gz_raw :: "byte list" where
  "gz_raw = map of_nat [0..<40]"

definition gz_body :: "byte list" where
  "gz_body = map (\<lambda>b. b XOR 0x5A) gz_raw"

definition gz_fw :: fw_info_t where
  "gz_fw = sealed_head (demo_head_of (QBOOT_ALGO_CMPRS_GZIP OR QBOOT_ALGO_CRYPT_AES) gz_body gz_raw)"

text \<open>The same for an image of eight bytes.\<close>

definition short_fw :: fw_info_t where
  "short_fw = sealed_head (demo_head_of QBOOT_ALGO_CMPRS_GZIP demo_body demo_body)"

abbreviation "H_app \<equiv> H_desc QBOOT_TARGET_APP"
abbreviation "H_download \<equiv> H_desc QBOOT_TARGET_DOWNLOAD"

definition boot_on :: "(nat \<Rightarrow> byte) \<Rightarrow> (nat \<Rightarrow> byte, (unit, unit, unit) alg_state) boot" where
  "boot_on s = \<lparr>g_fw_info = fw_info_of_bytes (replicate 96 0), s_dl_ok = False,
     b_world = \<lparr>w_dev = s, w_mem = (\<lambda>b. case b of B_CMPRS \<Rightarrow> replicate 8224 0 | B_CRYPT \<Rightarrow> replicate 4096 0),
       w_alg = \<lparr>qbt_quicklz_state = (), qbt_strm = (), qbt_avail_in = 0, qbt_gzip_remain_buf = [],
         qbt_gzip_remain_len = 0, qbt_aes_iv = [], qbt_aes_ctx = ()\<rparr>\<rparr>\<rparr>"

definition demo_boot :: "(nat \<Rightarrow> byte, (unit, unit, unit) alg_state) boot" where
  "demo_boot = boot_on demo_flash"

lemma sealed_wf: "wf_fw_info (sealed_head (demo_head_of alg body raw))"
  by (simp add: sealed_head_def demo_head_of_def wf_fw_info_def str_bytes_def)

lemma sealed_check: "qbt_fw_info_check nor_env (sealed_head (demo_head_of alg body raw))"
proof -
  let ?fw = "demo_head_of alg body raw"
  have "take 92 (bytes_of_fw_info (sealed_head ?fw)) = take 92 (bytes_of_fw_info ?fw)"
    by (simp add: bytes_of_fw_info_def sealed_head_def demo_head_of_def str_bytes_def)
  moreover have "unat (qboot_src_read_pos nor_cfg - 4) = 92"
    by (simp add: qboot_src_read_pos_def nor_cfg_def sizeof_fw_info_def)
  ultimately show ?thesis
    by (simp add: qbt_fw_info_check_def) (simp add: sealed_head_def demo_head_of_def rt_streq_def str_bytes_def)
qed

lemma demo_fw_wf: "wf_fw_info demo_fw" and zip_fw_wf: "wf_fw_info zip_fw"
  by (simp_all add: demo_fw_def demo_head_def zip_fw_def sealed_wf)

lemma demo_fw_fields [simp]:
  "raw_size demo_fw = 8" "pkg_size demo_fw = 8" "pkg_crc demo_fw = crc32_cal demo_body" "raw_crc demo_fw = crc32_cal demo_body"
  "raw_size zip_fw = 8" "pkg_size zip_fw = 14" "pkg_crc zip_fw = crc32_cal zip_body" "raw_crc zip_fw = crc32_cal zip_raw"
  by (simp_all add: demo_fw_def demo_head_def zip_fw_def sealed_head_def demo_head_of_def zip_body_def zip_raw_def demo_body_def)

lemma demo_bytes_length: "length (bytes_of_fw_info demo_fw) = 96"
  using demo_fw_wf by (simp add: sizeof_fw_info_def)

lemma demo_plain: "plain_fw demo_fw" and demo_pkg_size: "pkg_size demo_fw = 8"
  by (simp_all add: plain_fw_def) (simp_all add: demo_fw_def demo_head_def sealed_head_def demo_head_of_def algo_id_defs)

lemma demo_view:
  "custom_view nor_cfg nor_stores (\<lambda>s. s) s H_download = \<lparr>v_open = True,
     v_cell = (\<lambda>i. if i < 8192 then s (8192 + i) else 0), v_ready = (\<lambda>i. i < 8192 \<and> s (8192 + i) = 0xFF)\<rparr>"
  "custom_view nor_cfg nor_stores (\<lambda>s. s) s H_app = \<lparr>v_open = True,
     v_cell = (\<lambda>i. if i < 8192 then s i else 0), v_ready = (\<lambda>i. i < 8192 \<and> s i = 0xFF)\<rparr>"
  using nor_region [of H_download 8192 8192] nor_region [of H_app 0 8192]
  by (simp_all add: custom_view_def fun_eq_iff)

lemma demo_cells: "off + n \<le> 8192 \<Longrightarrow>
  cells (v_cell (custom_view nor_cfg nor_stores (\<lambda>s. s) s H_download)) off n = cells s (8192 + off) n"
  by (auto simp: demo_view intro!: nth_equalityI simp: add.assoc)

lemma demo_sizes [simp]:
  "custom_dev_size nor_cfg nor_stores H_download = 8192" "custom_dev_size nor_cfg nor_stores H_app = 8192"
  using nor_region [of H_download 8192 8192] nor_region [of H_app 0 8192]
  by (simp_all add: custom_dev_size_def custom_region_def split: option.splits if_splits)

lemma flash_cells:
  assumes "wf_fw_info fw"
  shows "cells (flash_of fw body) 8192 96 = bytes_of_fw_info fw" "cells (flash_of fw body) 8288 (length body) = body"
proof -
  have l: "length (bytes_of_fw_info fw) = 96" using assms by (simp add: sizeof_fw_info_def)
  have eq: "flash_of fw body = splice 8288 body (splice 8192 (bytes_of_fw_info fw) (\<lambda>_. 0xFF))"
    using splice_append [of 8192 "bytes_of_fw_info fw" body] by (simp add: flash_of_def l)
  show "cells (flash_of fw body) 8192 96 = bytes_of_fw_info fw"
    using cells_splice_same [of 8192 "bytes_of_fw_info fw"] by (simp add: eq cells_splice_disjoint l)
  show "cells (flash_of fw body) 8288 (length body) = body"
    using cells_splice_same [of 8288 body] by (simp add: eq)
qed

lemma flash_package:
  assumes "wf_fw_info fw" and "unat (pkg_size fw) = length body" and "length body \<le> 4096"
  shows "header_of (custom_view nor_cfg nor_stores (\<lambda>s. s)) (flash_of fw body) H_download = fw"
    and "body_of (custom_view nor_cfg nor_stores (\<lambda>s. s)) (flash_of fw body) H_download fw = body"
  using fw_info_of_bytes_of [OF assms(1), of "[]"] flash_cells [OF assms(1), of body] assms(2,3)
  by (simp_all add: header_of_def body_of_def demo_cells)

lemma demo_flash_cells: "cells demo_flash 8192 96 = bytes_of_fw_info demo_fw" "cells demo_flash 8288 8 = demo_body"
proof -
  have "length demo_body = 8" by (simp add: demo_body_def)
  then show "cells demo_flash 8192 96 = bytes_of_fw_info demo_fw" "cells demo_flash 8288 8 = demo_body"
    using flash_cells [OF demo_fw_wf, of demo_body] by (simp_all add: demo_flash_def)
qed

lemma demo_header: "header_of (custom_view nor_cfg nor_stores (\<lambda>s. s)) demo_flash H_download = demo_fw"
  and demo_body_of: "body_of (custom_view nor_cfg nor_stores (\<lambda>s. s)) demo_flash H_download demo_fw = demo_body"
  unfolding demo_flash_def by (rule flash_package [OF demo_fw_wf]; simp add: demo_body_def)+

lemma zip_header: "header_of (custom_view nor_cfg nor_stores (\<lambda>s. s)) zip_flash H_download = zip_fw"
  and zip_body_of: "body_of (custom_view nor_cfg nor_stores (\<lambda>s. s)) zip_flash H_download zip_fw = zip_body"
  unfolding zip_flash_def by (rule flash_package [OF zip_fw_wf]; simp add: zip_body_def)+

lemma demo_fits: "fits (custom_dev_size nor_cfg nor_stores) H_download demo_fw"
  and zip_fits: "fits (custom_dev_size nor_cfg nor_stores) H_download zip_fw"
  by (simp_all add: fits_def)

lemma demo_room: "room_for (custom_dev_size nor_cfg nor_stores) H_app 8192 demo_fw"
  and zip_room: "room_for (custom_dev_size nor_cfg nor_stores) H_app 8192 zip_fw"
  by (simp_all add: room_for_def)

text \<open>The images: the body of the first, the decoded blocks of the second, the inflated body of the third.\<close>

lemma demo_image: "package_image nor_cfg L demo_fw demo_body = Some demo_body"
  using demo_plain by (rule plain_image) (simp add: demo_body_def)

lemma zip_image: "package_image nor_cfg nor_libs zip_fw zip_body = Some zip_raw"
proof -
  have alg: "algo zip_fw AND QBOOT_ALGO_CRYPT_MASK = QBOOT_ALGO_CRYPT_AES"
    "algo zip_fw AND QBOOT_ALGO_CMPRS_MASK = QBOOT_ALGO_CMPRS_FASTLZ"
    by (simp_all add: zip_fw_def sealed_head_def demo_head_of_def algo_id_defs)
  have c: "using_aes nor_cfg" "using_fastlz nor_cfg" "enospc_is_posix nor_cfg" by (simp_all add: nor_cfg_def)
  have d: "deciphered nor_cfg nor_libs zip_fw zip_body = Some [0, 0, 0, 2, 5, 9, 0, 0, 0, 4, 2, 1, 1, 2]"
    by (simp add: deciphered_def alg c Let_def) (simp add: algo_id_defs nor_libs_def xor_tinycrypt_def aes_plain_def aes_start_def zip_body_def)
  have "unpack_blocks (fastlz_block rle_lib) () 8 [0, 0, 0, 2, 5, 9, 0, 0, 0, 4, 2, 1, 1, 2] = Some zip_raw"
    by code_simp
  then have "unpacked nor_cfg nor_libs zip_fw [0, 0, 0, 2, 5, 9, 0, 0, 0, 4, 2, 1, 1, 2] = Some zip_raw"
    by (simp add: unpacked_def alg c Let_def) (simp add: algo_id_defs nor_libs_def)
  with d show ?thesis by (simp add: package_image_def)
qed

lemma gz_fw_sizes [simp]: "raw_size gz_fw = 40" "pkg_size gz_fw = 40"
  by (simp_all add: gz_fw_def sealed_head_def demo_head_of_def gz_body_def gz_raw_def)

lemma gz_fits: "fits (custom_dev_size nor_cfg nor_stores) H_download gz_fw"
  by (simp add: fits_def)

lemma gz_image: "package_image nor_cfg nor_libs gz_fw gz_body = Some gz_raw"
proof -
  have alg: "algo gz_fw AND QBOOT_ALGO_CRYPT_MASK = QBOOT_ALGO_CRYPT_AES"
    "algo gz_fw AND QBOOT_ALGO_CMPRS_MASK = QBOOT_ALGO_CMPRS_GZIP"
    by (simp_all add: gz_fw_def sealed_head_def demo_head_of_def algo_id_defs)
  have c: "using_aes nor_cfg" "using_gzip nor_cfg" by (simp_all add: nor_cfg_def)
  have "map (\<lambda>b. b XOR 0x5A) gz_body = gz_raw" by (simp add: gz_body_def comp_def xor.assoc)
  then have d: "deciphered nor_cfg nor_libs gz_fw gz_body = Some gz_raw"
    by (simp add: deciphered_def alg c Let_def) (simp add: algo_id_defs nor_libs_def xor_tinycrypt_def aes_plain_def aes_start_def)
  have l: "length gz_raw = 40" by (simp add: gz_raw_def)
  have "gunzip copy_zlib () (length gz_raw) [] gz_raw = Some gz_raw"
    using gunzip_one [of copy_zlib gz_raw gz_raw "()" 0] l by (simp add: copy_zlib_def inflate_ok_def z_code_defs)
  then have "unpacked nor_cfg nor_libs gz_fw gz_raw = Some gz_raw"
    using l by (simp add: unpacked_def alg c Let_def) (simp add: algo_id_defs nor_libs_def copy_zlib_def)
  with d show ?thesis by (simp add: package_image_def)
qed

lemma short_fw_short: "short_gzip_fw short_fw" and short_pkg_size: "pkg_size short_fw = 8"
  by (simp_all add: short_gzip_fw_def short_fw_def sealed_head_def demo_head_of_def demo_body_def algo_id_defs)

lemma demo_package_ok: "package_ok (custom_view nor_cfg nor_stores (\<lambda>s. s)) nor_env demo_flash H_download demo_fw demo_body"
  and zip_package_ok: "package_ok (custom_view nor_cfg nor_stores (\<lambda>s. s)) nor_env zip_flash H_download zip_fw zip_raw"
  by (simp_all add: package_ok_def demo_body_of zip_body_of)
    (simp_all add: demo_fw_def demo_head_def zip_fw_def sealed_check)

lemma boot_on_simps [simp]: "w_dev (b_world (boot_on s)) = s" "wf_fw_info (g_fw_info (boot_on s))"
  "wf_mem nor_cfg (w_mem (b_world (boot_on s)))"
  by (simp_all add: boot_on_def sizeof_fw_info_def wf_mem_def using_compression_def nor_cfg_def buf_sizes)

lemma demo_boot_simps [simp]: "w_dev (b_world demo_boot) = demo_flash" "wf_fw_info (g_fw_info demo_boot)"
  "wf_mem nor_cfg (w_mem (b_world demo_boot))"
  by (simp_all add: demo_boot_def)

lemma demo_sign_pos: "unat (release_sign_pos nor_cfg demo_fw) = 104" and zip_sign_pos: "unat (release_sign_pos nor_cfg zip_fw) = 112"
  by (simp_all add: release_sign_pos_def nor_cfg_def qboot_src_read_pos_def sizeof_fw_info_def)

lemma demo_open [simp]:
  "v_open (custom_view nor_cfg nor_stores (\<lambda>s. s) s H_download)"
  "v_open (custom_view nor_cfg nor_stores (\<lambda>s. s) s H_app)"
  by (simp_all add: demo_view)

section \<open>The streams of the packages\<close>

lemma nor_src_pos [simp]: "unat (qboot_src_read_pos nor_cfg) = 96"
  using nor_base.src_pos by simp

interpretation demo_stream: none_stream "g_qboot_io_custom nor_cfg nor_stores (nor_hooks 512)"
  "custom_view nor_cfg nor_stores (\<lambda>s. s)" "qbt_algo_none_crypt nor_cfg" nor_cfg
  "stream_cfg_of nor_cfg H_download demo_fw (package_ctx nor_cfg nor_libs demo_fw)"
  "custom_dev_size nor_cfg nor_stores" "\<lambda>_. ()" "\<lambda>k bs. (bs, k)"
  by unfold_locales
    (use demo_plain in \<open>auto simp: stream_cfg_of_def package_ctx_def plain_fw_def dec_of_def qbt_algo_none_cmprs_ops_def
      qbt_algo_none_crypt_ops_def algo_id_defs\<close>)

interpretation zip_handler: handler_stream "g_qboot_io_custom nor_cfg nor_stores (nor_hooks 512)"
  "custom_view nor_cfg nor_stores (\<lambda>s. s)" "custom_dev_size nor_cfg nor_stores"
  "qbt_algo_aes_crypt xor_tinycrypt" nor_cfg "\<lambda>a. (qbt_aes_ctx a, qbt_aes_iv a)" "aes_plain xor_tinycrypt"
  "qbt_algo_aes_crypt_ops xor_tinycrypt" "aes_start xor_tinycrypt" H_download zip_fw
  by unfold_locales simp_all

interpretation zip_stream: block_stream "g_qboot_io_custom nor_cfg nor_stores (nor_hooks 512)"
  "custom_view nor_cfg nor_stores (\<lambda>s. s)" "qbt_algo_fastlz_decompress rle_lib" "qbt_algo_aes_crypt xor_tinycrypt" nor_cfg
  "stream_cfg_of nor_cfg H_download zip_fw (zip_handler.ctx_of (qbt_algo_fastlz_cmprs_ops rle_lib))"
  "custom_dev_size nor_cfg nor_stores" "\<lambda>a. (qbt_aes_ctx a, qbt_aes_iv a)" "aes_plain xor_tinycrypt" "\<lambda>_. ()" "fastlz_block rle_lib"
  by (rule zip_handler.fastlz_stream [OF rle.fastlz_library_axioms]) (simp_all add: nor_cfg_def)

interpretation gz_handler: handler_stream "g_qboot_io_custom nor_cfg nor_stores (nor_hooks 512)"
  "custom_view nor_cfg nor_stores (\<lambda>s. s)" "custom_dev_size nor_cfg nor_stores"
  "qbt_algo_aes_crypt xor_tinycrypt" nor_cfg "\<lambda>a. (qbt_aes_ctx a, qbt_aes_iv a)" "aes_plain xor_tinycrypt"
  "qbt_algo_aes_crypt_ops xor_tinycrypt" "aes_start xor_tinycrypt" H_download gz_fw
  by unfold_locales simp_all

interpretation gz_stream: gzip_stream "g_qboot_io_custom nor_cfg nor_stores (nor_hooks 512)"
  "custom_view nor_cfg nor_stores (\<lambda>s. s)" copy_zlib "qbt_algo_aes_crypt xor_tinycrypt" nor_cfg
  "stream_cfg_of nor_cfg H_download gz_fw (gz_handler.ctx_of (qbt_algo_gzip_cmprs_ops copy_zlib))"
  "custom_dev_size nor_cfg nor_stores" "\<lambda>a. (qbt_aes_ctx a, qbt_aes_iv a)" "aes_plain xor_tinycrypt"
  by (rule gz_handler.gzip_stream) (simp add: nor_cfg_def)

end
