(* ===== verification/Qboot_Update.thy ===== *)
theory Qboot_Update
  imports Qboot_Ops
begin

text \<open>
  The update manager of \<open>src/qboot_update.c\<close>: the state machine that waits for a download,
  receives it and lets the bootloader go on, the download helper that writes the package to the
  \<open>download\<close> target, and the shell access to the persistent update reason.

  The handlers are called from other threads than the one that polls; here every handler and
  every pass of the poll loop is one step, and time passes between steps.
\<close>

section \<open>Data\<close>

datatype qbt_upd_state = UPD_IDLE | UPD_WAIT | UPD_RECV | UPD_DONE | UPD_ERROR | UPD_READY

definition QBT_UPD_REASON_NONE :: u32 where "QBT_UPD_REASON_NONE = 0"
definition QBT_UPD_REASON_REQ :: u32 where "QBT_UPD_REASON_REQ = 1"
definition QBT_UPD_REASON_IN_PROGRESS :: u32 where "QBT_UPD_REASON_IN_PROGRESS = 2"
definition QBT_UPD_REASON_DONE :: u32 where "QBT_UPD_REASON_DONE = 3"

lemmas reason_defs = QBT_UPD_REASON_NONE_def QBT_UPD_REASON_REQ_def
  QBT_UPD_REASON_IN_PROGRESS_def QBT_UPD_REASON_DONE_def

text \<open>The callbacks of the product act on a state \<open>'p\<close> of their own.\<close>

record 'p qbt_update_ops =
  is_app_valid :: "'p \<Rightarrow> bool \<times> 'p"
  get_reason :: "'p \<Rightarrow> u32 \<times> 'p"
  set_reason :: "u32 \<Rightarrow> 'p \<Rightarrow> 'p"
  enter_download :: "'p \<Rightarrow> 'p"
  leave_download :: "'p \<Rightarrow> 'p"
  on_error :: "int \<Rightarrow> 'p \<Rightarrow> 'p"
  on_ready_to_app :: "'p \<Rightarrow> 'p"
  try_recover :: "'p \<Rightarrow> bool \<times> 'p"

text \<open>
  What the manager uses and does not change. \<open>ue_ms\<close> is \<open>rt_tick_from_millisecond\<close>;
  \<open>ue_progress\<close> and \<open>ue_print\<close> are the two progress options of the build. The callbacks are documented
  to be there, and only the reason command tests it: \<open>ue_reason_ops\<close> says whether a table with
  \<open>get_reason\<close> and \<open>set_reason\<close> is registered.
\<close>

record ('s, 'p) upd_env =
  ue_cfg :: qboot_cfg
  ue_stores :: stores
  ue_io :: "'s qboot_io_ops"
  ue_parser :: "'s qboot_header_parser_ops"
  ue_ops :: "'p qbt_update_ops"
  ue_reason_ops :: bool
  ue_progress :: bool
  ue_print :: bool
  ue_ms :: "u32 \<Rightarrow> u32"

text \<open>
  The state: \<open>s_mgr\<close> without its callbacks, \<open>s_dl\<close> of the helper, the progress counters, the
  tick counter, the devices and the product's state.
\<close>

record ('s, 'p) upd =
  u_state :: qbt_upd_state
  wait_start :: u32
  download_last :: u32
  wait_ms :: u32
  idle_ms :: u32
  ready_flag :: bool
  recover_probe_used :: bool
  dl_desc :: "qboot_store_desc option"
  dl_handle :: handle
  dl_size :: u32
  dl_ok :: bool
  dl_total_bytes :: u32
  dl_done_bytes :: u32
  dl_last_print :: u32
  dl_last_percent :: u32
  u_tick :: u32
  u_dev :: 's
  u_env :: 'p

type_synonym ('s, 'p) handler = "('s, 'p) upd_env \<Rightarrow> ('s, 'p) upd \<Rightarrow> ('s, 'p) upd"

section \<open>State changes\<close>

definition qbt_update_mgr_set_state :: "qbt_upd_state \<Rightarrow> ('s, 'p) upd \<Rightarrow> ('s, 'p) upd" where
  "qbt_update_mgr_set_state st u =
     (let u1 = u\<lparr>u_state := st\<rparr>
      in if st = UPD_WAIT then u1\<lparr>wait_start := u_tick u\<rparr>
         else if st = UPD_RECV then u1\<lparr>download_last := u_tick u\<rparr>
         else u1)"

definition qbt_update_mgr_reset_recover_probe :: "('s, 'p) upd \<Rightarrow> ('s, 'p) upd" where
  "qbt_update_mgr_reset_recover_probe u = u\<lparr>recover_probe_used := False\<rparr>"

definition qbt_update_mgr_try_recover_once :: "('s, 'p) upd_env \<Rightarrow> ('s, 'p) upd \<Rightarrow> bool \<times> ('s, 'p) upd" where
  "qbt_update_mgr_try_recover_once E u =
     (if recover_probe_used u then (False, u)
      else case try_recover (ue_ops E) (u_env u) of
        (r, p) \<Rightarrow> (r, u\<lparr>recover_probe_used := True, u_env := p\<rparr>))"

definition qbt_update_mgr_download_cleanup :: "('s, 'p) handler" where
  "qbt_update_mgr_download_cleanup E u =
     (if dl_handle u \<noteq> H_NULL
      then u\<lparr>u_dev := qbt_target_close (ue_io E) (dl_handle u) (u_dev u), dl_handle := H_NULL\<rparr>
      else u)"

definition qbt_update_mgr_set_download_ok :: "bool \<Rightarrow> ('s, 'p) handler" where
  "qbt_update_mgr_set_download_ok ok E u = qbt_update_mgr_download_cleanup E (u\<lparr>dl_ok := ok\<rparr>)"

definition upd_set_reason :: "u32 \<Rightarrow> ('s, 'p) handler" where
  "upd_set_reason r E u = u\<lparr>u_env := set_reason (ue_ops E) r (u_env u)\<rparr>"

definition qbt_update_mgr_ready :: "('s, 'p) handler" where
  "qbt_update_mgr_ready E u =
     (let u1 = qbt_update_mgr_set_state UPD_READY (u\<lparr>ready_flag := True\<rparr>);
          u2 = (if using_download_helper (ue_cfg E) then qbt_update_mgr_download_cleanup E u1 else u1)
      in u2\<lparr>u_env := on_ready_to_app (ue_ops E) (u_env u2)\<rparr>)"

section \<open>Events\<close>

definition qbt_update_reset_progress :: "('s, 'p) upd \<Rightarrow> ('s, 'p) upd" where
  "qbt_update_reset_progress u = u\<lparr>dl_done_bytes := 0, dl_last_print := 0, dl_last_percent := 0\<rparr>"

definition qbt_update_mgr_set_total :: "u32 \<Rightarrow> ('s, 'p) handler" where
  "qbt_update_mgr_set_total n E u = (if ue_progress E then u\<lparr>dl_total_bytes := n\<rparr> else u)"

definition qbt_update_mgr_on_data_len :: "u32 \<Rightarrow> ('s, 'p) handler" where
  "qbt_update_mgr_on_data_len n E u =
     (if ue_progress E then u\<lparr>dl_done_bytes := dl_done_bytes u + n\<rparr> else u)"

definition qbt_update_mgr_on_request :: "('s, 'p) handler" where
  "qbt_update_mgr_on_request E u =
     qbt_update_mgr_set_state UPD_WAIT (upd_set_reason QBT_UPD_REASON_REQ E u)"

definition qbt_update_mgr_on_start :: "('s, 'p) handler" where
  "qbt_update_mgr_on_start E u =
     (let u1 = qbt_update_mgr_reset_recover_probe u;
          u2 = u1\<lparr>u_env := enter_download (ue_ops E) (u_env u1)\<rparr>;
          u3 = qbt_update_mgr_set_state UPD_RECV u2
      in if ue_progress E then qbt_update_reset_progress u3 else u3)"

definition qbt_update_mgr_on_data :: "('s, 'p) upd \<Rightarrow> ('s, 'p) upd" where
  "qbt_update_mgr_on_data u = (if u_state u = UPD_RECV then u\<lparr>download_last := u_tick u\<rparr> else u)"

definition qbt_update_mgr_on_finish :: "bool \<Rightarrow> ('s, 'p) handler" where
  "qbt_update_mgr_on_finish ok E u =
     (let u1 = u\<lparr>u_env := leave_download (ue_ops E) (u_env u)\<rparr>;
          u2 = (if using_download_helper (ue_cfg E) then qbt_update_mgr_set_download_ok ok E u1 else u1)
      in if ok then qbt_update_mgr_ready E (upd_set_reason QBT_UPD_REASON_DONE E u2)
         else let u3 = u2\<lparr>u_state := UPD_ERROR\<rparr>;
                  u4 = u3\<lparr>u_env := on_error (ue_ops E) (- 1) (u_env u3)\<rparr>
              in qbt_update_mgr_set_state UPD_WAIT u4)"

definition qbt_update_mgr_on_abort :: "('s, 'p) handler" where
  "qbt_update_mgr_on_abort E u =
     qbt_update_mgr_set_state UPD_WAIT (u\<lparr>u_env := leave_download (ue_ops E) (u_env u)\<rparr>)"

definition qboot_notify_update_result :: "bool \<Rightarrow> ('s, 'p) handler" where
  "qboot_notify_update_result success E u =
     (if success then upd_set_reason QBT_UPD_REASON_DONE E u
      else qbt_update_mgr_set_state UPD_WAIT (upd_set_reason QBT_UPD_REASON_IN_PROGRESS E u))"

definition qbt_update_mgr_register :: "u32 \<Rightarrow> u32 \<Rightarrow> ('s, 'p) handler" where
  "qbt_update_mgr_register wait idle E u =
     (let u1 = qbt_update_mgr_reset_recover_probe (u\<lparr>ready_flag := False\<rparr>);
          u2 = u1\<lparr>wait_ms := wait, idle_ms := idle\<rparr>;
          (reason, p) = get_reason (ue_ops E) (u_env u2);
          u3 = u2\<lparr>u_env := p\<rparr>
      in if reason = QBT_UPD_REASON_IN_PROGRESS then qbt_update_mgr_set_state UPD_WAIT u3
         else if reason = QBT_UPD_REASON_NONE \<or> reason = QBT_UPD_REASON_DONE then
           (case is_app_valid (ue_ops E) (u_env u3) of
              (True, q) \<Rightarrow> qbt_update_mgr_ready E (u3\<lparr>u_env := q\<rparr>)
            | (False, q) \<Rightarrow> qbt_update_mgr_set_state UPD_WAIT (u3\<lparr>u_env := q\<rparr>))
         else if reason = QBT_UPD_REASON_REQ then qbt_update_mgr_on_request E u3
         else qbt_update_mgr_set_state UPD_WAIT u3)"

section \<open>The download helper\<close>

definition qbt_update_mgr_download_begin :: "('s, 'p) upd_env \<Rightarrow> ('s, 'p) upd \<Rightarrow> bool \<times> ('s, 'p) upd" where
  "qbt_update_mgr_download_begin E u =
     (let u0 = u\<lparr>dl_desc := qbt_target_desc (ue_cfg E) (ue_stores E) QBOOT_TARGET_DOWNLOAD\<rparr>
      in if dl_desc u0 = None then (False, u0)
         else
           let u1 = qbt_update_mgr_set_download_ok False E (qbt_update_mgr_download_cleanup E u0);
               ((ok, h, n), s) = qbt_target_open (ue_io E) QBOOT_TARGET_DOWNLOAD True
                 (QBT_OPEN_WRITE OR QBT_OPEN_CREATE OR QBT_OPEN_TRUNC) (u_dev u1);
               u2 = u1\<lparr>dl_handle := h, dl_size := (if ok then n else dl_size u1), u_dev := s\<rparr>
           in if \<not> ok then (False, u2)
              else
                let (_, s3) = qbt_release_sign_clear (ue_parser E) (dl_handle u2) None (u_dev u2);
                    (e, s4) = qbt_erase_with_feed (ue_io E) (dl_handle u2) 0 (dl_size u2) s3;
                    u4 = u2\<lparr>u_dev := s4\<rparr>
                in if e \<noteq> RT_EOK then (False, qbt_update_mgr_download_cleanup E u4)
                   else (True, qbt_update_mgr_on_start E (qbt_update_mgr_set_total (dl_size u4) E u4)))"

definition qbt_update_mgr_download_write ::
  "u32 \<Rightarrow> byte list \<Rightarrow> ('s, 'p) upd_env \<Rightarrow> ('s, 'p) upd \<Rightarrow> bool \<times> ('s, 'p) upd" where
  "qbt_update_mgr_download_write off data E u =
     (if dl_handle u = H_NULL then (False, u)
      else case io_write (ue_io E) (dl_handle u) off data (u_dev u) of
        (e, s) \<Rightarrow>
          let u1 = u\<lparr>u_dev := s\<rparr>
          in if e \<noteq> RT_EOK
             then (False, qbt_update_mgr_download_cleanup E (qbt_update_mgr_on_finish False E u1))
             else (True, qbt_update_mgr_on_data_len (of_nat (length data)) E (qbt_update_mgr_on_data u1)))"

text \<open>The helper's check called with a null header pointer: it only decides.\<close>

definition helper_allow :: "bool \<Rightarrow> byte list \<Rightarrow> bool" where
  "helper_allow ok name =
     (if rt_streq name QBOOT_DOWNLOAD_PART_NAME then ok else rt_streq name QBOOT_FACTORY_PART_NAME)"

definition probe_part ::
  "('s, 'p) upd_env \<Rightarrow> qbt_target_id \<Rightarrow> string \<Rightarrow> ('s, 'p) upd \<Rightarrow> bool \<times> ('s, 'p) upd" where
  "probe_part E i name u =
     (case qbt_target_open (ue_io E) i True QBT_OPEN_READ (u_dev u) of
        ((False, _, _), s) \<Rightarrow> (False, u\<lparr>u_dev := s\<rparr>)
      | ((True, h, _), s) \<Rightarrow>
          (helper_allow (dl_ok u) (str_bytes name @ [0]), u\<lparr>u_dev := qbt_target_close (ue_io E) h s\<rparr>))"

definition qbt_update_mgr_try_recover :: "('s, 'p) upd_env \<Rightarrow> ('s, 'p) upd \<Rightarrow> bool \<times> ('s, 'p) upd" where
  "qbt_update_mgr_try_recover E u =
     (case probe_part E QBOOT_TARGET_DOWNLOAD QBOOT_DOWNLOAD_PART_NAME u of
        (True, u1) \<Rightarrow> (True, u1)
      | (False, u1) \<Rightarrow> probe_part E QBOOT_TARGET_FACTORY QBOOT_FACTORY_PART_NAME u1)"

section \<open>The poll loop\<close>

text \<open>What happens at the end of the wait window and of an idle download.\<close>

definition leave_or ::
  "('s, 'p) upd_env \<Rightarrow> (('s, 'p) upd \<Rightarrow> ('s, 'p) upd) \<Rightarrow> ('s, 'p) upd \<Rightarrow> ('s, 'p) upd" where
  "leave_or E stay u =
     (case is_app_valid (ue_ops E) (u_env u) of
        (True, p) \<Rightarrow> qbt_update_mgr_ready E (upd_set_reason QBT_UPD_REASON_NONE E (u\<lparr>u_env := p\<rparr>))
      | (False, p) \<Rightarrow>
          (case qbt_update_mgr_try_recover_once E (u\<lparr>u_env := p\<rparr>) of
             (True, u1) \<Rightarrow> qbt_update_mgr_ready E (upd_set_reason QBT_UPD_REASON_NONE E u1)
           | (False, u1) \<Rightarrow> stay u1))"

definition poll_progress :: "u32 \<Rightarrow> ('s, 'p) handler" where
  "poll_progress now E u =
     (if ue_progress E \<and> ue_print E \<and> now - dl_last_print u \<ge> ue_ms E 500
      then let u1 = (if dl_total_bytes u > 0
                     then u\<lparr>dl_last_percent := (dl_done_bytes u * 100) div dl_total_bytes u\<rparr> else u)
           in u1\<lparr>dl_last_print := now\<rparr>
      else u)"

text \<open>One pass of the loop, without the delay.\<close>

definition poll_pass :: "('s, 'p) handler" where
  "poll_pass E u =
     (let now = u_tick u in
      if u_state u = UPD_WAIT then
        (if wait_ms u > 0 \<and> now - wait_start u \<ge> wait_ms u
         then leave_or E (\<lambda>v. v\<lparr>wait_start := now\<rparr>) u else u)
      else if u_state u = UPD_RECV then
        poll_progress now E
          (if idle_ms u > 0 \<and> now - download_last u \<ge> idle_ms u
           then leave_or E (qbt_update_mgr_set_state UPD_WAIT) u else u)
      else u)"

text \<open>
  The loop: the schedule says what happens during the delay after pass \<open>k\<close>, that is, how far
  the tick counter moves and which handlers the other threads call.
\<close>

datatype upd_event =
  Ev_ticks u32
| Ev_request
| Ev_start
| Ev_data
| Ev_data_len u32
| Ev_finish bool
| Ev_abort
| Ev_begin
| Ev_write u32 "byte list"
| Ev_poll

fun upd_handle :: "('s, 'p) upd_env \<Rightarrow> upd_event \<Rightarrow> ('s, 'p) upd \<Rightarrow> ('s, 'p) upd" where
  "upd_handle E (Ev_ticks n) u = u\<lparr>u_tick := u_tick u + n\<rparr>"
| "upd_handle E Ev_request u = qbt_update_mgr_on_request E u"
| "upd_handle E Ev_start u = qbt_update_mgr_on_start E u"
| "upd_handle E Ev_data u = qbt_update_mgr_on_data u"
| "upd_handle E (Ev_data_len n) u = qbt_update_mgr_on_data_len n E u"
| "upd_handle E (Ev_finish ok) u = qbt_update_mgr_on_finish ok E u"
| "upd_handle E Ev_abort u = qbt_update_mgr_on_abort E u"
| "upd_handle E Ev_begin u = snd (qbt_update_mgr_download_begin E u)"
| "upd_handle E (Ev_write off bs) u = snd (qbt_update_mgr_download_write off bs E u)"
| "upd_handle E Ev_poll u = (if ready_flag u then u else poll_pass E u)"

type_synonym schedule = "nat \<Rightarrow> upd_event list"

definition poll_body ::
  "('s, 'p) upd_env \<Rightarrow> schedule \<Rightarrow> nat \<times> ('s, 'p) upd \<Rightarrow>
   (nat \<times> ('s, 'p) upd, ('s, 'p) upd) iter option" where
  "poll_body E sched x =
     (case x of (k, u) \<Rightarrow>
        if ready_flag u then Some (Stop u)
        else Some (Again (Suc k, fold (upd_handle E) (sched k) (poll_pass E u))))"

definition qbt_update_mgr_poll ::
  "('s, 'p) upd_env \<Rightarrow> schedule \<Rightarrow> ('s, 'p) upd \<Rightarrow> ('s, 'p) upd option" where
  "qbt_update_mgr_poll E sched u = run_loop (poll_body E sched) (0, u\<lparr>wait_start := u_tick u\<rparr>)"

section \<open>Reachable states\<close>

text \<open>
  The static initial state, a registration, and any sequence of steps.
\<close>

definition upd_static :: "('s, 'p) upd \<Rightarrow> bool" where
  "upd_static u \<longleftrightarrow> u_state u = UPD_IDLE \<and> \<not> ready_flag u \<and> \<not> dl_ok u \<and> dl_handle u = H_NULL"

inductive upd_reach :: "('s, 'p) upd_env \<Rightarrow> ('s, 'p) upd \<Rightarrow> bool" for E where
  registered: "upd_static u \<Longrightarrow> upd_reach E (qbt_update_mgr_register wait idle E u)"
| step: "upd_reach E u \<Longrightarrow> upd_reach E (upd_handle E ev u)"

definition upd_inv :: "('s, 'p) upd \<Rightarrow> bool" where
  "upd_inv u \<longleftrightarrow> u_state u \<noteq> UPD_DONE \<and> u_state u \<noteq> UPD_ERROR \<and>
     (u_state u = UPD_READY \<longrightarrow> ready_flag u) \<and> (dl_ok u \<longrightarrow> dl_handle u = H_NULL)"

lemmas upd_defs = qbt_update_mgr_set_state_def qbt_update_mgr_reset_recover_probe_def
  qbt_update_mgr_try_recover_once_def qbt_update_mgr_download_cleanup_def
  qbt_update_mgr_set_download_ok_def upd_set_reason_def qbt_update_mgr_ready_def
  qbt_update_reset_progress_def qbt_update_mgr_set_total_def qbt_update_mgr_on_data_len_def
  qbt_update_mgr_on_request_def qbt_update_mgr_on_start_def qbt_update_mgr_on_data_def
  qbt_update_mgr_on_finish_def qbt_update_mgr_on_abort_def

lemma inv_set_state [simp]:
  "upd_inv (qbt_update_mgr_set_state st u) \<longleftrightarrow> st \<noteq> UPD_DONE \<and> st \<noteq> UPD_ERROR \<and>
     (st = UPD_READY \<longrightarrow> ready_flag u) \<and> (dl_ok u \<longrightarrow> dl_handle u = H_NULL)"
  by (simp add: upd_inv_def qbt_update_mgr_set_state_def Let_def)

lemma inv_env [simp]: "upd_inv (u\<lparr>u_env := p\<rparr>) = upd_inv u"
  and inv_dev [simp]: "upd_inv (u\<lparr>u_dev := s\<rparr>) = upd_inv u"
  by (simp_all add: upd_inv_def)

lemma set_reason_fields [simp]:
  "upd_inv (upd_set_reason r E u) = upd_inv u" "dl_ok (upd_set_reason r E u) = dl_ok u"
  "dl_handle (upd_set_reason r E u) = dl_handle u" "ready_flag (upd_set_reason r E u) = ready_flag u"
  "u_state (upd_set_reason r E u) = u_state u"
  by (simp_all add: upd_set_reason_def)

lemma cleanup_fields [simp]:
  "u_state (qbt_update_mgr_download_cleanup E u) = u_state u"
  "ready_flag (qbt_update_mgr_download_cleanup E u) = ready_flag u"
  "dl_ok (qbt_update_mgr_download_cleanup E u) = dl_ok u"
  "dl_handle (qbt_update_mgr_download_cleanup E u) = H_NULL"
  "recover_probe_used (qbt_update_mgr_download_cleanup E u) = recover_probe_used u"
  "u_env (qbt_update_mgr_download_cleanup E u) = u_env u"
  by (simp_all add: qbt_update_mgr_download_cleanup_def)

lemma set_ok_fields [simp]:
  "u_state (qbt_update_mgr_set_download_ok b E u) = u_state u"
  "ready_flag (qbt_update_mgr_set_download_ok b E u) = ready_flag u"
  "dl_ok (qbt_update_mgr_set_download_ok b E u) = b"
  "dl_handle (qbt_update_mgr_set_download_ok b E u) = H_NULL"
  "recover_probe_used (qbt_update_mgr_set_download_ok b E u) = recover_probe_used u"
  "u_env (qbt_update_mgr_set_download_ok b E u) = u_env u"
  by (simp_all add: qbt_update_mgr_set_download_ok_def)

lemma inv_cleanup: "upd_inv u \<Longrightarrow> upd_inv (qbt_update_mgr_download_cleanup E u)"
  by (simp add: upd_inv_def)

lemma ready_fields:
  "u_state (qbt_update_mgr_ready E u) = UPD_READY" "ready_flag (qbt_update_mgr_ready E u)"
  "dl_ok (qbt_update_mgr_ready E u) = dl_ok u"
  "using_download_helper (ue_cfg E) \<Longrightarrow> dl_handle (qbt_update_mgr_ready E u) = H_NULL"
  "dl_handle (qbt_update_mgr_ready E u) = H_NULL \<or> dl_handle (qbt_update_mgr_ready E u) = dl_handle u"
  by (simp_all add: qbt_update_mgr_ready_def qbt_update_mgr_set_state_def Let_def)

lemma inv_ready: "(dl_ok u \<longrightarrow> dl_handle u = H_NULL) \<Longrightarrow> upd_inv (qbt_update_mgr_ready E u)"
  using ready_fields(5) [of E u] by (auto simp: upd_inv_def ready_fields(1-3))

lemma inv_dl: "upd_inv u \<Longrightarrow> dl_ok u \<longrightarrow> dl_handle u = H_NULL"
  by (simp add: upd_inv_def)

lemma inv_start: "(dl_ok u \<longrightarrow> dl_handle u = H_NULL) \<Longrightarrow> upd_inv (qbt_update_mgr_on_start E u)"
  by (auto simp: qbt_update_mgr_on_start_def Let_def qbt_update_mgr_reset_recover_probe_def
      qbt_update_reset_progress_def qbt_update_mgr_set_state_def upd_inv_def)

lemma inv_finish: "upd_inv u \<Longrightarrow> upd_inv (qbt_update_mgr_on_finish ok E u)"
  using inv_dl [of u] by (simp add: qbt_update_mgr_on_finish_def Let_def inv_ready)

lemma inv_set_total [simp]: "upd_inv (qbt_update_mgr_set_total n E u) = upd_inv u"
  and inv_data_len [simp]: "upd_inv (qbt_update_mgr_on_data_len n E u) = upd_inv u"
  and inv_data [simp]: "upd_inv (qbt_update_mgr_on_data u) = upd_inv u"
  by (simp_all add: qbt_update_mgr_set_total_def qbt_update_mgr_on_data_len_def
      qbt_update_mgr_on_data_def upd_inv_def)

lemma inv_start': "upd_inv u \<Longrightarrow> upd_inv (qbt_update_mgr_on_start E u)"
  by (rule inv_start) (rule inv_dl)

lemma inv_fields [simp]:
  "upd_inv (u\<lparr>dl_desc := d\<rparr>) = upd_inv u" "upd_inv (u\<lparr>dl_size := n\<rparr>) = upd_inv u"
  "upd_inv (u\<lparr>wait_start := t\<rparr>) = upd_inv u" "upd_inv (u\<lparr>u_tick := t\<rparr>) = upd_inv u"
  by (simp_all add: upd_inv_def)

lemma inv_set_handle: "upd_inv u \<Longrightarrow> \<not> dl_ok u \<Longrightarrow> upd_inv (u\<lparr>dl_handle := h\<rparr>)"
  by (simp add: upd_inv_def)

lemma inv_set_ok: "upd_inv u \<Longrightarrow> upd_inv (qbt_update_mgr_set_download_ok b E u)"
  by (simp add: upd_inv_def)

lemma inv_begin:
  assumes "upd_inv u"
  shows "upd_inv (snd (qbt_update_mgr_download_begin E u))"
  using assms
  by (simp add: qbt_update_mgr_download_begin_def Let_def inv_start' inv_cleanup inv_set_handle inv_set_ok
      split: prod.splits)

lemma inv_write: "upd_inv u \<Longrightarrow> upd_inv (snd (qbt_update_mgr_download_write off bs E u))"
  by (simp add: qbt_update_mgr_download_write_def Let_def inv_cleanup inv_finish split: prod.splits)

lemma try_once_inv:
  "upd_inv u \<Longrightarrow> qbt_update_mgr_try_recover_once E u = (b, v) \<Longrightarrow> upd_inv v"
  by (auto simp: qbt_update_mgr_try_recover_once_def upd_inv_def split: if_splits prod.splits)

lemma inv_leave_or:
  assumes "upd_inv u" and "\<And>v. upd_inv v \<Longrightarrow> upd_inv (stay v)"
  shows "upd_inv (leave_or E stay u)"
proof -
  have r: "upd_inv v \<Longrightarrow> upd_inv (qbt_update_mgr_ready E (upd_set_reason r E v))" for v r
    using inv_dl [of v] by (simp add: inv_ready)
  show ?thesis
    using assms try_once_inv [of "u\<lparr>u_env := p\<rparr>" E for p]
    by (auto simp: leave_or_def r split: prod.splits bool.splits)
qed

lemma inv_poll:
  assumes "upd_inv u"
  shows "upd_inv (poll_pass E u)"
proof -
  have pr: "upd_inv (poll_progress now E v) = upd_inv v" for now v
    by (simp add: poll_progress_def upd_inv_def Let_def)
  have w: "upd_inv (leave_or E (\<lambda>v. v\<lparr>wait_start := now\<rparr>) u)" for now
    using assms by (rule inv_leave_or) simp
  have r: "upd_inv (leave_or E (qbt_update_mgr_set_state UPD_WAIT) u)"
    using assms by (rule inv_leave_or) (simp add: inv_dl)
  show ?thesis using assms w r by (simp add: poll_pass_def Let_def pr)
qed

lemma inv_handle:
  assumes "upd_inv u"
  shows "upd_inv (upd_handle E ev u)"
proof (cases ev)
  case Ev_ticks
  then show ?thesis using assms by (simp add: upd_inv_def)
qed (use assms inv_dl [OF assms] in \<open>simp_all add: inv_finish inv_begin inv_write inv_poll inv_start'
    qbt_update_mgr_on_request_def qbt_update_mgr_on_abort_def\<close>)

lemma inv_register:
  assumes "upd_static u"
  shows "upd_inv (qbt_update_mgr_register wait idle E u)"
proof -
  have "\<not> dl_ok u" using assms by (simp add: upd_static_def)
  then show ?thesis
    by (simp add: qbt_update_mgr_register_def Let_def qbt_update_mgr_reset_recover_probe_def
      qbt_update_mgr_on_request_def inv_ready split: prod.splits bool.splits)
qed

lemma upd_reach_inv: "upd_reach E u \<Longrightarrow> upd_inv u"
  by (induction rule: upd_reach.induct) (auto intro: inv_register inv_handle)

section \<open>The recovery probe\<close>

text \<open>
  \<open>cnt\<close> counts the calls of \<open>try_recover\<close>: only that callback moves it.
\<close>

definition counts_probes :: "'p qbt_update_ops \<Rightarrow> ('p \<Rightarrow> nat) \<Rightarrow> bool" where
  "counts_probes ops cnt \<longleftrightarrow>
     (\<forall>p. cnt (snd (try_recover ops p)) = Suc (cnt p) \<and> cnt (snd (is_app_valid ops p)) = cnt p \<and>
       cnt (snd (get_reason ops p)) = cnt p \<and> (\<forall>r. cnt (set_reason ops r p) = cnt p) \<and>
       cnt (enter_download ops p) = cnt p \<and> cnt (leave_download ops p) = cnt p \<and>
       (\<forall>e. cnt (on_error ops e p) = cnt p) \<and> cnt (on_ready_to_app ops p) = cnt p)"

fun starts :: "upd_event \<Rightarrow> nat" where
  "starts Ev_start = 1"
| "starts Ev_begin = 1"
| "starts _ = 0"

text \<open>The probes made, and the one still allowed.\<close>

definition probe_budget :: "('p \<Rightarrow> nat) \<Rightarrow> ('s, 'p) upd \<Rightarrow> nat" where
  "probe_budget cnt u = cnt (u_env u) + (if recover_probe_used u then 0 else 1)"

lemma budget_set_state [simp]: "probe_budget cnt (qbt_update_mgr_set_state st u) = probe_budget cnt u"
  by (simp add: probe_budget_def qbt_update_mgr_set_state_def Let_def)

lemma budget_fields [simp]:
  "probe_budget cnt (u\<lparr>ready_flag := f\<rparr>) = probe_budget cnt u"
  "probe_budget cnt (u\<lparr>u_state := st\<rparr>) = probe_budget cnt u"
  "probe_budget cnt (u\<lparr>u_dev := d\<rparr>) = probe_budget cnt u"
  "probe_budget cnt (u\<lparr>wait_start := t\<rparr>) = probe_budget cnt u"
  "probe_budget cnt (u\<lparr>u_tick := t\<rparr>) = probe_budget cnt u"
  "probe_budget cnt (u\<lparr>download_last := t\<rparr>) = probe_budget cnt u"
  "probe_budget cnt (u\<lparr>dl_desc := x\<rparr>) = probe_budget cnt u"
  "probe_budget cnt (u\<lparr>dl_handle := h\<rparr>) = probe_budget cnt u"
  "probe_budget cnt (u\<lparr>dl_size := n\<rparr>) = probe_budget cnt u"
  "probe_budget cnt (u\<lparr>dl_total_bytes := n\<rparr>) = probe_budget cnt u"
  "probe_budget cnt (u\<lparr>dl_done_bytes := n\<rparr>) = probe_budget cnt u"
  "probe_budget cnt (u\<lparr>dl_last_print := n\<rparr>) = probe_budget cnt u"
  "probe_budget cnt (u\<lparr>dl_last_percent := n\<rparr>) = probe_budget cnt u"
  "probe_budget cnt (qbt_update_mgr_download_cleanup E u) = probe_budget cnt u"
  "probe_budget cnt (qbt_update_mgr_set_download_ok b E u) = probe_budget cnt u"
  by (simp_all add: probe_budget_def)

lemma budget_env: "cnt p = cnt (u_env u) \<Longrightarrow> probe_budget cnt (u\<lparr>u_env := p\<rparr>) = probe_budget cnt u"
  by (simp add: probe_budget_def)

lemma u_env_set_state [simp]: "u_env (qbt_update_mgr_set_state st u) = u_env u"
  by (simp add: qbt_update_mgr_set_state_def Let_def)

lemma budget_ops:
  assumes "counts_probes (ue_ops E) cnt"
  shows "probe_budget cnt (upd_set_reason r E u) = probe_budget cnt u"
    and "probe_budget cnt (qbt_update_mgr_ready E u) = probe_budget cnt u"
    and "probe_budget cnt (qbt_update_mgr_on_finish ok E u) = probe_budget cnt u"
    and "probe_budget cnt (qbt_update_mgr_on_start E u) \<le> Suc (probe_budget cnt u)"
    and "qbt_update_mgr_try_recover_once E u = (b, v) \<Longrightarrow> probe_budget cnt v = probe_budget cnt u"
proof -
  note c = assms [unfolded counts_probes_def]
  show set: "probe_budget cnt (upd_set_reason r E u) = probe_budget cnt u" for r u
    using c by (simp add: upd_set_reason_def budget_env)
  show ready: "probe_budget cnt (qbt_update_mgr_ready E u) = probe_budget cnt u" for u
    using c by (simp add: qbt_update_mgr_ready_def Let_def budget_env)
  show "probe_budget cnt (qbt_update_mgr_on_finish ok E u) = probe_budget cnt u"
    using c by (simp add: qbt_update_mgr_on_finish_def Let_def budget_env set ready)
  show "probe_budget cnt (qbt_update_mgr_on_start E u) \<le> Suc (probe_budget cnt u)"
    using c by (simp add: qbt_update_mgr_on_start_def Let_def qbt_update_mgr_reset_recover_probe_def
      qbt_update_reset_progress_def probe_budget_def)
  assume "qbt_update_mgr_try_recover_once E u = (b, v)"
  then show "probe_budget cnt v = probe_budget cnt u"
    using c [rule_format, of "u_env u"]
    by (auto simp: qbt_update_mgr_try_recover_once_def probe_budget_def split: if_splits prod.splits)
qed

lemma budget_leave_or:
  assumes "counts_probes (ue_ops E) cnt" and "\<And>v. probe_budget cnt (stay v) = probe_budget cnt v"
  shows "probe_budget cnt (leave_or E stay u) = probe_budget cnt u"
proof -
  obtain a p where v: "is_app_valid (ue_ops E) (u_env u) = (a, p)" by fastforce
  then have "cnt p = cnt (u_env u)"
    using assms(1) unfolding counts_probes_def by (metis snd_conv)
  then have "probe_budget cnt (u\<lparr>u_env := p\<rparr>) = probe_budget cnt u" by (rule budget_env)
  moreover obtain r w where "qbt_update_mgr_try_recover_once E (u\<lparr>u_env := p\<rparr>) = (r, w)" by fastforce
  moreover note budget_ops(5) [OF assms(1) this]
  ultimately show ?thesis
    using v assms(2) budget_ops(1,2) [OF assms(1)] by (simp add: leave_or_def split: bool.splits)
qed

lemma budget_poll:
  assumes "counts_probes (ue_ops E) cnt"
  shows "probe_budget cnt (poll_pass E u) = probe_budget cnt u"
proof -
  have "probe_budget cnt (poll_progress now E v) = probe_budget cnt v" for now v
    by (simp add: poll_progress_def Let_def)
  then show ?thesis
    using budget_leave_or [OF assms, of "\<lambda>v. v\<lparr>wait_start := u_tick u\<rparr>"]
      budget_leave_or [OF assms, of "qbt_update_mgr_set_state UPD_WAIT"]
    by (simp add: poll_pass_def Let_def)
qed

lemma budget_handle:
  assumes "counts_probes (ue_ops E) cnt"
  shows "probe_budget cnt (upd_handle E ev u) \<le> probe_budget cnt u + starts ev"
proof -
  note c = assms [unfolded counts_probes_def]
  note b = budget_ops [OF assms]
  have data: "probe_budget cnt (qbt_update_mgr_on_data_len n E v) = probe_budget cnt v"
    "probe_budget cnt (qbt_update_mgr_on_data v) = probe_budget cnt v"
    "probe_budget cnt (qbt_update_mgr_set_total n E v) = probe_budget cnt v" for n v
    by (simp_all add: qbt_update_mgr_on_data_len_def qbt_update_mgr_on_data_def qbt_update_mgr_set_total_def)
  show ?thesis
  proof (cases ev)
    case Ev_begin
    have "probe_budget cnt (qbt_update_mgr_on_start E (qbt_update_mgr_set_total n E (v\<lparr>u_dev := s\<rparr>))) \<le>
        Suc (probe_budget cnt v)" for n v s
      using b(4) [of "qbt_update_mgr_set_total n E (v\<lparr>u_dev := s\<rparr>)"] data(3) by simp
    from le_trans [OF this] Ev_begin show ?thesis
      by (simp add: qbt_update_mgr_download_begin_def Let_def split: prod.splits)
  next
    case Ev_write
    then show ?thesis
      by (simp add: qbt_update_mgr_download_write_def Let_def b(3) data split: prod.splits)
  qed (use c b(4) in \<open>simp_all add: b(1-3) data budget_poll [OF assms] qbt_update_mgr_on_request_def
      qbt_update_mgr_on_abort_def budget_env\<close>)
qed

lemma budget_run:
  assumes "counts_probes (ue_ops E) cnt"
  shows "probe_budget cnt (fold (upd_handle E) evs u) \<le> probe_budget cnt u + sum_list (map starts evs)"
proof (induction evs arbitrary: u)
  case (Cons ev evs)
  from Cons [of "upd_handle E ev u"] budget_handle [OF assms, of ev u] show ?case by simp
qed simp

section \<open>Timeouts\<close>

text \<open>
  The 32-bit difference of two tick readings is the time between them as long as fewer than
  \<open>2 ^ 32\<close> ticks have passed, whatever the counter's value was.
\<close>

lemma tick_elapsed: "d < 4294967296 \<Longrightarrow> unat ((t + of_nat d) - t :: u32) = d"
  by (simp add: u32_of_nat)

lemma poll_wait_before:
  "u_state u = UPD_WAIT \<Longrightarrow> \<not> wait_ms u \<le> u_tick u - wait_start u \<Longrightarrow> poll_pass E u = u"
  by (simp add: poll_pass_def Let_def)

lemma poll_wait_expired:
  assumes "u_state u = UPD_WAIT" and "0 < wait_ms u" and "wait_ms u \<le> u_tick u - wait_start u"
    and "is_app_valid (ue_ops E) (u_env u) = (True, p)"
  shows "poll_pass E u =
    qbt_update_mgr_ready E (u\<lparr>u_env := set_reason (ue_ops E) QBT_UPD_REASON_NONE p\<rparr>)"
  using assms by (simp add: poll_pass_def leave_or_def upd_set_reason_def Let_def)

text \<open>
  When nobody downloads and the application is valid, the loop ends: the window runs out.
\<close>

lemma poll_returns:
  assumes w: "u_state u = UPD_WAIT" "0 < wait_ms u" "\<not> ready_flag u"
    and v: "\<And>p. fst (is_app_valid (ue_ops E) p)"
    and sched: "\<And>k. \<exists>d. sched k = [Ev_ticks d] \<and> 0 < d \<and> unat (wait_ms u) + unat d < 4294967296"
  shows "\<exists>u'. qbt_update_mgr_poll E sched u = Some u' \<and> ready_flag u' \<and> u_state u' = UPD_READY"
proof -
  let ?n = "wait_ms u"
  define I where "I x \<longleftrightarrow> (u_state (snd x) = UPD_WAIT \<and> wait_ms (snd x) = ?n \<and> \<not> ready_flag (snd x)) \<or>
      (ready_flag (snd x) \<and> u_state (snd x) = UPD_READY)" for x :: "nat \<times> ('a, 'b) upd"
  define m where "m x = (if ready_flag (snd x) then 0
      else Suc (unat ?n - unat (u_tick (snd x) - wait_start (snd x))))" for x :: "nat \<times> ('a, 'b) upd"
  have "\<exists>r. run_loop (poll_body E sched) (0, u\<lparr>wait_start := u_tick u\<rparr>) = Some r \<and>
      ready_flag r \<and> u_state r = UPD_READY"
  proof (rule run_loop_total [where I = I and m = m])
    show "I (0, u\<lparr>wait_start := u_tick u\<rparr>)" using w by (simp add: I_def)
  next
    fix x :: "nat \<times> ('a, 'b) upd" assume I: "I x"
    obtain k z where x: "x = (k, z)" by fastforce
    obtain d where d: "sched k = [Ev_ticks d]" "0 < d" "unat ?n + unat d < 4294967296" using sched by blast
    show "(\<exists>r. poll_body E sched x = Some (Stop r) \<and> ready_flag r \<and> u_state r = UPD_READY) \<or>
      (\<exists>y. poll_body E sched x = Some (Again y) \<and> I y \<and> m y < m x)"
    proof (cases "ready_flag z")
      case True
      with I show ?thesis by (simp add: x I_def poll_body_def)
    next
      case False
      let ?y = "(Suc k, (poll_pass E z)\<lparr>u_tick := u_tick (poll_pass E z) + d\<rparr>)"
      have b: "poll_body E sched x = Some (Again ?y)" using False d(1) by (simp add: x poll_body_def)
      have z: "u_state z = UPD_WAIT" "wait_ms z = ?n" using I False by (simp_all add: I_def x)
      have "I ?y \<and> m ?y < m x"
      proof (cases "?n \<le> u_tick z - wait_start z")
        case True
        obtain p where "is_app_valid (ue_ops E) (u_env z) = (True, p)"
          using v [of "u_env z"] by (cases "is_app_valid (ue_ops E) (u_env z)") auto
        with z w True have "poll_pass E z =
            qbt_update_mgr_ready E (z\<lparr>u_env := set_reason (ue_ops E) QBT_UPD_REASON_NONE p\<rparr>)"
          by (intro poll_wait_expired) simp_all
        then show ?thesis using False by (simp add: I_def m_def x ready_fields)
      next
        case waiting: False
        then have pz: "poll_pass E z = z" using z by (intro poll_wait_before) simp_all
        have "unat (u_tick z - wait_start z) < unat ?n" using waiting by (simp add: u32_le_iff)
        then have "unat (u_tick z + d - wait_start z) = unat (u_tick z - wait_start z) + unat d"
          using d(3) u32_add [of "u_tick z - wait_start z" d] by (simp add: algebra_simps)
        moreover have "0 < unat d" using d(2) by (simp add: u32_less_iff)
        ultimately show ?thesis
          using z False waiting pz by (simp add: I_def m_def x u32_le_iff)
      qed
      with b show ?thesis by blast
    qed
  qed
  then show ?thesis by (simp add: qbt_update_mgr_poll_def)
qed

section \<open>The reason command\<close>

text \<open>
  \<open>qbt_reason_parse_u32\<close> on the bytes of the text before its NUL: \<open>hex\<close> is \<open>base == 16\<close>.
\<close>

definition reason_digit :: "bool \<Rightarrow> byte \<Rightarrow> u32 option" where
  "reason_digit hex b =
     (if 0x30 \<le> b \<and> b \<le> 0x39 then Some (ucast b - 0x30)
      else if hex \<and> 0x61 \<le> b \<and> b \<le> 0x66 then Some (ucast b - 0x61 + 10)
      else if hex \<and> 0x41 \<le> b \<and> b \<le> 0x46 then Some (ucast b - 0x41 + 10)
      else None)"

fun reason_digits :: "bool \<Rightarrow> byte list \<Rightarrow> u32 \<Rightarrow> u32 option" where
  "reason_digits hex [] r = Some r"
| "reason_digits hex (b # bs) r =
     (case reason_digit hex b of
        None \<Rightarrow> None
      | Some d \<Rightarrow>
          if d \<ge> (if hex then 16 else 10) then None
          else if hex then
            (if r > 0x0FFFFFFF then None else reason_digits hex bs (push_bit 4 r OR d))
          else
            (if r > 429496729 \<or> r = 429496729 \<and> d > 5 then None
             else reason_digits hex bs (r * 10 + d)))"

definition qbt_reason_parse_u32 :: "byte list \<Rightarrow> u32 option" where
  "qbt_reason_parse_u32 text =
     (case text of
        [] \<Rightarrow> None
      | [b] \<Rightarrow> reason_digits False text 0
      | b0 # b1 # bs \<Rightarrow>
          if b0 = 0x30 \<and> (b1 = 0x78 \<or> b1 = 0x58)
          then (if bs = [] then None else reason_digits True bs 0)
          else reason_digits False text 0)"

definition qbt_update_reason_show :: "('s, 'p) handler" where
  "qbt_update_reason_show E u = u\<lparr>u_env := snd (get_reason (ue_ops E) (u_env u))\<rparr>"

definition qbt_update_reason_write_verified ::
  "u32 \<Rightarrow> ('s, 'p) upd_env \<Rightarrow> ('s, 'p) upd \<Rightarrow> rt_err \<times> ('s, 'p) upd" where
  "qbt_update_reason_write_verified reason E u =
     (let (readback, p) = get_reason (ue_ops E) (set_reason (ue_ops E) reason (u_env u));
          u1 = u\<lparr>u_env := p\<rparr>
      in if readback \<noteq> reason then (RT_ERROR, u1) else (RT_EOK, u1))"

text \<open>The arguments after the word \<open>reason\<close>, each up to its NUL.\<close>

definition qboot_reason_cmd :: "byte list list \<Rightarrow> ('s, 'p) upd_env \<Rightarrow> ('s, 'p) upd \<Rightarrow> int \<times> ('s, 'p) upd" where
  "qboot_reason_cmd args E u =
     (let modify = (\<lambda>new. if u_state u = UPD_RECV then (- 1, u)
            else let u1 = u\<lparr>u_env := snd (get_reason (ue_ops E) (u_env u))\<rparr>;
                     (e, u2) = qbt_update_reason_write_verified new E u1
                 in (if e \<noteq> RT_EOK then - 1 else 0, u2))
      in if \<not> ue_reason_ops E then (- 1, u) else case args of
           [] \<Rightarrow> (0, qbt_update_reason_show E u)
         | [a] \<Rightarrow> if a = str_bytes ''get'' then (0, qbt_update_reason_show E u)
                  else if a = str_bytes ''clear'' then modify QBT_UPD_REASON_NONE
                  else (- 1, u)
         | [a, v] \<Rightarrow> if a = str_bytes ''set'' then
                       (case qbt_reason_parse_u32 v of None \<Rightarrow> (- 1, u) | Some n \<Rightarrow> modify n)
                     else (- 1, u)
         | _ \<Rightarrow> (- 1, u))"

text \<open>
  The reference: the digits as unbounded numbers, and a value that fits 32 bits.
\<close>

definition digit_nat :: "bool \<Rightarrow> byte \<Rightarrow> nat option" where
  "digit_nat hex b =
     (let n = unat b in
      if 48 \<le> n \<and> n \<le> 57 then Some (n - 48)
      else if hex \<and> 97 \<le> n \<and> n \<le> 102 then Some (n - 87)
      else if hex \<and> 65 \<le> n \<and> n \<le> 70 then Some (n - 55)
      else None)"

definition numeral_value :: "bool \<Rightarrow> byte list \<Rightarrow> nat \<Rightarrow> nat" where
  "numeral_value hex bs r = foldl (\<lambda>v b. v * (if hex then 16 else 10) + the (digit_nat hex b)) r bs"

definition is_numeral :: "bool \<Rightarrow> byte list \<Rightarrow> bool" where
  "is_numeral hex bs \<longleftrightarrow> list_all (\<lambda>b. digit_nat hex b \<noteq> None) bs"

lemma u32_of_byte: "unat (ucast (b :: byte) :: u32) = unat b"
  by (simp add: unsigned_ucast_eq take_bit_nat_eq_self order.strict_trans [OF unsigned_less])

lemma reason_digit_nat: "map_option unat (reason_digit hex b) = digit_nat hex b"
proof -
  have le: "k \<le> unat b \<Longrightarrow> k < 256 \<Longrightarrow> unat (ucast b - of_nat k :: u32) = unat b - k" for k
    using u32_sub [of "of_nat k" "ucast b"] by (simp add: u32_of_byte u32_of_nat)
  have c: "(x :: byte) \<le> b \<longleftrightarrow> unat x \<le> unat b" "b \<le> x \<longleftrightarrow> unat b \<le> unat x" for x
    by (simp_all add: word_le_nat_alt)
  have d: "97 \<le> unat b \<Longrightarrow> unat b \<le> 102 \<Longrightarrow> unat (ucast b - 0x61 + 10 :: u32) = unat b - 87"
    and e: "65 \<le> unat b \<Longrightarrow> unat b \<le> 70 \<Longrightarrow> unat (ucast b - 0x41 + 10 :: u32) = unat b - 55"
    using le [of 97] le [of 65] u32_add [of "ucast b - 0x61" 10] u32_add [of "ucast b - 0x41" 10] by simp_all
  show ?thesis
    using le [of 48] d e by (auto simp: reason_digit_def digit_nat_def c Let_def)
qed

lemma digit_less: "digit_nat hex b = Some d \<Longrightarrow> d < (if hex then 16 else 10)"
  by (auto simp: digit_nat_def Let_def split: if_splits)

lemma numeral_value_ge: "r \<le> numeral_value hex bs r"
proof (induction bs arbitrary: r)
  case (Cons b bs)
  have "r \<le> r * (if hex then 16 else 10) + the (digit_nat hex b)" by auto
  also have "\<dots> \<le> numeral_value hex (b # bs) r"
    using Cons [of "r * (if hex then 16 else 10) + the (digit_nat hex b)"] by (simp add: numeral_value_def)
  finally show ?case .
qed (simp add: numeral_value_def)

lemma hex_shift:
  assumes "unat (r :: u32) \<le> 268435455" and "unat (d :: u32) < 16"
  shows "unat (push_bit 4 r OR d) = unat r * 16 + unat d"
proof -
  have "push_bit 4 r AND d = 0"
  proof (rule bit_word_eqI)
    fix n
    have "\<not> bit d n" if "4 \<le> n"
    proof -
      have "(2 :: nat) ^ 4 \<le> 2 ^ n" using that by (intro power_increasing) simp_all
      with assms(2) have "unat d div 2 ^ n = 0" by simp
      then have "\<not> bit (unat d) n" by (simp add: bit_iff_odd)
      then show ?thesis by (simp add: bit_unsigned_iff)
    qed
    then show "bit (push_bit 4 r AND d) n = bit 0 n" by (auto simp: bit_simps)
  qed
  then have "push_bit 4 r OR d = push_bit 4 r + d" by (simp add: disjunctive_add bit_eq_iff bit_simps)
  moreover have "unat (push_bit 4 r) = unat r * 16"
    using assms(1) by (simp add: push_bit_eq_mult unat_word_ariths)
  ultimately show ?thesis using assms by (simp add: u32_add)
qed

lemma reason_digits_spec:
  "reason_digits hex bs r =
     (if is_numeral hex bs \<and> numeral_value hex bs (unat r) < 4294967296
      then Some (of_nat (numeral_value hex bs (unat r))) else None)"
proof (induction bs arbitrary: r)
  case Nil
  then show ?case by (simp add: is_numeral_def numeral_value_def)
next
  case (Cons b bs)
  show ?case
  proof (cases "reason_digit hex b")
    case None
    then show ?thesis using reason_digit_nat [of hex b] by (auto simp: is_numeral_def)
  next
    case (Some d)
    then have n: "digit_nat hex b = Some (unat d)" using reason_digit_nat [of hex b] by simp
    let ?base = "if hex then 16 else 10 :: nat" and ?next = "if hex then push_bit 4 r OR d else r * 10 + d"
    have lt: "unat d < ?base" by (rule digit_less [OF n])
    have num: "is_numeral hex (b # bs) = is_numeral hex bs"
      "numeral_value hex (b # bs) (unat r) = numeral_value hex bs (unat r * ?base + unat d)"
      by (simp_all add: is_numeral_def numeral_value_def n)
    have dig: "\<not> d \<ge> (if hex then 16 else 10)" using lt by (simp add: u32_le_iff split: if_splits)
    let ?over = "if hex then r > 0x0FFFFFFF else r > 429496729 \<or> r = 429496729 \<and> d > 5"
    have over: "?over \<longleftrightarrow> 4294967296 \<le> unat r * ?base + unat d"
      using lt by (cases hex) (auto simp: u32_cmp)
    have step: "reason_digits hex (b # bs) r = (if ?over then None else reason_digits hex bs ?next)"
      using Some dig by simp
    show ?thesis
    proof (cases ?over)
      case True
      with over have "4294967296 \<le> numeral_value hex bs (unat r * ?base + unat d)"
        using numeral_value_ge [of "unat r * ?base + unat d" hex bs] by linarith
      then show ?thesis using step True num by simp
    next
      case False
      with over have fit: "unat r * ?base + unat d < 4294967296" by simp
      have "unat ?next = unat r * ?base + unat d"
      proof (cases hex)
        case True
        with fit lt show ?thesis by (simp add: hex_shift)
      next
        case hex: False
        with fit have "unat (r * 10) = unat r * 10" by (simp add: unat_word_ariths)
        with fit hex show ?thesis by (simp add: u32_add)
      qed
      with step False num Cons [of ?next] show ?thesis by simp
    qed
  qed
qed

text \<open>The texts the parser splits into a base and digits.\<close>

definition is_hex_text :: "byte list \<Rightarrow> bool" where
  "is_hex_text t \<longleftrightarrow> 2 \<le> length t \<and> t ! 0 = 0x30 \<and> (t ! 1 = 0x78 \<or> t ! 1 = 0x58)"

lemma reason_parse_exact:
  "qbt_reason_parse_u32 t =
     (let hex = is_hex_text t; ds = (if hex then drop 2 t else t)
      in if ds \<noteq> [] \<and> is_numeral hex ds \<and> numeral_value hex ds 0 < 4294967296
         then Some (of_nat (numeral_value hex ds 0)) else None)"
proof -
  consider "t = []" | b where "t = [b]" | b0 b1 bs where "t = b0 # b1 # bs" by (metis list.exhaust)
  then show ?thesis
    by cases (auto simp: qbt_reason_parse_u32_def is_hex_text_def reason_digits_spec)
qed

lemma reason_set_verified:
  assumes "qboot_reason_cmd [str_bytes ''set'', v] E u = (0, u')"
  shows "ue_reason_ops E \<and> (\<exists>n p. qbt_reason_parse_u32 v = Some n \<and> u_state u \<noteq> UPD_RECV \<and>
    get_reason (ue_ops E) (set_reason (ue_ops E) n p) = (n, u_env u') \<and> u' = u\<lparr>u_env := u_env u'\<rparr>)"
  using assms
  by (auto simp: qboot_reason_cmd_def qbt_update_reason_write_verified_def Let_def
      split: option.splits prod.splits if_splits)

lemma reason_kept_while_receiving:
  assumes "u_state u = UPD_RECV" and "\<And>p. snd (get_reason (ue_ops E) p) = p"
  shows "snd (qboot_reason_cmd args E u) = u"
  using assms
  by (auto simp: qboot_reason_cmd_def qbt_update_reason_show_def Let_def split: list.splits option.splits)

end
