(* ===== verification/Qboot_Fs.thy ===== *)
theory Qboot_Fs
  imports Qboot_Ops
begin

text \<open>
  The filesystem backend of \<open>src/qboot_fs_ops.c\<close>: a target is a file, a handle the target's
  number plus one, and the open descriptors are kept, plus one, in \<open>g_fs_fds\<close>. The POSIX file
  layer is a parameter. The backend gives its clients the storage contract, though not the block
  contract: an erase truncates the whole file whatever range it is given.
\<close>

section \<open>The backend\<close>

text \<open>
  The file functions the code calls, on the state \<open>'o\<close> of the operating system. \<open>off_t_of\<close> is the
  conversion of an unsigned 32-bit offset to \<open>off_t\<close>.
\<close>

record open_mode =
  o_rdwr :: bool
  o_wronly :: bool
  o_creat :: bool
  o_trunc :: bool

datatype whence = SEEK_SET | SEEK_CUR | SEEK_END

record 'o posix =
  p_open :: "string \<Rightarrow> open_mode \<Rightarrow> 'o \<Rightarrow> int \<times> 'o"
  p_close :: "int \<Rightarrow> 'o \<Rightarrow> int \<times> 'o"
  p_lseek :: "int \<Rightarrow> int \<Rightarrow> whence \<Rightarrow> 'o \<Rightarrow> int \<times> 'o"
  p_read :: "int \<Rightarrow> u32 \<Rightarrow> 'o \<Rightarrow> (int \<times> byte list) \<times> 'o"
  p_write :: "int \<Rightarrow> byte list \<Rightarrow> 'o \<Rightarrow> int \<times> 'o"
  p_ftruncate :: "int \<Rightarrow> int \<Rightarrow> 'o \<Rightarrow> int \<times> 'o"
  p_unlink :: "string \<Rightarrow> 'o \<Rightarrow> int \<times> 'o"
  off_t_of :: "u32 \<Rightarrow> int"

text \<open>
  The product's choices: the path of the release sign, and the size of the swap file when the
  swap target is a file.
\<close>

record fs_cfg =
  sign_path :: string
  swap_file_size :: "u32 option"

record 'o fs_state =
  g_fs_fds :: "int \<Rightarrow> int"
  fs_os :: 'o

text \<open>The handle \<open>(void *)(uintptr_t)(id + 1)\<close>, and the slot a handle stands for.\<close>

definition fs_handle :: "qbt_target_id \<Rightarrow> handle" where
  "fs_handle i = H_slot (target_rank i + 1)"

fun fs_slot :: "handle \<Rightarrow> int" where
  "fs_slot (H_slot n) = int n - 1"
| "fs_slot _ = - 1"

definition fs_fd :: "handle \<Rightarrow> 'o fs_state \<Rightarrow> int" where
  "fs_fd h s = g_fs_fds s (fs_slot h) - 1"

definition qbt_fs_open ::
  "qboot_cfg \<Rightarrow> stores \<Rightarrow> 'o posix \<Rightarrow> qbt_target_id \<Rightarrow> open_flags \<Rightarrow> 'o fs_state \<Rightarrow>
   (rt_err + handle) \<times> 'o fs_state" where
  "qbt_fs_open c st px i flags s =
     (case qbt_target_desc c st i of
        None \<Rightarrow> (Inl RT_ERROR, s)
      | Some desc \<Rightarrow>
          let mode = \<lparr>o_rdwr = flags AND QBT_OPEN_WRITE \<noteq> 0, o_wronly = False,
                      o_creat = flags AND QBT_OPEN_CREATE \<noteq> 0, o_trunc = flags AND QBT_OPEN_TRUNC \<noteq> 0\<rparr>
          in case p_open px (store_name desc) mode (fs_os s) of
               (fd, os) \<Rightarrow>
                 if fd < 0 then (Inl RT_ERROR, s\<lparr>fs_os := os\<rparr>)
                 else (Inr (fs_handle i),
                       s\<lparr>g_fs_fds := (g_fs_fds s)(int (target_rank i) := fd + 1), fs_os := os\<rparr>))"

definition qbt_fs_close :: "'o posix \<Rightarrow> handle \<Rightarrow> 'o fs_state \<Rightarrow> rt_err \<times> 'o fs_state" where
  "qbt_fs_close px h s =
     (let fd = fs_fd h s;
          os = (if fd \<ge> 0 then snd (p_close px fd (fs_os s)) else fs_os s)
      in (RT_EOK, s\<lparr>g_fs_fds := (g_fs_fds s)(fs_slot h := 0), fs_os := os\<rparr>))"

definition qbt_fs_read ::
  "'o posix \<Rightarrow> handle \<Rightarrow> u32 \<Rightarrow> u32 \<Rightarrow> 'o fs_state \<Rightarrow> (rt_err + byte list) \<times> 'o fs_state" where
  "qbt_fs_read px h off len s =
     (case p_lseek px (fs_fd h s) (off_t_of px off) SEEK_SET (fs_os s) of
        (r, os) \<Rightarrow>
          if r < 0 then (Inl RT_ERROR, s\<lparr>fs_os := os\<rparr>)
          else (case p_read px (fs_fd h s) len os of
            ((n, bs), os2) \<Rightarrow>
              if n \<noteq> sint len then (Inl RT_ERROR, s\<lparr>fs_os := os2\<rparr>)
              else (Inr bs, s\<lparr>fs_os := os2\<rparr>)))"

definition is_swap_file :: "qboot_cfg \<Rightarrow> fs_cfg \<Rightarrow> handle \<Rightarrow> bool" where
  "is_swap_file c fc h \<longleftrightarrow> has_swap c \<and> swap_file_size fc \<noteq> None \<and>
     fs_slot h = int (target_rank QBOOT_TARGET_SWAP)"

definition qbt_fs_erase ::
  "qboot_cfg \<Rightarrow> fs_cfg \<Rightarrow> 'o posix \<Rightarrow> handle \<Rightarrow> u32 \<Rightarrow> u32 \<Rightarrow> 'o fs_state \<Rightarrow> rt_err \<times> 'o fs_state" where
  "qbt_fs_erase c fc px h off len s =
     (let offset = (if is_swap_file c fc h then off_t_of px (the (swap_file_size fc)) else 0)
      in case p_ftruncate px (fs_fd h s) offset (fs_os s) of
           (r, os) \<Rightarrow> (if r \<noteq> 0 then RT_ERROR else RT_EOK, s\<lparr>fs_os := os\<rparr>))"

definition qbt_fs_write ::
  "'o posix \<Rightarrow> handle \<Rightarrow> u32 \<Rightarrow> byte list \<Rightarrow> 'o fs_state \<Rightarrow> rt_err \<times> 'o fs_state" where
  "qbt_fs_write px h off buf s =
     (case p_lseek px (fs_fd h s) (off_t_of px off) SEEK_SET (fs_os s) of
        (r, os) \<Rightarrow>
          if r < 0 then (RT_ERROR, s\<lparr>fs_os := os\<rparr>)
          else (case p_write px (fs_fd h s) buf os of
            (n, os2) \<Rightarrow> (if n \<noteq> sint (of_nat (length buf) :: u32) then RT_ERROR else RT_EOK, s\<lparr>fs_os := os2\<rparr>)))"

definition qbt_fs_size ::
  "qboot_cfg \<Rightarrow> fs_cfg \<Rightarrow> 'o posix \<Rightarrow> handle \<Rightarrow> 'o fs_state \<Rightarrow> (rt_err + u32) \<times> 'o fs_state" where
  "qbt_fs_size c fc px h s =
     (if is_swap_file c fc h then (Inr (the (swap_file_size fc)), s)
      else
        let (cur, os1) = p_lseek px (fs_fd h s) 0 SEEK_CUR (fs_os s);
            (fin, os2) = p_lseek px (fs_fd h s) 0 SEEK_END os1;
            os3 = (if cur \<ge> 0 then snd (p_lseek px (fs_fd h s) cur SEEK_SET os2) else os2)
        in if fin < 0 then (Inl RT_ERROR, s\<lparr>fs_os := os3\<rparr>)
           else (Inr (word_of_int fin), s\<lparr>fs_os := os3\<rparr>))"

definition qbt_fs_ioctl :: "handle \<Rightarrow> int \<Rightarrow> 'o fs_state \<Rightarrow> (rt_err + u32) \<times> 'o fs_state" where
  "qbt_fs_ioctl h cmd s = (Inl RT_ENOSYS, s)"

text \<open>The release sign is the existence of a file; the handle and the header are ignored.\<close>

definition qbt_fs_sign_read ::
  "fs_cfg \<Rightarrow> 'o posix \<Rightarrow> handle \<Rightarrow> fw_info_t \<Rightarrow> 'o fs_state \<Rightarrow> (rt_err + bool) \<times> 'o fs_state" where
  "qbt_fs_sign_read fc px h fw s =
     (case p_open px (sign_path fc) \<lparr>o_rdwr = False, o_wronly = False, o_creat = False, o_trunc = False\<rparr> (fs_os s) of
        (fd, os) \<Rightarrow>
          if fd < 0 then (Inr False, s\<lparr>fs_os := os\<rparr>)
          else (Inr True, s\<lparr>fs_os := snd (p_close px fd os)\<rparr>))"

definition qbt_fs_sign_write ::
  "fs_cfg \<Rightarrow> 'o posix \<Rightarrow> handle \<Rightarrow> fw_info_t \<Rightarrow> 'o fs_state \<Rightarrow> rt_err \<times> 'o fs_state" where
  "qbt_fs_sign_write fc px h fw s =
     (case p_open px (sign_path fc) \<lparr>o_rdwr = False, o_wronly = True, o_creat = True, o_trunc = True\<rparr> (fs_os s) of
        (fd, os) \<Rightarrow>
          if fd < 0 then (RT_ERROR, s\<lparr>fs_os := os\<rparr>)
          else (RT_EOK, s\<lparr>fs_os := snd (p_close px fd os)\<rparr>))"

definition qbt_fs_sign_clear ::
  "fs_cfg \<Rightarrow> 'o posix \<Rightarrow> handle \<Rightarrow> fw_info_t option \<Rightarrow> 'o fs_state \<Rightarrow> rt_err \<times> 'o fs_state" where
  "qbt_fs_sign_clear fc px h fw s = (RT_EOK, s\<lparr>fs_os := snd (p_unlink px (sign_path fc) (fs_os s))\<rparr>)"

definition g_qboot_io_fs ::
  "qboot_cfg \<Rightarrow> stores \<Rightarrow> fs_cfg \<Rightarrow> 'o posix \<Rightarrow> 'o fs_state qboot_io_ops" where
  "g_qboot_io_fs c st fc px =
     \<lparr>io_open = qbt_fs_open c st px, io_close = qbt_fs_close px, io_read = qbt_fs_read px,
      io_erase = qbt_fs_erase c fc px, io_write = qbt_fs_write px, io_size = qbt_fs_size c fc px,
      io_ioctl = qbt_fs_ioctl\<rparr>"

definition g_qboot_header_parser_fs :: "fs_cfg \<Rightarrow> 'o posix \<Rightarrow> 'o fs_state qboot_header_parser_ops" where
  "g_qboot_header_parser_fs fc px =
     \<lparr>sign_read = qbt_fs_sign_read fc px, sign_write = qbt_fs_sign_write fc px,
      sign_clear = qbt_fs_sign_clear fc px\<rparr>"

lemmas fs_ops_defs = g_qboot_io_fs_def qbt_fs_open_def qbt_fs_close_def qbt_fs_read_def
  qbt_fs_erase_def qbt_fs_write_def qbt_fs_size_def qbt_fs_ioctl_def

section \<open>The file layer\<close>

text \<open>
  What the backend relies on: \<open>refers\<close> gives the path behind an open descriptor, \<open>content\<close> the
  bytes of a file and \<open>fpos\<close> the position of a descriptor. Seeking, reading and closing change no
  file; a write starts at the position and touches the written range of its own file only, whose
  end it may move; truncation keeps a prefix. A descriptor stays on its file, and opening a path
  leaves the other descriptors alone. A returned count equal to the length asked for means that
  the whole range was transferred, which is how the code reads it.
\<close>

definition padded :: "byte list \<Rightarrow> nat \<Rightarrow> byte" where
  "padded bs i = (if i < length bs then bs ! i else 0)"

locale posix_files =
  fixes px :: "'o posix" and refers :: "'o \<Rightarrow> int \<Rightarrow> string option" and content :: "'o \<Rightarrow> string \<Rightarrow> byte list"
    and fpos :: "'o \<Rightarrow> int \<Rightarrow> nat"
  assumes lseek_refers: "p_lseek px fd n wh s = (r, s') \<Longrightarrow> refers s' = refers s"
    and lseek_content: "p_lseek px fd n wh s = (r, s') \<Longrightarrow> content s' = content s"
    and lseek_set: "p_lseek px fd n SEEK_SET s = (r, s') \<Longrightarrow> 0 \<le> r \<Longrightarrow> 0 \<le> n \<and> fpos s' fd = nat n"
    and read_refers: "p_read px fd len s = (q, s') \<Longrightarrow> refers s' = refers s"
    and read_content: "p_read px fd len s = (q, s') \<Longrightarrow> content s' = content s"
    and file_read_data: "p_read px fd len s = ((n, bs), s') \<Longrightarrow> refers s fd = Some f \<Longrightarrow> n = sint len \<Longrightarrow>
      bs = cells (padded (content s f)) (fpos s fd) (unat len)"
    and write_refers: "p_write px fd bs s = (r, s') \<Longrightarrow> refers s' = refers s"
    and write_other_file: "p_write px fd bs s = (r, s') \<Longrightarrow> refers s fd = Some f \<Longrightarrow> g \<noteq> f \<Longrightarrow>
      content s' g = content s g"
    and write_outside_range: "p_write px fd bs s = (r, s') \<Longrightarrow> refers s fd = Some f \<Longrightarrow>
      i < fpos s fd \<or> fpos s fd + length bs \<le> i \<Longrightarrow> padded (content s' f) i = padded (content s f) i"
    and file_write_data: "p_write px fd bs s = (r, s') \<Longrightarrow> refers s fd = Some f \<Longrightarrow>
      r = sint (of_nat (length bs) :: u32) \<Longrightarrow> fpos s fd \<le> i \<Longrightarrow> i < fpos s fd + length bs \<Longrightarrow>
      padded (content s' f) i = bs ! (i - fpos s fd)"
    and truncate_refers: "p_ftruncate px fd n s = (r, s') \<Longrightarrow> refers s' = refers s"
    and truncate_other: "p_ftruncate px fd n s = (r, s') \<Longrightarrow> refers s fd = Some f \<Longrightarrow> g \<noteq> f \<Longrightarrow>
      content s' g = content s g"
    and truncate_content: "p_ftruncate px fd n s = (0, s') \<Longrightarrow> refers s fd = Some f \<Longrightarrow>
      content s' f = take (nat n) (content s f) @ replicate (nat n - length (content s f)) 0"
    and open_refers: "p_open px path m s = (fd, s') \<Longrightarrow> 0 \<le> fd \<Longrightarrow> refers s fd = None \<and>
      refers s' = (refers s)(fd \<mapsto> path)"
    and open_content: "p_open px path m s = (fd, s') \<Longrightarrow> 0 \<le> fd \<Longrightarrow>
      content s' = (content s)(path := (if o_trunc m then [] else content s path))"
    and open_fail: "p_open px path m s = (fd, s') \<Longrightarrow> fd < 0 \<Longrightarrow> refers s' = refers s \<and> content s' = content s"
    and close_refers: "p_close px fd s = (r, s') \<Longrightarrow> refers s' = (refers s)(fd := None)"
    and close_content: "p_close px fd s = (r, s') \<Longrightarrow> content s' = content s"
    and off_exact: "0 \<le> off_t_of px off \<Longrightarrow> off_t_of px off = int (unat off)"

text \<open>
  A target's device is its file: the handle is open when its descriptor refers to the target's
  own path. Every offset may be programmed at any time.
\<close>

definition target_path :: "qboot_cfg \<Rightarrow> stores \<Rightarrow> int \<Rightarrow> string option" where
  "target_path c st n =
     (if n < 0 \<or> int (length (g_descs c st)) \<le> n then None else Some (store_name (g_descs c st ! nat n)))"

definition fs_file ::
  "qboot_cfg \<Rightarrow> stores \<Rightarrow> ('o \<Rightarrow> int \<Rightarrow> string option) \<Rightarrow> 'o fs_state \<Rightarrow> handle \<Rightarrow> string option" where
  "fs_file c st refers s h =
     (if h = H_slot (nat (fs_slot h + 1)) \<and> refers (fs_os s) (fs_fd h s) = target_path c st (fs_slot h)
      then target_path c st (fs_slot h) else None)"

definition fs_view ::
  "qboot_cfg \<Rightarrow> stores \<Rightarrow> ('o \<Rightarrow> int \<Rightarrow> string option) \<Rightarrow> ('o \<Rightarrow> string \<Rightarrow> byte list) \<Rightarrow>
   'o fs_state \<Rightarrow> handle \<Rightarrow> dev_view" where
  "fs_view c st refers content s h =
     (case fs_file c st refers s h of
        None \<Rightarrow> \<lparr>v_open = False, v_cell = (\<lambda>_. 0), v_ready = (\<lambda>_. False)\<rparr>
      | Some f \<Rightarrow> \<lparr>v_open = True, v_cell = padded (content (fs_os s) f), v_ready = (\<lambda>_. True)\<rparr>)"

locale fs_backend = posix_files px refers content fpos
  for px :: "'o posix" and refers and content and fpos +
  fixes c :: qboot_cfg and st :: stores and fc :: fs_cfg
  assumes paths_distinct: "target_path c st m = Some f \<Longrightarrow> target_path c st n = Some f \<Longrightarrow> m = n"
begin

abbreviation "fops \<equiv> g_qboot_io_fs c st fc px"
abbreviation "fvw \<equiv> fs_view c st refers content"

lemma fs_openE:
  assumes "v_open (fvw s h)"
  obtains f where "fs_file c st refers s h = Some f" "refers (fs_os s) (fs_fd h s) = Some f"
    "target_path c st (fs_slot h) = Some f" "h = H_slot (nat (fs_slot h + 1))"
  using assms by (auto simp: fs_view_def fs_file_def split: option.splits if_splits)

lemma fvw_eq: "refers (fs_os s') = refers (fs_os s) \<Longrightarrow> content (fs_os s') = content (fs_os s) \<Longrightarrow>
    g_fs_fds s' = g_fs_fds s \<Longrightarrow> fvw s' = fvw s"
  by (rule ext) (simp add: fs_view_def fs_file_def fs_fd_def split: option.split)

lemma file_same: "refers (fs_os s') = refers (fs_os s) \<Longrightarrow> g_fs_fds s' = g_fs_fds s \<Longrightarrow>
    fs_file c st refers s' h = fs_file c st refers s h"
  by (simp add: fs_file_def fs_fd_def)

lemma other_file:
  assumes "fs_file c st refers s h = Some f" and "h' \<noteq> h"
  shows "fs_file c st refers s h' \<noteq> Some f"
proof
  assume a: "fs_file c st refers s h' = Some f"
  then have "target_path c st (fs_slot h') = Some f" "h' = H_slot (nat (fs_slot h' + 1))"
    by (auto simp: fs_file_def split: if_splits)
  moreover have "target_path c st (fs_slot h) = Some f" "h = H_slot (nat (fs_slot h + 1))"
    using assms(1) by (auto simp: fs_file_def split: if_splits)
  ultimately show False using paths_distinct assms(2) by metis
qed

lemma fvw_other:
  assumes "refers (fs_os s') = refers (fs_os s)" "g_fs_fds s' = g_fs_fds s"
    and "fs_file c st refers s h = Some f" "h' \<noteq> h" "\<And>g. g \<noteq> f \<Longrightarrow> content (fs_os s') g = content (fs_os s) g"
  shows "fvw s' h' = fvw s h'"
  using file_same [OF assms(1,2), of h'] other_file [OF assms(3,4)] assms(5)
  by (auto simp: fs_view_def split: option.splits)

text \<open>What each operation does to the files.\<close>

lemma read_keeps: "io_read fops h off len s = (r, s') \<Longrightarrow> fvw s' = fvw s"
  using lseek_refers lseek_content read_refers read_content
  by (fastforce simp: fs_ops_defs split: prod.splits if_splits intro!: fvw_eq)

lemma size_keeps:
  assumes "io_size fops h s = (sz, s')"
  shows "fvw s' = fvw s"
proof -
  have k: "refers (snd (p_lseek px fd n wh os)) = refers os \<and> content (snd (p_lseek px fd n wh os)) = content os"
    for fd n wh os
    using lseek_refers [of fd n wh os] lseek_content [of fd n wh os] by (metis prod.collapse)
  show ?thesis
    using assms k by (auto simp: fs_ops_defs Let_def split_beta split: if_splits intro!: fvw_eq)
qed

lemma write_effect:
  assumes "io_write fops h off bs s = (e, s')" and "refers (fs_os s) (fs_fd h s) = Some f"
  shows "refers (fs_os s') = refers (fs_os s)" and "g_fs_fds s' = g_fs_fds s"
    and "g \<noteq> f \<Longrightarrow> content (fs_os s') g = content (fs_os s) g"
    and "i < unat off \<or> unat off + length bs \<le> i \<Longrightarrow>
      padded (content (fs_os s') f) i = padded (content (fs_os s) f) i"
    and "e = RT_EOK \<Longrightarrow> unat off \<le> i \<Longrightarrow> i < unat off + length bs \<Longrightarrow>
      padded (content (fs_os s') f) i = bs ! (i - unat off)"
proof -
  obtain k os where l: "p_lseek px (fs_fd h s) (off_t_of px off) SEEK_SET (fs_os s) = (k, os)" by fastforce
  note keep = lseek_refers [OF l] lseek_content [OF l]
  show "g_fs_fds s' = g_fs_fds s" using assms(1) l by (auto simp: fs_ops_defs split: prod.splits if_splits)
  have all: "refers (fs_os s') = refers (fs_os s) \<and> (g \<noteq> f \<longrightarrow> content (fs_os s') g = content (fs_os s) g) \<and>
    (i < unat off \<or> unat off + length bs \<le> i \<longrightarrow>
      padded (content (fs_os s') f) i = padded (content (fs_os s) f) i) \<and>
    (e = RT_EOK \<longrightarrow> unat off \<le> i \<longrightarrow> i < unat off + length bs \<longrightarrow>
      padded (content (fs_os s') f) i = bs ! (i - unat off))" for g i
  proof (cases "k < 0")
    case True
    with assms(1) l keep show ?thesis by (auto simp: fs_ops_defs)
  next
    case False
    obtain n os2 where w: "p_write px (fs_fd h s) bs os = (n, os2)" by fastforce
    have pos: "fpos os (fs_fd h s) = unat off" using lseek_set [OF l] off_exact [of off] False by simp
    have r: "refers os (fs_fd h s) = Some f" using keep assms(2) by simp
    have s': "s' = s\<lparr>fs_os := os2\<rparr>" "e = (if n \<noteq> sint (of_nat (length bs) :: u32) then RT_ERROR else RT_EOK)"
      using assms(1) l w False by (auto simp: fs_ops_defs)
    show ?thesis
      using write_refers [OF w] write_other_file [OF w r, of g] write_outside_range [OF w r, of i]
        file_write_data [OF w r, of i] keep pos s' by auto
  qed
  show "refers (fs_os s') = refers (fs_os s)" using all by blast
  show "g \<noteq> f \<Longrightarrow> content (fs_os s') g = content (fs_os s) g" using all by blast
  show "i < unat off \<or> unat off + length bs \<le> i \<Longrightarrow>
      padded (content (fs_os s') f) i = padded (content (fs_os s) f) i" using all by blast
  show "e = RT_EOK \<Longrightarrow> unat off \<le> i \<Longrightarrow> i < unat off + length bs \<Longrightarrow>
      padded (content (fs_os s') f) i = bs ! (i - unat off)" using all by blast
qed

lemma erase_effect:
  assumes "io_erase fops h off len s = (e, s')" and "refers (fs_os s) (fs_fd h s) = Some f"
  shows "refers (fs_os s') = refers (fs_os s)" and "g_fs_fds s' = g_fs_fds s"
    and "g \<noteq> f \<Longrightarrow> content (fs_os s') g = content (fs_os s) g"
    and "e = RT_EOK \<Longrightarrow> \<not> is_swap_file c fc h \<Longrightarrow> content (fs_os s') f = []"
proof -
  let ?n = "if is_swap_file c fc h then off_t_of px (the (swap_file_size fc)) else 0"
  obtain r os where t: "p_ftruncate px (fs_fd h s) ?n (fs_os s) = (r, os)" by fastforce
  then have s': "s' = s\<lparr>fs_os := os\<rparr>" "e = (if r \<noteq> 0 then RT_ERROR else RT_EOK)"
    using assms(1) by (simp_all add: fs_ops_defs Let_def)
  show "refers (fs_os s') = refers (fs_os s)" and "g_fs_fds s' = g_fs_fds s"
    and "g \<noteq> f \<Longrightarrow> content (fs_os s') g = content (fs_os s) g"
    using truncate_refers [OF t] truncate_other [OF t assms(2), of g] s' by simp_all
  show "e = RT_EOK \<Longrightarrow> \<not> is_swap_file c fc h \<Longrightarrow> content (fs_os s') f = []"
    using truncate_content [of "fs_fd h s" ?n "fs_os s" os f] t assms(2) s' by (simp split: if_splits)
qed

end

section \<open>The storage contract\<close>

sublocale fs_backend \<subseteq> storage "g_qboot_io_fs c st fc px" "fs_view c st refers content"
proof
  fix s h off len r s'
  assume "io_read fops h off len s = (r, s')"
  then show "fvw s' = fvw s" by (rule read_keeps)
next
  fix s h off len bs s'
  assume o: "v_open (fvw s h)" and r: "io_read fops h off len s = (Inr bs, s')"
  obtain f where f: "fs_file c st refers s h = Some f" "refers (fs_os s) (fs_fd h s) = Some f"
    using fs_openE [OF o] by blast
  obtain k os os2 n where l: "p_lseek px (fs_fd h s) (off_t_of px off) SEEK_SET (fs_os s) = (k, os)" "0 \<le> k"
    and rd: "p_read px (fs_fd h s) len os = ((n, bs), os2)" "n = sint len"
    using r by (auto simp: fs_ops_defs split: prod.splits if_splits)
  have "fpos os (fs_fd h s) = unat off" using lseek_set [OF l] off_exact [of off] by simp
  moreover have "refers os (fs_fd h s) = Some f" using lseek_refers [OF l(1)] f(2) by simp
  ultimately have "bs = cells (padded (content os f)) (unat off) (unat len)"
    using file_read_data [OF rd(1) _ rd(2)] by simp
  then show "bs = cells (v_cell (fvw s h)) (unat off) (unat len)"
    using lseek_content [OF l(1)] f(1) by (simp add: fs_view_def)
next
  fix s h sz s1
  assume "io_size fops h s = (sz, s1)"
  then show "fvw s1 = fvw s" by (rule size_keeps)
next
  fix s h cmd al s1
  assume "io_ioctl fops h cmd s = (al, s1)"
  then show "fvw s1 = fvw s" by (auto simp: fs_ops_defs)
next
  fix s h off bs e s'
  assume o: "v_open (fvw s h)" and w: "io_write fops h off bs s = (e, s')"
  obtain f where f: "fs_file c st refers s h = Some f" "refers (fs_os s) (fs_fd h s) = Some f"
    using fs_openE [OF o] by blast
  note eff = write_effect [OF w f(2)]
  have f': "fs_file c st refers s' h = Some f" using file_same [OF eff(1,2)] f(1) by simp
  show "fvw s' h' = fvw s h'" if "h' \<noteq> h" for h'
    using fvw_other [OF eff(1,2) f(1) that eff(3)] .
  show "v_open (fvw s' h)" using f' by (simp add: fs_view_def)
  show "v_cell (fvw s' h) i = v_cell (fvw s h) i \<and> (v_ready (fvw s h) i \<longrightarrow> v_ready (fvw s' h) i)"
    if "i < unat off \<or> unat off + length bs \<le> i" for i
    using eff(4) [OF that] f(1) f' by (simp add: fs_view_def)
next
  fix s h off bs s' i
  assume o: "v_open (fvw s h)" and w: "io_write fops h off bs s = (RT_EOK, s')"
    and i: "unat off \<le> i" "i < unat off + length bs"
  obtain f where f: "fs_file c st refers s h = Some f" "refers (fs_os s) (fs_fd h s) = Some f"
    using fs_openE [OF o] by blast
  note eff = write_effect [OF w f(2)]
  have "fs_file c st refers s' h = Some f" using file_same [OF eff(1,2)] f(1) by simp
  then show "v_cell (fvw s' h) i = bs ! (i - unat off)" using eff(5) [OF refl i] by (simp add: fs_view_def)
next
  fix s h off len e s'
  assume o: "v_open (fvw s h)" and w: "io_erase fops h off len s = (e, s')"
  obtain f where f: "fs_file c st refers s h = Some f" "refers (fs_os s) (fs_fd h s) = Some f"
    using fs_openE [OF o] by blast
  note eff = erase_effect [OF w f(2)]
  have f': "fs_file c st refers s' h = Some f" using file_same [OF eff(1,2)] f(1) by simp
  show "fvw s' h' = fvw s h'" if "h' \<noteq> h" for h'
    using fvw_other [OF eff(1,2) f(1) that eff(3)] .
  show "v_open (fvw s' h)" using f' by (simp add: fs_view_def)
  show "v_ready (fvw s h) i \<Longrightarrow> v_ready (fvw s' h) i" for i using f' by (simp add: fs_view_def)
  show "ready_range (fvw s' h) (unat off) (unat len)" using f' by (simp add: fs_view_def ready_range_def)
qed

section \<open>The release sign\<close>

text \<open>
  Existence of files, as POSIX has it: a path that was opened exists, one that does not exist is not
  opened without \<open>O_CREAT\<close>, and one that exists is opened where the system grants it, that is, when
  there is a descriptor left and the mode is permitted (\<open>grants\<close>). Closing removes nothing;
  unlinking removes the path when it returns 0 and nothing otherwise.
\<close>

definition O_RDONLY :: open_mode where
  "O_RDONLY = \<lparr>o_rdwr = False, o_wronly = False, o_creat = False, o_trunc = False\<rparr>"

locale posix_names =
  fixes px :: "'o posix" and present :: "'o \<Rightarrow> string \<Rightarrow> bool" and grants :: "'o \<Rightarrow> string \<Rightarrow> open_mode \<Rightarrow> bool"
  assumes open_present: "p_open px path m s = (fd, s') \<Longrightarrow> 0 \<le> fd \<Longrightarrow> present s' path"
    and open_found: "present s path \<Longrightarrow> grants s path m \<Longrightarrow> 0 \<le> fst (p_open px path m s)"
    and open_missing: "\<not> present s path \<Longrightarrow> \<not> o_creat m \<Longrightarrow> fst (p_open px path m s) < 0"
    and close_present: "p_close px fd s = (r, s') \<Longrightarrow> present s' = present s"
    and unlink_done: "p_unlink px path s = (0, s') \<Longrightarrow> \<not> present s' path"
    and unlink_failed: "p_unlink px path s = (r, s') \<Longrightarrow> r \<noteq> 0 \<Longrightarrow> present s' = present s"
begin

abbreviation "parser fc \<equiv> g_qboot_header_parser_fs fc px"

lemma sign_check_open:
  "fst (qbt_release_sign_check (parser fc) h fw s) \<longleftrightarrow> 0 \<le> fst (p_open px (sign_path fc) O_RDONLY (fs_os s))"
  by (auto simp: qbt_release_sign_check_def g_qboot_header_parser_fs_def qbt_fs_sign_read_def O_RDONLY_def split: prod.splits)

lemma sign_check_present:
  "fst (qbt_release_sign_check (parser fc) h fw s) \<Longrightarrow> present (fs_os s) (sign_path fc)"
  "present (fs_os s) (sign_path fc) \<Longrightarrow> grants (fs_os s) (sign_path fc) O_RDONLY \<Longrightarrow>
    fst (qbt_release_sign_check (parser fc) h fw s)"
  using open_missing [of "fs_os s" "sign_path fc" O_RDONLY] open_found [of "fs_os s" "sign_path fc" O_RDONLY]
  by (auto simp: sign_check_open O_RDONLY_def)

lemma sign_write_present:
  assumes "qbt_release_sign_write (parser fc) h fw s = (True, s')"
  shows "present (fs_os s') (sign_path fc)"
proof -
  let ?m = "\<lparr>o_rdwr = False, o_wronly = True, o_creat = True, o_trunc = True\<rparr>"
  obtain fd os where o: "p_open px (sign_path fc) ?m (fs_os s) = (fd, os)" by fastforce
  obtain r os2 where c: "p_close px fd os = (r, os2)" by fastforce
  from assms o c have "0 \<le> fd" "s' = s\<lparr>fs_os := os2\<rparr>"
    by (auto simp: qbt_release_sign_write_def g_qboot_header_parser_fs_def qbt_fs_sign_write_def split: if_splits)
  with open_present [OF o] close_present [OF c] show ?thesis by simp
qed

text \<open>Clearing ignores the result of \<open>unlink\<close>: it reports success either way.\<close>

lemma sign_clear_outcome:
  assumes "p_unlink px (sign_path fc) (fs_os s) = (r, os)"
  shows "qbt_release_sign_clear (parser fc) h fw s = (True, s\<lparr>fs_os := os\<rparr>)"
    and "present os (sign_path fc) \<longleftrightarrow> r \<noteq> 0 \<and> present (fs_os s) (sign_path fc)"
proof -
  show "qbt_release_sign_clear (parser fc) h fw s = (True, s\<lparr>fs_os := os\<rparr>)"
    unfolding qbt_release_sign_clear_def g_qboot_header_parser_fs_def qbt_fs_sign_clear_def
    by (simp only: qboot_header_parser_ops.simps assms snd_conv prod.case simp_thms)
  show "present os (sign_path fc) \<longleftrightarrow> r \<noteq> 0 \<and> present (fs_os s) (sign_path fc)"
    using assms unlink_done [of "sign_path fc" "fs_os s"] unlink_failed [of "sign_path fc" "fs_os s"] by (cases "r = 0") simp_all
qed

end

section \<open>Opening and closing\<close>

context fs_backend
begin

text \<open>
  A target opened through the backend is open in the sense of the contract, and closing it gives
  its descriptor back.
\<close>

lemma fs_slot_handle [simp]: "fs_slot (fs_handle i) = int (target_rank i)"
  by (simp add: fs_handle_def)

lemma open_path:
  assumes "qbt_target_desc c st i = Some d"
  shows "target_path c st (int (target_rank i)) = Some (store_name d)"
  using assms by (auto simp: qbt_target_desc_def target_path_def split: if_splits)

lemma fs_open_cases:
  assumes "io_open fops i flags s = (Inr h, s')"
  obtains d fd os m where "qbt_target_desc c st i = Some d"
    "p_open px (store_name d) m (fs_os s) = (fd, os)" "0 \<le> fd" "o_trunc m \<longleftrightarrow> flags AND QBT_OPEN_TRUNC \<noteq> 0"
    "h = fs_handle i" "s' = s\<lparr>g_fs_fds := (g_fs_fds s)(int (target_rank i) := fd + 1), fs_os := os\<rparr>"
  using assms by (fastforce simp: fs_ops_defs Let_def split: option.splits prod.splits if_splits)

lemma open_view:
  assumes "io_open fops i flags s = (Inr h, s')"
  shows "h = fs_handle i" and "v_open (fvw s' h)"
    and "\<exists>d. qbt_target_desc c st i = Some d \<and> refers (fs_os s') (fs_fd h s') = Some (store_name d) \<and>
      refers (fs_os s) (fs_fd h s') = None \<and>
      v_cell (fvw s' h) = padded (if flags AND QBT_OPEN_TRUNC \<noteq> 0 then [] else content (fs_os s) (store_name d))"
proof -
  obtain d fd os m where d: "qbt_target_desc c st i = Some d"
    and o: "p_open px (store_name d) m (fs_os s) = (fd, os)" "0 \<le> fd"
    and m: "o_trunc m \<longleftrightarrow> flags AND QBT_OPEN_TRUNC \<noteq> 0"
    and s': "h = fs_handle i" "s' = s\<lparr>g_fs_fds := (g_fs_fds s)(int (target_rank i) := fd + 1), fs_os := os\<rparr>"
    by (rule fs_open_cases [OF assms]) (rule that)
  show h: "h = fs_handle i" by (rule s')
  have fd: "fs_fd h s' = fd" by (simp add: fs_fd_def s')
  have "fs_file c st refers s' h = Some (store_name d)"
    using open_refers [OF o] open_path [OF d] fd by (simp add: fs_file_def s') (simp add: fs_handle_def)
  moreover have "content os (store_name d) = (if o_trunc m then [] else content (fs_os s) (store_name d))"
    using open_content [OF o] by simp
  ultimately show "v_open (fvw s' h)"
    and "\<exists>d. qbt_target_desc c st i = Some d \<and> refers (fs_os s') (fs_fd h s') = Some (store_name d) \<and>
      refers (fs_os s) (fs_fd h s') = None \<and>
      v_cell (fvw s' h) = padded (if flags AND QBT_OPEN_TRUNC \<noteq> 0 then [] else content (fs_os s) (store_name d))"
    using d open_refers [OF o] fd m by (simp_all add: fs_view_def s')
qed

lemma open_close_fds:
  assumes o: "io_open fops i flags s = (Inr h, s1)" and c: "io_close fops h s1 = (e, s2)"
  shows "e = RT_EOK" and "refers (fs_os s2) = refers (fs_os s)" and "fs_fd h s2 = - 1"
proof -
  obtain d fd os m where d: "qbt_target_desc c st i = Some d"
    and o: "p_open px (store_name d) m (fs_os s) = (fd, os)" "0 \<le> fd"
    and m: "o_trunc m \<longleftrightarrow> flags AND QBT_OPEN_TRUNC \<noteq> 0"
    and s1: "h = fs_handle i" "s1 = s\<lparr>g_fs_fds := (g_fs_fds s)(int (target_rank i) := fd + 1), fs_os := os\<rparr>"
    by (rule fs_open_cases [OF o]) (rule that)
  have fd: "fs_fd h s1 = fd" by (simp add: fs_fd_def s1)
  obtain r os2 where cl: "p_close px fd os = (r, os2)" by fastforce
  have s2: "e = RT_EOK" "fs_os s2 = os2" "g_fs_fds s2 (fs_slot h) = 0"
    using c fd o(2) cl by (auto simp: fs_ops_defs Let_def s1)
  then show "e = RT_EOK" "fs_fd h s2 = - 1" by (simp_all add: fs_fd_def)
  show "refers (fs_os s2) = refers (fs_os s)"
    using s2(2) close_refers [OF cl] open_refers [OF o] by (simp add: fun_upd_idem)
qed

end

section \<open>A file system in memory\<close>

text \<open>
  Files are byte lists, descriptors numbers given out in order; a write past the end pads with
  zero bytes, and counts are exact.
\<close>

record memfs =
  mf_files :: "string \<Rightarrow> byte list option"
  mf_fds :: "(string \<times> nat) option list"

definition mf_fd :: "memfs \<Rightarrow> int \<Rightarrow> (string \<times> nat) option" where
  "mf_fd s fd = (if 0 \<le> fd \<and> fd < int (length (mf_fds s)) then mf_fds s ! nat fd else None)"

definition mf_content :: "memfs \<Rightarrow> string \<Rightarrow> byte list" where
  "mf_content s p = (case mf_files s p of None \<Rightarrow> [] | Some bs \<Rightarrow> bs)"

definition file_write :: "nat \<Rightarrow> byte list \<Rightarrow> byte list \<Rightarrow> byte list" where
  "file_write k bs xs = (let ys = xs @ replicate (k + length bs - length xs) 0 in overwrite k bs ys)"

lemma padded_file_write: "padded (file_write k bs xs) = splice k bs (padded xs)"
  by (auto simp: fun_eq_iff padded_def file_write_def Let_def splice_def overwrite_def nth_append min_def)

definition mem_posix :: "memfs posix" where
  "mem_posix = \<lparr>
     p_open = (\<lambda>p m s.
       if mf_files s p = None \<and> \<not> o_creat m then (- 1, s)
       else (int (length (mf_fds s)),
             \<lparr>mf_files = (mf_files s)(p := Some (if o_trunc m then [] else mf_content s p)),
              mf_fds = mf_fds s @ [Some (p, 0)]\<rparr>)),
     p_close = (\<lambda>fd s. if 0 \<le> fd then (0, s\<lparr>mf_fds := (mf_fds s)[nat fd := None]\<rparr>) else (- 1, s)),
     p_lseek = (\<lambda>fd n wh s. case mf_fd s fd of
         None \<Rightarrow> (- 1, s)
       | Some (p, k) \<Rightarrow>
           let n' = (case wh of SEEK_SET \<Rightarrow> n | SEEK_CUR \<Rightarrow> int k + n
                     | SEEK_END \<Rightarrow> int (length (mf_content s p)) + n)
           in if n' < 0 then (- 1, s) else (n', s\<lparr>mf_fds := (mf_fds s)[nat fd := Some (p, nat n')]\<rparr>)),
     p_read = (\<lambda>fd len s. case mf_fd s fd of
         None \<Rightarrow> ((if sint len = - 1 then - 2 else - 1, []), s)
       | Some (p, k) \<Rightarrow>
           if k + unat len \<le> length (mf_content s p) \<and> unat len < 2147483648
           then ((sint len, cells (padded (mf_content s p)) k (unat len)), s)
           else ((if sint len = - 1 then - 2 else - 1, []), s)),
     p_write = (\<lambda>fd bs s. case mf_fd s fd of
         None \<Rightarrow> (- 1, s)
       | Some (p, k) \<Rightarrow>
           (sint (of_nat (length bs) :: u32),
            s\<lparr>mf_files := (mf_files s)(p := Some (file_write k bs (mf_content s p)))\<rparr>)),
     p_ftruncate = (\<lambda>fd n s. case mf_fd s fd of
         None \<Rightarrow> (- 1, s)
       | Some (p, k) \<Rightarrow>
           (0, s\<lparr>mf_files := (mf_files s)(p := Some (take (nat n) (mf_content s p) @
                   replicate (nat n - length (mf_content s p)) 0))\<rparr>)),
     p_unlink = (\<lambda>p s. if mf_files s p = None then (- 1, s) else (0, s\<lparr>mf_files := (mf_files s)(p := None)\<rparr>)),
     off_t_of = (\<lambda>off. sint off)\<rparr>"

definition mf_refers :: "memfs \<Rightarrow> int \<Rightarrow> string option" where
  "mf_refers s fd = map_option fst (mf_fd s fd)"

definition mf_pos :: "memfs \<Rightarrow> int \<Rightarrow> nat" where
  "mf_pos s fd = (case mf_fd s fd of None \<Rightarrow> 0 | Some (p, k) \<Rightarrow> k)"

lemmas mf_defs = mem_posix_def mf_refers_def mf_pos_def Let_def

lemma mf_fd_upd:
  "mf_fd (s\<lparr>mf_fds := (mf_fds s)[nat fd := x]\<rparr>) fd' =
     (if fd' = fd \<and> 0 \<le> fd \<and> fd < int (length (mf_fds s)) then x else mf_fd s fd')" if "0 \<le> fd"
  using that by (auto simp: mf_fd_def nth_list_update)

lemma mf_fd_files [simp]: "mf_fd (s\<lparr>mf_files := x\<rparr>) fd = mf_fd s fd"
  by (simp add: mf_fd_def)

lemma mf_content_fds [simp]: "mf_content (s\<lparr>mf_fds := x\<rparr>) = mf_content s"
  by (simp add: mf_content_def fun_eq_iff)

lemma mf_content_upd [simp]:
  "mf_content (s\<lparr>mf_files := (mf_files s)(p := Some bs)\<rparr>) q = (if q = p then bs else mf_content s q)"
  by (simp add: mf_content_def)

lemma mf_fd_range: "mf_fd s fd = Some x \<Longrightarrow> 0 \<le> fd \<and> fd < int (length (mf_fds s))"
  by (auto simp: mf_fd_def split: if_splits)

lemma mf_open:
  assumes "p_open mem_posix p m s = (fd, s')"
  shows "fd < 0 \<Longrightarrow> s' = s \<and> mf_files s p = None \<and> \<not> o_creat m"
    and "0 \<le> fd \<Longrightarrow> fd = int (length (mf_fds s)) \<and>
      s' = \<lparr>mf_files = (mf_files s)(p := Some (if o_trunc m then [] else mf_content s p)),
            mf_fds = mf_fds s @ [Some (p, 0)]\<rparr>"
  using assms by (auto simp: mem_posix_def split: if_splits)

interpretation memfs: posix_files mem_posix mf_refers mf_content mf_pos
proof unfold_locales
  fix p m s fd s'
  assume o: "p_open mem_posix p m s = (fd, s')" and "0 \<le> fd"
  note s' = mf_open(2) [OF this]
  show "mf_refers s fd = None \<and> mf_refers s' = (mf_refers s)(fd \<mapsto> p)"
    using s' by (auto simp: mf_refers_def mf_fd_def fun_eq_iff nth_append)
  show "mf_content s' = (mf_content s)(p := if o_trunc m then [] else mf_content s p)"
    using s' by (auto simp: mf_content_def fun_eq_iff)
next
  fix p m s fd s'
  assume "p_open mem_posix p m s = (fd, s')" and "fd < 0"
  from mf_open(1) [OF this] show "mf_refers s' = mf_refers s \<and> mf_content s' = mf_content s" by simp
next
  fix fd s r s'
  assume c: "p_close mem_posix fd s = (r, s')"
  then show "mf_content s' = mf_content s" by (auto simp: mem_posix_def split: if_splits)
  from c show "mf_refers s' = (mf_refers s)(fd := None)"
    by (auto simp: mem_posix_def mf_refers_def fun_eq_iff mf_fd_upd split: if_splits) (auto simp: mf_fd_def)
next
  fix fd n wh s r s'
  assume l: "p_lseek mem_posix fd n wh s = (r, s')"
  show "mf_refers s' = mf_refers s"
    using l mf_fd_range [of s fd]
    by (auto simp: mf_defs fun_eq_iff mf_fd_upd split: option.splits prod.splits if_splits)
  show "mf_content s' = mf_content s"
    using l by (auto simp: mf_defs split: option.splits prod.splits if_splits)
next
  fix fd n s r s'
  assume l: "p_lseek mem_posix fd n SEEK_SET s = (r, s')" and "0 \<le> r"
  then show "0 \<le> n \<and> mf_pos s' fd = nat n"
    using mf_fd_range [of s fd]
    by (auto simp: mf_defs mf_fd_upd split: option.splits prod.splits if_splits)
next
  fix fd len s r s'
  assume "p_read mem_posix fd len s = (r, s')"
  then show "mf_refers s' = mf_refers s" and "mf_content s' = mf_content s"
    by (auto simp: mf_defs split: option.splits prod.splits if_splits)
next
  fix fd and len :: u32 and s n bs s' f
  assume r: "p_read mem_posix fd len s = ((n, bs), s')" "mf_refers s fd = Some f" "n = sint len"
  then obtain k where k: "mf_fd s fd = Some (f, k)" by (auto simp: mf_refers_def)
  have no: "sint len \<noteq> (if sint len = - 1 then - 2 else - 1)" by simp
  show "bs = cells (padded (mf_content s f)) (mf_pos s fd) (unat len)"
    using r k no by (auto simp: mem_posix_def mf_pos_def split: if_splits)
next
  fix fd bs s r s'
  assume "p_write mem_posix fd bs s = (r, s')"
  then show "mf_refers s' = mf_refers s"
    by (auto simp: mf_defs fun_eq_iff split: option.splits prod.splits)
next
  fix fd bs s r s' f g
  assume "p_write mem_posix fd bs s = (r, s')" "mf_refers s fd = Some f" "(g :: string) \<noteq> f"
  then show "mf_content s' g = mf_content s g" by (auto simp: mf_defs split: option.splits prod.splits)
next
  fix fd bs s r s' f i
  assume "p_write mem_posix fd bs s = (r, s')" "mf_refers s fd = Some f"
    "i < mf_pos s fd \<or> mf_pos s fd + length bs \<le> i"
  then show "padded (mf_content s' f) i = padded (mf_content s f) i"
    by (auto simp: mf_defs padded_file_write splice_out split: option.splits prod.splits)
next
  fix fd bs s r s' f i
  assume "p_write mem_posix fd bs s = (r, s')" "mf_refers s fd = Some f" "mf_pos s fd \<le> i"
    "i < mf_pos s fd + length (bs :: byte list)"
  then show "padded (mf_content s' f) i = bs ! (i - mf_pos s fd)"
    by (auto simp: mf_defs padded_file_write splice_in split: option.splits prod.splits)
next
  fix fd n s r s'
  assume "p_ftruncate mem_posix fd n s = (r, s')"
  then show "mf_refers s' = mf_refers s"
    by (auto simp: mf_defs fun_eq_iff split: option.splits prod.splits)
next
  fix fd n s r s' f g
  assume "p_ftruncate mem_posix fd n s = (r, s')" "mf_refers s fd = Some f" "(g :: string) \<noteq> f"
  then show "mf_content s' g = mf_content s g" by (auto simp: mf_defs split: option.splits prod.splits)
next
  fix fd n s s' f
  assume "p_ftruncate mem_posix fd n s = (0, s')" "mf_refers s fd = Some f"
  then show "mf_content s' f = take (nat n) (mf_content s f) @ replicate (nat n - length (mf_content s f)) 0"
    by (auto simp: mf_defs split: option.splits prod.splits)
next
  fix off :: u32
  assume "0 \<le> off_t_of mem_posix off"
  then have "0 \<le> sint off" by (simp add: mem_posix_def)
  then have "unat off < 2147483648"
    using sint_large [of off] u32_less [of off] by (metis diff_ge_0_iff_ge leD linorder_not_less of_nat_le_iff of_nat_numeral)
  then show "off_t_of mem_posix off = int (unat off)" by (simp add: mem_posix_def sint_small)
qed

interpretation memfs: posix_names mem_posix "\<lambda>s p. mf_files s p \<noteq> None" "\<lambda>_ _ _. True"
  by unfold_locales (auto simp: mem_posix_def split: if_splits)

text \<open>The same files in a directory nothing can be removed from.\<close>

definition kept_posix :: "memfs posix" where
  "kept_posix = mem_posix\<lparr>p_unlink := (\<lambda>p s. (- 1, s))\<rparr>"

interpretation kept: posix_names kept_posix "\<lambda>s p. mf_files s p \<noteq> None" "\<lambda>_ _ _. True"
  by unfold_locales (auto simp: kept_posix_def mem_posix_def split: if_splits)

definition fs_demo_cfg :: qboot_cfg where
  "fs_demo_cfg = \<lparr>using_aes = False, using_gzip = False, using_quicklz = False, using_fastlz = False,
     using_hpatchlite = False, hpatch_storage_swap = False, product_code = None, using_shell = False,
     using_factory_key = False, using_update_mgr = False, using_download_helper = False,
     enospc_is_posix = False, sign_align = 8, flash_erase_align = 512\<rparr>"

definition fs_demo_stores :: stores where
  "fs_demo_stores i = \<lparr>sc_store_name = (case i of QBOOT_TARGET_APP \<Rightarrow> ''/app.bin''
       | QBOOT_TARGET_DOWNLOAD \<Rightarrow> ''/download.rbl'' | _ \<Rightarrow> ''/factory.rbl''),
     sc_flash_addr = 0, sc_flash_len = 0, sc_backend = BACKEND_FS\<rparr>"

definition fs_demo_fc :: fs_cfg where
  "fs_demo_fc = \<lparr>sign_path = ''/download.sign'', swap_file_size = None\<rparr>"

lemma demo_paths:
  "target_path fs_demo_cfg fs_demo_stores n =
     (if n = 0 then Some ''/app.bin'' else if n = 1 then Some ''/download.rbl''
      else if n = 2 then Some ''/factory.rbl'' else None)"
proof -
  consider "n < 0" | "n = 0" | "n = 1" | "n = 2" | "3 \<le> n" by linarith
  then show ?thesis
    by cases (simp_all add: target_path_def g_descs_def target_list_def has_swap_def fs_demo_cfg_def
      fs_demo_stores_def)
qed

interpretation memfs: fs_backend mem_posix mf_refers mf_content mf_pos fs_demo_cfg fs_demo_stores fs_demo_fc
  by unfold_locales (auto simp: demo_paths split: if_splits)

end
