(* ===== verification/Qboot_Mux.thy ===== *)
theory Qboot_Mux
  imports Qboot_Custom Qboot_Fal Qboot_Fs
begin

text \<open>
  The multiplexing backend of \<open>src/qboot_mux_ops.c\<close>, used when more than one backend is built
  in: it opens a target with the backend its descriptor names and forwards every operation on
  the handle. If every backend keeps the storage contract and none disturbs another's devices,
  the multiplexer keeps the contract too.
\<close>

section \<open>The backend\<close>

text \<open>
  \<open>g_mux_handles\<close>, one slot per target, initially zero, and the state of the backends. A mux
  handle is the address of a slot.
\<close>

record 's mux_state =
  g_mux_handles :: "qbt_target_id \<Rightarrow> qbt_store_backend \<times> handle"
  mux_dev :: 's

text \<open>
  The two getter tables: the build configures a backend for every target it uses, so that every
  entry a descriptor selects is there.
\<close>

record 's mux_tables =
  mux_io :: "qbt_store_backend \<Rightarrow> 's qboot_io_ops"
  mux_parser :: "qbt_store_backend \<Rightarrow> 's qboot_header_parser_ops"

definition qbt_mux_backend_ops :: "'s mux_tables \<Rightarrow> qbt_store_backend \<Rightarrow> 's qboot_io_ops" where
  "qbt_mux_backend_ops T b = mux_io T b"

definition qbt_mux_backend_parser_ops ::
  "'s mux_tables \<Rightarrow> qbt_store_backend \<Rightarrow> 's qboot_header_parser_ops" where
  "qbt_mux_backend_parser_ops T b = mux_parser T b"

text \<open>The slot behind a handle; other handles are not addresses of a slot.\<close>

fun mux_ref :: "handle \<Rightarrow> 's mux_state \<Rightarrow> qbt_store_backend \<times> handle" where
  "mux_ref (H_mux i) s = g_mux_handles s i"
| "mux_ref _ s = (BACKEND_FAL, H_NULL)"

definition on_dev :: "('s \<Rightarrow> 'r \<times> 's) \<Rightarrow> 's mux_state \<Rightarrow> 'r \<times> 's mux_state" where
  "on_dev f s = (case f (mux_dev s) of (r, d) \<Rightarrow> (r, s\<lparr>mux_dev := d\<rparr>))"

definition qbt_mux_open_backend ::
  "'s mux_tables \<Rightarrow> qbt_target_id \<Rightarrow> qboot_store_desc \<Rightarrow> open_flags \<Rightarrow> 's mux_state \<Rightarrow>
   (rt_err + handle) \<times> 's mux_state" where
  "qbt_mux_open_backend T i desc flags s =
     (case on_dev (io_open (qbt_mux_backend_ops T (backend desc)) i flags) s of
        (Inl _, s1) \<Rightarrow> (Inl RT_ERROR, s1)
      | (Inr h, s1) \<Rightarrow>
          (Inr (H_mux i), s1\<lparr>g_mux_handles := (g_mux_handles s1)(i := (backend desc, h))\<rparr>))"

definition qbt_mux_open ::
  "qboot_cfg \<Rightarrow> stores \<Rightarrow> 's mux_tables \<Rightarrow> qbt_target_id \<Rightarrow> open_flags \<Rightarrow> 's mux_state \<Rightarrow>
   (rt_err + handle) \<times> 's mux_state" where
  "qbt_mux_open c st T i flags s =
     (case qbt_target_desc c st i of
        None \<Rightarrow> (Inl RT_ERROR, s)
      | Some desc \<Rightarrow> qbt_mux_open_backend T i desc flags s)"

definition qbt_mux_close :: "'s mux_tables \<Rightarrow> handle \<Rightarrow> 's mux_state \<Rightarrow> rt_err \<times> 's mux_state" where
  "qbt_mux_close T h s =
     (case mux_ref h s of (b, bh) \<Rightarrow> (RT_EOK, snd (on_dev (io_close (qbt_mux_backend_ops T b) bh) s)))"

definition qbt_mux_read ::
  "'s mux_tables \<Rightarrow> handle \<Rightarrow> u32 \<Rightarrow> u32 \<Rightarrow> 's mux_state \<Rightarrow> (rt_err + byte list) \<times> 's mux_state" where
  "qbt_mux_read T h off len s =
     (case mux_ref h s of (b, bh) \<Rightarrow> on_dev (io_read (qbt_mux_backend_ops T b) bh off len) s)"

definition qbt_mux_erase ::
  "'s mux_tables \<Rightarrow> handle \<Rightarrow> u32 \<Rightarrow> u32 \<Rightarrow> 's mux_state \<Rightarrow> rt_err \<times> 's mux_state" where
  "qbt_mux_erase T h off len s =
     (case mux_ref h s of (b, bh) \<Rightarrow> on_dev (io_erase (qbt_mux_backend_ops T b) bh off len) s)"

definition qbt_mux_write ::
  "'s mux_tables \<Rightarrow> handle \<Rightarrow> u32 \<Rightarrow> byte list \<Rightarrow> 's mux_state \<Rightarrow> rt_err \<times> 's mux_state" where
  "qbt_mux_write T h off buf s =
     (case mux_ref h s of (b, bh) \<Rightarrow> on_dev (io_write (qbt_mux_backend_ops T b) bh off buf) s)"

definition qbt_mux_size :: "'s mux_tables \<Rightarrow> handle \<Rightarrow> 's mux_state \<Rightarrow> (rt_err + u32) \<times> 's mux_state" where
  "qbt_mux_size T h s = (case mux_ref h s of (b, bh) \<Rightarrow> on_dev (io_size (qbt_mux_backend_ops T b) bh) s)"

definition qbt_mux_ioctl ::
  "'s mux_tables \<Rightarrow> handle \<Rightarrow> int \<Rightarrow> 's mux_state \<Rightarrow> (rt_err + u32) \<times> 's mux_state" where
  "qbt_mux_ioctl T h cmd s =
     (case mux_ref h s of (b, bh) \<Rightarrow> on_dev (io_ioctl (qbt_mux_backend_ops T b) bh cmd) s)"

definition qbt_mux_sign_read ::
  "'s mux_tables \<Rightarrow> handle \<Rightarrow> fw_info_t \<Rightarrow> 's mux_state \<Rightarrow> (rt_err + bool) \<times> 's mux_state" where
  "qbt_mux_sign_read T h fw s =
     (case mux_ref h s of (b, bh) \<Rightarrow> on_dev (sign_read (qbt_mux_backend_parser_ops T b) bh fw) s)"

definition qbt_mux_sign_write ::
  "'s mux_tables \<Rightarrow> handle \<Rightarrow> fw_info_t \<Rightarrow> 's mux_state \<Rightarrow> rt_err \<times> 's mux_state" where
  "qbt_mux_sign_write T h fw s =
     (case mux_ref h s of (b, bh) \<Rightarrow> on_dev (sign_write (qbt_mux_backend_parser_ops T b) bh fw) s)"

definition qbt_mux_sign_clear ::
  "'s mux_tables \<Rightarrow> handle \<Rightarrow> fw_info_t option \<Rightarrow> 's mux_state \<Rightarrow> rt_err \<times> 's mux_state" where
  "qbt_mux_sign_clear T h fw s =
     (case mux_ref h s of (b, bh) \<Rightarrow> on_dev (sign_clear (qbt_mux_backend_parser_ops T b) bh fw) s)"

definition g_qboot_io_mux ::
  "qboot_cfg \<Rightarrow> stores \<Rightarrow> 's mux_tables \<Rightarrow> 's mux_state qboot_io_ops" where
  "g_qboot_io_mux c st T =
     \<lparr>io_open = qbt_mux_open c st T, io_close = qbt_mux_close T, io_read = qbt_mux_read T,
      io_erase = qbt_mux_erase T, io_write = qbt_mux_write T, io_size = qbt_mux_size T,
      io_ioctl = qbt_mux_ioctl T\<rparr>"

definition g_qboot_header_parser_mux :: "'s mux_tables \<Rightarrow> 's mux_state qboot_header_parser_ops" where
  "g_qboot_header_parser_mux T =
     \<lparr>sign_read = qbt_mux_sign_read T, sign_write = qbt_mux_sign_write T,
      sign_clear = qbt_mux_sign_clear T\<rparr>"

lemmas mux_ops_defs = g_qboot_io_mux_def qbt_mux_read_def qbt_mux_erase_def qbt_mux_write_def
  qbt_mux_size_def qbt_mux_ioctl_def qbt_mux_backend_ops_def on_dev_def

section \<open>The storage contract\<close>

text \<open>
  A mux handle is open when its slot holds an open backend handle that no other slot shares.
\<close>

definition mux_view ::
  "(qbt_store_backend \<Rightarrow> 's \<Rightarrow> handle \<Rightarrow> dev_view) \<Rightarrow> 's mux_state \<Rightarrow> handle \<Rightarrow> dev_view" where
  "mux_view bview s h =
     (case h of
        H_mux i \<Rightarrow>
          (case g_mux_handles s i of (b, bh) \<Rightarrow>
             if \<forall>j. j \<noteq> i \<longrightarrow> g_mux_handles s j \<noteq> (b, bh) then bview b (mux_dev s) bh
             else \<lparr>v_open = False, v_cell = (\<lambda>_. 0), v_ready = (\<lambda>_. False)\<rparr>)
      | _ \<Rightarrow> \<lparr>v_open = False, v_cell = (\<lambda>_. 0), v_ready = (\<lambda>_. False)\<rparr>)"

locale mux_backends =
  fixes T :: "'s mux_tables" and bview :: "qbt_store_backend \<Rightarrow> 's \<Rightarrow> handle \<Rightarrow> dev_view"
  assumes backend_storage: "storage (mux_io T b) (bview b)"
    and write_apart: "b' \<noteq> b \<Longrightarrow> io_write (mux_io T b) h off bs s = (e, s') \<Longrightarrow> bview b' s' = bview b' s"
    and erase_apart: "b' \<noteq> b \<Longrightarrow> io_erase (mux_io T b) h off len s = (e, s') \<Longrightarrow> bview b' s' = bview b' s"
    and read_apart: "b' \<noteq> b \<Longrightarrow> io_read (mux_io T b) h off len s = (r, s') \<Longrightarrow> bview b' s' = bview b' s"
    and size_apart: "b' \<noteq> b \<Longrightarrow> io_size (mux_io T b) h s = (q, s') \<Longrightarrow> bview b' s' = bview b' s"
    and ioctl_apart: "b' \<noteq> b \<Longrightarrow> io_ioctl (mux_io T b) h cmd s = (q, s') \<Longrightarrow> bview b' s' = bview b' s"
begin

abbreviation "mvw \<equiv> mux_view bview"

lemma mux_openE:
  assumes "v_open (mvw s h)"
  obtains i b bh where "h = H_mux i" "g_mux_handles s i = (b, bh)" "mux_ref h s = (b, bh)"
    "v_open (bview b (mux_dev s) bh)" "\<And>j. j \<noteq> i \<Longrightarrow> g_mux_handles s j \<noteq> (b, bh)"
    "mvw s h = bview b (mux_dev s) bh"
  using assms by (auto simp: mux_view_def split: handle.splits prod.splits if_splits)

text \<open>An operation that only changes the backends' state keeps the slots.\<close>

lemma mvw_dev_other:
  assumes "h = H_mux i" "g_mux_handles s i = (b, bh)" "\<And>j. j \<noteq> i \<Longrightarrow> g_mux_handles s j \<noteq> (b, bh)"
    and "\<And>bh'. bh' \<noteq> bh \<Longrightarrow> bview b d bh' = bview b (mux_dev s) bh'"
    and "\<And>b'. b' \<noteq> b \<Longrightarrow> bview b' d = bview b' (mux_dev s)" and "h' \<noteq> h"
  shows "mvw (s\<lparr>mux_dev := d\<rparr>) h' = mvw s h'"
proof (cases h')
  case (H_mux j)
  obtain b2 bh2 where j: "g_mux_handles s j = (b2, bh2)" by fastforce
  with assms(1,3,6) H_mux have "b2 \<noteq> b \<or> bh2 \<noteq> bh" by metis
  then have "bview b2 d bh2 = bview b2 (mux_dev s) bh2" using assms(4,5) by metis
  then show ?thesis by (auto simp: mux_view_def H_mux j)
qed (simp_all add: mux_view_def)

lemma mvw_dev_same:
  assumes "\<And>b. bview b d = bview b (mux_dev s)"
  shows "mvw (s\<lparr>mux_dev := d\<rparr>) = mvw s"
  by (rule ext) (auto simp: mux_view_def assms split: handle.split prod.split)

lemma mvw_dev_self:
  assumes "h = H_mux i" "g_mux_handles s i = (b, bh)" "\<And>j. j \<noteq> i \<Longrightarrow> g_mux_handles s j \<noteq> (b, bh)"
  shows "mvw (s\<lparr>mux_dev := d\<rparr>) h = bview b d bh"
  using assms by (simp add: mux_view_def)

end

sublocale mux_backends \<subseteq> storage "g_qboot_io_mux c st T" "mux_view bview"
proof
  fix s h off len r s'
  assume o: "v_open (mvw s h)" and r: "io_read (g_qboot_io_mux c st T) h off len s = (r, s')"
  obtain i b bh where h: "mux_ref h s = (b, bh)" "v_open (bview b (mux_dev s) bh)"
    using mux_openE [OF o] by metis
  then obtain d where d: "io_read (mux_io T b) bh off len (mux_dev s) = (r, d)" "s' = s\<lparr>mux_dev := d\<rparr>"
    using r by (auto simp: mux_ops_defs split: prod.splits)
  have "bview b' d = bview b' (mux_dev s)" for b'
    using storage.read_view [OF backend_storage h(2) d(1)] read_apart [OF _ d(1)] by (cases "b' = b") auto
  then show "mvw s' = mvw s" by (simp add: d(2) mvw_dev_same)
next
  fix s h off len bs s'
  assume o: "v_open (mvw s h)" and r: "io_read (g_qboot_io_mux c st T) h off len s = (Inr bs, s')"
  obtain i b bh where h: "mux_ref h s = (b, bh)" "v_open (bview b (mux_dev s) bh)"
    "mvw s h = bview b (mux_dev s) bh"
    using mux_openE [OF o] by metis
  then obtain d where "io_read (mux_io T b) bh off len (mux_dev s) = (Inr bs, d)"
    using r by (auto simp: mux_ops_defs split: prod.splits)
  then show "bs = cells (v_cell (mvw s h)) (unat off) (unat len)"
    using storage.read_data [OF backend_storage h(2)] h(3) by simp
next
  fix s h q s'
  assume o: "v_open (mvw s h)" and r: "io_size (g_qboot_io_mux c st T) h s = (q, s')"
  obtain i b bh where h: "mux_ref h s = (b, bh)" "v_open (bview b (mux_dev s) bh)"
    using mux_openE [OF o] by metis
  then obtain d where d: "io_size (mux_io T b) bh (mux_dev s) = (q, d)" "s' = s\<lparr>mux_dev := d\<rparr>"
    using r by (auto simp: mux_ops_defs split: prod.splits)
  have "bview b' d = bview b' (mux_dev s)" for b'
    using storage.size_view [OF backend_storage h(2) d(1)] size_apart [OF _ d(1)] by (cases "b' = b") auto
  then show "mvw s' = mvw s" by (simp add: d(2) mvw_dev_same)
next
  fix s h cmd q s'
  assume o: "v_open (mvw s h)" and r: "io_ioctl (g_qboot_io_mux c st T) h cmd s = (q, s')"
  obtain i b bh where h: "mux_ref h s = (b, bh)" "v_open (bview b (mux_dev s) bh)"
    using mux_openE [OF o] by metis
  then obtain d where d: "io_ioctl (mux_io T b) bh cmd (mux_dev s) = (q, d)" "s' = s\<lparr>mux_dev := d\<rparr>"
    using r by (auto simp: mux_ops_defs split: prod.splits)
  have "bview b' d = bview b' (mux_dev s)" for b'
    using storage.ioctl_view [OF backend_storage h(2) d(1)] ioctl_apart [OF _ d(1)] by (cases "b' = b") auto
  then show "mvw s' = mvw s" by (simp add: d(2) mvw_dev_same)
next
  fix s h off bs e s'
  assume o: "v_open (mvw s h)" and w: "io_write (g_qboot_io_mux c st T) h off bs s = (e, s')"
    and len: "length bs < 4294967296"
  obtain i b bh where h: "h = H_mux i" "g_mux_handles s i = (b, bh)" "mux_ref h s = (b, bh)"
    "v_open (bview b (mux_dev s) bh)" "\<And>j. j \<noteq> i \<Longrightarrow> g_mux_handles s j \<noteq> (b, bh)"
    "mvw s h = bview b (mux_dev s) bh"
    by (rule mux_openE [OF o]) (rule that)
  obtain d where d: "io_write (mux_io T b) bh off bs (mux_dev s) = (e, d)" "s' = s\<lparr>mux_dev := d\<rparr>"
    using w h(3) by (auto simp: mux_ops_defs split: prod.splits)
  have self: "mvw s' h = bview b d bh" using mvw_dev_self [OF h(1,2,5)] by (simp add: d(2))
  note law = backend_storage h(4) d(1) len
  show "mvw s' h' = mvw s h'" if "h' \<noteq> h" for h'
    unfolding d(2)
    by (rule mvw_dev_other [OF h(1,2,5) storage.write_other [OF law] _ that]) (auto dest: write_apart [OF _ d(1)])
  show "v_open (mvw s' h)" using storage.write_open [OF law] self by simp
  show "v_cell (mvw s' h) j = v_cell (mvw s h) j \<and> (v_ready (mvw s h) j \<longrightarrow> v_ready (mvw s' h) j)"
    if "j < unat off \<or> unat off + length bs \<le> j" for j
    using storage.write_outside [OF law that] self h(6) by simp
next
  fix s h off bs s' j
  assume o: "v_open (mvw s h)" and w: "io_write (g_qboot_io_mux c st T) h off bs s = (RT_EOK, s')"
    and len: "length bs < 4294967296" and rdy: "ready_range (mvw s h) (unat off) (length bs)"
    and j: "unat off \<le> j" "j < unat off + length bs"
  obtain i b bh where h: "h = H_mux i" "g_mux_handles s i = (b, bh)" "mux_ref h s = (b, bh)"
    "v_open (bview b (mux_dev s) bh)" "\<And>j. j \<noteq> i \<Longrightarrow> g_mux_handles s j \<noteq> (b, bh)"
    "mvw s h = bview b (mux_dev s) bh"
    by (rule mux_openE [OF o]) (rule that)
  obtain d where d: "io_write (mux_io T b) bh off bs (mux_dev s) = (RT_EOK, d)" "s' = s\<lparr>mux_dev := d\<rparr>"
    using w h(3) by (auto simp: mux_ops_defs split: prod.splits)
  show "v_cell (mvw s' h) j = bs ! (j - unat off)"
    using storage.write_data [OF backend_storage h(4) d(1) len _ j] rdy h(6) mvw_dev_self [OF h(1,2,5)]
    by (simp add: d(2))
next
  fix s h off len e s'
  assume o: "v_open (mvw s h)" and w: "io_erase (g_qboot_io_mux c st T) h off len s = (e, s')"
  obtain i b bh where h: "h = H_mux i" "g_mux_handles s i = (b, bh)" "mux_ref h s = (b, bh)"
    "v_open (bview b (mux_dev s) bh)" "\<And>j. j \<noteq> i \<Longrightarrow> g_mux_handles s j \<noteq> (b, bh)"
    "mvw s h = bview b (mux_dev s) bh"
    by (rule mux_openE [OF o]) (rule that)
  obtain d where d: "io_erase (mux_io T b) bh off len (mux_dev s) = (e, d)" "s' = s\<lparr>mux_dev := d\<rparr>"
    using w h(3) by (auto simp: mux_ops_defs split: prod.splits)
  have self: "mvw s' h = bview b d bh" using mvw_dev_self [OF h(1,2,5)] by (simp add: d(2))
  note law = backend_storage h(4) d(1)
  show "mvw s' h' = mvw s h'" if "h' \<noteq> h" for h'
    unfolding d(2)
    by (rule mvw_dev_other [OF h(1,2,5) storage.erase_other [OF law] _ that]) (auto dest: erase_apart [OF _ d(1)])
  show "v_open (mvw s' h)" using storage.erase_open [OF law] self by simp
  show "v_ready (mvw s h) j \<Longrightarrow> v_ready (mvw s' h) j" for j
    using storage.erase_keeps [OF law] self h(6) by simp
next
  fix s h off len s'
  assume o: "v_open (mvw s h)" and w: "io_erase (g_qboot_io_mux c st T) h off len s = (RT_EOK, s')"
  obtain i b bh where h: "h = H_mux i" "g_mux_handles s i = (b, bh)" "mux_ref h s = (b, bh)"
    "v_open (bview b (mux_dev s) bh)" "\<And>j. j \<noteq> i \<Longrightarrow> g_mux_handles s j \<noteq> (b, bh)"
    "mvw s h = bview b (mux_dev s) bh"
    by (rule mux_openE [OF o]) (rule that)
  obtain d where d: "io_erase (mux_io T b) bh off len (mux_dev s) = (RT_EOK, d)" "s' = s\<lparr>mux_dev := d\<rparr>"
    using w h(3) by (auto simp: mux_ops_defs split: prod.splits)
  show "ready_range (mvw s' h) (unat off) (unat len)"
    using storage.erase_ready [OF backend_storage h(4) d(1)] mvw_dev_self [OF h(1,2,5)] by (simp add: d(2))
qed

context mux_backends
begin

lemmas mux_write_other = write_other
lemmas mux_erase_other = erase_other

end

section \<open>Three backends side by side\<close>

text \<open>A backend whose state is one part of a larger one.\<close>

definition on_part :: "('m \<Rightarrow> 's) \<Rightarrow> ('s \<Rightarrow> 'm \<Rightarrow> 'm) \<Rightarrow> ('s \<Rightarrow> 'r \<times> 's) \<Rightarrow> 'm \<Rightarrow> 'r \<times> 'm" where
  "on_part get put f m = (case f (get m) of (r, s) \<Rightarrow> (r, put s m))"

definition io_part :: "('m \<Rightarrow> 's) \<Rightarrow> ('s \<Rightarrow> 'm \<Rightarrow> 'm) \<Rightarrow> 's qboot_io_ops \<Rightarrow> 'm qboot_io_ops" where
  "io_part get put io =
     \<lparr>io_open = (\<lambda>i fl. on_part get put (io_open io i fl)), io_close = (\<lambda>h. on_part get put (io_close io h)),
      io_read = (\<lambda>h off n. on_part get put (io_read io h off n)),
      io_erase = (\<lambda>h off n. on_part get put (io_erase io h off n)),
      io_write = (\<lambda>h off bs. on_part get put (io_write io h off bs)),
      io_size = (\<lambda>h. on_part get put (io_size io h)), io_ioctl = (\<lambda>h cmd. on_part get put (io_ioctl io h cmd))\<rparr>"

definition parser_part ::
  "('m \<Rightarrow> 's) \<Rightarrow> ('s \<Rightarrow> 'm \<Rightarrow> 'm) \<Rightarrow> 's qboot_header_parser_ops \<Rightarrow> 'm qboot_header_parser_ops" where
  "parser_part get put p =
     \<lparr>sign_read = (\<lambda>h fw. on_part get put (sign_read p h fw)),
      sign_write = (\<lambda>h fw. on_part get put (sign_write p h fw)),
      sign_clear = (\<lambda>h fw. on_part get put (sign_clear p h fw))\<rparr>"

lemma storage_part:
  assumes s: "storage io view" and gp: "\<And>x m. get (put x m) = x"
  shows "storage (io_part get put io) (\<lambda>m. view (get m))"
proof -
  have D: "on_part get put f m = (r, m') \<Longrightarrow> \<exists>x. f (get m) = (r, x) \<and> get m' = x" for f m r m'
    using gp by (auto simp: on_part_def split: prod.splits)
  show ?thesis
  proof (unfold_locales, unfold io_part_def qboot_io_ops.simps, goal_cases)
    case 1 from D [OF 1(2)] 1(1) storage.read_view [OF s] show ?case by metis
  next
    case 2 from D [OF 2(2)] 2(1) storage.read_data [OF s] show ?case by metis
  next
    case 3 from D [OF 3(2)] 3(1) storage.size_view [OF s] show ?case by metis
  next
    case 4 from D [OF 4(2)] 4(1) storage.ioctl_view [OF s] show ?case by metis
  next
    case 5 from D [OF 5(2)] 5(1,3,4) storage.write_other [OF s] show ?case by metis
  next
    case 6 from D [OF 6(2)] 6(1,3) storage.write_open [OF s] show ?case by metis
  next
    case 7 from D [OF 7(2)] 7(1,3,4) storage.write_outside [OF s] show ?case by metis
  next
    case 8 from D [OF 8(2)] 8(1,3-6) storage.write_data [OF s] show ?case by metis
  next
    case 9 from D [OF 9(2)] 9(1,3) storage.erase_other [OF s] show ?case by metis
  next
    case 10 from D [OF 10(2)] 10(1) storage.erase_open [OF s] show ?case by metis
  next
    case 11 from D [OF 11(2)] 11(1) storage.erase_ready [OF s] show ?case by metis
  next
    case 12 from D [OF 12(2)] 12(1,3) storage.erase_keeps [OF s] show ?case by metis
  qed
qed

record trio =
  trio_fal :: "nat \<Rightarrow> nat \<Rightarrow> byte"
  trio_fs :: "memfs fs_state"
  trio_flash :: "nat \<Rightarrow> byte"

definition trio_tables :: "trio mux_tables" where
  "trio_tables =
     \<lparr>mux_io = (\<lambda>b. case b of
         BACKEND_FAL \<Rightarrow> io_part trio_fal (\<lambda>x m. m\<lparr>trio_fal := x\<rparr>) (g_qboot_io_fal nor_cfg nor_stores nor_fal)
       | BACKEND_FS \<Rightarrow> io_part trio_fs (\<lambda>x m. m\<lparr>trio_fs := x\<rparr>)
           (g_qboot_io_fs fs_demo_cfg fs_demo_stores fs_demo_fc mem_posix)
       | BACKEND_CUSTOM \<Rightarrow> io_part trio_flash (\<lambda>x m. m\<lparr>trio_flash := x\<rparr>)
           (g_qboot_io_custom nor_cfg nor_stores (nor_hooks 512))),
      mux_parser = (\<lambda>b. case b of
         BACKEND_FAL \<Rightarrow> parser_part trio_fal (\<lambda>x m. m\<lparr>trio_fal := x\<rparr>) (g_qboot_header_parser_fal nor_cfg nor_fal)
       | BACKEND_FS \<Rightarrow> parser_part trio_fs (\<lambda>x m. m\<lparr>trio_fs := x\<rparr>) (g_qboot_header_parser_fs fs_demo_fc mem_posix)
       | BACKEND_CUSTOM \<Rightarrow> parser_part trio_flash (\<lambda>x m. m\<lparr>trio_flash := x\<rparr>)
           (g_qboot_header_parser_custom nor_cfg nor_stores (nor_hooks 512)))\<rparr>"

definition trio_view :: "qbt_store_backend \<Rightarrow> trio \<Rightarrow> handle \<Rightarrow> dev_view" where
  "trio_view b m = (case b of
     BACKEND_FAL \<Rightarrow> fal_view {0, 1, 2, 3} (\<lambda>s. s) (trio_fal m)
   | BACKEND_FS \<Rightarrow> fs_view fs_demo_cfg fs_demo_stores mf_refers mf_content (trio_fs m)
   | BACKEND_CUSTOM \<Rightarrow> custom_view nor_cfg nor_stores (\<lambda>s. s) (trio_flash m))"

interpretation trio: mux_backends trio_tables trio_view
proof (rule mux_backends.intro)
  fix b
  show "storage (mux_io trio_tables b) (trio_view b)"
    using storage_part [OF nf.storage_axioms [of nor_cfg nor_stores], of trio_fal "\<lambda>x m. m\<lparr>trio_fal := x\<rparr>"]
      storage_part [OF memfs.storage_axioms, of trio_fs "\<lambda>x m. m\<lparr>trio_fs := x\<rparr>"]
      storage_part [OF nor.storage_axioms, of trio_flash "\<lambda>x m. m\<lparr>trio_flash := x\<rparr>"]
    by (cases b) (simp_all add: trio_tables_def trio_view_def [abs_def])
qed (auto simp: trio_tables_def trio_view_def io_part_def on_part_def split: qbt_store_backend.splits prod.splits)

end
