(* ===== verification/Qboot_Download.thy ===== *)
theory Qboot_Download
  imports Qboot_Update Qboot_Instance
begin

text \<open>
  A download session through the helper of the update manager: begun on a reliable device,
  written piece by piece and finished, it leaves exactly the received bytes on the
  \<open>download\<close> target, confirmed, and the manager ready.
\<close>

section \<open>The target\<close>

text \<open>
  The laws of opening, closing and clearing the sign that hold on flash: the target is always
  there, and its bytes do not depend on it being open.
\<close>

locale download_target = reliable_storage "ue_io E" view dev_size
  for E :: "('s, 'p) upd_env" and view :: "'s \<Rightarrow> handle \<Rightarrow> dev_view" and dev_size :: "handle \<Rightarrow> nat" +
  fixes h :: handle
  assumes open_dl: "\<exists>s'. io_open (ue_io E) QBOOT_TARGET_DOWNLOAD fl s = (Inr h, s') \<and> view s' = view s"
    and size_dl: "\<exists>n s'. io_size (ue_io E) h s = (Inr n, s') \<and> unat n = dev_size h"
    and close_dl: "view (snd (io_close (ue_io E) h' s)) = view s"
    and clear_dl: "view (snd (qbt_release_sign_clear (ue_parser E) h None s)) = view s"
    and is_open: "v_open (view s h)" and not_null: "h \<noteq> H_NULL"
    and desc_dl: "qbt_target_desc (ue_cfg E) (ue_stores E) QBOOT_TARGET_DOWNLOAD \<noteq> None"
begin

abbreviation "dev u \<equiv> view (u_dev u)"

lemma dev_cleanup [simp]: "dev (qbt_update_mgr_download_cleanup E u) = dev u"
  by (simp add: qbt_update_mgr_download_cleanup_def qbt_target_close_def close_dl)

lemma dev_set_ok [simp]: "dev (qbt_update_mgr_set_download_ok b E u) = dev u"
  by (simp add: qbt_update_mgr_set_download_ok_def)

lemma open_target:
  obtains n s' where "qbt_target_open (ue_io E) QBOOT_TARGET_DOWNLOAD True fl s = ((True, h, n), s')"
    "unat n = dev_size h" "view s' = view s"
proof -
  obtain s1 where o: "io_open (ue_io E) QBOOT_TARGET_DOWNLOAD fl s = (Inr h, s1)" "view s1 = view s"
    using open_dl by blast
  obtain n s2 where z: "io_size (ue_io E) h s1 = (Inr n, s2)" "unat n = dev_size h" using size_dl by blast
  show ?thesis
    by (rule that [of n s2]) (use o z size_view [OF is_open z(1)] in \<open>simp_all add: qbt_target_open_def\<close>)
qed

lemma start_fields:
  "u_dev (qbt_update_mgr_on_start E u) = u_dev u" "dl_handle (qbt_update_mgr_on_start E u) = dl_handle u"
  "dl_ok (qbt_update_mgr_on_start E u) = dl_ok u" "u_state (qbt_update_mgr_on_start E u) = UPD_RECV"
  "u_dev (qbt_update_mgr_set_total n E u) = u_dev u" "dl_handle (qbt_update_mgr_set_total n E u) = dl_handle u"
  "dl_ok (qbt_update_mgr_set_total n E u) = dl_ok u"
  by (simp_all add: qbt_update_mgr_on_start_def Let_def qbt_update_mgr_reset_recover_probe_def
      qbt_update_reset_progress_def qbt_update_mgr_set_state_def qbt_update_mgr_set_total_def)

lemma begin_ok:
  obtains u1 where "qbt_update_mgr_download_begin E u = (True, u1)" "dl_handle u1 = h" "u_state u1 = UPD_RECV"
    "\<not> dl_ok u1" "ready_range (dev u1 h) 0 (dev_size h)" "\<And>h'. h' \<noteq> h \<Longrightarrow> dev u1 h' = dev u h'"
proof -
  obtain d where d: "qbt_target_desc (ue_cfg E) (ue_stores E) QBOOT_TARGET_DOWNLOAD = Some d"
    using desc_dl by blast
  let ?u1 = "qbt_update_mgr_set_download_ok False E
    (qbt_update_mgr_download_cleanup E (u\<lparr>dl_desc := Some d\<rparr>))"
  obtain n s2 where o: "qbt_target_open (ue_io E) QBOOT_TARGET_DOWNLOAD True
      (QBT_OPEN_WRITE OR QBT_OPEN_CREATE OR QBT_OPEN_TRUNC) (u_dev ?u1) = ((True, h, n), s2)"
    "unat n = dev_size h" "view s2 = dev ?u1"
    by (rule open_target) (rule that)
  obtain r s3 where c: "qbt_release_sign_clear (ue_parser E) h None s2 = (r, s3)" by fastforce
  have v3: "view s3 = dev u" using clear_dl [of s2] c o(3) by simp
  obtain s4 where e: "io_erase (ue_io E) h 0 n s3 = (RT_EOK, s4)"
    using erase_total [OF is_open, of 0 n] o(2) by fastforce
  let ?u4 = "?u1\<lparr>dl_handle := h, dl_size := n, u_dev := s4\<rparr>"
  show ?thesis
    by (rule that [of "qbt_update_mgr_on_start E (qbt_update_mgr_set_total n E ?u4)"])
      (use d o(1,2) c e erase_ready [OF is_open e] erase_other [OF is_open e] v3 in
        \<open>simp_all add: qbt_update_mgr_download_begin_def Let_def start_fields\<close>)
qed

end

section \<open>The session\<close>

text \<open>A client that writes its pieces one behind the other.\<close>

fun download_chunks ::
  "u32 \<Rightarrow> byte list list \<Rightarrow> ('s, 'p) upd_env \<Rightarrow> ('s, 'p) upd \<Rightarrow> bool \<times> ('s, 'p) upd" where
  "download_chunks off [] E u = (True, u)"
| "download_chunks off (bs # rest) E u =
     (case qbt_update_mgr_download_write off bs E u of
        (False, u1) \<Rightarrow> (False, u1)
      | (True, u1) \<Rightarrow> download_chunks (off + of_nat (length bs)) rest E u1)"

context download_target
begin

lemma write_ok:
  assumes hd: "dl_handle u = h" and fit: "unat off + length bs \<le> dev_size h"
    and big: "dev_size h < 4294967296"
    and rdy: "ready_range (dev u h) (unat off) (dev_size h - unat off)"
  obtains u' where "qbt_update_mgr_download_write off bs E u = (True, u')" "dl_handle u' = h"
    "u_state u' = u_state u" "dl_ok u' = dl_ok u"
    "v_cell (dev u' h) = splice (unat off) bs (v_cell (dev u h))"
    "ready_range (dev u' h) (unat off + length bs) (dev_size h - (unat off + length bs))"
    "\<And>h'. h' \<noteq> h \<Longrightarrow> dev u' h' = dev u h'"
proof -
  have len: "length bs < 4294967296" using fit big by linarith
  obtain s1 where w: "io_write (ue_io E) h off bs (u_dev u) = (RT_EOK, s1)"
    using write_total [OF is_open len fit] by blast
  have r: "ready_range (dev u h) (unat off) (length bs)"
    by (rule ready_range_sub [OF rdy]) (use fit in auto)
  have r2: "ready_range (view s1 h) (unat off + length bs) (dev_size h - (unat off + length bs))"
    by (rule write_keeps_ready [OF is_open w len]) (use ready_range_sub [OF rdy] fit in auto)
  show ?thesis
    by (rule that [of "qbt_update_mgr_on_data_len (of_nat (length bs)) E (qbt_update_mgr_on_data (u\<lparr>u_dev := s1\<rparr>))"])
      (use hd not_null w write_cells [OF is_open w len r] r2 write_other [OF is_open w len] in
        \<open>simp_all add: qbt_update_mgr_download_write_def qbt_update_mgr_on_data_len_def
          qbt_update_mgr_on_data_def\<close>)
qed

lemma chunks_ok:
  assumes "dl_handle u = h" and "unat off + length (concat bss) \<le> dev_size h"
    and big: "dev_size h < 4294967296"
    and "ready_range (dev u h) (unat off) (dev_size h - unat off)"
  shows "\<exists>u'. download_chunks off bss E u = (True, u') \<and> dl_handle u' = h \<and> u_state u' = u_state u \<and>
    dl_ok u' = dl_ok u \<and> v_cell (dev u' h) = splice (unat off) (concat bss) (v_cell (dev u h)) \<and>
    (\<forall>h'. h' \<noteq> h \<longrightarrow> dev u' h' = dev u h')"
  using assms(1,2,4)
proof (induction bss arbitrary: off u)
  case (Cons bs rest)
  have fit: "unat off + length bs \<le> dev_size h" using Cons.prems(2) by simp
  obtain u1 where w: "qbt_update_mgr_download_write off bs E u = (True, u1)" "dl_handle u1 = h"
    "u_state u1 = u_state u" "dl_ok u1 = dl_ok u"
    "v_cell (dev u1 h) = splice (unat off) bs (v_cell (dev u h))"
    "ready_range (dev u1 h) (unat off + length bs) (dev_size h - (unat off + length bs))"
    "\<And>h'. h' \<noteq> h \<Longrightarrow> dev u1 h' = dev u h'"
    by (rule write_ok [OF Cons.prems(1) fit big Cons.prems(3)]) (rule that)
  have off: "unat (off + of_nat (length bs)) = unat off + length bs"
    using fit big u32_add [of off "of_nat (length bs)"] by (simp add: u32_of_nat)
  from Cons.IH [of u1 "off + of_nat (length bs)"] Cons.prems(2) w(2,6) off
  obtain u2 where "download_chunks (off + of_nat (length bs)) rest E u1 = (True, u2)" "dl_handle u2 = h"
    "u_state u2 = u_state u1" "dl_ok u2 = dl_ok u1"
    "v_cell (dev u2 h) = splice (unat off + length bs) (concat rest) (v_cell (dev u1 h))"
    "\<forall>h'. h' \<noteq> h \<longrightarrow> dev u2 h' = dev u1 h'"
    by auto
  with w show ?case by (simp add: splice_append)
qed simp

lemma finish_fields:
  assumes "using_download_helper (ue_cfg E)"
  shows "dl_ok (qbt_update_mgr_on_finish True E u)" "u_state (qbt_update_mgr_on_finish True E u) = UPD_READY"
    "ready_flag (qbt_update_mgr_on_finish True E u)" "dl_handle (qbt_update_mgr_on_finish True E u) = H_NULL"
    "dev (qbt_update_mgr_on_finish True E u) = dev u"
proof -
  have "dev (qbt_update_mgr_ready E v) = dev v" for v
    using assms by (simp add: qbt_update_mgr_ready_def Let_def) (simp add: qbt_update_mgr_set_state_def)
  then show "dev (qbt_update_mgr_on_finish True E u) = dev u"
    using assms by (simp add: qbt_update_mgr_on_finish_def Let_def) (simp add: upd_set_reason_def)
qed (use assms in \<open>simp_all add: qbt_update_mgr_on_finish_def Let_def ready_fields\<close>)

lemma session_exact:
  assumes helper: "using_download_helper (ue_cfg E)" and fit: "length (concat bss) \<le> dev_size h"
    and big: "dev_size h < 4294967296"
  shows "\<exists>u1 u2. qbt_update_mgr_download_begin E u = (True, u1) \<and> \<not> dl_ok u1 \<and> u_state u1 = UPD_RECV \<and>
    download_chunks 0 bss E u1 = (True, u2) \<and> \<not> dl_ok u2 \<and>
    (let u3 = qbt_update_mgr_on_finish True E u2
     in dl_ok u3 \<and> u_state u3 = UPD_READY \<and> ready_flag u3 \<and> dl_handle u3 = H_NULL \<and>
        cells (v_cell (dev u3 h)) 0 (length (concat bss)) = concat bss \<and>
        (\<forall>h'. h' \<noteq> h \<longrightarrow> dev u3 h' = dev u h'))"
proof -
  obtain u1 where b: "qbt_update_mgr_download_begin E u = (True, u1)" "dl_handle u1 = h" "u_state u1 = UPD_RECV"
    "\<not> dl_ok u1" "ready_range (dev u1 h) 0 (dev_size h)" "\<And>h'. h' \<noteq> h \<Longrightarrow> dev u1 h' = dev u h'"
    by (rule begin_ok) (rule that)
  obtain u2 where c: "download_chunks 0 bss E u1 = (True, u2)" "dl_ok u2 = dl_ok u1"
    "v_cell (dev u2 h) = splice 0 (concat bss) (v_cell (dev u1 h))" "\<forall>h'. h' \<noteq> h \<longrightarrow> dev u2 h' = dev u1 h'"
    using chunks_ok [OF b(2) _ big, of 0 bss] fit b(5) by auto
  have "cells (v_cell (dev u2 h)) 0 (length (concat bss)) = concat bss" by (simp only: c(3) cells_splice_same)
  with b c finish_fields [OF helper, of u2] show ?thesis
    by (intro exI [of _ u1] exI [of _ u2]) (simp add: Let_def)
qed

end

section \<open>A product\<close>

text \<open>
  A product whose state is the stored reason and the number of recovery probes made, with a
  valid application, on the reference flash.
\<close>

definition demo_ops :: "(u32 \<times> nat) qbt_update_ops" where
  "demo_ops = \<lparr>is_app_valid = (\<lambda>p. (True, p)), get_reason = (\<lambda>p. (fst p, p)), set_reason = (\<lambda>r p. (r, snd p)),
     enter_download = (\<lambda>p. p), leave_download = (\<lambda>p. p), on_error = (\<lambda>_ p. p), on_ready_to_app = (\<lambda>p. p),
     try_recover = (\<lambda>p. (False, (fst p, Suc (snd p))))\<rparr>"

definition demo_upd_env :: "(nat \<Rightarrow> byte, u32 \<times> nat) upd_env" where
  "demo_upd_env = \<lparr>ue_cfg = nor_cfg\<lparr>using_download_helper := True\<rparr>, ue_stores = nor_stores,
     ue_io = g_qboot_io_custom nor_cfg nor_stores (nor_hooks 512),
     ue_parser = g_qboot_header_parser_custom nor_cfg nor_stores (nor_hooks 512), ue_ops = demo_ops, ue_reason_ops = True,
     ue_progress = True, ue_print = False, ue_ms = (\<lambda>n. n)\<rparr>"

lemma demo_upd_env_simps [simp]:
  "ue_cfg demo_upd_env = nor_cfg\<lparr>using_download_helper := True\<rparr>" "ue_stores demo_upd_env = nor_stores"
  "ue_io demo_upd_env = g_qboot_io_custom nor_cfg nor_stores (nor_hooks 512)"
  "ue_parser demo_upd_env = g_qboot_header_parser_custom nor_cfg nor_stores (nor_hooks 512)"
  "ue_ops demo_upd_env = demo_ops" "ue_reason_ops demo_upd_env"
  by (simp_all add: demo_upd_env_def)

lemma demo_counts: "counts_probes demo_ops snd"
  by (simp add: counts_probes_def demo_ops_def)

definition demo_upd :: "(nat \<Rightarrow> byte, u32 \<times> nat) upd" where
  "demo_upd = \<lparr>u_state = UPD_IDLE, wait_start = 0, download_last = 0, wait_ms = 0, idle_ms = 0, ready_flag = False,
     recover_probe_used = False, dl_desc = None, dl_handle = H_NULL, dl_size = 0, dl_ok = False,
     dl_total_bytes = 0, dl_done_bytes = 0, dl_last_print = 0, dl_last_percent = 0, u_tick = 0,
     u_dev = demo_flash, u_env = (0, 0)\<rparr>"

lemma demo_static: "upd_static demo_upd"
  by (simp add: upd_static_def demo_upd_def)

interpretation nor_dl: download_target demo_upd_env "custom_view nor_cfg nor_stores (\<lambda>s. s)"
  "custom_dev_size nor_cfg nor_stores" H_download
proof (rule download_target.intro)
  show "reliable_storage (ue_io demo_upd_env) (custom_view nor_cfg nor_stores (\<lambda>s. s))
      (custom_dev_size nor_cfg nor_stores)"
    using nor.reliable_storage_axioms by simp
  obtain d where d: "qbt_target_desc nor_cfg nor_stores QBOOT_TARGET_DOWNLOAD = Some d"
    by (simp add: qbt_target_desc_def length_g_descs)
  note f = target_desc_fields [OF this]
  have d': "qbt_target_desc (nor_cfg\<lparr>using_download_helper := True\<rparr>) nor_stores QBOOT_TARGET_DOWNLOAD \<noteq> None"
    by (simp add: qbt_target_desc_def length_g_descs)
  show "download_target_axioms demo_upd_env (custom_view nor_cfg nor_stores (\<lambda>s. s))
      (custom_dev_size nor_cfg nor_stores) H_download"
    by unfold_locales
      (use d d' f in \<open>simp_all add: custom_ops_defs qbt_custom_find_desc_def nor_stores_def
        qbt_release_sign_clear_def g_qboot_header_parser_custom_def qbt_custom_sign_clear_def
        split: prod.splits\<close>)
qed

end
