(* ===== verification/Qboot_Session.thy ===== *)
theory Qboot_Session
  imports Qboot_Download
begin

text \<open>
  An abstract specification of the update manager of \<open>src/qboot_update.c\<close> with its download
  helper: in which phase it is, and whether the download target is shut, open for writing, or
  passed as complete. The handlers refine it, event by event; what the specification says of
  complete downloads holds of them.
\<close>

section \<open>The specification\<close>

datatype phase = Waiting | Receiving | Leaving
datatype gate = Shut | Open | Passed

type_synonym session = "phase \<times> gate"

text \<open>Once the manager leaves, which lets the boot thread go on, it does not come back.\<close>

definition after :: "phase \<Rightarrow> phase \<Rightarrow> phase" where
  "after p q = (if p = Leaving then Leaving else q)"

definition shut :: "gate \<Rightarrow> gate" where
  "shut g = (if g = Open then Shut else g)"

fun quiet :: "upd_event \<Rightarrow> bool" where
  "quiet (Ev_ticks n) = True"
| "quiet Ev_data = True"
| "quiet (Ev_data_len n) = True"
| "quiet ev = False"

text \<open>
  A step takes an event and the answer of the call. A beginning that fails has no target, fails
  while opening or erasing, or leaves behind the handle of a target whose size it could not get.
\<close>

inductive session_step :: "upd_event \<Rightarrow> bool \<Rightarrow> session \<Rightarrow> session \<Rightarrow> bool" where
  quiet: "quiet ev \<Longrightarrow> session_step ev True (p, g) (p, g)"
| request: "session_step Ev_request True (p, g) (after p Waiting, g)"
| start: "session_step Ev_start True (p, g) (after p Receiving, g)"
| abort: "session_step Ev_abort True (p, g) (after p Waiting, g)"
| finish_ok: "session_step (Ev_finish True) True (p, g) (Leaving, Passed)"
| finish_bad: "session_step (Ev_finish False) True (p, g) (after p Waiting, Shut)"
| begin_ok: "session_step Ev_begin True (p, g) (after p Receiving, Open)"
| begin_nothing: "session_step Ev_begin False (p, g) (p, g)"
| begin_fails: "session_step Ev_begin False (p, g) (p, Shut)"
| begin_stale: "session_step Ev_begin False (p, g) (p, Open)"
| write_ok: "session_step (Ev_write off bs) True (p, Open) (p, Open)"
| write_fails: "session_step (Ev_write off bs) False (p, Open) (after p Waiting, Shut)"
| write_refused: "g \<noteq> Open \<Longrightarrow> session_step (Ev_write off bs) False (p, g) (p, g)"
| poll_stays: "session_step Ev_poll True (p, g) (p, g)"
| poll_leaves: "session_step Ev_poll True (p, g) (Leaving, shut g)"
| poll_back: "session_step Ev_poll True (Receiving, g) (Waiting, g)"

inductive_cases session_stepE: "session_step ev r s s'"

inductive session_run :: "(upd_event \<times> bool) list \<Rightarrow> session \<Rightarrow> session \<Rightarrow> bool" where
  run_nil: "session_run [] s s"
| run_step: "session_step ev r s s' \<Longrightarrow> session_run tr s' s'' \<Longrightarrow> session_run ((ev, r) # tr) s s''"

inductive_cases session_run_ConsE: "session_run ((ev, r) # tr) s s''"
inductive_simps session_run_Nil [simp]: "session_run [] s s'"

subsection \<open>Complete downloads\<close>

text \<open>An answer that ends what a complete download is: a failure reported, or a new beginning.\<close>

definition spoils :: "upd_event \<times> bool \<Rightarrow> bool" where
  "spoils x \<longleftrightarrow> x = (Ev_finish False, True) \<or> x = (Ev_begin, True)"

lemma step_passed:
  assumes "session_step ev r s s'" and "snd s' = Passed"
  shows "ev = Ev_finish True \<or> snd s = Passed \<and> \<not> spoils (ev, r)"
  using assms by (auto simp: spoils_def shut_def elim!: session_stepE split: if_splits)

subsection \<open>Open targets\<close>

text \<open>An answer that shuts the target: the end of a download, or a write that failed.\<close>

fun shuts :: "upd_event \<times> bool \<Rightarrow> bool" where
  "shuts (Ev_finish ok, r) = True"
| "shuts (Ev_write off bs, r) = (\<not> r)"
| "shuts x = False"

lemma quiet_keeps: "quiet ev \<Longrightarrow> \<not> shuts (ev, r)"
  by (cases ev) simp_all

lemma step_open:
  assumes "session_step ev r s s'" and "snd s' = Open"
  shows "ev = Ev_begin \<or> snd s = Open \<and> \<not> shuts (ev, r)"
  using assms by (auto simp: shut_def quiet_keeps elim!: session_stepE split: if_splits)

text \<open>
  What holds at the end of a run, comes from an event of a kind and survives no answer of
  another, was there from the beginning or came from such an event, with no such answer since.
\<close>

lemma run_since:
  assumes "session_run tr s s'" and "P s'"
    and step: "\<And>ev r s s'. session_step ev r s s' \<Longrightarrow> P s' \<Longrightarrow> ev = e \<or> P s \<and> \<not> Q (ev, r)"
  shows "(P s \<and> (\<forall>x \<in> set tr. \<not> Q x)) \<or>
    (\<exists>tr1 r tr2. tr = tr1 @ (e, r) # tr2 \<and> (\<forall>x \<in> set tr2. \<not> Q x))"
  using assms(1,2)
proof (induction rule: session_run.induct)
  case (run_step ev r s s' tr s'')
  from run_step.IH [OF run_step.prems] show ?case
  proof (elim disjE exE conjE)
    assume "P s'" and keep: "\<forall>x \<in> set tr. \<not> Q x"
    with step [OF run_step.hyps(1)] consider "ev = e" | "P s" "\<not> Q (ev, r)" by blast
    then show ?thesis
    proof cases
      case 1
      with keep show ?thesis by (intro disjI2 exI [of _ "[]"]) simp
    qed (use keep in simp)
  next
    fix tr1 q tr2 assume "tr = tr1 @ (e, q) # tr2" and "\<forall>x \<in> set tr2. \<not> Q x"
    then show ?thesis by (intro disjI2 exI [of _ "(ev, r) # tr1"] exI [of _ q] exI [of _ tr2]) simp
  qed
qed simp

lemma run_passed:
  assumes "session_run tr s s'" and "snd s' = Passed"
  shows "(snd s = Passed \<and> (\<forall>x \<in> set tr. \<not> spoils x)) \<or>
    (\<exists>tr1 r tr2. tr = tr1 @ (Ev_finish True, r) # tr2 \<and> (\<forall>x \<in> set tr2. \<not> spoils x))"
  by (rule run_since [where P = "\<lambda>s. snd s = Passed", OF assms]) (rule step_passed)

lemma run_open:
  assumes "session_run tr s s'" and "snd s' = Open"
  shows "(snd s = Open \<and> (\<forall>x \<in> set tr. \<not> shuts x)) \<or>
    (\<exists>tr1 r tr2. tr = tr1 @ (Ev_begin, r) # tr2 \<and> (\<forall>x \<in> set tr2. \<not> shuts x))"
  by (rule run_since [where P = "\<lambda>s. snd s = Open", OF assms]) (rule step_open)

section \<open>The refinement\<close>

definition abs_session :: "('s, 'p) upd \<Rightarrow> session" where
  "abs_session u =
     (if ready_flag u then Leaving else if u_state u = UPD_RECV then Receiving else Waiting,
      if dl_ok u then Passed else if dl_handle u \<noteq> H_NULL then Open else Shut)"

text \<open>What the call of an event answers.\<close>

fun upd_answer :: "('s, 'p) upd_env \<Rightarrow> upd_event \<Rightarrow> ('s, 'p) upd \<Rightarrow> bool" where
  "upd_answer E Ev_begin u = fst (qbt_update_mgr_download_begin E u)"
| "upd_answer E (Ev_write off bs) u = fst (qbt_update_mgr_download_write off bs E u)"
| "upd_answer E ev u = True"

fun upd_trace :: "('s, 'p) upd_env \<Rightarrow> upd_event list \<Rightarrow> ('s, 'p) upd \<Rightarrow> (upd_event \<times> bool) list" where
  "upd_trace E [] u = []"
| "upd_trace E (ev # evs) u = (ev, upd_answer E ev u) # upd_trace E evs (upd_handle E ev u)"

lemma abs_fields [simp]:
  "abs_session (u\<lparr>u_env := q\<rparr>) = abs_session u" "abs_session (u\<lparr>u_dev := s\<rparr>) = abs_session u"
  "abs_session (u\<lparr>u_tick := t\<rparr>) = abs_session u" "abs_session (u\<lparr>wait_start := t\<rparr>) = abs_session u"
  "abs_session (u\<lparr>recover_probe_used := b\<rparr>) = abs_session u" "abs_session (u\<lparr>dl_desc := d\<rparr>) = abs_session u"
  "abs_session (upd_set_reason r E u) = abs_session u" "abs_session (qbt_update_mgr_set_total n E u) = abs_session u"
  "abs_session (qbt_update_mgr_on_data u) = abs_session u" "abs_session (qbt_update_mgr_on_data_len n E u) = abs_session u"
  "abs_session (poll_progress now E u) = abs_session u" "abs_session (qbt_update_reset_progress u) = abs_session u"
  by (simp_all add: abs_session_def upd_defs poll_progress_def Let_def)

lemma abs_set_state:
  "st \<noteq> UPD_RECV \<Longrightarrow> abs_session (qbt_update_mgr_set_state st u) = (after (fst (abs_session u)) Waiting, snd (abs_session u))"
  "abs_session (qbt_update_mgr_set_state UPD_RECV u) = (after (fst (abs_session u)) Receiving, snd (abs_session u))"
  by (simp_all add: abs_session_def after_def qbt_update_mgr_set_state_def Let_def)

lemma abs_cleanup:
  "abs_session (qbt_update_mgr_download_cleanup E u) = (fst (abs_session u), if dl_ok u then Passed else Shut)"
  "abs_session (qbt_update_mgr_set_download_ok b E u) = (fst (abs_session u), if b then Passed else Shut)"
  by (simp_all add: abs_session_def)

lemma abs_start: "abs_session (qbt_update_mgr_on_start E u) = (after (fst (abs_session u)) Receiving, snd (abs_session u))"
  by (simp add: qbt_update_mgr_on_start_def Let_def abs_set_state qbt_update_mgr_reset_recover_probe_def)

lemma abs_ready:
  assumes "using_download_helper (ue_cfg E)"
  shows "abs_session (qbt_update_mgr_ready E u) = (Leaving, shut (snd (abs_session u)))"
  using ready_fields [of E u] assms by (simp add: abs_session_def shut_def)

lemma inv_gate: "upd_inv u \<Longrightarrow> dl_handle u \<noteq> H_NULL \<longleftrightarrow> snd (abs_session u) = Open"
  by (auto simp: abs_session_def upd_inv_def)

text \<open>Reporting a bad download shuts the target and, while the manager runs, has it wait.\<close>

lemma abs_finish_bad:
  assumes "using_download_helper (ue_cfg E)"
  shows "abs_session (qbt_update_mgr_on_finish False E u) = (after (fst (abs_session u)) Waiting, Shut)"
  using assms by (auto simp: qbt_update_mgr_on_finish_def qbt_update_mgr_set_state_def Let_def abs_session_def after_def)

lemma abs_cleanup_shut:
  "abs_session u = (p, Shut) \<Longrightarrow> abs_session (qbt_update_mgr_download_cleanup E u) = (p, Shut)"
  by (auto simp: abs_cleanup) (simp add: abs_session_def)

text \<open>A backend never opens the null handle.\<close>

definition opens_handles :: "'s qboot_io_ops \<Rightarrow> bool" where
  "opens_handles io \<longleftrightarrow> (\<forall>i fl s h s'. io_open io i fl s = (Inr h, s') \<longrightarrow> h \<noteq> H_NULL)"

lemma target_open_handle:
  "opens_handles io \<Longrightarrow> qbt_target_open io i True fl s = ((True, h, n), s') \<Longrightarrow> h \<noteq> H_NULL"
  unfolding opens_handles_def qbt_target_open_def by (fastforce split: prod.splits sum.splits)

lemma begin_step:
  assumes o: "opens_handles (ue_io E)" and inv: "upd_inv u"
  shows "session_step Ev_begin (fst (qbt_update_mgr_download_begin E u)) (abs_session u)
    (abs_session (snd (qbt_update_mgr_download_begin E u)))"
proof -
  obtain p g where a: "abs_session u = (p, g)" by fastforce
  define u0 where "u0 = u\<lparr>dl_desc := qbt_target_desc (ue_cfg E) (ue_stores E) QBOOT_TARGET_DOWNLOAD\<rparr>"
  define u1 where "u1 = qbt_update_mgr_set_download_ok False E (qbt_update_mgr_download_cleanup E u0)"
  have a1: "abs_session (u1\<lparr>dl_handle := h, dl_size := n\<rparr>) = (p, if h = H_NULL then Shut else Open)" for h n
    using a by (auto simp: abs_session_def u1_def u0_def)
  have a2: "abs_session (u1\<lparr>dl_handle := h\<rparr>) = (p, if h = H_NULL then Shut else Open)" for h
    using a by (auto simp: abs_session_def u1_def u0_def)
  obtain ok h n s where t: "qbt_target_open (ue_io E) QBOOT_TARGET_DOWNLOAD True
      (QBT_OPEN_WRITE OR QBT_OPEN_CREATE OR QBT_OPEN_TRUNC) (u_dev u1) = ((ok, h, n), s)"
    by (metis prod.exhaust)
  have d1: "\<not> dl_ok u1" by (simp add: u1_def)
  note b = qbt_update_mgr_download_begin_def [of E u, unfolded Let_def, folded u0_def, folded u1_def, unfolded t]
  show ?thesis
  proof (cases "dl_desc u0 = None")
    case True
    then show ?thesis using a by (simp add: b session_step.intros) (simp add: u0_def a session_step.begin_nothing)
  next
    case False
    then obtain d where d: "dl_desc u0 = Some d" by auto
    show ?thesis
    proof (cases ok)
      case True
      have h: "h \<noteq> H_NULL" by (rule target_open_handle [OF o]) (use t True in simp)
      show ?thesis
        using True h
        by (simp add: a d b a1 d1 abs_start abs_cleanup session_step.intros split: prod.split)
    qed (simp add: a d b a2 session_step.intros)
  qed
qed

lemma write_step:
  assumes H: "using_download_helper (ue_cfg E)" and inv: "upd_inv u"
  shows "session_step (Ev_write off bs) (fst (qbt_update_mgr_download_write off bs E u)) (abs_session u)
    (abs_session (snd (qbt_update_mgr_download_write off bs E u)))"
proof (cases "dl_handle u = H_NULL")
  case True
  then have "snd (abs_session u) \<noteq> Open" using inv_gate [OF inv] by blast
  with True show ?thesis
    by (cases "abs_session u") (simp add: qbt_update_mgr_download_write_def session_step.write_refused)
next
  case False
  then obtain p where a: "abs_session u = (p, Open)" using inv_gate [OF inv] by (metis prod.collapse)
  obtain e s where w: "io_write (ue_io E) (dl_handle u) off bs (u_dev u) = (e, s)" by fastforce
  have "abs_session (qbt_update_mgr_on_finish False E (u\<lparr>u_dev := s\<rparr>)) = (after p Waiting, Shut)"
    using a by (simp add: abs_finish_bad [OF H])
  then show ?thesis
    using False a w
    by (cases "e = RT_EOK") (simp_all add: qbt_update_mgr_download_write_def Let_def abs_cleanup_shut session_step.intros)
qed

lemma leave_step:
  assumes H: "using_download_helper (ue_cfg E)"
    and stay: "\<And>v. abs_session v = abs_session u \<Longrightarrow> session_step Ev_poll True (abs_session u) (abs_session (stay v))"
  shows "session_step Ev_poll True (abs_session u) (abs_session (leave_or E stay u))"
proof -
  have leave: "session_step Ev_poll True (abs_session u) (abs_session (qbt_update_mgr_ready E v))"
    if "abs_session v = abs_session u" for v
    using that by (cases "abs_session u") (simp add: abs_ready [OF H] session_step.poll_leaves)
  have once: "abs_session v = abs_session u" if "qbt_update_mgr_try_recover_once E (u\<lparr>u_env := p\<rparr>) = (b, v)" for b v p
    using that by (auto simp: qbt_update_mgr_try_recover_once_def split: if_splits prod.splits)
  show ?thesis
    by (auto simp: leave_or_def split: prod.splits bool.splits intro!: leave stay dest: once)
qed

lemma poll_step:
  assumes H: "using_download_helper (ue_cfg E)"
  shows "session_step Ev_poll True (abs_session u) (abs_session (if ready_flag u then u else poll_pass E u))"
proof -
  obtain p g where a: "abs_session u = (p, g)" by fastforce
  have idle: "session_step Ev_poll True (abs_session u) (abs_session u)" by (simp add: a session_step.poll_stays)
  have w: "session_step Ev_poll True (abs_session u) (abs_session (leave_or E (\<lambda>v. v\<lparr>wait_start := now\<rparr>) u))" for now
    by (rule leave_step [OF H]) (simp add: idle)
  have r: "session_step Ev_poll True (abs_session u) (abs_session (leave_or E (qbt_update_mgr_set_state UPD_WAIT) u))"
    if "\<not> ready_flag u" "u_state u = UPD_RECV"
  proof (rule leave_step [OF H])
    have "p = Receiving" using a that by (auto simp: abs_session_def)
    then show "session_step Ev_poll True (abs_session u) (abs_session (qbt_update_mgr_set_state UPD_WAIT v))"
      if "abs_session v = abs_session u" for v
      using that a by (simp add: abs_set_state after_def session_step.poll_back)
  qed
  show ?thesis using idle w r by (simp add: poll_pass_def Let_def)
qed

theorem handle_step:
  assumes H: "using_download_helper (ue_cfg E)" and o: "opens_handles (ue_io E)" and inv: "upd_inv u"
  shows "session_step ev (upd_answer E ev u) (abs_session u) (abs_session (upd_handle E ev u))"
proof -
  obtain p g where a: "abs_session u = (p, g)" by fastforce
  show ?thesis
  proof (cases ev)
    case (Ev_finish ok)
    show ?thesis
    proof (cases ok)
      case True
      with Ev_finish show ?thesis
        by (simp add: a qbt_update_mgr_on_finish_def Let_def H abs_ready [OF H] abs_cleanup shut_def session_step.intros)
    qed (simp add: Ev_finish a abs_finish_bad [OF H] session_step.intros)
  qed (use a begin_step [OF o inv] write_step [OF H inv] poll_step [OF H, of u] in
    \<open>simp_all add: abs_set_state abs_start session_step.intros qbt_update_mgr_on_request_def qbt_update_mgr_on_abort_def\<close>)
qed

lemma trace_run:
  assumes H: "using_download_helper (ue_cfg E)" and o: "opens_handles (ue_io E)" and inv: "upd_inv u"
  shows "session_run (upd_trace E evs u) (abs_session u) (abs_session (fold (upd_handle E) evs u))"
  using inv
proof (induction evs arbitrary: u)
  case (Cons ev evs)
  show ?case by (simp add: session_run.run_step [OF handle_step [OF H o Cons.prems] Cons.IH [OF inv_handle [OF Cons.prems]]])
qed simp

text \<open>
  The rule \<open>begin_stale\<close> is not idle: when the size of the target cannot be had, the handle is
  closed and kept, and the next write goes to it.
\<close>

lemma failed_begin_keeps_handle:
  assumes d: "qbt_target_desc (ue_cfg E) (ue_stores E) QBOOT_TARGET_DOWNLOAD \<noteq> None" and "dl_handle u = H_NULL"
    and "io_open (ue_io E) QBOOT_TARGET_DOWNLOAD (QBT_OPEN_WRITE OR QBT_OPEN_CREATE OR QBT_OPEN_TRUNC) (u_dev u) = (Inr h, s1)"
    and "io_size (ue_io E) h s1 = (Inl e, s2)"
  shows "fst (qbt_update_mgr_download_begin E u) = False \<and> dl_handle (snd (qbt_update_mgr_download_begin E u)) = h \<and>
    u_dev (snd (qbt_update_mgr_download_begin E u)) = snd (io_close (ue_io E) h s2)"
proof -
  obtain x where "qbt_target_desc (ue_cfg E) (ue_stores E) QBOOT_TARGET_DOWNLOAD = Some x" using d by blast
  with assms(2-4) show ?thesis
    by (cases "io_close (ue_io E) h s2")
      (simp add: qbt_update_mgr_download_begin_def qbt_target_open_def qbt_update_mgr_download_cleanup_def
        qbt_update_mgr_set_download_ok_def qbt_target_close_def Let_def)
qed

section \<open>A demonstration\<close>

lemma demo_opens: "opens_handles (ue_io demo_upd_env)"
  by (auto simp: opens_handles_def custom_ops_defs split: option.splits if_splits)

text \<open>The manager after a start for which an update was requested.\<close>

abbreviation "demo_requested \<equiv> qbt_update_mgr_register 100 100 demo_upd_env (demo_upd\<lparr>u_env := (QBT_UPD_REASON_REQ, 0)\<rparr>)"

lemma demo_requested: "upd_reach demo_upd_env demo_requested" "abs_session demo_requested = (Waiting, Shut)"
  using demo_static
  by (auto simp: upd_static_def intro!: upd_reach.registered)
    (simp add: abs_session_def qbt_update_mgr_register_def upd_defs Let_def demo_upd_def demo_ops_def
      qbt_update_mgr_set_state_def QBT_UPD_REASON_REQ_def QBT_UPD_REASON_NONE_def QBT_UPD_REASON_DONE_def
      QBT_UPD_REASON_IN_PROGRESS_def)

lemma reach_run: "upd_reach E u \<Longrightarrow> upd_reach E (fold (upd_handle E) evs u)"
  by (induction evs arbitrary: u) (simp_all add: upd_reach.step)

end
