(* ===== verification/Qboot_Registry.thy ===== *)
theory Qboot_Registry
  imports Qboot_Algo
begin

text \<open>
  What any sequence of registrations makes of the tables of \<open>src/qboot_algo.c\<close>, and what a
  header then selects: for each field of the algorithm word the first complete handler that was
  registered under it.
\<close>

datatype 'a registration = Reg_cmprs "'a qboot_cmprs_ops option" | Reg_crypto "'a qboot_crypto_ops option"

fun register :: "'a registration \<Rightarrow> 'a algo_tables \<Rightarrow> 'a algo_tables" where
  "register (Reg_cmprs ops) t = snd (qboot_cmprs_register ops t)"
| "register (Reg_crypto ops) t = snd (qboot_crypto_register ops t)"

text \<open>Whether a registration brings a complete handler for slot \<open>k\<close> of a table.\<close>

definition fills_cmprs :: "nat \<Rightarrow> 'a qboot_cmprs_ops \<Rightarrow> bool" where
  "fills_cmprs k ops \<longleftrightarrow> decompress ops \<noteq> None \<and> cmprs_name ops \<noteq> None \<and> k < 5 \<and> unat (drop_bit 8 (cmprs_id ops)) = k"

definition fills_crypto :: "nat \<Rightarrow> 'a qboot_crypto_ops \<Rightarrow> bool" where
  "fills_crypto k ops \<longleftrightarrow> decrypt ops \<noteq> None \<and> crypto_name ops \<noteq> None \<and> k < 3 \<and>
     unat (crypto_id ops AND QBOOT_ALGO_CRYPT_MASK) = k"

fun cmprs_of :: "'a registration list \<Rightarrow> 'a qboot_cmprs_ops list" where
  "cmprs_of [] = []"
| "cmprs_of (Reg_cmprs (Some ops) # rs) = ops # cmprs_of rs"
| "cmprs_of (r # rs) = cmprs_of rs"

fun crypto_of :: "'a registration list \<Rightarrow> 'a qboot_crypto_ops list" where
  "crypto_of [] = []"
| "crypto_of (Reg_crypto (Some ops) # rs) = ops # crypto_of rs"
| "crypto_of (r # rs) = crypto_of rs"

lemma cmprs_index:
  "unat (qboot_cmprs_id_to_index i) = (if unat (drop_bit 8 i) < 5 then unat (drop_bit 8 i) else 5)"
  by (simp add: qboot_cmprs_id_to_index_def Let_def u32_cmp u16_ucast algo_id_defs)

lemma crypto_index:
  "unat (qboot_crypto_id_to_index i) =
     (if unat (i AND QBOOT_ALGO_CRYPT_MASK) < 3 then unat (i AND QBOOT_ALGO_CRYPT_MASK) else 3)"
  by (simp add: qboot_crypto_id_to_index_def Let_def u32_cmp u16_ucast QBOOT_ALGO_CRYPT_COUNT_def)

lemma cmprs_slot:
  assumes "length (g_cmprs_table t) = 5" and "k < 5"
  shows "g_cmprs_table (snd (qboot_cmprs_register (Some ops) t)) ! k =
    (if g_cmprs_table t ! k = None \<and> fills_cmprs k ops then Some ops else g_cmprs_table t ! k)"
  using assms
  by (auto simp: qboot_cmprs_register_def fills_cmprs_def Let_def u32_le_iff cmprs_index nth_list_update)

lemma crypto_slot:
  assumes "length (g_crypt_table t) = 3" and "k < 3"
  shows "g_crypt_table (snd (qboot_crypto_register (Some ops) t)) ! k =
    (if g_crypt_table t ! k = None \<and> fills_crypto k ops then Some ops else g_crypt_table t ! k)"
  using assms
  by (auto simp: qboot_crypto_register_def fills_crypto_def Let_def u32_le_iff crypto_index nth_list_update)

lemma other_table [simp]:
  "g_crypt_table (snd (qboot_cmprs_register ops t)) = g_crypt_table t"
  "g_cmprs_table (snd (qboot_crypto_register ops' t)) = g_cmprs_table t"
  by (simp_all add: qboot_cmprs_register_def qboot_crypto_register_def Let_def split: option.split)

lemma register_null [simp]:
  "snd (qboot_cmprs_register None t) = t" "snd (qboot_crypto_register None t) = t"
  by (simp_all add: qboot_cmprs_register_def qboot_crypto_register_def)

lemma register_wf: "wf_tables t \<Longrightarrow> wf_tables (register r t)"
  by (cases "(r, t)" rule: register.cases; rename_tac ops t; case_tac ops)
    (auto intro: cmprs_register_wf crypto_register_wf prod.collapse [symmetric])

lemma registered_wf: "wf_tables t \<Longrightarrow> wf_tables (fold register rs t)"
  by (induction rs arbitrary: t) (simp_all add: register_wf)

text \<open>A slot keeps the first handler that fills it.\<close>

definition or_else :: "'b option \<Rightarrow> 'b option \<Rightarrow> 'b option" where
  "or_else x y = (case x of None \<Rightarrow> y | Some _ \<Rightarrow> x)"

lemma or_else_simps [simp]: "or_else None y = y" "or_else (Some a) y = Some a" "or_else x None = x"
  by (simp_all add: or_else_def split: option.split)

lemma or_else_assoc: "or_else (or_else x y) z = or_else x (or_else y z)"
  by (simp add: or_else_def split: option.split)

lemma find_or_else: "find P (xs @ ys) = or_else (find P xs) (find P ys)"
  by (induction xs) simp_all

lemma cmprs_of_Cons: "cmprs_of (r # rs) = cmprs_of [r] @ cmprs_of rs"
  by (cases "r # rs" rule: cmprs_of.cases) simp_all

lemma crypto_of_Cons: "crypto_of (r # rs) = crypto_of [r] @ crypto_of rs"
  by (cases "r # rs" rule: crypto_of.cases) simp_all

lemma register_slots:
  assumes "wf_tables t"
  shows "k < 5 \<Longrightarrow> g_cmprs_table (register r t) ! k = or_else (g_cmprs_table t ! k) (find (fills_cmprs k) (cmprs_of [r]))"
    and "k < 3 \<Longrightarrow> g_crypt_table (register r t) ! k = or_else (g_crypt_table t ! k) (find (fills_crypto k) (crypto_of [r]))"
proof -
  have l: "length (g_cmprs_table t) = 5" "length (g_crypt_table t) = 3" using assms by (simp_all add: wf_tables_def)
  show "g_cmprs_table (register r t) ! k = or_else (g_cmprs_table t ! k) (find (fills_cmprs k) (cmprs_of [r]))" if "k < 5"
    using cmprs_slot [OF l(1) that]
    by (cases "[r]" rule: cmprs_of.cases) (auto simp: or_else_def split: option.split)
  show "g_crypt_table (register r t) ! k = or_else (g_crypt_table t ! k) (find (fills_crypto k) (crypto_of [r]))" if "k < 3"
    using crypto_slot [OF l(2) that]
    by (cases "[r]" rule: crypto_of.cases) (auto simp: or_else_def split: option.split)
qed

lemma registered_cmprs:
  "wf_tables t \<Longrightarrow> k < 5 \<Longrightarrow>
    g_cmprs_table (fold register rs t) ! k = or_else (g_cmprs_table t ! k) (find (fills_cmprs k) (cmprs_of rs))"
proof (induction rs arbitrary: t)
  case (Cons r rs)
  then show ?case
    by (simp add: register_wf register_slots(1) cmprs_of_Cons [of r rs] find_or_else or_else_assoc)
qed simp

lemma registered_crypto:
  "wf_tables t \<Longrightarrow> k < 3 \<Longrightarrow>
    g_crypt_table (fold register rs t) ! k = or_else (g_crypt_table t ! k) (find (fills_crypto k) (crypto_of rs))"
proof (induction rs arbitrary: t)
  case (Cons r rs)
  then show ?case
    by (simp add: register_wf register_slots(2) crypto_of_Cons [of r rs] find_or_else or_else_assoc)
qed simp

text \<open>The two fields of the algorithm word, as slot numbers.\<close>

lemma cmprs_field: "unat (qboot_cmprs_id_to_index (i AND QBOOT_ALGO_CMPRS_MASK)) =
    (if unat (drop_bit 8 i AND 0x1F) < 5 then unat (drop_bit 8 i AND 0x1F) else 5)"
  by (simp add: masked_cmprs_index Let_def u16_ucast)

lemma empty_slots:
  "k < 5 \<Longrightarrow> g_cmprs_table algo_tables_0 ! k = None"
  "k < 3 \<Longrightarrow> g_crypt_table algo_tables_0 ! k = None"
  by (simp_all add: algo_tables_0_def)

theorem registered_context:
  "qbt_fw_get_algo_context (fold register rs algo_tables_0) fw =
    (let z = find (fills_cmprs (unat (drop_bit 8 (algo fw) AND 0x1F))) (cmprs_of rs);
         d = find (fills_crypto (unat (algo fw AND QBOOT_ALGO_CRYPT_MASK))) (crypto_of rs)
     in (z \<noteq> None \<and> d \<noteq> None, \<lparr>crypt_ops = d, cmprs_ops = z\<rparr>))"
proof -
  let ?t = "fold register rs algo_tables_0"
  let ?k = "unat (drop_bit 8 (algo fw) AND 0x1F)" and ?j = "unat (algo fw AND QBOOT_ALGO_CRYPT_MASK)"
  have none: "find (fills_cmprs k) xs = None" if "\<not> k < 5" for k xs
    using that by (simp add: find_None_iff fills_cmprs_def)
  have none': "find (fills_crypto k) xs = None" if "\<not> k < 3" for k xs
    using that by (simp add: find_None_iff fills_crypto_def)
  have "qboot_find_cmprs ?t (algo fw AND QBOOT_ALGO_CMPRS_MASK) = find (fills_cmprs ?k) (cmprs_of rs)"
  proof (cases "?k < 5")
    case True
    then show ?thesis
      using registered_cmprs [OF wf_tables_0 True, of rs]
      by (simp add: empty_slots qboot_find_cmprs_def Let_def u32_le_iff cmprs_field)
  qed (simp add: qboot_find_cmprs_def Let_def u32_le_iff cmprs_field none)
  moreover have "qboot_find_crypto ?t (algo fw AND QBOOT_ALGO_CRYPT_MASK) = find (fills_crypto ?j) (crypto_of rs)"
  proof (cases "?j < 3")
    case True
    then show ?thesis
      using registered_crypto [OF wf_tables_0 True, of rs]
      by (simp add: empty_slots qboot_find_crypto_def Let_def u32_le_iff crypto_index and.assoc)
  qed (simp add: qboot_find_crypto_def Let_def u32_le_iff crypto_index and.assoc none')
  ultimately show ?thesis by (auto simp: qbt_fw_get_algo_context_def Let_def)
qed

end
