(* ===== verification/Qboot_Hpatch.thy ===== *)
theory Qboot_Hpatch
  imports Qboot_Firmware
begin

text \<open>
  The in-place patch of \<open>algorithm/qboot_hpatchlite.c\<close>: the callbacks it gives the HPatchLite
  library, the two swap backends (a storage target or a RAM buffer), the commit and the release.
  The library is not part of the repository; it is a parameter, a strategy that calls the
  callbacks. \<open>hpi_size_t\<close> and \<open>hpi_pos_t\<close> are taken as 32 bits wide, as on the supported targets.
\<close>

section \<open>The library\<close>

text \<open>
  What the library does next, given the answers it got so far, each with its success and the
  bytes it delivered.
\<close>

datatype hpi_result = HPATCHI_SUCCESS | HPATCHI_OPTIONS_ERROR | HPATCHI_PATCH_ERROR
  | HPATCHI_FILEWRITE_ERROR | HPATCHI_OTHER_ERROR int

datatype hpi_call = Call_read_patch u32 | Call_read_old u32 u32 | Call_write_new "byte list" | Call_return hpi_result

type_synonym hpi_lib = "(bool \<times> byte list) list \<Rightarrow> hpi_call"

section \<open>State\<close>

text \<open>
  The build: the storage swap or the RAM buffer is chosen in \<open>qboot_cfg\<close>; \<open>hp_swap_file_size\<close> is
  \<open>QBOOT_HPATCH_SWAP_FILE_SIZE\<close> when the swap is a file; \<open>hp_malloc\<close> is the block the allocator
  returns, with its contents.
\<close>

record hp_build =
  hp_swap_offset :: u32
  hp_copy_size :: u32
  hp_ram_size :: u32
  hp_swap_file_size :: "u32 option"
  hp_malloc :: "byte list option"

text \<open>
  \<open>hpatchi_instance_t\<close> and the mutable part of its \<open>qbt_swap_t\<close>, with the devices. The fields that
  only serve the log are left out.
\<close>

record 's hpatchi =
  patch_file_offset :: u32
  patch_file_len :: u32
  patch_read_pos :: u32
  newer_file_len :: u32
  newer_write_pos :: u32
  patch_part :: handle
  old_part :: handle
  committed_len :: u32
  old_part_sector_size :: u32
  old_part_erased_end :: u32
  ram_buf :: "byte list"
  ram_buf_size :: u32
  write_pos :: u32
  capacity :: u32
  sw_part :: handle
  sw_part_size :: u32
  hp_dev :: 's

text \<open>The function pointers of \<open>qbt_swap_t\<close>; \<open>None\<close> is an access outside the allocated buffer.\<close>

record 's qbt_swap_ops =
  sw_init :: "'s hpatchi \<Rightarrow> bool \<times> 's hpatchi"
  sw_deinit :: "'s hpatchi \<Rightarrow> 's hpatchi"
  sw_append :: "byte list \<Rightarrow> 's hpatchi \<Rightarrow> (bool \<times> 's hpatchi) option"
  sw_copy_to_old :: "u32 \<Rightarrow> 's hpatchi \<Rightarrow> (bool \<times> 's hpatchi) option"
  sw_reset :: "'s hpatchi \<Rightarrow> bool \<times> 's hpatchi"

section \<open>Listener callbacks\<close>

definition hp_do_read_patch :: "'s qboot_io_ops \<Rightarrow> u32 \<Rightarrow> 's hpatchi \<Rightarrow> (bool \<times> byte list) \<times> 's hpatchi" where
  "hp_do_read_patch io len x =
     (if sint (patch_read_pos x) \<ge> sint (patch_file_len x) then ((True, []), x)
      else
        let remaining_len = patch_file_len x - patch_read_pos x;
            n = (if len > remaining_len then remaining_len else len)
        in if n = 0 then ((True, []), x)
           else (case io_read io (patch_part x) (patch_file_offset x + patch_read_pos x) n (hp_dev x) of
                (Inl _, s) \<Rightarrow> ((False, []), x\<lparr>hp_dev := s\<rparr>)
              | (Inr bs, s) \<Rightarrow> ((True, bs), x\<lparr>hp_dev := s, patch_read_pos := patch_read_pos x + n\<rparr>)))"

definition hp_do_read_old :: "'s qboot_io_ops \<Rightarrow> u32 \<Rightarrow> u32 \<Rightarrow> 's hpatchi \<Rightarrow> (bool \<times> byte list) \<times> 's hpatchi" where
  "hp_do_read_old io addr len x =
     (case io_read io (old_part x) addr len (hp_dev x) of
        (Inl _, s) \<Rightarrow> ((False, []), x\<lparr>hp_dev := s\<rparr>)
      | (Inr bs, s) \<Rightarrow> ((True, bs), x\<lparr>hp_dev := s\<rparr>))"

section \<open>The storage swap\<close>

definition qbt_flash_swap_init ::
  "qboot_cfg \<Rightarrow> hp_build \<Rightarrow> 's qboot_io_ops \<Rightarrow> 's hpatchi \<Rightarrow> bool \<times> 's hpatchi" where
  "qbt_flash_swap_init c H io x =
     (let swap_id = qbt_name_to_id c (str_bytes QBOOT_HPATCH_SWAP_PART_NAME @ [0])
      in if swap_id \<ge> QBOOT_TARGET_COUNT then (False, x)
         else (case qbt_target_open io swap_id True (QBT_OPEN_WRITE OR QBT_OPEN_CREATE) (hp_dev x) of
           ((False, h, _), s) \<Rightarrow> (False, x\<lparr>hp_dev := s, sw_part := h\<rparr>)
         | ((True, h, n), s) \<Rightarrow>
             let x1 = x\<lparr>hp_dev := s, sw_part := h\<rparr>
             in if hp_swap_offset H \<ge> n then (False, x1\<lparr>hp_dev := qbt_target_close io h s\<rparr>)
                else
                  let area = n - hp_swap_offset H;
                      x2 = x1\<lparr>sw_part_size := area, capacity := area\<rparr>
                  in (case qbt_erase_with_feed io h (hp_swap_offset H) area s of
                       (e, s2) \<Rightarrow>
                         if e \<noteq> RT_EOK then (False, x2\<lparr>hp_dev := qbt_target_close io h s2\<rparr>)
                         else (True, x2\<lparr>hp_dev := s2, write_pos := 0\<rparr>))))"

definition qbt_flash_swap_deinit :: "'s qboot_io_ops \<Rightarrow> 's hpatchi \<Rightarrow> 's hpatchi" where
  "qbt_flash_swap_deinit io x =
     x\<lparr>hp_dev := qbt_target_close io (sw_part x) (hp_dev x), sw_part := H_NULL\<rparr>"

text \<open>The copy loop works on \<open>int\<close>: how much is left, and the two offsets.\<close>

record 's copy_loc =
  remaining_len :: u32
  current_src :: u32
  current_dst :: u32
  copy_st :: "'s hpatchi"

definition flash_copy_body ::
  "'s qboot_io_ops \<Rightarrow> 's copy_loc \<Rightarrow> ('s copy_loc, bool \<times> 's hpatchi) iter option" where
  "flash_copy_body io y =
     (let x = copy_st y in
      if \<not> 0 < sint (remaining_len y) then Some (Stop (True, x))
      else
        let n = (if sint (remaining_len y) > sint (ram_buf_size x) then ram_buf_size x else remaining_len y)
        in (case io_read io (sw_part x) (current_src y) n (hp_dev x) of
             (Inl _, s) \<Rightarrow> Some (Stop (False, x\<lparr>hp_dev := s\<rparr>))
           | (Inr bs, s) \<Rightarrow>
               if length bs > length (ram_buf x) then None
               else
                 let x1 = x\<lparr>hp_dev := s, ram_buf := overwrite 0 bs (ram_buf x)\<rparr>
                 in (case io_write io (old_part x1) (current_dst y) (take (unat n) (ram_buf x1)) s of
                      (e, s2) \<Rightarrow>
                        let x2 = x1\<lparr>hp_dev := s2\<rparr>
                        in if e \<noteq> RT_EOK then Some (Stop (False, x2))
                           else Some (Again \<lparr>remaining_len = remaining_len y - n, current_src = current_src y + n,
                                current_dst = current_dst y + n, copy_st = x2\<rparr>))))"

definition qbt_flash_copy_to_old ::
  "hp_build \<Rightarrow> 's qboot_io_ops \<Rightarrow> u32 \<Rightarrow> 's hpatchi \<Rightarrow> (bool \<times> 's hpatchi) option" where
  "qbt_flash_copy_to_old H io used x =
     run_loop (flash_copy_body io)
       \<lparr>remaining_len = used, current_src = hp_swap_offset H, current_dst = committed_len x, copy_st = x\<rparr>"

definition qbt_flash_swap_append ::
  "hp_build \<Rightarrow> 's qboot_io_ops \<Rightarrow> byte list \<Rightarrow> 's hpatchi \<Rightarrow> (bool \<times> 's hpatchi) option" where
  "qbt_flash_swap_append H io bs x =
     (case io_write io (sw_part x) (hp_swap_offset H + write_pos x) bs (hp_dev x) of
        (e, s) \<Rightarrow>
          let x1 = x\<lparr>hp_dev := s\<rparr>
          in if e \<noteq> RT_EOK then Some (False, x1)
             else Some (True, x1\<lparr>write_pos := write_pos x + of_nat (length bs)\<rparr>))"

definition qbt_flash_swap_reset :: "hp_build \<Rightarrow> 's qboot_io_ops \<Rightarrow> 's hpatchi \<Rightarrow> bool \<times> 's hpatchi" where
  "qbt_flash_swap_reset H io x =
     (case qbt_erase_with_feed io (sw_part x) (hp_swap_offset H) (sw_part_size x) (hp_dev x) of
        (e, s) \<Rightarrow> if e \<noteq> RT_EOK then (False, x\<lparr>hp_dev := s\<rparr>) else (True, x\<lparr>hp_dev := s, write_pos := 0\<rparr>))"

definition g_qbt_swap_ops_flash :: "qboot_cfg \<Rightarrow> hp_build \<Rightarrow> 's qboot_io_ops \<Rightarrow> 's qbt_swap_ops" where
  "g_qbt_swap_ops_flash c H io =
     \<lparr>sw_init = qbt_flash_swap_init c H io, sw_deinit = qbt_flash_swap_deinit io,
      sw_append = qbt_flash_swap_append H io, sw_copy_to_old = qbt_flash_copy_to_old H io,
      sw_reset = qbt_flash_swap_reset H io\<rparr>"

section \<open>The RAM buffer\<close>

definition qbt_ram_swap_init :: "'s hpatchi \<Rightarrow> bool \<times> 's hpatchi" where
  "qbt_ram_swap_init x = (True, x\<lparr>write_pos := 0, capacity := ram_buf_size x\<rparr>)"

definition qbt_ram_swap_deinit :: "'s hpatchi \<Rightarrow> 's hpatchi" where
  "qbt_ram_swap_deinit x = x"

definition qbt_ram_copy_to_old ::
  "'s qboot_io_ops \<Rightarrow> u32 \<Rightarrow> 's hpatchi \<Rightarrow> (bool \<times> 's hpatchi) option" where
  "qbt_ram_copy_to_old io used x =
     (if unat used > length (ram_buf x) then None
      else (case io_write io (old_part x) (committed_len x) (take (unat used) (ram_buf x)) (hp_dev x) of
        (e, s) \<Rightarrow> Some (e = RT_EOK, x\<lparr>hp_dev := s\<rparr>)))"

definition qbt_ram_swap_append :: "byte list \<Rightarrow> 's hpatchi \<Rightarrow> (bool \<times> 's hpatchi) option" where
  "qbt_ram_swap_append bs x =
     (if unat (write_pos x) + length bs > length (ram_buf x) then None
      else Some (True, x\<lparr>ram_buf := overwrite (unat (write_pos x)) bs (ram_buf x),
             write_pos := write_pos x + of_nat (length bs)\<rparr>))"

definition qbt_ram_swap_reset :: "'s hpatchi \<Rightarrow> bool \<times> 's hpatchi" where
  "qbt_ram_swap_reset x = (True, x\<lparr>write_pos := 0\<rparr>)"

definition g_qbt_swap_ops_ram :: "'s qboot_io_ops \<Rightarrow> 's qbt_swap_ops" where
  "g_qbt_swap_ops_ram io =
     \<lparr>sw_init = qbt_ram_swap_init, sw_deinit = qbt_ram_swap_deinit, sw_append = qbt_ram_swap_append,
      sw_copy_to_old = qbt_ram_copy_to_old io, sw_reset = qbt_ram_swap_reset\<rparr>"

section \<open>Commit\<close>

definition qbt_erase_aligned_range ::
  "'s qboot_io_ops \<Rightarrow> u32 \<Rightarrow> u32 \<Rightarrow> bool \<Rightarrow> 's hpatchi \<Rightarrow> bool \<times> 's hpatchi" where
  "qbt_erase_aligned_range io start stop align_start_up x =
     (if stop \<le> start then (True, x)
      else
        let sector = old_part_sector_size x;
            erase_start0 = (if align_start_up then rt_align start sector else rt_align_down start sector);
            erase_end = rt_align stop sector
        in if erase_end \<le> old_part_erased_end x then (True, x)
           else
             let erase_start = (if erase_start0 < old_part_erased_end x then old_part_erased_end x else erase_start0)
             in if erase_end > erase_start
                then (case qbt_erase_with_feed io (old_part x) erase_start (erase_end - erase_start) (hp_dev x) of
                     (e, s) \<Rightarrow> if e \<noteq> RT_EOK then (False, x\<lparr>hp_dev := s\<rparr>)
                               else (True, x\<lparr>hp_dev := s, old_part_erased_end := erase_end\<rparr>))
                else (True, x))"

definition qbt_swap_commit ::
  "'s qboot_io_ops \<Rightarrow> 's qbt_swap_ops \<Rightarrow> 's hpatchi \<Rightarrow> (bool \<times> 's hpatchi) option" where
  "qbt_swap_commit io ops x =
     (let used = write_pos x in
      if used = 0 then Some (True, x)
      else (case qbt_erase_aligned_range io (committed_len x) (committed_len x + used) False x of
          (False, x1) \<Rightarrow> Some (False, x1)
        | (True, x1) \<Rightarrow> do {
            (copied, x2) \<leftarrow> sw_copy_to_old ops used x1;
            if \<not> copied then Some (False, x2)
            else Some (sw_reset ops (x2\<lparr>committed_len := committed_len x2 + used\<rparr>))
          }))"

text \<open>The write loop: the data that is left.\<close>

definition write_new_body ::
  "'s qboot_io_ops \<Rightarrow> 's qbt_swap_ops \<Rightarrow> byte list \<times> 's hpatchi \<Rightarrow>
   (byte list \<times> 's hpatchi, bool \<times> 's hpatchi) iter option" where
  "write_new_body io ops y =
     (case y of (data, x) \<Rightarrow>
        if data = [] then Some (Stop (True, x))
        else
          let free_space = capacity x - write_pos x;
              remain_size = (of_nat (length data) :: u32);
              chunk = (if remain_size < free_space then remain_size else free_space)
          in do {
            (ok, x1) \<leftarrow> (if chunk > 0 then sw_append ops (take (unat chunk) data) x else Some (True, x));
            if \<not> ok then Some (Stop (False, x1))
            else do {
              (done, x2) \<leftarrow> (if sint (write_pos x1) \<ge> sint (capacity x) then qbt_swap_commit io ops x1
                             else Some (True, x1));
              if \<not> done then Some (Stop (False, x2))
              else Some (Again (drop (unat chunk) data, x2))
            }
          })"

text \<open>The progress divides by the new length.\<close>

definition hp_do_write_new ::
  "'s qboot_io_ops \<Rightarrow> 's qbt_swap_ops \<Rightarrow> byte list \<Rightarrow> 's hpatchi \<Rightarrow> (bool \<times> 's hpatchi) option" where
  "hp_do_write_new io ops data x =
     do {
       (ok, x1) \<leftarrow> run_loop (write_new_body io ops) (data, x);
       if \<not> ok then Some (False, x1)
       else if newer_file_len x1 = 0 then None
       else Some (True, x1\<lparr>newer_write_pos := newer_write_pos x1 + of_nat (length data)\<rparr>)
     }"

section \<open>The release\<close>

text \<open>Running the library: one call of it after the other.\<close>

definition hpi_body ::
  "hpi_lib \<Rightarrow> 's qboot_io_ops \<Rightarrow> 's qbt_swap_ops \<Rightarrow> (bool \<times> byte list) list \<times> 's hpatchi \<Rightarrow>
   ((bool \<times> byte list) list \<times> 's hpatchi, hpi_result \<times> 's hpatchi) iter option" where
  "hpi_body L io ops y =
     (case y of (answers, x) \<Rightarrow>
        (case L answers of
           Call_return r \<Rightarrow> Some (Stop (r, x))
         | Call_read_patch n \<Rightarrow>
             (case hp_do_read_patch io n x of (a, x1) \<Rightarrow> Some (Again (answers @ [a], x1)))
         | Call_read_old addr n \<Rightarrow>
             (case hp_do_read_old io addr n x of (a, x1) \<Rightarrow> Some (Again (answers @ [a], x1)))
         | Call_write_new bs \<Rightarrow> do {
             (ok, x1) \<leftarrow> hp_do_write_new io ops bs x;
             Some (Again (answers @ [(ok, [])], x1))
           }))"

definition hpi_patch ::
  "hpi_lib \<Rightarrow> 's qboot_io_ops \<Rightarrow> 's qbt_swap_ops \<Rightarrow> 's hpatchi \<Rightarrow> (hpi_result \<times> 's hpatchi) option" where
  "hpi_patch L io ops x = run_loop (hpi_body L io ops) ([], x)"

definition qbt_swap_alloc_buf :: "hp_build \<Rightarrow> 's hpatchi \<Rightarrow> bool \<times> 's hpatchi" where
  "qbt_swap_alloc_buf H x =
     (case hp_malloc H of None \<Rightarrow> (False, x\<lparr>ram_buf := []\<rparr>) | Some bs \<Rightarrow> (True, x\<lparr>ram_buf := bs\<rparr>))"

definition qbt_swap_free_buf :: "'s hpatchi \<Rightarrow> 's hpatchi" where
  "qbt_swap_free_buf x = x\<lparr>ram_buf := []\<rparr>"

text \<open>
  The part up to the label \<open>hpatch_cleanup\<close>, whose result says also whether the swap was
  initialised.
\<close>

definition hpatch_run ::
  "hpi_lib \<Rightarrow> hp_build \<Rightarrow> 's qboot_io_ops \<Rightarrow> 's qbt_swap_ops \<Rightarrow> 's hpatchi \<Rightarrow>
   (hpi_result \<times> bool \<times> 's hpatchi) option" where
  "hpatch_run L H io ops x =
     (case io_ioctl io (old_part x) QBOOT_IO_CMD_GET_ERASE_ALIGN (hp_dev x) of
        (Inl _, s) \<Rightarrow> Some (HPATCHI_OPTIONS_ERROR, False, x\<lparr>hp_dev := s\<rparr>)
      | (Inr align, s) \<Rightarrow>
          let x1 = x\<lparr>hp_dev := s, old_part_sector_size := align\<rparr>
          in if (case hp_swap_file_size H of None \<Rightarrow> False | Some n \<Rightarrow> sint n < sint align)
             then Some (HPATCHI_OPTIONS_ERROR, False, x1)
             else (case qbt_swap_alloc_buf H x1 of
                 (False, x2) \<Rightarrow> Some (HPATCHI_PATCH_ERROR, False, x2)
               | (True, x2) \<Rightarrow>
                   (case sw_init ops x2 of
                      (False, x3) \<Rightarrow> Some (HPATCHI_PATCH_ERROR, False, x3)
                    | (True, x3) \<Rightarrow> do {
                        (result, x4) \<leftarrow> hpi_patch L io ops x3;
                        if result = HPATCHI_SUCCESS \<and> 0 < sint (write_pos x4) then do {
                          (ok, x5) \<leftarrow> qbt_swap_commit io ops x4;
                          Some (if ok then HPATCHI_SUCCESS else HPATCHI_PATCH_ERROR, True, x5)
                        }
                        else Some (result, True, x4)
                      })))"

text \<open>The erase of the tail and the check of the length.\<close>

definition hpatch_finish :: "'s qboot_io_ops \<Rightarrow> hpi_result \<Rightarrow> 's hpatchi \<Rightarrow> int \<times> 's hpatchi" where
  "hpatch_finish io result x =
     (let (result1, x1) =
        (if result = HPATCHI_SUCCESS
         then (case io_size io (old_part x) (hp_dev x) of
              (Inl _, s) \<Rightarrow> (HPATCHI_SUCCESS, x\<lparr>hp_dev := s\<rparr>)
            | (Inr part_len, s) \<Rightarrow>
                let y = x\<lparr>hp_dev := s\<rparr>
                in if sint (newer_file_len x) < sint part_len
                   then (case qbt_erase_aligned_range io (newer_file_len x) part_len True y of
                        (ok, y1) \<Rightarrow> (if ok then HPATCHI_SUCCESS else HPATCHI_FILEWRITE_ERROR, y1))
                   else (HPATCHI_SUCCESS, y))
         else (result, x))
      in (if result1 = HPATCHI_SUCCESS \<and> committed_len x1 = newer_file_len x1 then 1 else 0, x1))"

definition hpatchi_0 :: "handle \<Rightarrow> handle \<Rightarrow> u32 \<Rightarrow> u32 \<Rightarrow> u32 \<Rightarrow> u32 \<Rightarrow> 's \<Rightarrow> 's hpatchi" where
  "hpatchi_0 patch old patch_len newer_len offset buf_size s =
     \<lparr>patch_file_offset = offset, patch_file_len = patch_len, patch_read_pos = 0,
      newer_file_len = newer_len, newer_write_pos = 0, patch_part = patch, old_part = old,
      committed_len = 0, old_part_sector_size = 0, old_part_erased_end = 0, ram_buf = [],
      ram_buf_size = buf_size, write_pos = 0, capacity = 0, sw_part = H_NULL, sw_part_size = 0, hp_dev = s\<rparr>"

definition hpatch_swap :: "qboot_cfg \<Rightarrow> hp_build \<Rightarrow> 's qboot_io_ops \<Rightarrow> 's qbt_swap_ops" where
  "hpatch_swap c H io = (if hpatch_storage_swap c then g_qbt_swap_ops_flash c H io else g_qbt_swap_ops_ram io)"

definition qbt_hpatchlite_release_from_part ::
  "qboot_cfg \<Rightarrow> hpi_lib \<Rightarrow> hp_build \<Rightarrow> 's qboot_io_ops \<Rightarrow> handle \<Rightarrow> handle \<Rightarrow> u32 \<Rightarrow> u32 \<Rightarrow> u32 \<Rightarrow>
   ('s, 'a) world \<Rightarrow> (int \<times> ('s, 'a) world) option" where
  "qbt_hpatchlite_release_from_part c L H io patch old patch_len newer_len offset w =
     do {
       let ops = hpatch_swap c H io;
       (result, inited, x) \<leftarrow> hpatch_run L H io ops (hpatchi_0 patch old patch_len newer_len offset
          (if hpatch_storage_swap c then hp_copy_size H else hp_ram_size H) (w_dev w));
       let x1 = (if inited then sw_deinit ops x else x);
       let (r, x2) = hpatch_finish io result (qbt_swap_free_buf x1);
       Some (r, w\<lparr>w_dev := hp_dev x2\<rparr>)
     }"

end
