(* ===== verification/Qboot_Patch.thy ===== *)
theory Qboot_Patch
  imports Qboot_Hpatch Qboot_Instance
begin

text \<open>
  The in-place patch is correct for any swap backend that keeps a small contract: whatever
  pieces the library writes, the old image holds the committed ones and the swap the rest, the
  erases never reach beyond the blocks of the committed part, and at the end the device holds
  exactly the new image. Both swap backends keep the contract.
\<close>

section \<open>The patch\<close>

text \<open>
  What a run of the library on a patch \<open>P\<close> and an old image \<open>O\<close> of \<open>n\<close> bytes has to do: with the
  pieces of \<open>P\<close> and of \<open>O\<close> it asks for, it writes a new image and returns success. The update is
  in place, through a buffer of \<open>cap\<close> bytes: it may read the old image only behind the blocks
  of the full buffers it has written so far.
\<close>

inductive patch_run ::
  "hpi_lib \<Rightarrow> byte list \<Rightarrow> (nat \<Rightarrow> byte) \<Rightarrow> nat \<Rightarrow> nat \<Rightarrow> nat \<Rightarrow>
   (bool \<times> byte list) list \<Rightarrow> nat \<Rightarrow> byte list \<Rightarrow> byte list \<Rightarrow> bool"
  for L P old_image n blk cap where
  run_return: "L h = Call_return HPATCHI_SUCCESS \<Longrightarrow> patch_run L P old_image n blk cap h pos D D"
| run_read_patch: "L h = Call_read_patch len \<Longrightarrow> bs = take (unat len) (drop pos P) \<Longrightarrow>
    patch_run L P old_image n blk cap (h @ [(True, bs)]) (pos + length bs) D N \<Longrightarrow>
    patch_run L P old_image n blk cap h pos D N"
| run_read_old: "L h = Call_read_old addr len \<Longrightarrow> blk_up blk (length D div cap * cap) \<le> unat addr \<Longrightarrow>
    unat addr + unat len \<le> n \<Longrightarrow>
    patch_run L P old_image n blk cap (h @ [(True, cells old_image (unat addr) (unat len))]) pos D N \<Longrightarrow>
    patch_run L P old_image n blk cap h pos D N"
| run_write_new: "L h = Call_write_new bs \<Longrightarrow> patch_run L P old_image n blk cap (h @ [(True, [])]) pos (D @ bs) N \<Longrightarrow>
    patch_run L P old_image n blk cap h pos D N"

lemma patch_run_prefix: "patch_run L P old_image n blk cap h pos D N \<Longrightarrow> \<exists>E. N = D @ E"
  by (induction rule: patch_run.induct) auto

section \<open>The swap contract\<close>

text \<open>The fields the swap and the commits do not touch, and those that only the swap touches.\<close>

definition job :: "'s hpatchi \<Rightarrow> u32 \<times> u32 \<times> u32 \<times> u32 \<times> handle \<times> handle \<times> u32" where
  "job x = (patch_file_offset x, patch_file_len x, patch_read_pos x, newer_file_len x, patch_part x,
     old_part x, old_part_sector_size x)"

definition swap_fields :: "'s hpatchi \<Rightarrow> byte list \<times> u32 \<times> u32 \<times> u32 \<times> handle \<times> u32" where
  "swap_fields x = (ram_buf x, ram_buf_size x, write_pos x, capacity x, sw_part x, sw_part_size x)"

text \<open>A device in blocks, and the target that is patched.\<close>

locale patch_device = reliable_storage io view dev_size + block_storage io view blk
  for io :: "'s qboot_io_ops" and view :: "'s \<Rightarrow> handle \<Rightarrow> dev_view" and dev_size :: "handle \<Rightarrow> nat" and blk :: nat +
  fixes old :: handle
  assumes old_aligned: "blk dvd dev_size old" and old_small: "dev_size old < 2147483648"
    and old_size: "v_open (view s old) \<Longrightarrow> \<exists>m s'. io_size io old s = (Inr m, s') \<and> unat m = dev_size old"
    and old_ioctl: "v_open (view s old) \<Longrightarrow>
      \<exists>a s'. io_ioctl io old QBOOT_IO_CMD_GET_ERASE_ALIGN s = (Inr a, s') \<and> pow2 a \<and> unat a = blk"

locale swap_store = patch_device io view dev_size blk old
  for io :: "'s qboot_io_ops" and view :: "'s \<Rightarrow> handle \<Rightarrow> dev_view" and dev_size and blk and old +
  fixes ops :: "'s qbt_swap_ops" and sw_h :: handle and cap :: nat
    and sw_ready :: "'s hpatchi \<Rightarrow> bool" and sw_ok :: "'s hpatchi \<Rightarrow> bool" and buffered :: "'s hpatchi \<Rightarrow> byte list"
  assumes apart: "sw_h \<noteq> old" and cap_pos: "0 < cap" and cap_small: "cap < 2147483648"
    and ok_bounds: "sw_ok x \<Longrightarrow> unat (capacity x) = cap \<and> unat (write_pos x) = length (buffered x) \<and>
      length (buffered x) \<le> cap"
    and ok_stable: "sw_ok x \<Longrightarrow> swap_fields y = swap_fields x \<Longrightarrow>
      view (hp_dev y) sw_h = view (hp_dev x) sw_h \<Longrightarrow> sw_ok y \<and> buffered y = buffered x"
    and init_ok: "sw_ready x \<Longrightarrow> \<exists>x'. sw_init ops x = (True, x') \<and> sw_ok x' \<and> buffered x' = [] \<and> job x' = job x \<and>
      committed_len x' = committed_len x \<and> old_part_erased_end x' = old_part_erased_end x \<and>
      (\<forall>h. h \<noteq> sw_h \<longrightarrow> view (hp_dev x') h = view (hp_dev x) h)"
    and append_ok: "sw_ok x \<Longrightarrow> length (buffered x) + length bs \<le> cap \<Longrightarrow>
      \<exists>x'. sw_append ops bs x = Some (True, x') \<and> sw_ok x' \<and> buffered x' = buffered x @ bs \<and> job x' = job x \<and>
      committed_len x' = committed_len x \<and> old_part_erased_end x' = old_part_erased_end x \<and>
      (\<forall>h. h \<noteq> sw_h \<longrightarrow> view (hp_dev x') h = view (hp_dev x) h)"
    and copy_ok: "sw_ok x \<Longrightarrow> old_part x = old \<Longrightarrow> v_open (view (hp_dev x) old) \<Longrightarrow>
      unat (committed_len x) + length (buffered x) \<le> dev_size old \<Longrightarrow>
      ready_range (view (hp_dev x) old) (unat (committed_len x)) (length (buffered x)) \<Longrightarrow>
      \<exists>x'. sw_copy_to_old ops (write_pos x) x = Some (True, x') \<and> sw_ok x' \<and> job x' = job x \<and>
      committed_len x' = committed_len x \<and> old_part_erased_end x' = old_part_erased_end x \<and>
      v_open (view (hp_dev x') old) \<and>
      v_cell (view (hp_dev x') old) =
        splice (unat (committed_len x)) (buffered x) (v_cell (view (hp_dev x) old)) \<and>
      (\<forall>i. v_ready (view (hp_dev x) old) i \<longrightarrow>
         i < unat (committed_len x) \<or> unat (committed_len x) + length (buffered x) \<le> i \<longrightarrow>
         v_ready (view (hp_dev x') old) i) \<and>
      (\<forall>h. h \<noteq> sw_h \<and> h \<noteq> old \<longrightarrow> view (hp_dev x') h = view (hp_dev x) h)"
    and reset_ok: "sw_ok x \<Longrightarrow> \<exists>x'. sw_reset ops x = (True, x') \<and> sw_ok x' \<and> buffered x' = [] \<and> job x' = job x \<and>
      committed_len x' = committed_len x \<and> old_part_erased_end x' = old_part_erased_end x \<and>
      (\<forall>h. h \<noteq> sw_h \<longrightarrow> view (hp_dev x') h = view (hp_dev x) h)"
    and deinit_ok: "sw_ok x \<Longrightarrow> job (sw_deinit ops x) = job x \<and>
      committed_len (sw_deinit ops x) = committed_len x \<and>
      old_part_erased_end (sw_deinit ops x) = old_part_erased_end x \<and>
      (\<forall>h. h \<noteq> sw_h \<longrightarrow> view (hp_dev (sw_deinit ops x)) h = view (hp_dev x) h)"

section \<open>Erasing\<close>

context patch_device
begin

text \<open>
  When the range begins inside the part that is erased already, the erase continues that part,
  to the block its end lies in.
\<close>

lemma erase_range_exact:
  assumes old: "old_part x = old" and o: "v_open (view (hp_dev x) old)"
    and sec: "pow2 (old_part_sector_size x)" "unat (old_part_sector_size x) = blk"
    and dvd: "blk dvd unat (old_part_erased_end x)" and lt: "unat start < unat stop" and le: "unat stop \<le> dev_size old"
    and first: "(if up then blk_up blk (unat start) else blk_down blk (unat start)) \<le> unat (old_part_erased_end x)"
  defines "m \<equiv> max (unat (old_part_erased_end x)) (blk_up blk (unat stop))"
  shows "\<exists>s e. qbt_erase_aligned_range io start stop up x = (True, x\<lparr>hp_dev := s, old_part_erased_end := e\<rparr>) \<and>
    unat e = m \<and> v_open (view s old) \<and> (\<forall>h. h \<noteq> old \<longrightarrow> view s h = view (hp_dev x) h) \<and>
    (\<forall>i. i < unat (old_part_erased_end x) \<or> m \<le> i \<longrightarrow> v_cell (view s old) i = v_cell (view (hp_dev x) old) i) \<and>
    (\<forall>i. v_ready (view (hp_dev x) old) i \<longrightarrow> v_ready (view s old) i) \<and>
    (\<forall>i. unat (old_part_erased_end x) \<le> i \<and> i < m \<longrightarrow> v_ready (view s old) i)"
proof -
  let ?E = "old_part_erased_end x" and ?sec = "old_part_sector_size x"
  have blk_le: "blk \<le> dev_size old" using old_aligned lt le by (intro dvd_imp_le) auto
  have top: "blk_up blk (unat stop) \<le> dev_size old" by (rule blk_up_le_mult [OF blk_pos old_aligned le])
  have room: "unat y + unat ?sec \<le> 4294967296" if "unat y \<le> dev_size old" for y :: u32
    using that blk_le old_small sec(2) by linarith
  have e: "unat (rt_align stop ?sec) = blk_up blk (unat stop)"
    using rt_align_blk(2) [OF sec(1) room [OF le]] sec(2) by simp
  have start_le: "unat start \<le> dev_size old" using lt le by linarith
  have f: "unat (if up then rt_align start ?sec else rt_align_down start ?sec) \<le> unat ?E"
    using first rt_align_blk(1) [OF sec(1), of start] rt_align_blk(2) [OF sec(1) room [OF start_le]] sec(2)
    by (simp split: if_splits)
  show ?thesis
  proof (cases "blk_up blk (unat stop) \<le> unat ?E")
    case True
    then have "qbt_erase_aligned_range io start stop up x = (True, x)"
      using lt e by (simp add: qbt_erase_aligned_range_def Let_def u32_le_iff)
    with True show ?thesis
      by (intro exI [of _ "hp_dev x"] exI [of _ ?E]) (auto simp: m_def o)
  next
    case False
    then have m: "m = blk_up blk (unat stop)" by (simp add: m_def)
    let ?len = "rt_align stop ?sec - ?E"
    have n: "unat ?len = m - unat ?E" using False e m by (simp add: u32_sub)
    have fit: "unat ?E + unat ?len \<le> dev_size old" using False top n m by linarith
    obtain s where er: "io_erase io old ?E ?len (hp_dev x) = (RT_EOK, s)" using erase_total [OF o fit] by blast
    define s0 where "s0 = (if up then rt_align start ?sec else rt_align_down start ?sec)"
    have st: "(if s0 < ?E then ?E else s0) = ?E" using f by (auto simp: u32_cmp s0_def)
    have c: "\<not> stop \<le> start" "\<not> rt_align stop ?sec \<le> ?E" "?E < rt_align stop ?sec"
      using lt e False by (simp_all add: u32_cmp)
    have run: "qbt_erase_aligned_range io start stop up x =
        (True, x\<lparr>hp_dev := s, old_part_erased_end := rt_align stop ?sec\<rparr>)"
      unfolding qbt_erase_aligned_range_def Let_def s0_def [symmetric] st using c er by (simp add: old)
    have sum: "unat ?E + unat ?len = m" using n False m by linarith
    have "v_cell (view s old) i = v_cell (view (hp_dev x) old) i" if "i < unat ?E \<or> m \<le> i" for i
      using that erase_outside [OF o er, of i] dvd blk_pos by (simp add: sum m)
    moreover have "v_ready (view s old) i" if "unat ?E \<le> i" "i < m" for i
      using erase_ready [OF o er] that by (simp add: ready_range_def sum)
    ultimately show ?thesis
      using run e m erase_open [OF o er] erase_other [OF o er] erase_keeps [OF o er]
      by (intro exI [of _ s] exI [of _ "rt_align stop ?sec"]) simp
  qed
qed

end

section \<open>Committing and writing\<close>

text \<open>
  After the data \<open>D\<close> has been written: the device holds its committed part, the swap the rest;
  the old image is erased up to the block the committed part ends in and untouched behind it.
\<close>

context swap_store
begin

definition committed_ok :: "(nat \<Rightarrow> byte) \<Rightarrow> byte list \<Rightarrow> 's hpatchi \<Rightarrow> bool" where
  "committed_ok img D x \<longleftrightarrow> sw_ok x \<and> old_part x = old \<and> v_open (view (hp_dev x) old) \<and>
     pow2 (old_part_sector_size x) \<and> unat (old_part_sector_size x) = blk \<and>
     unat (committed_len x) \<le> length D \<and> buffered x = drop (unat (committed_len x)) D \<and>
     cells (v_cell (view (hp_dev x) old)) 0 (unat (committed_len x)) = take (unat (committed_len x)) D \<and>
     unat (old_part_erased_end x) = blk_up blk (unat (committed_len x)) \<and>
     (\<forall>i. unat (committed_len x) \<le> i \<and> i < unat (old_part_erased_end x) \<longrightarrow> v_ready (view (hp_dev x) old) i) \<and>
     (\<forall>i. unat (old_part_erased_end x) \<le> i \<longrightarrow> v_cell (view (hp_dev x) old) i = img i)"

definition others_kept :: "'s hpatchi \<Rightarrow> 's hpatchi \<Rightarrow> bool" where
  "others_kept x y \<longleftrightarrow> job y = job x \<and> (\<forall>h. h \<noteq> sw_h \<longrightarrow> h \<noteq> old \<longrightarrow> view (hp_dev y) h = view (hp_dev x) h)"

lemma others_kept_refl [simp]: "others_kept x x"
  by (simp add: others_kept_def)

lemma others_kept_trans: "others_kept x y \<Longrightarrow> others_kept y z \<Longrightarrow> others_kept x z"
  by (simp add: others_kept_def)

lemma job_fields: "job y = job x \<Longrightarrow> old_part y = old_part x \<and> old_part_sector_size y = old_part_sector_size x \<and>
    patch_file_offset y = patch_file_offset x \<and> patch_file_len y = patch_file_len x \<and>
    patch_read_pos y = patch_read_pos x \<and> newer_file_len y = newer_file_len x \<and> patch_part y = patch_part x"
  by (simp add: job_def)

text \<open>An operation of the swap that changes neither the old image nor the counters keeps the relation.\<close>

lemma committed_ok_swap:
  assumes "committed_ok img D x" and "job x' = job x" and "committed_len x' = committed_len x"
    and "old_part_erased_end x' = old_part_erased_end x" and "view (hp_dev x') old = view (hp_dev x) old"
    and "sw_ok x'" and "buffered x' = drop (unat (committed_len x)) D'"
    and "take (unat (committed_len x)) D' = take (unat (committed_len x)) D" and "length D \<le> length D'"
  shows "committed_ok img D' x'"
  using assms job_fields [OF assms(2)] by (simp add: committed_ok_def)

lemma commit_ok:
  assumes c: "committed_ok img D x" and fit: "length D \<le> dev_size old"
  shows "\<exists>x'. qbt_swap_commit io ops x = Some (True, x') \<and> committed_ok img D x' \<and> others_kept x x' \<and>
    unat (committed_len x') = length D \<and> buffered x' = []"
proof -
  let ?C = "unat (committed_len x)" and ?B = "buffered x"
  have ok: "sw_ok x" and old: "old_part x = old" and o: "v_open (view (hp_dev x) old)"
    and sec: "pow2 (old_part_sector_size x)" "unat (old_part_sector_size x) = blk"
    and C: "?C \<le> length D" "?B = drop ?C D" and E: "unat (old_part_erased_end x) = blk_up blk ?C"
    and pre: "cells (v_cell (view (hp_dev x) old)) 0 ?C = take ?C D"
    and rdy: "\<And>i. ?C \<le> i \<Longrightarrow> i < unat (old_part_erased_end x) \<Longrightarrow> v_ready (view (hp_dev x) old) i"
    and img: "\<And>i. unat (old_part_erased_end x) \<le> i \<Longrightarrow> v_cell (view (hp_dev x) old) i = img i"
    using c by (auto simp: committed_ok_def)
  note b = ok_bounds [OF ok]
  have len: "?C + length ?B = length D" using C by simp
  show ?thesis
  proof (cases "write_pos x = 0")
    case True
    then have "?B = []" using b by simp
    with True len c show ?thesis by (intro exI [of _ x]) (simp add: qbt_swap_commit_def)
  next
    case False
    then have pos: "0 < length ?B" using b by (metis length_0_conv length_greater_0_conv unat_eq_zero)
    let ?stop = "committed_len x + write_pos x"
    have stop: "unat ?stop = length D"
      using len b fit old_small u32_add [of "committed_len x" "write_pos x"] by simp
    have D: "blk dvd unat (old_part_erased_end x)" by (simp add: E)
    have lt: "?C < unat ?stop" unfolding stop using len pos by linarith
    have le: "unat ?stop \<le> dev_size old" unfolding stop by (rule fit)
    have fi: "(if False then blk_up blk ?C else blk_down blk ?C) \<le> unat (old_part_erased_end x)"
      using blk_down_le [of blk ?C] blk_up_ge [OF blk_pos, of ?C] E by simp
    let ?m = "blk_up blk (length D)"
    have m: "max (unat (old_part_erased_end x)) (blk_up blk (unat ?stop)) = ?m"
    proof -
      have "blk_up blk ?C \<le> ?m"
        using len blk_up_ge [OF blk_pos, of "length D"] by (intro blk_up_le_mult [OF blk_pos blk_up_dvd]) linarith
      then show ?thesis by (simp add: stop E)
    qed
    obtain s e where er: "qbt_erase_aligned_range io (committed_len x) ?stop False x =
        (True, x\<lparr>hp_dev := s, old_part_erased_end := e\<rparr>)" "unat e = ?m" "v_open (view s old)"
      "\<forall>h. h \<noteq> old \<longrightarrow> view s h = view (hp_dev x) h"
      "\<forall>i. i < unat (old_part_erased_end x) \<or> ?m \<le> i \<longrightarrow> v_cell (view s old) i = v_cell (view (hp_dev x) old) i"
      "\<forall>i. v_ready (view (hp_dev x) old) i \<longrightarrow> v_ready (view s old) i"
      "\<forall>i. unat (old_part_erased_end x) \<le> i \<and> i < ?m \<longrightarrow> v_ready (view s old) i"
      using erase_range_exact [OF old o sec D lt le fi] unfolding m by blast
    let ?x1 = "x\<lparr>hp_dev := s, old_part_erased_end := e\<rparr>"
    have st: "sw_ok ?x1 \<and> buffered ?x1 = ?B"
      using er(4) apart by (intro ok_stable [OF ok]) (simp_all add: swap_fields_def)
    have C_le: "?C \<le> unat (old_part_erased_end x)" using blk_up_ge [OF blk_pos, of ?C] E by simp
    have len_m: "length D \<le> ?m" using blk_up_ge [OF blk_pos, of "length D"] .
    have r1: "v_ready (view s old) i" if "?C \<le> i" "i < ?m" for i
      using that rdy er(6,7) by (cases "i < unat (old_part_erased_end x)") auto
    have pre1: "cells (v_cell (view s old)) 0 ?C = take ?C D"
      using er(5) C_le pre cells_cong [of 0 ?C "v_cell (view s old)" "v_cell (view (hp_dev x) old)"] by simp
    have rr: "ready_range (view (hp_dev ?x1) old) (unat (committed_len ?x1)) (length (buffered ?x1))"
      using r1 len len_m st by (simp add: ready_range_def)
    obtain x2 where cp: "sw_copy_to_old ops (write_pos x) ?x1 = Some (True, x2)" "sw_ok x2" "job x2 = job ?x1"
      "committed_len x2 = committed_len x" "old_part_erased_end x2 = e" "v_open (view (hp_dev x2) old)"
      "v_cell (view (hp_dev x2) old) = splice ?C ?B (v_cell (view s old))"
      "\<forall>i. v_ready (view s old) i \<longrightarrow> i < ?C \<or> ?C + length ?B \<le> i \<longrightarrow> v_ready (view (hp_dev x2) old) i"
      "\<forall>h. h \<noteq> sw_h \<and> h \<noteq> old \<longrightarrow> view (hp_dev x2) h = view s h"
      using copy_ok [of ?x1] st er(3) len fit old rr by auto
    let ?x3 = "x2\<lparr>committed_len := committed_len x2 + write_pos x\<rparr>"
    have st3: "sw_ok ?x3" using ok_stable [OF cp(2), of ?x3] by (simp add: swap_fields_def)
    obtain x4 where rs: "sw_reset ops ?x3 = (True, x4)" "sw_ok x4" "buffered x4 = []" "job x4 = job ?x3"
      "committed_len x4 = committed_len ?x3" "old_part_erased_end x4 = old_part_erased_end ?x3"
      "\<forall>h. h \<noteq> sw_h \<longrightarrow> view (hp_dev x4) h = view (hp_dev ?x3) h"
      using reset_ok [OF st3] by blast
    have run: "qbt_swap_commit io ops x = Some (True, x4)"
      using False er(1) cp(1) rs(1) by (simp add: qbt_swap_commit_def Let_def)
    have j: "job x4 = job x" using rs(4) cp(3) by (simp add: job_def)
    have old_view: "view (hp_dev x4) old = view (hp_dev x2) old" using rs(7) apart by simp
    have C4: "unat (committed_len x4) = length D" using rs(5) cp(4) stop by simp
    have data: "cells (v_cell (view (hp_dev x2) old)) 0 (length D) = D"
    proof -
      have "cells (splice ?C ?B (v_cell (view s old))) 0 (?C + length ?B) = take ?C D @ drop ?C D"
        using pre1 cells_splice_disjoint [of ?C ?B 0 ?C] cells_splice_same [of ?C ?B]
        by (simp add: cells_add C(2) del: cells_splice_same)
      then show ?thesis by (simp add: cp(7) len)
    qed
    have img4: "v_cell (view (hp_dev x2) old) i = img i" if "?m \<le> i" for i
    proof -
      have "unat (old_part_erased_end x) \<le> ?m" using m by simp
      then have "img i = v_cell (view s old) i" using that er(5) img by auto
      moreover have "splice ?C ?B (v_cell (view s old)) i = v_cell (view s old) i"
        using that len len_m by (intro splice_out) linarith
      ultimately show ?thesis by (simp add: cp(7))
    qed
    have rdy4: "v_ready (view (hp_dev x2) old) i" if "length D \<le> i" "i < ?m" for i
      using that r1 cp(8) len C(1) by simp
    have "committed_ok img D x4"
      unfolding committed_ok_def old_view
      using rs(2,3) j job_fields [OF j] old cp(6) sec C4 data rs(6) cp(5) er(2) rdy4 img4 by simp
    moreover have "others_kept x x4" using j rs(7) cp(9) er(4) by (simp add: others_kept_def)
    ultimately show ?thesis using run C4 rs(3) by blast
  qed
qed

text \<open>Between the pieces the buffer is not full and whole buffers have been committed.\<close>

definition written_ok :: "(nat \<Rightarrow> byte) \<Rightarrow> byte list \<Rightarrow> 's hpatchi \<Rightarrow> bool" where
  "written_ok img D x \<longleftrightarrow> committed_ok img D x \<and> length (buffered x) < cap \<and> cap dvd unat (committed_len x)"

lemma written_committed:
  assumes "written_ok img D x"
  shows "unat (committed_len x) = length D div cap * cap"
proof -
  obtain k where k: "unat (committed_len x) = cap * k" using assms by (auto simp: written_ok_def)
  have "length D = cap * k + length (buffered x)" "length (buffered x) < cap"
    using assms k by (auto simp: written_ok_def committed_ok_def)
  then have "length D div cap = k" using cap_pos by (simp add: div_add1_eq)
  with k show ?thesis by simp
qed

lemma drop_prefix: "m \<le> length xs \<Longrightarrow> drop m (xs @ ys) = drop m xs @ ys"
  and take_prefix: "m \<le> length xs \<Longrightarrow> take m (xs @ ys) = take m xs" for xs ys :: "byte list"
  by simp_all

lemma write_loop:
  assumes w: "written_ok img D x" and fit: "length D + length data \<le> dev_size old"
  shows "\<exists>x'. run_loop (write_new_body io ops) (data, x) = Some (True, x') \<and> written_ok img (D @ data) x' \<and>
    others_kept x x'"
proof -
  define I where "I y \<longleftrightarrow> (\<exists>d. data = d @ fst y \<and> written_ok img (D @ d) (snd y) \<and> others_kept x (snd y))" for y
  define Q where "Q r \<longleftrightarrow> fst r \<and> written_ok img (D @ data) (snd r) \<and> others_kept x (snd r)" for r :: "bool \<times> 's hpatchi"
  have "\<exists>r. run_loop (write_new_body io ops) (data, x) = Some r \<and> Q r"
  proof (rule run_loop_total [where I = I and m = "length o fst"])
    show "I (data, x)" using w by (simp add: I_def)
  next
    fix y assume "I y"
    then obtain d rest z where y: "y = (rest, z)" and d: "data = d @ rest" "written_ok img (D @ d) z" "others_kept x z"
      by (cases y) (auto simp: I_def)
    show "(\<exists>r. write_new_body io ops y = Some (Stop r) \<and> Q r) \<or>
      (\<exists>y'. write_new_body io ops y = Some (Again y') \<and> I y' \<and> (length \<circ> fst) y' < (length \<circ> fst) y)"
    proof (cases "rest = []")
      case True
      with d show ?thesis by (simp add: y write_new_body_def Q_def)
    next
      case False
      have c: "committed_ok img (D @ d) z" and lt: "length (buffered z) < cap" and dv: "cap dvd unat (committed_len z)"
        using d(2) by (simp_all add: written_ok_def)
      have ok: "sw_ok z" and C: "unat (committed_len z) \<le> length (D @ d)"
        "buffered z = drop (unat (committed_len z)) (D @ d)" using c by (simp_all add: committed_ok_def)
      note b = ok_bounds [OF ok]
      let ?free = "capacity z - write_pos z" and ?rem = "of_nat (length rest) :: u32"
      let ?chunk = "if ?rem < ?free then ?rem else ?free"
      have free: "unat ?free = cap - length (buffered z)" using b lt by (simp add: u32_sub)
      have rem: "unat ?rem = length rest" using fit d(1) old_small by (intro u32_of_nat) simp
      define k where "k = min (length rest) (cap - length (buffered z))"
      have k: "unat ?chunk = k" using free rem by (auto simp: k_def u32_less_iff)
      have kpos: "0 < k" and kle: "k \<le> length rest" "length (buffered z) + k \<le> cap"
        using False lt by (auto simp: k_def)
      have lk: "length (take k rest) = k" using kle by simp
      obtain z1 where a: "sw_append ops (take k rest) z = Some (True, z1)" "sw_ok z1"
        "buffered z1 = buffered z @ take k rest" "job z1 = job z" "committed_len z1 = committed_len z"
        "old_part_erased_end z1 = old_part_erased_end z" "\<forall>h. h \<noteq> sw_h \<longrightarrow> view (hp_dev z1) h = view (hp_dev z) h"
        using append_ok [OF ok, of "take k rest"] kle lk by auto
      have c1: "committed_ok img (D @ d @ take k rest) z1"
      proof (rule committed_ok_swap [OF c a(4,5,6) _ a(2)])
        show "view (hp_dev z1) old = view (hp_dev z) old" using a(7) apart by simp
        show "buffered z1 = drop (unat (committed_len z)) (D @ d @ take k rest)"
          using drop_prefix [OF C(1), of "take k rest"] by (simp only: a(3) C(2) append_assoc)
        show "take (unat (committed_len z)) (D @ d @ take k rest) = take (unat (committed_len z)) (D @ d)"
          using take_prefix [OF C(1), of "take k rest"] by (simp only: append_assoc)
      qed simp
      have "others_kept z z1" using a(4,7) by (simp add: others_kept_def)
      then have k1: "others_kept x z1" by (rule others_kept_trans [OF d(3)])
      note b1 = ok_bounds [OF a(2)]
      have d': "data = (d @ take k rest) @ drop k rest" using d(1) by simp
      have full: "sint (write_pos z1) \<ge> sint (capacity z) \<longleftrightarrow> cap \<le> length (buffered z1)"
        using b b1 cap_small by (simp add: sint_small)
      have fit1: "length (D @ d @ take k rest) \<le> dev_size old" using fit d(1) kle by simp
      have ch: "?chunk > 0" using k kpos by (simp only: u32_less_iff unsigned_0)
      obtain z2 where z2: "(if sint (write_pos z1) \<ge> sint (capacity z) then qbt_swap_commit io ops z1 else Some (True, z1)) =
          Some (True, z2)" "written_ok img (D @ d @ take k rest) z2" "others_kept z1 z2"
      proof (cases "cap \<le> length (buffered z1)")
        case True
        obtain z2 where cm: "qbt_swap_commit io ops z1 = Some (True, z2)" "committed_ok img (D @ d @ take k rest) z2"
          "others_kept z1 z2" "unat (committed_len z2) = length (D @ d @ take k rest)" "buffered z2 = []"
          using commit_ok [OF c1 fit1] by blast
        have "length (buffered z) + k = cap" using True b1 a(3) lk by simp
        moreover have "unat (committed_len z) + length (buffered z) = length (D @ d)" using C by simp
        moreover have "unat (committed_len z2) = length (D @ d) + k" using cm(4) lk by simp
        ultimately have "unat (committed_len z2) = unat (committed_len z) + cap" by linarith
        then show ?thesis using that cm full True dv cap_pos by (simp add: written_ok_def)
      next
        case nf: False
        then show ?thesis using that [of z1] full c1 dv a(5) by (simp add: written_ok_def)
      qed
      have body: "write_new_body io ops y = Some (Again (drop k rest, z2))"
        unfolding y write_new_body_def using False ch a(1) z2(1)
        by (simp only: prod.case Let_def k if_False if_True Option.bind_lunit not_True_eq_False)
      moreover have "I (drop k rest, z2)"
        unfolding I_def fst_conv snd_conv using d' z2(2) others_kept_trans [OF k1 z2(3)]
        by (intro exI [of _ "d @ take k rest"] conjI) simp_all
      moreover have "length (drop k rest) < length rest" using kpos kle by simp
      ultimately show ?thesis by (auto simp: y)
    qed
  qed
  then show ?thesis by (auto simp: Q_def)
qed

end

section \<open>Running the library\<close>

definition patch_stream ::
  "('s \<Rightarrow> handle \<Rightarrow> dev_view) \<Rightarrow> (handle \<Rightarrow> nat) \<Rightarrow> 's \<Rightarrow> handle \<Rightarrow> u32 \<Rightarrow> u32 \<Rightarrow> byte list \<Rightarrow> bool" where
  "patch_stream view dev_size s h off n P \<longleftrightarrow> v_open (view s h) \<and> unat off + unat n \<le> dev_size h \<and>
     unat off + unat n < 4294967296 \<and> unat n < 2147483648 \<and> P = cells (v_cell (view s h)) (unat off) (unat n)"

context swap_store
begin

lemma written_ok_stable:
  assumes w: "written_ok img D x" and f: "swap_fields y = swap_fields x"
    and c: "committed_len y = committed_len x" "old_part_erased_end y = old_part_erased_end x"
      "old_part y = old_part x" "old_part_sector_size y = old_part_sector_size x"
    and v: "view (hp_dev y) = view (hp_dev x)"
  shows "written_ok img D y"
proof -
  have "sw_ok x" using w by (simp add: written_ok_def committed_ok_def)
  from ok_stable [OF this f] v have "sw_ok y \<and> buffered y = buffered x" by simp
  with w c v show ?thesis by (auto simp: written_ok_def committed_ok_def)
qed

definition running :: "'s hpatchi \<Rightarrow> (nat \<Rightarrow> byte) \<Rightarrow> byte list \<Rightarrow> nat \<Rightarrow> 's hpatchi \<Rightarrow> bool" where
  "running x0 img D pos x \<longleftrightarrow> written_ok img D x \<and> unat (patch_read_pos x) = pos \<and>
     patch_file_offset x = patch_file_offset x0 \<and> patch_file_len x = patch_file_len x0 \<and>
     newer_file_len x = newer_file_len x0 \<and> patch_part x = patch_part x0 \<and>
     (\<forall>h. h \<noteq> sw_h \<longrightarrow> h \<noteq> old \<longrightarrow> view (hp_dev x) h = view (hp_dev x0) h)"

lemma read_patch_ok:
  assumes r: "running x0 img D pos x"
    and p: "patch_stream view dev_size (hp_dev x0) (patch_part x0) (patch_file_offset x0) (patch_file_len x0) P"
    and ne: "patch_part x0 \<noteq> old" "patch_part x0 \<noteq> sw_h" and pos: "pos \<le> length P"
    and bs: "bs = take (unat len) (drop pos P)"
  shows "\<exists>x'. hp_do_read_patch io len x = ((True, bs), x') \<and> running x0 img D (pos + length bs) x'"
proof -
  let ?off = "patch_file_offset x0" and ?n = "patch_file_len x0" and ?h = "patch_part x0"
  have f: "patch_file_offset x = ?off" "patch_file_len x = ?n" "patch_part x = ?h" "unat (patch_read_pos x) = pos"
    and v: "view (hp_dev x) ?h = view (hp_dev x0) ?h"
    using r ne by (simp_all add: running_def)
  have P: "length P = unat ?n" "unat ?n < 2147483648" and o: "v_open (view (hp_dev x) ?h)"
    and fit: "unat ?off + unat ?n \<le> dev_size ?h" "unat ?off + unat ?n < 4294967296"
    and data: "P = cells (v_cell (view (hp_dev x0) ?h)) (unat ?off) (unat ?n)"
    using p v by (simp_all add: patch_stream_def)
  show ?thesis
  proof (cases "pos = length P \<or> len = 0")
    case True
    then have "bs = []" by (auto simp: bs)
    moreover have "hp_do_read_patch io len x = ((True, []), x)"
      using True P f pos by (auto simp: hp_do_read_patch_def Let_def sint_small)
    ultimately show ?thesis using r by (intro exI [of _ x]) simp
  next
    case False
    then have lt: "pos < unat ?n" and len: "0 < unat len" using pos P by (auto simp: unat_gt_0)
    let ?m = "if len > ?n - patch_read_pos x then ?n - patch_read_pos x else len"
    have rem: "unat (?n - patch_read_pos x) = unat ?n - pos" using lt f by (simp add: u32_sub)
    have m: "unat ?m = min (unat len) (unat ?n - pos)" using rem by (auto simp: u32_less_iff)
    have mp: "0 < unat ?m" "pos + unat ?m \<le> unat ?n" unfolding m using lt len by auto
    have at: "unat (?off + patch_read_pos x) = unat ?off + pos" using f fit lt by (subst u32_add) auto
    have fit': "unat (?off + patch_read_pos x) + unat ?m \<le> dev_size ?h" unfolding at using mp fit by linarith
    obtain s where rd: "io_read io ?h (?off + patch_read_pos x) ?m (hp_dev x) =
        (Inr (cells (v_cell (view (hp_dev x) ?h)) (unat (?off + patch_read_pos x)) (unat ?m)), s)"
      "view s = view (hp_dev x)"
      by (rule read_exact [OF o fit'])
    have b: "cells (v_cell (view (hp_dev x) ?h)) (unat (?off + patch_read_pos x)) (unat ?m) = bs"
    proof -
      have "drop pos P = cells (v_cell (view (hp_dev x0) ?h)) (unat ?off + pos) (unat ?n - pos)"
        using lt by (simp add: data cells_simps)
      then show ?thesis unfolding bs at v m by (simp add: cells_simps)
    qed
    have g: "\<not> sint (patch_read_pos x) \<ge> sint (patch_file_len x)"
    proof -
      have "pos < 2147483648" using lt P(2) by linarith
      then have "sint (patch_read_pos x) = int pos" using sint_small [of "patch_read_pos x"] by (simp only: f(4))
      moreover have "sint (patch_file_len x) = int (unat ?n)" unfolding f(2) by (rule sint_small [OF P(2)])
      ultimately show ?thesis using lt by linarith
    qed
    have nz: "?m \<noteq> 0" by (rule iffD1 [OF unat_gt_0 mp(1)])
    have run: "hp_do_read_patch io len x = ((True, bs), x\<lparr>hp_dev := s, patch_read_pos := patch_read_pos x + ?m\<rparr>)"
      unfolding hp_do_read_patch_def Let_def f(1-3) rd(1) b
      by (simp only: g [unfolded f(2)] nz if_False sum.case prod.case)
    have lb: "length bs = unat ?m" by (simp flip: b)
    have np: "unat (patch_read_pos x + ?m) = pos + length bs"
      using mp f P lb by (subst u32_add) auto
    have "written_ok img D (x\<lparr>hp_dev := s, patch_read_pos := patch_read_pos x + ?m\<rparr>)"
      by (rule written_ok_stable [of img D x]) (use r rd(2) in \<open>simp_all add: running_def swap_fields_def\<close>)
    then have "running x0 img D (pos + length bs) (x\<lparr>hp_dev := s, patch_read_pos := patch_read_pos x + ?m\<rparr>)"
      using r rd(2) np by (simp add: running_def)
    with run show ?thesis by blast
  qed
qed

lemma read_old_ok:
  assumes r: "running x0 img D pos x" and safe: "blk_up blk (length D div cap * cap) \<le> unat addr"
    and fit: "unat addr + unat len \<le> dev_size old"
  shows "\<exists>x'. hp_do_read_old io addr len x = ((True, cells img (unat addr) (unat len)), x') \<and> running x0 img D pos x'"
proof -
  have w: "written_ok img D x" using r by (simp add: running_def)
  then have c: "committed_ok img D x" by (simp add: written_ok_def)
  have o: "v_open (view (hp_dev x) old)" and old: "old_part x = old" using c by (simp_all add: committed_ok_def)
  obtain s where rd: "io_read io old addr len (hp_dev x) =
      (Inr (cells (v_cell (view (hp_dev x) old)) (unat addr) (unat len)), s)" "view s = view (hp_dev x)"
    by (rule read_exact [OF o fit])
  have "unat (old_part_erased_end x) \<le> unat addr"
    using safe written_committed [OF w] c by (simp add: committed_ok_def)
  then have "cells (v_cell (view (hp_dev x) old)) (unat addr) (unat len) = cells img (unat addr) (unat len)"
    using c by (intro cells_cong) (simp add: committed_ok_def)
  then have "hp_do_read_old io addr len x = ((True, cells img (unat addr) (unat len)), x\<lparr>hp_dev := s\<rparr>)"
    using rd by (simp add: hp_do_read_old_def old)
  moreover have "written_ok img D (x\<lparr>hp_dev := s\<rparr>)"
    by (rule written_ok_stable [OF w]) (use rd(2) in \<open>simp_all add: swap_fields_def\<close>)
  then have "running x0 img D pos (x\<lparr>hp_dev := s\<rparr>)" using r rd(2) by (simp add: running_def)
  ultimately show ?thesis by blast
qed

lemma write_new_ok:
  assumes r: "running x0 img D pos x" and fit: "length D + length bs \<le> dev_size old" and nz: "newer_file_len x0 \<noteq> 0"
  shows "\<exists>x'. hp_do_write_new io ops bs x = Some (True, x') \<and> running x0 img (D @ bs) pos x'"
proof -
  have w: "written_ok img D x" using r by (simp add: running_def)
  obtain x1 where l: "run_loop (write_new_body io ops) (bs, x) = Some (True, x1)" "written_ok img (D @ bs) x1"
    "others_kept x x1"
    using write_loop [OF w fit] by blast
  let ?x2 = "x1\<lparr>newer_write_pos := newer_write_pos x1 + of_nat (length bs)\<rparr>"
  have j: "job x1 = job x" using l(3) by (simp add: others_kept_def)
  have "hp_do_write_new io ops bs x = Some (True, ?x2)"
    using l(1) nz r job_fields [OF j] by (simp add: hp_do_write_new_def running_def)
  moreover have "written_ok img (D @ bs) ?x2"
    by (rule written_ok_stable [OF l(2)]) (simp_all add: swap_fields_def)
  then have "running x0 img (D @ bs) pos ?x2"
    using r job_fields [OF j] l(3) by (simp add: running_def others_kept_def)
  ultimately show ?thesis by blast
qed

lemma hpi_step:
  assumes "hpi_body L io ops (h, x) = Some (Again y)"
    and "\<exists>x' pos'. run_loop (hpi_body L io ops) y = Some (HPATCHI_SUCCESS, x') \<and> running x0 img N pos' x'"
  shows "\<exists>x' pos'. run_loop (hpi_body L io ops) (h, x) = Some (HPATCHI_SUCCESS, x') \<and> running x0 img N pos' x'"
  using run_loop_again [of "hpi_body L io ops", OF assms(1)] assms(2) by simp

lemma patch_exact:
  assumes "patch_run L P img (dev_size old) blk cap h pos D N" and "running x0 img D pos x"
    and p: "patch_stream view dev_size (hp_dev x0) (patch_part x0) (patch_file_offset x0) (patch_file_len x0) P"
    and ne: "patch_part x0 \<noteq> old" "patch_part x0 \<noteq> sw_h"
    and fit: "length N \<le> dev_size old" and nz: "newer_file_len x0 \<noteq> 0" and "pos \<le> length P"
  shows "\<exists>x' pos'. run_loop (hpi_body L io ops) (h, x) = Some (HPATCHI_SUCCESS, x') \<and> running x0 img N pos' x'"
  using assms(1,2) fit \<open>pos \<le> length P\<close>
proof (induction arbitrary: x rule: patch_run.induct)
  case (run_return h pos D)
  then have "run_loop (hpi_body L io ops) (h, x) = Some (HPATCHI_SUCCESS, x)"
    by (intro run_loop_stop) (simp add: hpi_body_def)
  with run_return.prems show ?case by blast
next
  case (run_read_patch h len bs pos D N)
  obtain x' where a: "hp_do_read_patch io len x = ((True, bs), x')" "running x0 img D (pos + length bs) x'"
    using read_patch_ok [OF run_read_patch.prems(1) p ne run_read_patch.prems(3) run_read_patch.hyps(2)] by blast
  have "pos + length bs \<le> length P"
    using run_read_patch.prems(3) by (simp add: run_read_patch.hyps(2))
  note IH = run_read_patch.IH [OF a(2) run_read_patch.prems(2) this]
  show ?case by (rule hpi_step [OF _ IH]) (use run_read_patch.hyps(1) a(1) in \<open>simp add: hpi_body_def\<close>)
next
  case (run_read_old h addr len D pos N)
  obtain x' where a: "hp_do_read_old io addr len x = ((True, cells img (unat addr) (unat len)), x')" "running x0 img D pos x'"
    using read_old_ok [OF run_read_old.prems(1) run_read_old.hyps(2,3)] by blast
  note IH = run_read_old.IH [OF a(2) run_read_old.prems(2,3)]
  show ?case by (rule hpi_step [OF _ IH]) (use run_read_old.hyps(1) a(1) in \<open>simp add: hpi_body_def\<close>)
next
  case (run_write_new h bs pos D N)
  have "length D + length bs \<le> dev_size old"
    using patch_run_prefix [OF run_write_new.hyps(2)] run_write_new.prems(2) by auto
  then obtain x' where a: "hp_do_write_new io ops bs x = Some (True, x')" "running x0 img (D @ bs) pos x'"
    using write_new_ok [OF run_write_new.prems(1) _ nz] by blast
  note IH = run_write_new.IH [OF a(2) run_write_new.prems(2,3)]
  show ?case by (rule hpi_step [OF _ IH]) (use run_write_new.hyps(1) a(1) in \<open>simp add: hpi_body_def\<close>)
qed

end

section \<open>The release\<close>

context swap_store
begin

text \<open>The tail erase, from the block the new image ends in to the end of the target.\<close>

lemma finish_ok_view:
  assumes c: "committed_ok img N x0" and all0: "unat (committed_len x0) = length N"
    and len0: "unat (newer_file_len x0) = length N" and fit: "length N \<le> dev_size old"
    and f: "old_part x = old_part x0" "old_part_sector_size x = old_part_sector_size x0"
      "newer_file_len x = newer_file_len x0" "committed_len x = committed_len x0"
      "old_part_erased_end x = old_part_erased_end x0" and vo: "view (hp_dev x) old = view (hp_dev x0) old"
  shows "\<exists>x'. hpatch_finish io HPATCHI_SUCCESS x = (1, x') \<and>
    cells (v_cell (view (hp_dev x') old)) 0 (length N) = N \<and> v_open (view (hp_dev x') old) \<and>
    (\<forall>h. h \<noteq> old \<longrightarrow> view (hp_dev x') h = view (hp_dev x) h) \<and>
    (\<forall>i. blk_up blk (length N) \<le> i \<and> i < dev_size old \<longrightarrow> v_ready (view (hp_dev x') old) i)"
proof -
  have o: "v_open (view (hp_dev x) old)" and old: "old_part x = old"
    and sec: "pow2 (old_part_sector_size x)" "unat (old_part_sector_size x) = blk"
    and E: "unat (old_part_erased_end x) = blk_up blk (length N)"
    and data: "cells (v_cell (view (hp_dev x) old)) 0 (length N) = N"
    using c all0 f vo by (simp_all add: committed_ok_def)
  have all: "unat (committed_len x) = length N" and len: "unat (newer_file_len x) = length N"
    using all0 len0 f by simp_all
  obtain m s where sz: "io_size io old (hp_dev x) = (Inr m, s)" "unat m = dev_size old" using old_size [OF o] by blast
  have v: "view s = view (hp_dev x)" by (rule size_view [OF o sz(1)])
  have whole: "committed_len x = newer_file_len x" using all len by (simp add: u32_eq_iff)
  have "sint m = int (dev_size old)" by (metis sint_small sz(2) old_small)
  moreover have "sint (newer_file_len x) = int (length N)" by (metis sint_small len fit old_small le_less_trans)
  ultimately have cmp: "sint (newer_file_len x) < sint m \<longleftrightarrow> length N < dev_size old" by simp
  show ?thesis
  proof (cases "length N < dev_size old")
    case False
    then have "blk_up blk (length N) = dev_size old" using fit old_aligned blk_pos by simp
    with False show ?thesis
      using sz(1) v cmp whole data o old by (intro exI [of _ "x\<lparr>hp_dev := s\<rparr>"]) (auto simp: hpatch_finish_def Let_def)
  next
    case True
    let ?y = "x\<lparr>hp_dev := s\<rparr>"
    have max: "max (unat (old_part_erased_end ?y)) (blk_up blk (unat m)) = dev_size old"
      using blk_up_le_mult [OF blk_pos old_aligned fit] old_aligned blk_pos sz(2) E by (simp add: max_def)
    have pre: "old_part ?y = old" "v_open (view (hp_dev ?y) old)" "pow2 (old_part_sector_size ?y)"
      "unat (old_part_sector_size ?y) = blk" "blk dvd unat (old_part_erased_end ?y)"
      "unat (newer_file_len x) < unat m" "unat m \<le> dev_size old"
      "(if True then blk_up blk (unat (newer_file_len x)) else blk_down blk (unat (newer_file_len x))) \<le>
        unat (old_part_erased_end ?y)"
      using old o v sec E True sz(2) len by simp_all
    obtain s2 e where er: "qbt_erase_aligned_range io (newer_file_len x) m True ?y =
        (True, ?y\<lparr>hp_dev := s2, old_part_erased_end := e\<rparr>)" "v_open (view s2 old)"
      "\<forall>h. h \<noteq> old \<longrightarrow> view s2 h = view (hp_dev ?y) h"
      "\<forall>i. i < unat (old_part_erased_end ?y) \<or> dev_size old \<le> i \<longrightarrow>
        v_cell (view s2 old) i = v_cell (view (hp_dev ?y) old) i"
      "\<forall>i. unat (old_part_erased_end ?y) \<le> i \<and> i < dev_size old \<longrightarrow> v_ready (view s2 old) i"
      using erase_range_exact [OF pre] unfolding max by blast
    have "cells (v_cell (view s2 old)) 0 (length N) = cells (v_cell (view (hp_dev x) old)) 0 (length N)"
      using er(4) blk_up_ge [OF blk_pos, of "length N"] E v by (intro cells_cong) simp
    with True show ?thesis
      using sz(1) v cmp whole data old er E
      by (intro exI [of _ "?y\<lparr>hp_dev := s2, old_part_erased_end := e\<rparr>"]) (simp add: hpatch_finish_def Let_def)
  qed
qed

lemma release_ok:
  fixes w :: "('s, 'a) world" and c :: qboot_cfg and Ld :: hpi_lib
  defines "s0 \<equiv> w_dev w"
  assumes sw: "hpatch_swap c H io = ops"
    and size: "hp_swap_file_size H = None \<or> (\<exists>m. hp_swap_file_size H = Some m \<and> int blk \<le> sint m)"
    and buf: "hp_malloc H = Some b"
    and o: "v_open (view s0 old)" and ne: "patch \<noteq> old" "patch \<noteq> sw_h"
    and rdy: "\<And>s a. view s = view s0 \<Longrightarrow>
      sw_ready ((hpatchi_0 patch old plen nlen off (if hpatch_storage_swap c then hp_copy_size H else hp_ram_size H) s)
        \<lparr>old_part_sector_size := a, ram_buf := b\<rparr>)"
    and p: "patch_stream view dev_size s0 patch off plen P"
    and run: "patch_run Ld P (v_cell (view s0 old)) (dev_size old) blk cap [] 0 [] N"
    and N: "unat nlen = length N" "0 < length N" "length N \<le> dev_size old"
  shows "\<exists>w'. qbt_hpatchlite_release_from_part c Ld H io patch old plen nlen off w = Some (1, w') \<and>
    w_mem w' = w_mem w \<and> w_alg w' = w_alg w \<and>
    cells (v_cell (view (w_dev w') old)) 0 (length N) = N \<and> v_open (view (w_dev w') old) \<and>
    (\<forall>h. h \<noteq> old \<and> h \<noteq> sw_h \<longrightarrow> view (w_dev w') h = view s0 h) \<and>
    (\<forall>i. blk_up blk (length N) \<le> i \<and> i < dev_size old \<longrightarrow> v_ready (view (w_dev w') old) i)"
proof -
  let ?i0 = "hpatchi_0 patch old plen nlen off (if hpatch_storage_swap c then hp_copy_size H else hp_ram_size H)"
  obtain a s where io: "io_ioctl io old QBOOT_IO_CMD_GET_ERASE_ALIGN s0 = (Inr a, s)" "pow2 a" "unat a = blk"
    using old_ioctl [OF o] by blast
  have v: "view s = view s0" by (rule ioctl_view [OF o io(1)])
  have "blk < 2147483648" using N old_small dvd_imp_le [OF old_aligned] by linarith
  then have "sint a = int blk" by (metis sint_small io(3))
  then have sz: "\<not> (case hp_swap_file_size H of None \<Rightarrow> False | Some n \<Rightarrow> sint n < sint a)"
    using size by (auto split: option.splits)
  let ?x2 = "(?i0 s)\<lparr>old_part_sector_size := a, ram_buf := b\<rparr>"
  have al: "qbt_swap_alloc_buf H ((?i0 s0)\<lparr>hp_dev := s, old_part_sector_size := a\<rparr>) = (True, ?x2)"
    by (simp add: qbt_swap_alloc_buf_def buf hpatchi_0_def)
  obtain x3 where i: "sw_init ops ?x2 = (True, x3)" "sw_ok x3" "buffered x3 = []" "job x3 = job ?x2"
    "committed_len x3 = committed_len ?x2" "old_part_erased_end x3 = old_part_erased_end ?x2"
    "\<forall>h. h \<noteq> sw_h \<longrightarrow> view (hp_dev x3) h = view (hp_dev ?x2) h"
    using init_ok [OF rdy [OF v]] by blast
  have v3: "view (hp_dev x3) h = view s0 h" if "h \<noteq> sw_h" for h using i(7) that v by (simp add: hpatchi_0_def)
  have f3: "old_part x3 = old" "old_part_sector_size x3 = a" "patch_file_offset x3 = off" "patch_file_len x3 = plen"
    "patch_read_pos x3 = 0" "newer_file_len x3 = nlen" "patch_part x3 = patch" "committed_len x3 = 0"
    "old_part_erased_end x3 = 0"
    using i(4-6) by (simp_all add: job_def hpatchi_0_def)
  have "committed_ok (v_cell (view s0 old)) [] x3"
    using i(2,3) f3 io v3 [of old] apart o by (simp add: committed_ok_def blk_up_mult [OF blk_pos])
  then have r3: "running x3 (v_cell (view s0 old)) [] 0 x3"
    using i(3) f3 cap_pos by (simp add: running_def written_ok_def)
  have p3: "patch_stream view dev_size (hp_dev x3) (patch_part x3) (patch_file_offset x3) (patch_file_len x3) P"
    using p v3 [OF ne(2)] f3 by (simp add: patch_stream_def)
  have nz: "newer_file_len x3 \<noteq> 0" using N f3 by (metis less_irrefl unsigned_0)
  have ne3: "patch_part x3 \<noteq> old" "patch_part x3 \<noteq> sw_h" using ne f3 by simp_all
  obtain x4 pos where r: "hpi_patch Ld io ops x3 = Some (HPATCHI_SUCCESS, x4)"
    "running x3 (v_cell (view s0 old)) N pos x4"
    using patch_exact [OF run r3 p3 ne3 N(3) nz] unfolding hpi_patch_def by blast
  have c4: "committed_ok (v_cell (view s0 old)) N x4" using r(2) by (simp add: running_def written_ok_def)
  have ok4: "sw_ok x4" using c4 by (simp add: committed_ok_def)
  obtain x5 where cm: "qbt_swap_commit io ops x4 = Some (True, x5)" "committed_ok (v_cell (view s0 old)) N x5"
    "others_kept x4 x5" "unat (committed_len x5) = length N"
    using commit_ok [OF c4 N(3)] by blast
  have fin: "(if HPATCHI_SUCCESS = HPATCHI_SUCCESS \<and> 0 < sint (write_pos x4)
      then do { (ok, x5) \<leftarrow> qbt_swap_commit io ops x4; Some (if ok then HPATCHI_SUCCESS else HPATCHI_PATCH_ERROR, True, x5) }
      else Some (HPATCHI_SUCCESS, True, x4)) = Some (HPATCHI_SUCCESS, True, x5)"
  proof (cases "write_pos x4 = 0")
    case True
    then have "x5 = x4" using cm(1) by (simp add: qbt_swap_commit_def)
    with True show ?thesis by simp
  next
    case False
    have "0 < unat (write_pos x4)" "unat (write_pos x4) < 2147483648"
      using False ok_bounds [OF ok4] cap_small unat_gt_0 [of "write_pos x4"] by linarith+
    then have "0 < sint (write_pos x4)" by (simp add: sint_pos_iff)
    with cm(1) show ?thesis by simp
  qed
  have hr: "hpatch_run Ld H io ops (?i0 s0) = Some (HPATCHI_SUCCESS, True, x5)"
  proof -
    have "io_ioctl io (old_part (?i0 s0)) QBOOT_IO_CMD_GET_ERASE_ALIGN (hp_dev (?i0 s0)) = (Inr a, s)"
      using io(1) by (simp add: hpatchi_0_def)
    then show ?thesis
      unfolding hpatch_run_def using sz al i(1) r(1) fin by (simp add: Let_def)
  qed
  let ?x6 = "qbt_swap_free_buf (sw_deinit ops x5)"
  have ok5: "sw_ok x5" using cm(2) by (simp add: committed_ok_def)
  note de = deinit_ok [OF ok5]
  have old6: "view (hp_dev ?x6) old = view (hp_dev x5) old" using de apart by (simp add: qbt_swap_free_buf_def)
  have f6: "old_part ?x6 = old_part x5" "old_part_sector_size ?x6 = old_part_sector_size x5"
    "newer_file_len ?x6 = newer_file_len x5" "committed_len ?x6 = committed_len x5"
    "old_part_erased_end ?x6 = old_part_erased_end x5"
    using de job_fields [of "sw_deinit ops x5" x5] by (simp_all add: qbt_swap_free_buf_def)
  have n5: "unat (newer_file_len x5) = length N"
    using cm(3) job_fields [of x5 x4] r(2) f3 N(1) by (simp add: others_kept_def running_def)
  obtain x7 where t: "hpatch_finish io HPATCHI_SUCCESS ?x6 = (1, x7)"
    "cells (v_cell (view (hp_dev x7) old)) 0 (length N) = N" "v_open (view (hp_dev x7) old)"
    "\<forall>h. h \<noteq> old \<longrightarrow> view (hp_dev x7) h = view (hp_dev ?x6) h"
    "\<forall>i. blk_up blk (length N) \<le> i \<and> i < dev_size old \<longrightarrow> v_ready (view (hp_dev x7) old) i"
    using finish_ok_view [OF cm(2,4) n5 N(3) f6 old6] by blast
  have "view (hp_dev x7) h = view s0 h" if "h \<noteq> old" "h \<noteq> sw_h" for h
  proof -
    have "view (hp_dev x7) h = view (hp_dev x5) h" using t(4) de that by (simp add: qbt_swap_free_buf_def)
    also have "\<dots> = view (hp_dev x4) h" using cm(3) that by (simp add: others_kept_def)
    also have "\<dots> = view (hp_dev x3) h" using r(2) that by (simp add: running_def)
    finally show ?thesis using v3 that by simp
  qed
  then show ?thesis
    using hr t sw
    by (intro exI [of _ "w\<lparr>w_dev := hp_dev x7\<rparr>"]) (simp add: qbt_hpatchlite_release_from_part_def s0_def Let_def)
qed

end

end
