(* ===== verification/Qboot_Swap.thy ===== *)
theory Qboot_Swap
  imports Qboot_Patch
begin

text \<open>
  Both swap backends of the in-place patch keep the contract \<open>swap_store\<close>: the RAM buffer on any
  device, the storage swap when its target opens. The reference flash of \<open>Qboot_Custom\<close> is
  patched with both.
\<close>

section \<open>The RAM buffer\<close>

definition ram_ready :: "nat \<Rightarrow> 's hpatchi \<Rightarrow> bool" where
  "ram_ready cap x \<longleftrightarrow> length (ram_buf x) = cap \<and> unat (ram_buf_size x) = cap"

definition ram_ok :: "nat \<Rightarrow> 's hpatchi \<Rightarrow> bool" where
  "ram_ok cap x \<longleftrightarrow> length (ram_buf x) = cap \<and> unat (capacity x) = cap \<and> unat (write_pos x) \<le> cap"

definition ram_buffered :: "'s hpatchi \<Rightarrow> byte list" where
  "ram_buffered x = take (unat (write_pos x)) (ram_buf x)"

locale ram_patch = patch_device io view dev_size blk old
  for io :: "'s qboot_io_ops" and view :: "'s \<Rightarrow> handle \<Rightarrow> dev_view" and dev_size and blk and old +
  fixes cap :: nat
  assumes old_not_null: "old \<noteq> H_NULL" and ram_cap: "0 < cap" "cap < 2147483648"

sublocale ram_patch \<subseteq> swap_store io view dev_size blk old "g_qbt_swap_ops_ram io" H_NULL cap
  "ram_ready cap" "ram_ok cap" ram_buffered
proof (unfold_locales, goal_cases)
  case 1 show ?case using old_not_null by simp
next
  case 2 show ?case by (rule ram_cap(1))
next
  case 3 show ?case by (rule ram_cap(2))
next
  case (4 x) then show ?case by (simp add: ram_ok_def ram_buffered_def)
next
  case (5 x y) then show ?case by (simp add: ram_ok_def ram_buffered_def swap_fields_def)
next
  case (6 x) then show ?case
    by (simp add: g_qbt_swap_ops_ram_def qbt_ram_swap_init_def ram_ready_def ram_ok_def ram_buffered_def job_def)
next
  case (7 x bs)
  let ?w = "unat (write_pos x)"
  have l: "length (ram_buf x) = cap" "?w \<le> cap" using 7(1) by (simp_all add: ram_ok_def)
  with 7(2) have fit: "?w + length bs \<le> cap" by (simp add: ram_buffered_def)
  have n: "unat (of_nat (length bs) :: u32) = length bs" using fit ram_cap(2) by (intro u32_of_nat) simp
  have w: "unat (write_pos x + of_nat (length bs)) = ?w + length bs"
    using fit ram_cap(2) n u32_add [of "write_pos x" "of_nat (length bs)"] by simp
  show ?case
    using 7(1) fit l w take_overwrite_end [of ?w "ram_buf x" bs]
    by (simp add: g_qbt_swap_ops_ram_def qbt_ram_swap_append_def ram_ok_def ram_buffered_def job_def)
next
  case (8 x)
  let ?w = "unat (write_pos x)"
  have l: "length (ram_buf x) = cap" "?w \<le> cap" using 8(1) by (simp_all add: ram_ok_def)
  then have b: "length (ram_buffered x) = ?w" by (simp add: ram_buffered_def)
  note o = 8(3)
  have small: "length (ram_buffered x) < 4294967296" using b l ram_cap(2) by simp
  have fit: "unat (committed_len x) + length (ram_buffered x) \<le> dev_size old" by (rule 8(4))
  obtain s where w: "io_write io old (committed_len x) (ram_buffered x) (hp_dev x) = (RT_EOK, s)"
    using write_total [OF o small fit] by blast
  have r: "qbt_ram_copy_to_old io (write_pos x) x = Some (True, x\<lparr>hp_dev := s\<rparr>)"
    using w l 8(2) by (simp add: qbt_ram_copy_to_old_def ram_buffered_def)
  show ?case
    using r 8(1,2) write_cells [OF o w small 8(5)] write_open [OF o w small] write_other [OF o w small]
      write_outside [OF o w small]
    by (intro exI [of _ "x\<lparr>hp_dev := s\<rparr>"]) (simp add: g_qbt_swap_ops_ram_def ram_ok_def job_def)
next
  case (9 x) then show ?case
    by (simp add: g_qbt_swap_ops_ram_def qbt_ram_swap_reset_def ram_ok_def ram_buffered_def job_def)
next
  case (10 x) then show ?case by (simp add: g_qbt_swap_ops_ram_def qbt_ram_swap_deinit_def)
qed

section \<open>The storage swap\<close>

definition area_ready :: "'s hpatchi \<Rightarrow> bool" where
  "area_ready x \<longleftrightarrow> 0 < unat (ram_buf_size x) \<and> unat (ram_buf_size x) < 2147483648 \<and>
     length (ram_buf x) = unat (ram_buf_size x)"

definition area_ok ::
  "('s \<Rightarrow> handle \<Rightarrow> dev_view) \<Rightarrow> handle \<Rightarrow> nat \<Rightarrow> nat \<Rightarrow> 's hpatchi \<Rightarrow> bool" where
  "area_ok view sw off cap x \<longleftrightarrow> area_ready x \<and> sw_part x = sw \<and> v_open (view (hp_dev x) sw) \<and>
     unat (capacity x) = cap \<and> unat (sw_part_size x) = cap \<and> unat (write_pos x) \<le> cap \<and>
     ready_range (view (hp_dev x) sw) (off + unat (write_pos x)) (cap - unat (write_pos x))"

definition area_buffered :: "('s \<Rightarrow> handle \<Rightarrow> dev_view) \<Rightarrow> handle \<Rightarrow> nat \<Rightarrow> 's hpatchi \<Rightarrow> byte list" where
  "area_buffered view sw off x = cells (v_cell (view (hp_dev x) sw)) off (unat (write_pos x))"

text \<open>The swap target can be opened, and opening and closing it does not disturb the others.\<close>

locale storage_patch = patch_device io view dev_size blk old
  for io :: "'s qboot_io_ops" and view :: "'s \<Rightarrow> handle \<Rightarrow> dev_view" and dev_size and blk and old +
  fixes c :: qboot_cfg and H :: hp_build and sw :: handle
  assumes sw_compiled: "has_swap c" and sw_apart: "sw \<noteq> old"
    and sw_opens: "\<exists>s'. io_open io QBOOT_TARGET_SWAP fl s = (Inr sw, s') \<and> v_open (view s' sw) \<and>
      (\<forall>h. h \<noteq> sw \<longrightarrow> view s' h = view s h)"
    and sw_size: "v_open (view s sw) \<Longrightarrow> \<exists>n s'. io_size io sw s = (Inr n, s') \<and> unat n = dev_size sw"
    and sw_closes: "h \<noteq> sw \<Longrightarrow> view (snd (io_close io sw s)) h = view s h"
    and sw_offset: "unat (hp_swap_offset H) < dev_size sw" and sw_small: "dev_size sw < 2147483648"
begin

abbreviation "area_off \<equiv> unat (hp_swap_offset H)"
abbreviation "area \<equiv> dev_size sw - area_off"

lemma swap_id: "qbt_name_to_id c (str_bytes QBOOT_HPATCH_SWAP_PART_NAME @ [0]) = QBOOT_TARGET_SWAP"
  using sw_compiled by (simp add: qbt_name_to_id_def target_list_def rt_streq_def)

lemma flash_init_ok:
  assumes r: "area_ready x"
  obtains s a where "qbt_flash_swap_init c H io x =
      (True, x\<lparr>hp_dev := s, sw_part := sw, sw_part_size := a, capacity := a, write_pos := 0\<rparr>)"
    "unat a = area" "v_open (view s sw)" "ready_range (view s sw) area_off area"
    "\<And>h. h \<noteq> sw \<Longrightarrow> view s h = view (hp_dev x) h"
proof -
  let ?fl = "QBT_OPEN_WRITE OR QBT_OPEN_CREATE"
  obtain s1 where o: "io_open io QBOOT_TARGET_SWAP ?fl (hp_dev x) = (Inr sw, s1)" "v_open (view s1 sw)"
    "\<forall>h. h \<noteq> sw \<longrightarrow> view s1 h = view (hp_dev x) h"
    using sw_opens by blast
  obtain n s2 where z: "io_size io sw s1 = (Inr n, s2)" "unat n = dev_size sw" using sw_size [OF o(2)] by blast
  have v2: "view s2 = view s1" by (rule size_view [OF o(2) z(1)])
  have lt: "\<not> hp_swap_offset H \<ge> n" using sw_offset z(2) by (simp add: u32_cmp)
  let ?a = "n - hp_swap_offset H"
  have a: "unat ?a = area" using sw_offset z(2) by (simp add: u32_sub)
  have o2: "v_open (view s2 sw)" using o(2) v2 by simp
  have fit: "area_off + unat ?a \<le> dev_size sw" using a sw_offset by simp
  obtain s3 where e: "io_erase io sw (hp_swap_offset H) ?a s2 = (RT_EOK, s3)" using erase_total [OF o2 fit] by blast
  have "qbt_flash_swap_init c H io x =
      (True, x\<lparr>hp_dev := s3, sw_part := sw, sw_part_size := ?a, capacity := ?a, write_pos := 0\<rparr>)"
    using o(1) z(1) lt e
    by (simp only: qbt_flash_swap_init_def swap_id Let_def qbt_target_open_def prod.case sum.case if_True if_False
        target_ge_count qbt_target_id.distinct simp_thms qbt_erase_with_feed_eq) simp
  moreover note a
  moreover have "v_open (view s3 sw)" by (rule erase_open [OF o2 e])
  moreover have "ready_range (view s3 sw) area_off area" using erase_ready [OF o2 e] a by simp
  moreover have "view s3 h = view (hp_dev x) h" if "h \<noteq> sw" for h
    using erase_other [OF o2 e that] v2 o(3) that by simp
  ultimately show thesis by (rule that)
qed

text \<open>The copy loop after \<open>k\<close> bytes.\<close>

definition copied :: "'s hpatchi \<Rightarrow> nat \<Rightarrow> 's hpatchi \<Rightarrow> bool" where
  "copied x k z \<longleftrightarrow> (\<exists>s b. z = x\<lparr>hp_dev := s, ram_buf := b\<rparr> \<and> length b = length (ram_buf x) \<and>
     view s sw = view (hp_dev x) sw \<and> v_open (view s old) \<and>
     v_cell (view s old) = splice (unat (committed_len x))
       (take k (area_buffered view sw area_off x)) (v_cell (view (hp_dev x) old)) \<and>
     (\<forall>i. v_ready (view (hp_dev x) old) i \<longrightarrow> i < unat (committed_len x) \<or> unat (committed_len x) + k \<le> i \<longrightarrow>
        v_ready (view s old) i) \<and>
     (\<forall>h. h \<noteq> sw \<and> h \<noteq> old \<longrightarrow> view s h = view (hp_dev x) h))"

lemma copy_step:
  fixes x :: "'s hpatchi"
  defines "B \<equiv> area_buffered view sw area_off x" and "C \<equiv> unat (committed_len x)"
  assumes ok: "area_ok view sw area_off area x" and old: "old_part x = old" and fit: "C + length B \<le> dev_size old"
    and rdy: "ready_range (view (hp_dev x) old) C (length B)"
    and z: "copied x k z" and k: "k < length B"
    and y: "copy_st y = z" "unat (remaining_len y) = length B - k" "unat (current_src y) = area_off + k"
      "unat (current_dst y) = C + k"
  shows "\<exists>n y' z'. flash_copy_body io y = Some (Again y') \<and> 0 < n \<and> k + n \<le> length B \<and> copied x (k + n) z' \<and>
    copy_st y' = z' \<and> unat (remaining_len y') = length B - (k + n) \<and>
    unat (current_src y') = area_off + (k + n) \<and> unat (current_dst y') = C + (k + n)"
proof -
  obtain s b where s: "z = x\<lparr>hp_dev := s, ram_buf := b\<rparr>" "length b = length (ram_buf x)"
    "view s sw = view (hp_dev x) sw" "v_open (view s old)"
    "v_cell (view s old) = splice C (take k B) (v_cell (view (hp_dev x) old))"
    "\<forall>i. v_ready (view (hp_dev x) old) i \<longrightarrow> i < C \<or> C + k \<le> i \<longrightarrow> v_ready (view s old) i"
    "\<forall>h. h \<noteq> sw \<and> h \<noteq> old \<longrightarrow> view s h = view (hp_dev x) h"
    using z unfolding copied_def B_def C_def by blast
  have rb: "area_ready x" and sp: "sw_part x = sw" and so: "v_open (view s sw)"
    and wp: "unat (write_pos x) \<le> area"
    using ok s(3) by (simp_all add: area_ok_def)
  have lB: "length B = unat (write_pos x)" by (simp add: B_def area_buffered_def)
  define m where "m = (if sint (remaining_len y) > sint (ram_buf_size x) then ram_buf_size x else remaining_len y)"
  have bnd: "length B - k < 2147483648" using lB wp sw_small by linarith
  then have sr: "sint (remaining_len y) = int (length B - k)" by (metis sint_small y(2))
  have sb: "sint (ram_buf_size x) = int (unat (ram_buf_size x))" using rb by (intro sint_small) (simp add: area_ready_def)
  define n where "n = unat m"
  have n: "n = min (length B - k) (unat (ram_buf_size x))"
    unfolding n_def m_def sr sb of_nat_less_iff min_def using y(2) by (simp split: if_split)
  have n1: "0 < n" "k + n \<le> length B" "n \<le> length b"
    using n k rb s(2) by (auto simp: area_ready_def)
  have f1: "unat (current_src y) + unat m \<le> dev_size sw"
    using n1(2) y(3) lB wp sw_offset unfolding n_def by linarith
  obtain s1 where rd: "io_read io sw (current_src y) m s =
      (Inr (cells (v_cell (view s sw)) (unat (current_src y)) (unat m)), s1)" "view s1 = view s"
    by (rule read_exact [OF so f1])
  define bs where "bs = cells (v_cell (view s sw)) (unat (current_src y)) (unat m)"
  have bs: "bs = take n (drop k B)" "length bs = n"
    unfolding bs_def B_def area_buffered_def s(3) y(3) n_def [symmetric]
    using n1 lB by (simp_all add: cells_simps)
  let ?b = "overwrite 0 bs b"
  have tk: "take (unat m) ?b = bs" using bs(2) by (simp add: take_overwrite_0 n_def)
  have o1: "v_open (view s1 old)" using s(4) rd(2) by simp
  have small: "length bs < 4294967296" using bs(2) n bnd by linarith
  have f2: "unat (current_dst y) + length bs \<le> dev_size old" using y(4) fit bs(2) n1 by linarith
  obtain s2 where wr: "io_write io old (current_dst y) bs s1 = (RT_EOK, s2)" using write_total [OF o1 small f2] by blast
  have rr: "ready_range (view s1 old) (unat (current_dst y)) (length bs)"
    using s(6) rdy n1 bs(2) y(4) rd(2) by (auto simp: ready_range_def)
  let ?y = "\<lparr>remaining_len = remaining_len y - m, current_src = current_src y + m,
    current_dst = current_dst y + m, copy_st = z\<lparr>hp_dev := s2, ram_buf := ?b\<rparr>\<rparr>"
  have pos: "0 < sint (remaining_len y)" using sr k by simp
  have body: "flash_copy_body io y = Some (Again ?y)"
  proof -
    have "\<not> length bs > length b" using bs(2) n1 by simp
    moreover have e1: "hp_dev z = s" "sw_part z = sw" "ram_buf z = b" "ram_buf_size z = ram_buf_size x" "old_part z = old"
      using s(1) sp old by simp_all
    ultimately show ?thesis
      unfolding flash_copy_body_def Let_def y(1) e1 m_def [symmetric] using pos rd(1) [folded bs_def] wr tk by (simp add: e1(5))
  qed
  have v2: "view s2 sw = view s sw" "\<And>h. h \<noteq> old \<Longrightarrow> view s2 h = view s h"
    using write_other [OF o1 wr small] rd(2) sw_apart by simp_all
  have cell: "v_cell (view s2 old) = splice C (take (k + n) B) (v_cell (view (hp_dev x) old))"
  proof -
    have "v_cell (view s2 old) = splice (C + length (take k B)) bs (v_cell (view s old))"
      using write_cells [OF o1 wr small rr] rd(2) y(4) k by simp
    also have "\<dots> = splice C (take k B @ bs) (v_cell (view (hp_dev x) old))"
      unfolding s(5) by (rule splice_append)
    finally show ?thesis by (simp only: bs(1) take_add)
  qed
  have keep: "v_ready (view s2 old) i" if "v_ready (view (hp_dev x) old) i" "i < C \<or> C + (k + n) \<le> i" for i
    using write_outside [OF o1 wr small, of i] s(6) that rd(2) y(4) bs(2) by auto
  have "copied x (k + n) (z\<lparr>hp_dev := s2, ram_buf := ?b\<rparr>)"
    unfolding copied_def B_def [symmetric] C_def [symmetric]
    using s(1-3,7) v2 write_open [OF o1 wr small] cell keep bs(2) n1(3)
    by (intro exI [of _ s2] exI [of _ ?b]) simp
  moreover have "unat (remaining_len y - m) = length B - (k + n)"
    using y(2) n1(2) n_def by (subst u32_sub) auto
  moreover have "unat (current_src y + m) = area_off + (k + n)"
    using y(3) f1 sw_small n_def by (subst u32_add) auto
  moreover have "unat (current_dst y + m) = C + (k + n)"
    using y(4) f2 bs(2) old_small n_def by (subst u32_add) auto
  ultimately show ?thesis using body n1(1,2)
    by (intro exI [of _ n] exI [of _ ?y] exI [of _ "z\<lparr>hp_dev := s2, ram_buf := ?b\<rparr>"]) simp
qed

lemma copy_loop:
  fixes x :: "'s hpatchi"
  assumes ok: "area_ok view sw area_off area x" and old: "old_part x = old" "v_open (view (hp_dev x) old)"
    and fit: "unat (committed_len x) + length (area_buffered view sw area_off x) \<le> dev_size old"
    and rdy: "ready_range (view (hp_dev x) old) (unat (committed_len x)) (length (area_buffered view sw area_off x))"
  shows "\<exists>z. qbt_flash_copy_to_old H io (write_pos x) x = Some (True, z) \<and>
    copied x (length (area_buffered view sw area_off x)) z"
proof -
  let ?B = "area_buffered view sw area_off x" and ?C = "unat (committed_len x)"
  define I where "I y \<longleftrightarrow> (\<exists>k \<le> length ?B. copied x k (copy_st y) \<and> unat (remaining_len y) = length ?B - k \<and>
    unat (current_src y) = area_off + k \<and> unat (current_dst y) = ?C + k)" for y :: "'s copy_loc"
  define Q where "Q r \<longleftrightarrow> fst r \<and> copied x (length ?B) (snd r)" for r :: "bool \<times> 's hpatchi"
  have lB: "length ?B = unat (write_pos x)" by (simp add: area_buffered_def)
  have "\<exists>r. run_loop (flash_copy_body io) \<lparr>remaining_len = write_pos x, current_src = hp_swap_offset H,
      current_dst = committed_len x, copy_st = x\<rparr> = Some r \<and> Q r"
  proof (rule run_loop_total [where I = I and m = "\<lambda>y. unat (remaining_len y)"])
    have "copied x 0 x" unfolding copied_def using old(2) by (intro exI [of _ "hp_dev x"] exI [of _ "ram_buf x"]) simp
    then show "I \<lparr>remaining_len = write_pos x, current_src = hp_swap_offset H, current_dst = committed_len x, copy_st = x\<rparr>"
      unfolding I_def using lB by (intro exI [of _ 0]) simp
  next
    fix y assume "I y"
    then obtain k where k: "k \<le> length ?B" "copied x k (copy_st y)" "unat (remaining_len y) = length ?B - k"
      "unat (current_src y) = area_off + k" "unat (current_dst y) = ?C + k"
      by (auto simp: I_def)
    show "(\<exists>r. flash_copy_body io y = Some (Stop r) \<and> Q r) \<or>
      (\<exists>y'. flash_copy_body io y = Some (Again y') \<and> I y' \<and> unat (remaining_len y') < unat (remaining_len y))"
    proof (cases "k = length ?B")
      case True
      then have "remaining_len y = 0" using k(3) by (simp add: unat_eq_zero)
      then have "flash_copy_body io y = Some (Stop (True, copy_st y))" by (simp add: flash_copy_body_def Let_def)
      with True k(2) show ?thesis by (simp add: Q_def)
    next
      case False
      then have lt: "k < length ?B" using k(1) by simp
      obtain n y' where n: "flash_copy_body io y = Some (Again y')" "0 < n" "k + n \<le> length ?B"
        "copied x (k + n) (copy_st y')" "unat (remaining_len y') = length ?B - (k + n)"
        "unat (current_src y') = area_off + (k + n)" "unat (current_dst y') = ?C + (k + n)"
        using copy_step [OF ok old(1) fit rdy k(2) lt refl k(3-5)] by blast
      have "I y'" unfolding I_def using n by blast
      moreover have "unat (remaining_len y') < unat (remaining_len y)" using n(2,3,5) k(3) by linarith
      ultimately show ?thesis using n(1) by blast
    qed
  qed
  then show ?thesis by (auto simp: Q_def qbt_flash_copy_to_old_def)
qed

end

sublocale storage_patch \<subseteq> swap_store io view dev_size blk old "g_qbt_swap_ops_flash c H io" sw area
  area_ready "area_ok view sw area_off area" "area_buffered view sw area_off"
proof (unfold_locales, goal_cases)
  case 1 show ?case by (rule sw_apart)
next
  case 2 show ?case using sw_offset by simp
next
  case 3 show ?case using sw_small by simp
next
  case (4 x) then show ?case by (simp add: area_ok_def area_buffered_def)
next
  case (5 x y) then show ?case by (simp add: area_ok_def area_ready_def area_buffered_def swap_fields_def)
next
  case (6 x)
  obtain s a where i: "qbt_flash_swap_init c H io x =
      (True, x\<lparr>hp_dev := s, sw_part := sw, sw_part_size := a, capacity := a, write_pos := 0\<rparr>)"
    "unat a = area" "v_open (view s sw)" "ready_range (view s sw) area_off area"
    "\<And>h. h \<noteq> sw \<Longrightarrow> view s h = view (hp_dev x) h"
    by (rule flash_init_ok [OF 6]) (rule that)
  have "area_ok view sw area_off area (x\<lparr>hp_dev := s, sw_part := sw, sw_part_size := a, capacity := a, write_pos := 0\<rparr>)"
    using i(2-4) 6 by (simp add: area_ok_def area_ready_def)
  with i(1,5) show ?case
    by (intro exI [of _ "x\<lparr>hp_dev := s, sw_part := sw, sw_part_size := a, capacity := a, write_pos := 0\<rparr>"])
      (simp add: g_qbt_swap_ops_flash_def area_buffered_def job_def)
next
  case (7 x bs)
  let ?w = "unat (write_pos x)"
  have ok: "area_ready x" "sw_part x = sw" and o: "v_open (view (hp_dev x) sw)" and w: "?w \<le> area"
    and r: "ready_range (view (hp_dev x) sw) (area_off + ?w) (area - ?w)"
    using 7(1) by (simp_all add: area_ok_def)
  have fit: "?w + length bs \<le> area" using 7(2) by (simp add: area_buffered_def)
  have small: "length bs < 4294967296" using fit sw_small by linarith
  have n: "unat (of_nat (length bs) :: u32) = length bs" by (rule u32_of_nat [OF small])
  have at: "unat (hp_swap_offset H + write_pos x) = area_off + ?w"
    using fit sw_small sw_offset by (subst u32_add) linarith+
  have np: "unat (write_pos x + of_nat (length bs)) = ?w + length bs"
    using fit sw_small n by (subst u32_add) linarith+
  have f: "unat (hp_swap_offset H + write_pos x) + length bs \<le> dev_size sw" using at fit sw_offset by linarith
  obtain s where wr: "io_write io sw (hp_swap_offset H + write_pos x) bs (hp_dev x) = (RT_EOK, s)"
    using write_total [OF o small f] by blast
  have rr: "ready_range (view (hp_dev x) sw) (unat (hp_swap_offset H + write_pos x)) (length bs)"
    by (rule ready_range_sub [OF r]) (use at fit in auto)
  have cell: "v_cell (view s sw) = splice (area_off + ?w) bs (v_cell (view (hp_dev x) sw))"
    using write_cells [OF o wr small rr] at by simp
  let ?x = "x\<lparr>hp_dev := s, write_pos := write_pos x + of_nat (length bs)\<rparr>"
  have "cells (v_cell (view s sw)) area_off (?w + length bs) = cells (v_cell (view (hp_dev x) sw)) area_off ?w @ bs"
    unfolding cell by (simp add: cells_add cells_splice_disjoint cells_splice_same)
  then have b: "area_buffered view sw area_off ?x = area_buffered view sw area_off x @ bs"
    by (simp add: area_buffered_def np)
  have "ready_range (view (hp_dev x) sw) (area_off + (?w + length bs)) (area - (?w + length bs))"
    by (rule ready_range_sub [OF r]) (use fit in auto)
  then have "ready_range (view s sw) (area_off + (?w + length bs)) (area - (?w + length bs))"
    by (rule write_keeps_ready [OF o wr small]) (use at in simp)
  then have "area_ok view sw area_off area ?x"
    using 7(1) fit write_open [OF o wr small] by (simp add: area_ok_def area_ready_def np)
  with b wr ok(2) write_other [OF o wr small] show ?case
    by (intro exI [of _ ?x]) (simp add: g_qbt_swap_ops_flash_def qbt_flash_swap_append_def Let_def job_def)
next
  case (8 x)
  obtain z where z: "qbt_flash_copy_to_old H io (write_pos x) x = Some (True, z)"
    "copied x (length (area_buffered view sw area_off x)) z"
    using copy_loop [OF 8] by blast
  then obtain s b where s: "z = x\<lparr>hp_dev := s, ram_buf := b\<rparr>" "length b = length (ram_buf x)"
    "view s sw = view (hp_dev x) sw" "v_open (view s old)"
    "v_cell (view s old) = splice (unat (committed_len x)) (area_buffered view sw area_off x) (v_cell (view (hp_dev x) old))"
    "\<forall>i. v_ready (view (hp_dev x) old) i \<longrightarrow> i < unat (committed_len x) \<or>
        unat (committed_len x) + length (area_buffered view sw area_off x) \<le> i \<longrightarrow> v_ready (view s old) i"
    "\<forall>h. h \<noteq> sw \<and> h \<noteq> old \<longrightarrow> view s h = view (hp_dev x) h"
    unfolding copied_def by auto
  have "area_ok view sw area_off area z" using 8(1) s(1-3) by (simp add: area_ok_def area_ready_def)
  with z(1) s show ?case by (intro exI [of _ z]) (simp add: g_qbt_swap_ops_flash_def job_def)
next
  case (9 x)
  have ok: "area_ready x" "sw_part x = sw" and o: "v_open (view (hp_dev x) sw)" and a: "unat (sw_part_size x) = area"
    using 9 by (simp_all add: area_ok_def)
  have f: "area_off + unat (sw_part_size x) \<le> dev_size sw" using a sw_offset by simp
  obtain s where e: "io_erase io sw (hp_swap_offset H) (sw_part_size x) (hp_dev x) = (RT_EOK, s)"
    using erase_total [OF o f] by blast
  have "area_ok view sw area_off area (x\<lparr>hp_dev := s, write_pos := 0\<rparr>)"
    using 9 erase_open [OF o e] erase_ready [OF o e] a by (simp add: area_ok_def area_ready_def)
  with e ok(2) erase_other [OF o e] show ?case
    by (intro exI [of _ "x\<lparr>hp_dev := s, write_pos := 0\<rparr>"])
      (simp add: g_qbt_swap_ops_flash_def qbt_flash_swap_reset_def area_buffered_def job_def)
next
  case (10 x)
  then have "sw_part x = sw" by (simp add: area_ok_def)
  then show ?case
    using sw_closes by (simp add: g_qbt_swap_ops_flash_def qbt_flash_swap_deinit_def qbt_target_close_def job_def)
qed

section \<open>Patching the reference flash\<close>

abbreviation "H_swap \<equiv> H_desc QBOOT_TARGET_SWAP"

lemma nor_swap_view: "v_open (custom_view nor_cfg nor_stores (\<lambda>s. s) s H_swap)"
  "custom_dev_size nor_cfg nor_stores H_swap = 8192"
  using nor_region [of H_swap 24576 8192]
  by (simp_all add: custom_view_def custom_dev_size_def)

lemma nor_desc_of: "i \<noteq> QBOOT_TARGET_COUNT \<Longrightarrow>
  \<exists>d. desc_of nor_cfg nor_stores (H_desc i) = Some d \<and> d_id d = i \<and> flash_len d = 8192 \<and> backend d = BACKEND_CUSTOM"
  by (cases i) (auto simp: qbt_target_desc_def g_descs_def target_list_def has_swap_def nor_cfg_def nor_stores_def)

interpretation nor_patch: patch_device "g_qboot_io_custom nor_cfg nor_stores (nor_hooks 512)"
  "custom_view nor_cfg nor_stores (\<lambda>s. s)" "custom_dev_size nor_cfg nor_stores" 512 H_app
proof (rule patch_device.intro)
  show "reliable_storage (g_qboot_io_custom nor_cfg nor_stores (nor_hooks 512)) (custom_view nor_cfg nor_stores (\<lambda>s. s))
    (custom_dev_size nor_cfg nor_stores)"
    by (rule nor.reliable_storage_axioms)
  show "block_storage (g_qboot_io_custom nor_cfg nor_stores (nor_hooks 512)) (custom_view nor_cfg nor_stores (\<lambda>s. s)) 512"
    using nor.block_storage_axioms by simp
  show "patch_device_axioms (g_qboot_io_custom nor_cfg nor_stores (nor_hooks 512)) (custom_view nor_cfg nor_stores (\<lambda>s. s))
    (custom_dev_size nor_cfg nor_stores) 512 H_app"
  proof (unfold_locales, goal_cases)
    case (3 s) then show ?case
      using nor_desc_of [of QBOOT_TARGET_APP] by (auto simp: custom_ops_defs)
  next
    case (4 s) show ?case
      by (auto simp: custom_ops_defs nor_cfg_def pow2_def intro!: exI [of _ 9])
  qed simp_all
qed

definition demo_build :: hp_build where
  "demo_build = \<lparr>hp_swap_offset = 16, hp_copy_size = 32, hp_ram_size = 32, hp_swap_file_size = None,
     hp_malloc = Some (replicate 32 0)\<rparr>"

interpretation nor_ram: ram_patch "g_qboot_io_custom nor_cfg nor_stores (nor_hooks 512)"
  "custom_view nor_cfg nor_stores (\<lambda>s. s)" "custom_dev_size nor_cfg nor_stores" 512 H_app 32
  by unfold_locales simp_all

interpretation nor_swap: storage_patch "g_qboot_io_custom nor_cfg nor_stores (nor_hooks 512)"
  "custom_view nor_cfg nor_stores (\<lambda>s. s)" "custom_dev_size nor_cfg nor_stores" 512 H_app nor_cfg demo_build H_swap
proof (unfold_locales, goal_cases)
  case 1 show ?case by (simp add: has_swap_def nor_cfg_def)
next
  case (3 fl s) show ?case
    using nor_desc_of [of QBOOT_TARGET_SWAP] nor_swap_view by (auto simp: custom_ops_defs qbt_custom_find_desc_def)
next
  case (4 s) show ?case using nor_desc_of [of QBOOT_TARGET_SWAP] nor_swap_view by (auto simp: custom_ops_defs)
qed (simp_all add: nor_swap_view demo_build_def custom_ops_defs)

end
