(* ===== verification/Qboot_Upgrade.thy ===== *)
theory Qboot_Upgrade
  imports Qboot_Swap
begin

text \<open>
  An update from a patch package: the release of \<open>src/qboot.c\<close> hands the package to the in-place
  patch, writes the header behind the new image and verifies it. A demonstration library
  patches the reference flash.
\<close>

section \<open>A patch package\<close>

definition patch_ctx :: "qboot_cfg \<Rightarrow> 'a qbt_algo_context_t" where
  "patch_ctx c = \<lparr>crypt_ops = Some (qbt_algo_none_crypt_ops c), cmprs_ops = Some qbt_algo_hpatchlite_cmprs_ops\<rparr>"

definition patch_fw :: "fw_info_t \<Rightarrow> bool" where
  "patch_fw fw \<longleftrightarrow> algo fw AND QBOOT_ALGO_CRYPT_MASK = QBOOT_ALGO_CRYPT_NONE \<and>
     algo fw AND QBOOT_ALGO_CMPRS_MASK = QBOOT_ALGO_CMPRS_HPATCHLITE"

lemma startup_patch:
  assumes "qbot_algo_startup c L algo_tables_0 = (RT_EOK, t)" and "patch_fw fw" and "using_hpatchlite c"
  shows "qbt_fw_get_algo_context t fw = (True, patch_ctx c)"
  using assms
  by (auto simp: startup_tables patch_fw_def qbt_fw_get_algo_context_def qboot_find_crypto_def
      qboot_find_cmprs_def qboot_cmprs_id_to_index_def qboot_crypto_id_to_index_def algo_id_defs
      patch_ctx_def)

lemma patch_alg [simp]:
  "alg_init (patch_ctx c) w = (True, w)" "alg_deinit (patch_ctx c) w = w"
  "map_option cmprs_id (cmprs_ops (patch_ctx c)) = Some QBOOT_ALGO_CMPRS_HPATCHLITE"
  by (simp_all add: alg_init_def alg_deinit_def qbt_fw_algo_init_def qbt_fw_algo_deinit_def
      crypt_deinit_of_def call_opt_def patch_ctx_def qbt_algo_none_crypt_ops_def
      qbt_algo_hpatchlite_cmprs_ops_def)

context boot_base
begin

text \<open>
  When the patch leaves the new image at the front of the destination and the tail erased, the
  update writes the header there and succeeds exactly when the image is the one the header
  describes.
\<close>

lemma update_patch:
  assumes fw: "fw = g_fw_info b" and p: "patch_fw fw" "using_hpatchlite cf" and wff: "wf_fw_info fw"
    and r: "room_for dev_size dst n fw" and small: "unat (raw_size fw) < 2147483648"
    and wf: "wf_mem cf (w_mem (b_world b))"
    and hp: "e_hpatch E src dst (pkg_size fw) (raw_size fw) (qboot_src_read_pos cf) (b_world b) = Some (1, w1)"
    and w1: "w_mem w1 = w_mem (b_world b)" "cells (v_cell (view (w_dev w1) dst)) 0 (unat (raw_size fw)) = N"
      "v_open (view (w_dev w1) dst)" "ready_range (view (w_dev w1) dst) (unat n - 96) 96"
  obtains b' where
    "qbt_fw_update E dst n src b = Some (qbt_fw_info_check E fw \<and>
       (algo2 fw AND QBOOT_ALGO2_VERIFY_MASK = QBOOT_ALGO2_VERIFY_CRC \<longrightarrow> cal N = raw_crc fw), b')"
    "installed view (w_dev (b_world b')) dst n fw N"
    "\<And>h. h \<noteq> dst \<Longrightarrow> view (w_dev (b_world b')) h = view (w_dev w1) h"
proof -
  have len: "96 \<le> unat n" "unat n \<le> dev_size dst" "unat (raw_size fw) \<le> unat n - 96"
    using r unfolding room_for_def by linarith+
  obtain w2 where h: "info_write_w cf io dst n fw True w1 = (True, w2)"
    "v_cell (view (w_dev w2) dst) = splice (unat n - 96) (bytes_of_fw_info fw) (v_cell (view (w_dev w1) dst))"
    "v_open (view (w_dev w2) dst)" "\<And>h'. h' \<noteq> dst \<Longrightarrow> view (w_dev w2) h' = view (w_dev w1) h'"
    "w_mem w2 = w_mem w1"
    by (rule info_write_tail [OF w1(3) len(1,2) wff w1(4)]) (rule that)
  have lh: "length (bytes_of_fw_info fw) = 96" using wff by (simp add: sizeof_fw_info_def)
  have "cells (v_cell (view (w_dev w2) dst)) (unat n - 96) 96 = bytes_of_fw_info fw"
    using cells_splice_same [of "unat n - 96" "bytes_of_fw_info fw"] by (simp add: h(2) lh)
  moreover have "cells (v_cell (view (w_dev w2) dst)) 0 (unat (raw_size fw)) = N"
    using cells_splice_disjoint [of "unat n - 96" "bytes_of_fw_info fw" 0 "unat (raw_size fw)"] len w1(2)
    by (simp add: h(2))
  ultimately have inst: "installed view (w_dev w2) dst n fw N" by (simp add: installed_def)
  obtain L where "qbot_algo_startup cf L algo_tables_0 = (RT_EOK, e_tables E)" using startup by blast
  note ctx = startup_patch [OF this p]
  have rel: "qbt_fw_release E dst n src fw (b_world b) = Some (True, w2)"
    unfolding qbt_fw_release_def ctx using p(2) hp h(1) by (simp add: env_io del: map_option_eq_Some)
  let ?b1 = "b\<lparr>b_world := w2\<rparr>"
  have pre: "installed view (w_dev (b_world ?b1)) dst n fw N" "v_open (view (w_dev (b_world ?b1)) dst)"
    "wf_fw_info (g_fw_info ?b1)" "wf_mem cf (w_mem (b_world ?b1))"
    using inst h(3,5) wff fw wf w1(1) by simp_all
  obtain b2 where v: "qbt_dest_part_verify E dst n ?b1 = Some (qbt_fw_info_check E fw \<and>
       (algo2 fw AND QBOOT_ALGO2_VERIFY_MASK = QBOOT_ALGO2_VERIFY_CRC \<longrightarrow> cal N = raw_crc fw), b2)"
    "view (w_dev (b_world b2)) = view (w_dev (b_world ?b1))"
    by (rule verify_exact [OF pre(1,2) r wff pre(3) small pre(4)]) (rule that)
  let ?ok = "qbt_fw_info_check E fw \<and>
       (algo2 fw AND QBOOT_ALGO2_VERIFY_MASK = QBOOT_ALGO2_VERIFY_CRC \<longrightarrow> cal N = raw_crc fw)"
  have "qbt_fw_update E dst n src b = Some (?ok, b2)"
    using rel v(1) fw unfolding qbt_fw_update_def by (cases ?ok) auto
  then show ?thesis by (rule that) (use v(2) inst h(4) in \<open>auto simp: installed_def\<close>)
qed

end

section \<open>The whole update\<close>

text \<open>
  What the bootloader needs of a patch package: header and body in the source, a run of the
  library that produces the image the header announces, and room for the header behind the
  last block of the image.
\<close>

definition patch_job ::
  "('s \<Rightarrow> handle \<Rightarrow> dev_view) \<Rightarrow> (handle \<Rightarrow> nat) \<Rightarrow> hpi_lib \<Rightarrow> nat \<Rightarrow> nat \<Rightarrow> 's \<Rightarrow> handle \<Rightarrow> handle \<Rightarrow> u32 \<Rightarrow>
   fw_info_t \<Rightarrow> byte list \<Rightarrow> bool" where
  "patch_job view dev_size L blk cap s src dst n fw N \<longleftrightarrow>
     patch_fw fw \<and> wf_fw_info fw \<and> fits dev_size src fw \<and>
     unat (raw_size fw) = length N \<and> 0 < length N \<and> blk_up blk (length N) + 96 \<le> unat n \<and> unat n \<le> dev_size dst \<and>
     patch_run L (body_of view s src fw) (v_cell (view s dst)) (dev_size dst) blk cap [] 0 [] N"

definition swap_area :: "(handle \<Rightarrow> nat) \<Rightarrow> hp_build \<Rightarrow> handle \<Rightarrow> nat" where
  "swap_area dev_size H sw = dev_size sw - unat (hp_swap_offset H)"

definition storage_build_ok :: "hp_build \<Rightarrow> nat \<Rightarrow> bool" where
  "storage_build_ok H blk \<longleftrightarrow> (case hp_swap_file_size H of None \<Rightarrow> True | Some m \<Rightarrow> int blk \<le> sint m) \<and>
     0 < unat (hp_copy_size H) \<and> unat (hp_copy_size H) < 2147483648 \<and>
     (case hp_malloc H of None \<Rightarrow> False | Some b \<Rightarrow> length b = unat (hp_copy_size H))"

definition ram_build_ok :: "hp_build \<Rightarrow> nat \<Rightarrow> nat \<Rightarrow> bool" where
  "ram_build_ok H blk cap \<longleftrightarrow> (case hp_swap_file_size H of None \<Rightarrow> True | Some m \<Rightarrow> int blk \<le> sint m) \<and>
     unat (hp_ram_size H) = cap \<and> (case hp_malloc H of None \<Rightarrow> False | Some b \<Rightarrow> length b = cap)"

context storage_patch
begin

lemmas swap_release_ok = release_ok

end

context ram_patch
begin

lemmas ram_release_ok = release_ok

end

lemma patch_release_swap:
  assumes S: "storage_patch io view dev_size blk old c H sw" and b: "storage_build_ok H blk"
    and o: "v_open (view (w_dev w) old)" and ne: "patch \<noteq> old" "patch \<noteq> sw"
    and p: "patch_stream view dev_size (w_dev w) patch off plen P"
    and run: "patch_run L P (v_cell (view (w_dev w) old)) (dev_size old) blk (swap_area dev_size H sw) [] 0 [] N"
    and N: "unat nlen = length N" "0 < length N" "length N \<le> dev_size old"
  shows "\<exists>w'. qbt_hpatchlite_release_from_part c L H io patch old plen nlen off w = Some (1, w') \<and>
    w_mem w' = w_mem w \<and> w_alg w' = w_alg w \<and>
    cells (v_cell (view (w_dev w') old)) 0 (length N) = N \<and> v_open (view (w_dev w') old) \<and>
    (\<forall>h. h \<noteq> old \<and> h \<noteq> sw \<longrightarrow> view (w_dev w') h = view (w_dev w) h) \<and>
    (\<forall>i. blk_up blk (length N) \<le> i \<and> i < dev_size old \<longrightarrow> v_ready (view (w_dev w') old) i)"
proof -
  have hs: "hpatch_storage_swap c"
    using storage_patch.sw_compiled [OF S] by (simp add: has_swap_def)
  then have ops: "hpatch_swap c H io = g_qbt_swap_ops_flash c H io" by (simp add: hpatch_swap_def)
  obtain bs where m: "hp_malloc H = Some bs" "length bs = unat (hp_copy_size H)"
    using b by (auto simp: storage_build_ok_def split: option.splits)
  have size: "hp_swap_file_size H = None \<or> (\<exists>m. hp_swap_file_size H = Some m \<and> int blk \<le> sint m)"
    using b by (auto simp: storage_build_ok_def split: option.splits)
  have rdy: "area_ready ((hpatchi_0 patch old plen nlen off
      (if hpatch_storage_swap c then hp_copy_size H else hp_ram_size H) s)\<lparr>old_part_sector_size := a, ram_buf := bs\<rparr>)" for s :: 's and a
    using hs m b by (simp add: area_ready_def hpatchi_0_def storage_build_ok_def)
  show ?thesis
    by (rule storage_patch.swap_release_ok [OF S ops size m(1) o ne rdy p run [unfolded swap_area_def] N])
qed

lemma patch_release_ram:
  assumes R: "ram_patch io view dev_size blk old cap" and hs: "\<not> hpatch_storage_swap c" and b: "ram_build_ok H blk cap"
    and o: "v_open (view (w_dev w) old)" and ne: "patch \<noteq> old" "patch \<noteq> H_NULL"
    and p: "patch_stream view dev_size (w_dev w) patch off plen P"
    and run: "patch_run L P (v_cell (view (w_dev w) old)) (dev_size old) blk cap [] 0 [] N"
    and N: "unat nlen = length N" "0 < length N" "length N \<le> dev_size old"
  shows "\<exists>w'. qbt_hpatchlite_release_from_part c L H io patch old plen nlen off w = Some (1, w') \<and>
    w_mem w' = w_mem w \<and> w_alg w' = w_alg w \<and>
    cells (v_cell (view (w_dev w') old)) 0 (length N) = N \<and> v_open (view (w_dev w') old) \<and>
    (\<forall>h. h \<noteq> old \<and> h \<noteq> H_NULL \<longrightarrow> view (w_dev w') h = view (w_dev w) h) \<and>
    (\<forall>i. blk_up blk (length N) \<le> i \<and> i < dev_size old \<longrightarrow> v_ready (view (w_dev w') old) i)"
proof -
  have ops: "hpatch_swap c H io = g_qbt_swap_ops_ram io" using hs by (simp add: hpatch_swap_def)
  obtain bs where m: "hp_malloc H = Some bs" "length bs = cap"
    using b by (auto simp: ram_build_ok_def split: option.splits)
  have size: "hp_swap_file_size H = None \<or> (\<exists>m. hp_swap_file_size H = Some m \<and> int blk \<le> sint m)"
    using b by (auto simp: ram_build_ok_def split: option.splits)
  have rdy: "ram_ready cap ((hpatchi_0 patch old plen nlen off
      (if hpatch_storage_swap c then hp_copy_size H else hp_ram_size H) s)\<lparr>old_part_sector_size := a, ram_buf := bs\<rparr>)" for s :: 's and a
    using hs m b by (simp add: ram_ready_def hpatchi_0_def ram_build_ok_def)
  show ?thesis
    by (rule ram_patch.ram_release_ok [OF R ops size m(1) o ne rdy p run N])
qed

lemma patch_update_swap:
  fixes b :: "('s, ('q, 'z, 'k) alg_state) boot"
  assumes B: "boot_base io view dev_size crc cal E" and S: "storage_patch io view dev_size blk dst (e_cfg E) H sw"
    and ok: "storage_build_ok H blk" and hp: "e_hpatch E = qbt_hpatchlite_release_from_part (e_cfg E) L H io"
    and fw: "fw = g_fw_info b" and s: "s = w_dev (b_world b)"
    and job: "patch_job view dev_size L blk (swap_area dev_size H sw) s src dst n fw N"
    and so: "v_open (view s src)" and od: "v_open (view s dst)" and ne: "src \<noteq> dst" "src \<noteq> sw"
    and wf: "wf_mem (e_cfg E) (w_mem (b_world b))"
  shows "\<exists>b'. qbt_fw_update E dst n src b = Some (qbt_fw_info_check E fw \<and>
      (algo2 fw AND QBOOT_ALGO2_VERIFY_MASK = QBOOT_ALGO2_VERIFY_CRC \<longrightarrow> e_cal E N = raw_crc fw), b') \<and>
    installed view (w_dev (b_world b')) dst n fw N \<and>
    (\<forall>h. h \<noteq> dst \<and> h \<noteq> sw \<longrightarrow> view (w_dev (b_world b')) h = view s h)"
proof -
  have j: "patch_fw fw" "wf_fw_info fw" "fits dev_size src fw" "unat (raw_size fw) = length N" "0 < length N"
    "blk_up blk (length N) + 96 \<le> unat n" "unat n \<le> dev_size dst"
    "patch_run L (body_of view s src fw) (v_cell (view s dst)) (dev_size dst) blk (swap_area dev_size H sw) [] 0 [] N"
    using job by (simp_all add: patch_job_def)
  have dev: "patch_device io view dev_size blk dst" by (rule storage_patch.axioms(1) [OF S])
  have small: "dev_size dst < 2147483648" by (rule patch_device.old_small [OF dev])
  have up: "length N \<le> blk_up blk (length N)" by (rule blk_up_ge) (rule block_storage.blk_pos, rule patch_device.axioms(2) [OF dev])
  have N: "length N \<le> dev_size dst" using up j(6,7) by linarith
  have pos: "unat (qboot_src_read_pos (e_cfg E)) = 96" by (rule boot_base.src_pos [OF B])
  have ps: "patch_stream view dev_size (w_dev (b_world b)) src (qboot_src_read_pos (e_cfg E)) (pkg_size fw)
      (body_of view s src fw)"
    using j(3) so by (simp add: patch_stream_def pos body_of_def fits_def s)
  obtain w1 where r: "e_hpatch E src dst (pkg_size fw) (raw_size fw) (qboot_src_read_pos (e_cfg E)) (b_world b) = Some (1, w1)"
    "w_mem w1 = w_mem (b_world b)" "cells (v_cell (view (w_dev w1) dst)) 0 (length N) = N" "v_open (view (w_dev w1) dst)"
    "\<forall>h. h \<noteq> dst \<and> h \<noteq> sw \<longrightarrow> view (w_dev w1) h = view s h"
    "\<forall>i. blk_up blk (length N) \<le> i \<and> i < dev_size dst \<longrightarrow> v_ready (view (w_dev w1) dst) i"
    using patch_release_swap [OF S ok od [unfolded s] ne ps [unfolded s] j(8) [unfolded s] j(4,5) N] unfolding hp s by blast
  have rdy: "ready_range (view (w_dev w1) dst) (unat n - 96) 96"
    using r(6) j(6,7) by (auto simp: ready_range_def)
  have room: "room_for dev_size dst n fw" using j(4,6,7) up by (simp add: room_for_def)
  have sm: "unat (raw_size fw) < 2147483648" using j(4) N small by linarith
  have hpl: "using_hpatchlite (e_cfg E)" using storage_patch.sw_compiled [OF S] by (simp add: has_swap_def)
  have N': "cells (v_cell (view (w_dev w1) dst)) 0 (unat (raw_size fw)) = N" using r(3) j(4) by simp
  obtain b' where u: "qbt_fw_update E dst n src b = Some (qbt_fw_info_check E fw \<and>
       (algo2 fw AND QBOOT_ALGO2_VERIFY_MASK = QBOOT_ALGO2_VERIFY_CRC \<longrightarrow> cal N = raw_crc fw), b')"
    "installed view (w_dev (b_world b')) dst n fw N" "\<And>h. h \<noteq> dst \<Longrightarrow> view (w_dev (b_world b')) h = view (w_dev w1) h"
    by (rule boot_base.update_patch [OF B fw j(1) hpl j(2) room sm wf r(1,2) N' r(4) rdy]) (rule that)
  have "e_cal E = cal" using boot_base.axioms(1) [OF B] by (simp add: boot_dev_def boot_dev_axioms_def)
  with u r(5) show ?thesis by auto
qed

section \<open>A demonstration\<close>

text \<open>
  The library of the demonstration reads four bytes of the patch and two of the old image and
  writes them, one after the other, as the new image.
\<close>

fun demo_lib :: hpi_lib where
  "demo_lib [] = Call_read_patch 4"
| "demo_lib [a] = Call_read_old 600 2"
| "demo_lib [(_, p), (_, q)] = Call_write_new (p @ q)"
| "demo_lib _ = Call_return HPATCHI_SUCCESS"

definition demo_new :: "byte list" where
  "demo_new = [1, 2, 3, 4, 0xFF, 0xFF]"

definition nor_patch_env :: "(nat \<Rightarrow> byte, (unit, unit, unit) alg_state) boot_env" where
  "nor_patch_env = nor_env\<lparr>e_hpatch := qbt_hpatchlite_release_from_part nor_cfg demo_lib demo_build (e_io nor_env)\<rparr>"

interpretation nor_patch_boot: boot_base "g_qboot_io_custom nor_cfg nor_stores (nor_hooks 512)"
  "custom_view nor_cfg nor_stores (\<lambda>s. s)" "custom_dev_size nor_cfg nor_stores"
  crc32_cyc_cal crc32_cal nor_patch_env
proof unfold_locales
  show "\<exists>L. qbot_algo_startup (e_cfg nor_patch_env) L algo_tables_0 = (RT_EOK, e_tables nor_patch_env)"
    by (rule exI [of _ nor_libs]) (simp add: startup_tables nor_patch_env_def)
qed (simp_all add: nor_patch_env_def nor_cfg_def)

definition demo_patch_head :: fw_info_t where
  "demo_patch_head = demo_head_of QBOOT_ALGO_CMPRS_HPATCHLITE demo_body demo_new"

definition demo_patch_fw :: fw_info_t where
  "demo_patch_fw = sealed_head demo_patch_head"

definition demo_patch_boot :: "(nat \<Rightarrow> byte, (unit, unit, unit) alg_state) boot" where
  "demo_patch_boot = demo_boot\<lparr>g_fw_info := demo_patch_fw\<rparr>"

lemma demo_patch_fields [simp]: "raw_size demo_patch_fw = 6" "pkg_size demo_patch_fw = 8" "raw_crc demo_patch_fw = crc32_cal demo_new"
  "algo demo_patch_fw = QBOOT_ALGO_CMPRS_HPATCHLITE" "wf_fw_info demo_patch_fw"
  by (simp_all add: demo_patch_fw_def demo_patch_head_def sealed_wf)
    (simp_all add: sealed_head_def demo_head_of_def demo_body_def demo_new_def)

lemma demo_app_cells: "cells (v_cell (custom_view nor_cfg nor_stores (\<lambda>s. s) demo_flash H_app)) 600 2 = [0xFF, 0xFF]"
  by (simp add: demo_view demo_flash_def flash_of_def cells_def splice_def numeral_2_eq_2)

lemma demo_run:
  "patch_run demo_lib demo_body (v_cell (custom_view nor_cfg nor_stores (\<lambda>s. s) demo_flash H_app)) 8192 512 cap [] 0 [] demo_new"
proof -
  let ?img = "v_cell (custom_view nor_cfg nor_stores (\<lambda>s. s) demo_flash H_app)"
  let ?p = "[1, 2, 3, 4] :: byte list" and ?q = "[0xFF, 0xFF] :: byte list"
  have c: "patch_run demo_lib demo_body ?img 8192 512 cap [(True, ?p), (True, ?q), (True, [])] pos demo_new demo_new" for pos
    by (rule run_return) simp
  have b: "patch_run demo_lib demo_body ?img 8192 512 cap [(True, ?p), (True, ?q)] pos [] demo_new" for pos
    by (rule run_write_new [of _ _ "?p @ ?q"]) (use c in \<open>simp_all add: demo_new_def\<close>)
  have a: "patch_run demo_lib demo_body ?img 8192 512 cap [(True, ?p)] pos [] demo_new" for pos
    by (rule run_read_old [of _ _ 600 2]) (use b demo_app_cells in \<open>simp_all add: blk_up_mult\<close>)
  show ?thesis
    by (rule run_read_patch [of _ _ 4 ?p]) (use a in \<open>simp_all add: demo_body_def\<close>)
qed

lemma demo_patch_job:
  "patch_job (custom_view nor_cfg nor_stores (\<lambda>s. s)) (custom_dev_size nor_cfg nor_stores) demo_lib 512
     (swap_area (custom_dev_size nor_cfg nor_stores) demo_build H_swap) demo_flash H_download H_app 8192 demo_patch_fw demo_new"
proof -
  let ?view = "custom_view nor_cfg nor_stores (\<lambda>s. s)"
  have "body_of ?view demo_flash H_download demo_patch_fw = demo_body"
    using demo_body_of by (simp add: body_of_def)
  moreover have "swap_area (custom_dev_size nor_cfg nor_stores) demo_build H_swap = 8176"
    by (simp add: swap_area_def nor_swap_view demo_build_def)
  moreover have "patch_fw demo_patch_fw"
    by (simp add: patch_fw_def) (simp add: algo_id_defs)
  moreover have "wf_fw_info demo_patch_fw" "fits (custom_dev_size nor_cfg nor_stores) H_download demo_patch_fw"
    by (simp_all add: fits_def)
  moreover have "unat (raw_size demo_patch_fw) = length demo_new"
    by (simp add: demo_new_def)
  moreover have "blk_up 512 (length demo_new) + 96 \<le> 8192" "0 < length demo_new"
    by (simp_all add: demo_new_def blk_up_def)
  ultimately show ?thesis
    using demo_run [of 8176] by (simp add: patch_job_def)
qed

lemma demo_patch_check: "qbt_fw_info_check nor_patch_env demo_patch_fw"
  using sealed_check [of QBOOT_ALGO_CMPRS_HPATCHLITE demo_body demo_new]
  by (simp add: qbt_fw_info_check_def nor_patch_env_def demo_patch_fw_def demo_patch_head_def split: if_splits)

lemma demo_build_ok: "storage_build_ok demo_build 512" "ram_build_ok demo_build 512 32"
  by (simp_all add: storage_build_ok_def ram_build_ok_def demo_build_def)

lemma demo_patch_stream:
  "patch_stream (custom_view nor_cfg nor_stores (\<lambda>s. s)) (custom_dev_size nor_cfg nor_stores) demo_flash H_download 96 8 demo_body"
  by (simp add: patch_stream_def demo_cells demo_flash_cells)

end
