(* ===== verification/Qboot_Platform.thy ===== *)
theory Qboot_Platform
  imports Qboot_Types
begin

text \<open>
  The jump to the application of \<open>platform/\<close>: the test of the vector table and the sequence of
  operations that leaves the bootloader, on a model of the processor. The calls into the
  vendor libraries are a parameter. The build of \<open>qboot_stm32.c\<close> that runs the application in
  QSPI flash is modelled beside the one that runs it in internal flash.
\<close>

section \<open>The processor\<close>

datatype lib_call = HAL_DeInit | HAL_RCC_DeInit | Rcu_deinit | RCC_DeInit | Crm_reset | RCC_Reset
  | PWC_FCG0_REG_Unlock | PWC_FCG0_REG_Lock | CLK_MrcCmd_ENABLE | CLK_SetSysClockSrc_MRC
  | EFM_FWMC_Cmd bool | EFM_SetWaitCycle_0 | HAL_MPU_Disable | SCB_DisableICache | SCB_DisableDCache

datatype cpu_reg = SysTick_CTRL | SysTick_LOAD | SysTick_VAL | AHB_RST | APB1_RST | APB2_RST
  | PWC_FCG0 | PWC_FCG1 | PWC_FCG2 | PWC_FCG3

text \<open>The peripherals \<open>qboot_gd32.c\<close> resets, by name and in its order.\<close>

type_synonym rcu_periph = string

definition rcu_resets :: "rcu_periph list" where
  "rcu_resets = [
    ''RCU_GPIOARST'', ''RCU_GPIOBRST'', ''RCU_GPIOCRST'', ''RCU_GPIODRST'', ''RCU_GPIOERST'',
    ''RCU_GPIOFRST'', ''RCU_GPIOGRST'', ''RCU_GPIOHRST'', ''RCU_GPIOIRST'', ''RCU_CRCRST'',
    ''RCU_DMA0RST'', ''RCU_DMA1RST'', ''RCU_IPARST'', ''RCU_ENETRST'', ''RCU_USBHSRST'',
    ''RCU_DCIRST'', ''RCU_TRNGRST'', ''RCU_USBFSRST'', ''RCU_EXMCRST'', ''RCU_TIMER1RST'',
    ''RCU_TIMER2RST'', ''RCU_TIMER3RST'', ''RCU_TIMER4RST'', ''RCU_TIMER5RST'', ''RCU_TIMER6RST'',
    ''RCU_TIMER11RST'', ''RCU_TIMER12RST'', ''RCU_TIMER13RST'', ''RCU_WWDGTRST'', ''RCU_SPI1RST'',
    ''RCU_SPI2RST'', ''RCU_USART1RST'', ''RCU_USART2RST'', ''RCU_UART3RST'', ''RCU_UART4RST'',
    ''RCU_I2C0RST'', ''RCU_I2C1RST'', ''RCU_I2C2RST'', ''RCU_CAN0RST'', ''RCU_CAN1RST'',
    ''RCU_PMURST'', ''RCU_DACRST'', ''RCU_UART6RST'', ''RCU_UART7RST'', ''RCU_TIMER0RST'',
    ''RCU_TIMER7RST'', ''RCU_USART0RST'', ''RCU_USART5RST'', ''RCU_ADCRST'', ''RCU_SDIORST'',
    ''RCU_SPI0RST'', ''RCU_SPI3RST'', ''RCU_SYSCFGRST'', ''RCU_TIMER8RST'', ''RCU_TIMER9RST'',
    ''RCU_TIMER10RST'', ''RCU_SPI4RST'', ''RCU_SPI5RST'', ''RCU_TLIRST'', ''RCU_CTCRST'',
    ''RCU_IREFRST'']"

datatype plat_op = Mdelay nat | Disable_irq | Lib lib_call | Reg_write cpu_reg u32
  | Rcu_periph_reset_enable rcu_periph | Rcu_periph_reset_disable rcu_periph
  | Nvic_DisableIRQ nat | Nvic_ClearPendingIRQ nat | Set_CONTROL u32 | Set_MSP u32 | Call_app u32

record cpu =
  irq_masked :: bool
  nvic_enabled :: "nat \<Rightarrow> bool"
  nvic_pending :: "nat \<Rightarrow> bool"
  cpu_regs :: "cpu_reg \<Rightarrow> u32"
  in_reset :: "rcu_periph \<Rightarrow> bool"
  cpu_control :: u32
  cpu_msp :: u32
  entered :: "u32 option"

text \<open>Once the application has been entered the bootloader does nothing more.\<close>

fun plat_step :: "(lib_call \<Rightarrow> cpu \<Rightarrow> cpu) \<Rightarrow> plat_op \<Rightarrow> cpu \<Rightarrow> cpu" where
  "plat_step lib (Mdelay n) x = x"
| "plat_step lib Disable_irq x = x\<lparr>irq_masked := True\<rparr>"
| "plat_step lib (Lib f) x = lib f x"
| "plat_step lib (Reg_write r v) x = x\<lparr>cpu_regs := (cpu_regs x)(r := v)\<rparr>"
| "plat_step lib (Rcu_periph_reset_enable p) x = x\<lparr>in_reset := (in_reset x)(p := True)\<rparr>"
| "plat_step lib (Rcu_periph_reset_disable p) x = x\<lparr>in_reset := (in_reset x)(p := False)\<rparr>"
| "plat_step lib (Nvic_DisableIRQ i) x = x\<lparr>nvic_enabled := (nvic_enabled x)(i := False)\<rparr>"
| "plat_step lib (Nvic_ClearPendingIRQ i) x = x\<lparr>nvic_pending := (nvic_pending x)(i := False)\<rparr>"
| "plat_step lib (Set_CONTROL v) x = x\<lparr>cpu_control := v\<rparr>"
| "plat_step lib (Set_MSP v) x = x\<lparr>cpu_msp := v\<rparr>"
| "plat_step lib (Call_app a) x = x\<lparr>entered := Some a\<rparr>"

fun plat_run :: "(lib_call \<Rightarrow> cpu \<Rightarrow> cpu) \<Rightarrow> plat_op list \<Rightarrow> cpu \<Rightarrow> cpu" where
  "plat_run lib [] x = x"
| "plat_run lib (op # ops) x = (if entered x \<noteq> None then x else plat_run lib ops (plat_step lib op x))"

section \<open>The jumps\<close>

definition systick_off :: "plat_op list" where
  "systick_off = [Reg_write SysTick_CTRL 0, Reg_write SysTick_LOAD 0, Reg_write SysTick_VAL 0]"

definition nvic_off :: "plat_op list" where
  "nvic_off = concat (map (\<lambda>i. [Nvic_DisableIRQ i, Nvic_ClearPendingIRQ i]) [0..<128])"

text \<open>The two words of the vector table: the initial stack pointer and the reset handler.\<close>

definition gd32_legit :: "u32 \<Rightarrow> u32 \<Rightarrow> bool" where
  "gd32_legit stk_addr app_func \<longleftrightarrow>
     \<not> ((app_func AND 0xff000000) \<noteq> 0x08000000 \<or> (stk_addr AND 0x2ff00000) \<noteq> 0x20000000)"

definition hal_DeInit :: "plat_op list" where
  "hal_DeInit = map Rcu_periph_reset_enable rcu_resets @ map Rcu_periph_reset_disable rcu_resets"

definition gd32_jump_to_app :: "(u32 \<Rightarrow> u32) \<Rightarrow> u32 \<Rightarrow> plat_op list" where
  "gd32_jump_to_app mem app_addr =
     (let stk_addr = mem app_addr; app_func = mem (app_addr + 4)
      in if \<not> gd32_legit stk_addr app_func then []
         else [Mdelay 200, Disable_irq] @ hal_DeInit @ nvic_off @ [Lib Rcu_deinit] @ systick_off @
           [Set_CONTROL 0, Set_MSP stk_addr, Call_app app_func])"

definition stm32_legit :: "u32 \<Rightarrow> u32 \<Rightarrow> bool" where
  "stm32_legit stk_addr app_func \<longleftrightarrow>
     \<not> ((app_func AND 0xff000000) \<noteq> 0x08000000 \<or>
        ((stk_addr AND 0x2ff00000) \<noteq> 0x20000000 \<and> (stk_addr AND 0x2ff00000) \<noteq> 0x24000000))"

definition stm32_jump_to_app :: "(u32 \<Rightarrow> u32) \<Rightarrow> u32 \<Rightarrow> plat_op list" where
  "stm32_jump_to_app mem app_addr =
     (let stk_addr = mem app_addr; app_func = mem (app_addr + 4)
      in if \<not> stm32_legit stk_addr app_func then []
         else [Mdelay 200, Disable_irq, Lib HAL_DeInit, Lib HAL_RCC_DeInit] @ systick_off @ nvic_off @
           [Set_CONTROL 0, Set_MSP stk_addr, Call_app app_func])"

text \<open>The AT32 build for the F403A and F407 uses another register block and library call.\<close>

definition at32_reset_periph :: "plat_op list" where
  "at32_reset_periph =
     [Reg_write AHB_RST 0xFFFFFFFF, Reg_write AHB_RST 0, Reg_write APB1_RST 0xFFFFFFFF, Reg_write APB1_RST 0,
      Reg_write APB2_RST 0xFFFFFFFF, Reg_write APB2_RST 0]"

definition at32_jump_to_app :: "bool \<Rightarrow> (u32 \<Rightarrow> u32) \<Rightarrow> u32 \<Rightarrow> plat_op list" where
  "at32_jump_to_app f40x mem app_addr =
     (let stk_addr = mem app_addr; app_func = mem (app_addr + 4)
      in if \<not> gd32_legit stk_addr app_func then []
         else [Mdelay 200, Disable_irq] @ at32_reset_periph @ nvic_off @ systick_off @
           [Lib (if f40x then Crm_reset else RCC_Reset), Set_CONTROL 0, Set_MSP stk_addr, Call_app app_func])"

definition n32_reset_periph :: "plat_op list" where
  "n32_reset_periph =
     [Reg_write AHB_RST 0xFFFFFFFF, Reg_write AHB_RST 0, Reg_write APB2_RST 0xFFFFFFFF, Reg_write APB2_RST 0,
      Reg_write APB1_RST 0xFFFFFFFF, Reg_write APB1_RST 0]"

definition n32_jump_to_app :: "(u32 \<Rightarrow> u32) \<Rightarrow> u32 \<Rightarrow> plat_op list" where
  "n32_jump_to_app mem app_addr =
     (let stk_addr = mem app_addr; app_func = mem (app_addr + 4)
      in if \<not> gd32_legit stk_addr app_func then []
         else [Mdelay 200, Disable_irq] @ n32_reset_periph @ nvic_off @ systick_off @
           [Lib RCC_DeInit, Set_CONTROL 0, Set_MSP stk_addr, Call_app app_func])"

definition hc32_legit :: "u32 \<Rightarrow> u32 \<Rightarrow> bool" where
  "hc32_legit stk_addr app_func \<longleftrightarrow>
     \<not> ((app_func AND 0xff000000) \<noteq> 0 \<or> ((stk_addr + 0x00010000) AND 0x2ff00000) \<noteq> 0x20000000)"

definition hc32_reset_periph :: "plat_op list" where
  "hc32_reset_periph =
     [Lib PWC_FCG0_REG_Unlock, Reg_write PWC_FCG0 0xFFFFFAEE, Reg_write PWC_FCG1 0xFFFFFFFF,
      Reg_write PWC_FCG2 0xFFFFFFFF, Reg_write PWC_FCG3 0xFFFFFFFF, Lib PWC_FCG0_REG_Lock]"

definition hc32_jump_to_app :: "(u32 \<Rightarrow> u32) \<Rightarrow> u32 \<Rightarrow> plat_op list" where
  "hc32_jump_to_app mem app_addr =
     (let stk_addr = mem app_addr; app_func = mem (app_addr + 4)
      in if \<not> hc32_legit stk_addr app_func then []
         else [Mdelay 200, Disable_irq] @ hc32_reset_periph @ nvic_off @ systick_off @
           [Lib CLK_MrcCmd_ENABLE, Lib CLK_SetSysClockSrc_MRC, Lib (EFM_FWMC_Cmd True), Lib EFM_SetWaitCycle_0,
            Lib (EFM_FWMC_Cmd False), Set_CONTROL 0, Set_MSP stk_addr, Call_app app_func])"

text \<open>All the ports that run the application in internal flash.\<close>

datatype platform = GD32 | STM32 | AT32 bool | N32 | HC32

fun vector_legit :: "platform \<Rightarrow> u32 \<Rightarrow> u32 \<Rightarrow> bool" where
  "vector_legit STM32 = stm32_legit"
| "vector_legit HC32 = hc32_legit"
| "vector_legit _ = gd32_legit"

fun qbt_jump_to_app :: "platform \<Rightarrow> (u32 \<Rightarrow> u32) \<Rightarrow> u32 \<Rightarrow> plat_op list" where
  "qbt_jump_to_app GD32 = gd32_jump_to_app"
| "qbt_jump_to_app STM32 = stm32_jump_to_app"
| "qbt_jump_to_app (AT32 f40x) = at32_jump_to_app f40x"
| "qbt_jump_to_app N32 = n32_jump_to_app"
| "qbt_jump_to_app HC32 = hc32_jump_to_app"

section \<open>What the application finds\<close>

text \<open>
  What the vendor calls leave alone: the interrupt controller, the core's stack registers, the
  resets of the peripherals, and, but for the calls that are known to start the system timer
  again or to reset it, the system timer.
\<close>

definition lib_ok :: "(lib_call \<Rightarrow> cpu \<Rightarrow> cpu) \<Rightarrow> bool" where
  "lib_ok lib \<longleftrightarrow> (\<forall>f x. irq_masked (lib f x) = irq_masked x \<and> nvic_enabled (lib f x) = nvic_enabled x \<and>
     nvic_pending (lib f x) = nvic_pending x \<and> in_reset (lib f x) = in_reset x \<and>
     cpu_control (lib f x) = cpu_control x \<and> cpu_msp (lib f x) = cpu_msp x \<and> entered (lib f x) = entered x \<and>
     (f \<notin> {HAL_DeInit, HAL_RCC_DeInit, Rcu_deinit} \<longrightarrow>
        (\<forall>r \<in> {SysTick_CTRL, SysTick_LOAD, SysTick_VAL}. cpu_regs (lib f x) r = cpu_regs x r)))"

lemma lib_okD [simp]:
  assumes "lib_ok lib"
  shows "irq_masked (lib f x) = irq_masked x" "nvic_enabled (lib f x) = nvic_enabled x"
    "nvic_pending (lib f x) = nvic_pending x" "in_reset (lib f x) = in_reset x"
    "cpu_control (lib f x) = cpu_control x" "cpu_msp (lib f x) = cpu_msp x" "entered (lib f x) = entered x"
    "f \<notin> {HAL_DeInit, HAL_RCC_DeInit, Rcu_deinit} \<Longrightarrow> cpu_regs (lib f x) SysTick_CTRL = cpu_regs x SysTick_CTRL"
    "f \<notin> {HAL_DeInit, HAL_RCC_DeInit, Rcu_deinit} \<Longrightarrow> cpu_regs (lib f x) SysTick_LOAD = cpu_regs x SysTick_LOAD"
    "f \<notin> {HAL_DeInit, HAL_RCC_DeInit, Rcu_deinit} \<Longrightarrow> cpu_regs (lib f x) SysTick_VAL = cpu_regs x SysTick_VAL"
  using assms unfolding lib_ok_def by simp_all

lemma plat_run_append: "plat_run lib (a @ b) x = plat_run lib b (plat_run lib a x)"
proof (induction a arbitrary: x)
  case (Cons op a) then show ?case by (cases b) auto
qed simp

lemma run_nvic:
  assumes "entered x = None"
  shows "plat_run lib nvic_off x = x\<lparr>nvic_enabled := (\<lambda>i. \<not> i < 128 \<and> nvic_enabled x i),
    nvic_pending := (\<lambda>i. \<not> i < 128 \<and> nvic_pending x i)\<rparr>"
proof -
  have "plat_run lib (concat (map (\<lambda>i. [Nvic_DisableIRQ i, Nvic_ClearPendingIRQ i]) [0..<n])) x =
      x\<lparr>nvic_enabled := (\<lambda>i. \<not> i < n \<and> nvic_enabled x i), nvic_pending := (\<lambda>i. \<not> i < n \<and> nvic_pending x i)\<rparr>" for n
    by (induction n) (auto simp: plat_run_append assms fun_eq_iff less_Suc_eq intro!: cpu.equality)
  then show ?thesis by (simp add: nvic_off_def)
qed

lemma run_resets:
  assumes "entered x = None"
  shows "plat_run lib hal_DeInit x = x\<lparr>in_reset := (\<lambda>p. p \<notin> set rcu_resets \<and> in_reset x p)\<rparr>"
proof -
  have e: "plat_run lib (map Rcu_periph_reset_enable ps) y = y\<lparr>in_reset := (\<lambda>p. p \<in> set ps \<or> in_reset y p)\<rparr>"
    if "entered y = None" for ps y
    using that by (induction ps arbitrary: y) (auto simp: fun_eq_iff intro!: cpu.equality)
  have d: "plat_run lib (map Rcu_periph_reset_disable ps) y = y\<lparr>in_reset := (\<lambda>p. p \<notin> set ps \<and> in_reset y p)\<rparr>"
    if "entered y = None" for ps y
    using that by (induction ps arbitrary: y) (auto simp: fun_eq_iff intro!: cpu.equality)
  show ?thesis
    using assms by (auto simp: hal_DeInit_def plat_run_append e d fun_eq_iff intro!: cpu.equality)
qed

definition quiesced :: "cpu \<Rightarrow> bool" where
  "quiesced x \<longleftrightarrow> irq_masked x \<and> (\<forall>i < 128. \<not> nvic_enabled x i \<and> \<not> nvic_pending x i) \<and>
     cpu_regs x SysTick_CTRL = 0 \<and> cpu_regs x SysTick_LOAD = 0 \<and> cpu_regs x SysTick_VAL = 0"

lemmas jump_defs = gd32_jump_to_app_def stm32_jump_to_app_def at32_jump_to_app_def n32_jump_to_app_def
  hc32_jump_to_app_def Let_def

lemmas quiet_defs = systick_off_def at32_reset_periph_def n32_reset_periph_def hc32_reset_periph_def

lemma jump_refused: "\<not> vector_legit p (mem a) (mem (a + 4)) \<Longrightarrow> qbt_jump_to_app p mem a = []"
  by (cases p) (simp_all add: jump_defs)

lemma jump_taken:
  assumes L: "lib_ok lib" and v: "vector_legit p (mem a) (mem (a + 4))" and e: "entered x = None"
  defines "y \<equiv> plat_run lib (qbt_jump_to_app p mem a) x"
  shows "entered y = Some (mem (a + 4)) \<and> cpu_msp y = mem a \<and> cpu_control y = 0 \<and> quiesced y"
  unfolding y_def
  by (cases p)
    (use v e L in \<open>simp_all add: jump_defs quiet_defs plat_run_append run_nvic run_resets quiesced_def\<close>)

text \<open>No peripheral that was reset stays in reset.\<close>

lemma gd32_released:
  assumes L: "lib_ok lib" and v: "gd32_legit (mem a) (mem (a + 4))" and e: "entered x = None"
  shows "in_reset (plat_run lib (qbt_jump_to_app GD32 mem a) x) = (\<lambda>q. q \<notin> set rcu_resets \<and> in_reset x q)"
  using assms by (simp add: jump_defs quiet_defs plat_run_append run_nvic run_resets)

section \<open>The application in QSPI flash\<close>

record qspi_command =
  InstructionMode_lines :: nat
  Instruction :: byte
  AddressMode_lines :: nat
  AddressSize_bits :: nat
  AlternateByteMode_lines :: nat
  AlternateBytes :: byte
  AlternateBytesSize_bits :: nat
  DataMode_lines :: nat
  DummyCycles :: nat
  DdrMode :: bool
  DdrHoldHalfCycle_analog :: bool
  SIOOMode_every :: bool

record qspi_mapped =
  TimeOutActivation :: bool
  TimeOutPeriod :: nat

text \<open>The HAL call is a parameter; it says whether it returned \<open>HAL_OK\<close>.\<close>

definition nor_flash_memory_mapped_mode :: "(qspi_command \<Rightarrow> qspi_mapped \<Rightarrow> bool) \<Rightarrow> rt_err" where
  "nor_flash_memory_mapped_mode HAL_QSPI_MemoryMapped =
     (let s_command = \<lparr>InstructionMode_lines = 1, Instruction = 0xEB, AddressMode_lines = 4, AddressSize_bits = 24,
            AlternateByteMode_lines = 4, AlternateBytes = 0, AlternateBytesSize_bits = 8, DataMode_lines = 4,
            DummyCycles = 4, DdrMode = False, DdrHoldHalfCycle_analog = True, SIOOMode_every = True\<rparr>;
          s_mem_mapped_cfg = \<lparr>TimeOutActivation = True, TimeOutPeriod = 1\<rparr>
      in if \<not> HAL_QSPI_MemoryMapped s_command s_mem_mapped_cfg then RT_ERROR else RT_EOK)"

text \<open>The word the code assembles from four received bytes.\<close>

definition recv_word :: "byte list \<Rightarrow> nat \<Rightarrow> u32" where
  "recv_word recv i = ucast (recv ! i) + push_bit 8 (ucast (recv ! (i + 1))) +
     push_bit 16 (ucast (recv ! (i + 2))) + push_bit 24 (ucast (recv ! (i + 3)))"

definition qspi_legit :: "u32 \<Rightarrow> u32 \<Rightarrow> u32 \<Rightarrow> bool" where
  "qspi_legit base stk_addr reset_handler \<longleftrightarrow>
     \<not> ((reset_handler AND 0xff000000) \<noteq> base \<or>
        (stk_addr \<noteq> 0x20000000 \<and> stk_addr \<noteq> 0x24000000 \<and> stk_addr \<noteq> 0x30000000 \<and> stk_addr \<noteq> 0x38000000))"

text \<open>
  \<open>found\<close> says whether the QSPI device exists; \<open>transfer\<close> is what the eight bytes hold after
  \<open>rt_qspi_send_then_recv\<close>, whose result the code does not test.
\<close>

definition qspi_jump_to_app ::
  "bool \<Rightarrow> bool \<Rightarrow> (byte list \<Rightarrow> byte list) \<Rightarrow> (qspi_command \<Rightarrow> qspi_mapped \<Rightarrow> bool) \<Rightarrow> u32 \<Rightarrow> plat_op list" where
  "qspi_jump_to_app mpu found transfer hal base =
     (if \<not> found then []
      else
        let recv = transfer [0x03, 0x00, 0x00, 0x00];
            stk_addr = recv_word recv 0;
            reset_handler = recv_word recv 4;
            stk_addr = stk_addr AND 0x3FF00000
        in if \<not> qspi_legit base stk_addr reset_handler then []
           else if nor_flash_memory_mapped_mode hal \<noteq> RT_EOK then []
           else [Disable_irq] @ (if mpu then [Lib HAL_MPU_Disable] else []) @
             [Lib SCB_DisableICache, Lib SCB_DisableDCache, Set_CONTROL 0, Set_MSP stk_addr, Call_app (base + 4)])"

text \<open>
  The code masks the stack pointer for its test and then loads the masked value, and it calls
  the address of the reset vector instead of the handler stored there.
\<close>

lemma qspi_jump:
  fixes mpu :: bool
  assumes L: "lib_ok lib" and e: "entered x = None" and f: "found" and m: "nor_flash_memory_mapped_mode hal = RT_EOK"
    and v: "qspi_legit base (recv_word (transfer [0x03, 0, 0, 0]) 0 AND 0x3FF00000) (recv_word (transfer [0x03, 0, 0, 0]) 4)"
  defines "y \<equiv> plat_run lib (qspi_jump_to_app mpu found transfer hal base) x"
  shows "entered y = Some (base + 4) \<and> cpu_msp y = recv_word (transfer [0x03, 0, 0, 0]) 0 AND 0x3FF00000 \<and>
    cpu_msp y \<in> {0x20000000, 0x24000000, 0x30000000, 0x38000000}"
  unfolding y_def
  using L e f m v by (simp add: qspi_jump_to_app_def Let_def plat_run_append) (auto simp: qspi_legit_def)

end
