(* ===== verification/Qboot_Console.thy ===== *)
theory Qboot_Console
  imports Qboot_Types
begin

text \<open>
  The keys and the shell of \<open>src/qboot.c\<close>: the factory key, the console the bootloader opens
  for its key, and the system's own shell, which it stops and starts.
\<close>

section \<open>Keys and shell\<close>

text \<open>
  The factory key must read as pressed in every one of \<open>QBOOT_FACTORY_KEY_CHK_TMO * 10 + 1\<close>
  polls; \<open>pin k\<close> says whether it does in poll \<open>k\<close>.
\<close>

definition QBOOT_FACTORY_KEY_CHK_TMO :: nat where "QBOOT_FACTORY_KEY_CHK_TMO = 10"

fun key_polls :: "(nat \<Rightarrow> bool) \<Rightarrow> nat \<Rightarrow> nat \<Rightarrow> bool" where
  "key_polls pin k 0 = True"
| "key_polls pin k (Suc n) = (if \<not> pin k then False else key_polls pin (Suc k) n)"

definition qbt_factory_key_check :: "(nat \<Rightarrow> bool) \<Rightarrow> bool" where
  "qbt_factory_key_check pin = key_polls pin 0 (QBOOT_FACTORY_KEY_CHK_TMO * 10 + 1)"

text \<open>
  The shell: whether the console device is found, a semaphore can be made and the device
  opened, and the polls of the key loop, each with its tick, whether the semaphore was taken and
  the character read.
\<close>

record key_poll =
  kp_tick :: u32
  kp_taken :: bool
  kp_char :: "byte option"

record shell_os =
  so_dev :: "nat option"
  so_sem :: bool
  so_open :: "nat \<Rightarrow> bool"
  so_start :: u32
  so_tmo :: u32
  so_polls :: "nat \<Rightarrow> key_poll"

text \<open>
  What the operating system holds of its own shell finsh, as far as the bootloader looks: the
  thread, whether it is a static object and whether it has been closed, the semaphore
  \<open>shrx\<close>, whether it is static, and the prompt. A deleted thread stays, closed, until the idle
  thread removes it. The calls are the system's: \<open>finsh_os\<close> holds what they make of this.
\<close>

record sys_thread =
  is_systemobject :: bool
  thread_closed :: bool

record sys_shell =
  finsh_thread :: "sys_thread option"
  finsh_shrx :: "bool option"
  finsh_prompt :: "byte list"

record finsh_os =
  rt_thread_detach :: "sys_shell \<Rightarrow> sys_shell"
  rt_thread_delete :: "sys_shell \<Rightarrow> sys_shell"
  rt_sem_detach :: "sys_shell \<Rightarrow> sys_shell"
  rt_sem_delete :: "sys_shell \<Rightarrow> sys_shell"
  finsh_set_prompt :: "byte list \<Rightarrow> sys_shell \<Rightarrow> sys_shell"
  finsh_system_init :: "sys_shell \<Rightarrow> sys_shell"

definition qbt_close_sys_shell :: "finsh_os \<Rightarrow> sys_shell \<Rightarrow> sys_shell" where
  "qbt_close_sys_shell F k =
     (case finsh_thread k of
        None \<Rightarrow> k
      | Some thread \<Rightarrow>
          let k1 = (if is_systemobject thread then rt_thread_detach F k else rt_thread_delete F k)
          in case finsh_shrx k1 of
               None \<Rightarrow> k1
             | Some static \<Rightarrow> if static then rt_sem_detach F k1 else rt_sem_delete F k1)"

definition QBOOT_SHELL_PROMPT :: "byte list" where "QBOOT_SHELL_PROMPT = str_bytes ''Qboot>''"

definition qbt_open_sys_shell :: "finsh_os \<Rightarrow> sys_shell \<Rightarrow> sys_shell" where
  "qbt_open_sys_shell F k =
     (if (case finsh_thread k of None \<Rightarrow> True | Some thread \<Rightarrow> thread_closed thread)
      then finsh_system_init F (finsh_set_prompt F QBOOT_SHELL_PROMPT k)
      else k)"

text \<open>
  The bootloader's own side: its semaphore, the console device it has opened, the devices whose
  receive indication is \<open>qbt_shell_rx_ind\<close> and how often each device is open by its hand.
\<close>

record shell_st =
  qbt_shell_sem :: bool
  qbt_shell_dev :: "nat option"
  rx_ind :: "nat \<Rightarrow> bool"
  dev_refs :: "nat \<Rightarrow> nat"
  sys_state :: sys_shell

definition shell_static :: "sys_shell \<Rightarrow> shell_st" where
  "shell_static k = \<lparr>qbt_shell_sem = False, qbt_shell_dev = None, rx_ind = (\<lambda>_. False), dev_refs = (\<lambda>_. 0), sys_state = k\<rparr>"

definition qbt_shell_init :: "shell_os \<Rightarrow> shell_st \<Rightarrow> bool \<times> shell_st" where
  "qbt_shell_init os x =
     (case so_dev os of
        None \<Rightarrow> (False, x)
      | Some dev \<Rightarrow>
          if \<not> qbt_shell_sem x \<and> \<not> so_sem os then (False, x)
          else
            let x1 = x\<lparr>qbt_shell_sem := True\<rparr>
            in if qbt_shell_dev x1 = Some dev then (True, x1)
               else if \<not> so_open os dev then (False, x1)
               else
                 let x2 = x1\<lparr>dev_refs := (dev_refs x1)(dev := dev_refs x1 dev + 1)\<rparr>;
                     x3 = (case qbt_shell_dev x2 of
                             None \<Rightarrow> x2
                           | Some old \<Rightarrow> x2\<lparr>dev_refs := (dev_refs x2)(old := dev_refs x2 old - 1),
                                            rx_ind := (rx_ind x2)(old := False)\<rparr>)
                 in (True, x3\<lparr>qbt_shell_dev := Some dev, rx_ind := (rx_ind x3)(dev := True)\<rparr>))"

definition key_body :: "shell_os \<Rightarrow> nat \<Rightarrow> (nat, bool) iter option" where
  "key_body os k =
     (let p = so_polls os k
      in if \<not> kp_tick p - so_start os < so_tmo os then Some (Stop False)
         else if \<not> kp_taken p then Some (Again (Suc k))
         else if kp_char p = Some 0x0d then Some (Stop True)
         else Some (Again (Suc k)))"

definition qbt_shell_key_check :: "shell_os \<Rightarrow> bool option" where
  "qbt_shell_key_check os = run_loop (key_body os) 0"

definition qbt_startup_shell :: "finsh_os \<Rightarrow> shell_os \<Rightarrow> bool \<Rightarrow> shell_st \<Rightarrow> (bool \<times> shell_st) option" where
  "qbt_startup_shell F os wait_press_key x =
     (case qbt_shell_init os x of
        (False, x1) \<Rightarrow> Some (False, x1)
      | (True, x1) \<Rightarrow> do {
          rst \<leftarrow> (if wait_press_key then qbt_shell_key_check os else Some True);
          if \<not> rst then Some (False, x1)
          else Some (True, x1\<lparr>sys_state := qbt_open_sys_shell F (sys_state x1)\<rparr>)
        })"

section \<open>Who owns the console\<close>

text \<open>The system's shell runs when its thread exists and is not closed.\<close>

fun live :: "sys_thread option \<Rightarrow> bool" where
  "live None = False"
| "live (Some thread) = (\<not> thread_closed thread)"

definition shell_running :: "sys_shell \<Rightarrow> bool" where
  "shell_running k \<longleftrightarrow> live (finsh_thread k)"

text \<open>
  What the system's calls do, as its manual says: a thread that is detached or deleted has ended,
  the semaphore calls and the prompt leave the thread alone, and the start of finsh leaves a
  thread that runs.
\<close>

definition finsh_laws :: "finsh_os \<Rightarrow> bool" where
  "finsh_laws F \<longleftrightarrow> (\<forall>k.
     \<not> shell_running (rt_thread_detach F k) \<and> \<not> shell_running (rt_thread_delete F k) \<and>
     finsh_thread (rt_sem_detach F k) = finsh_thread k \<and> finsh_thread (rt_sem_delete F k) = finsh_thread k \<and>
     (\<forall>p. finsh_thread (finsh_set_prompt F p k) = finsh_thread k) \<and> shell_running (finsh_system_init F k))"

lemma close_stops: "finsh_laws F \<Longrightarrow> \<not> shell_running (qbt_close_sys_shell F k)"
  by (simp add: qbt_close_sys_shell_def finsh_laws_def shell_running_def Let_def split: option.split)

lemma open_starts: "finsh_laws F \<Longrightarrow> shell_running (qbt_open_sys_shell F k)"
  by (simp add: qbt_open_sys_shell_def finsh_laws_def shell_running_def split: option.split)

text \<open>
  The receive indication is on the device the bootloader uses, which it has opened once, and on
  no other; no other device is left open.
\<close>

definition console_inv :: "shell_st \<Rightarrow> bool" where
  "console_inv x \<longleftrightarrow> rx_ind x = (\<lambda>d. qbt_shell_dev x = Some d) \<and>
     dev_refs x = (\<lambda>d. if qbt_shell_dev x = Some d then 1 else 0) \<and> (qbt_shell_dev x \<noteq> None \<longrightarrow> qbt_shell_sem x)"

lemma console_static: "console_inv (shell_static k)"
  by (simp add: console_inv_def shell_static_def)

lemma console_sys [simp]: "console_inv (x\<lparr>sys_state := k\<rparr>) = console_inv x"
  by (simp add: console_inv_def)

lemma init_sys: "sys_state (snd (qbt_shell_init os x)) = sys_state x"
  by (simp add: qbt_shell_init_def Let_def split: option.split)

lemma init_inv:
  assumes "console_inv x"
  shows "console_inv (snd (qbt_shell_init os x))"
proof (cases "so_dev os")
  case None
  then show ?thesis using assms by (simp add: qbt_shell_init_def)
next
  case (Some dev)
  then show ?thesis
  proof (cases "qbt_shell_dev x")
    case None
    then show ?thesis using assms Some by (simp add: qbt_shell_init_def console_inv_def Let_def fun_eq_iff)
  next
    case old: (Some old)
    then show ?thesis
      using assms Some by (cases "old = dev") (simp_all add: qbt_shell_init_def console_inv_def Let_def fun_eq_iff)
  qed
qed

lemma init_console:
  assumes "console_inv x" and "qbt_shell_init os x = (ok, x')"
  shows "console_inv x'" and "sys_state x' = sys_state x"
  using init_inv [OF assms(1), of os] init_sys [of os x] assms(2) by simp_all

lemma startup_console:
  assumes F: "finsh_laws F" and inv: "console_inv x" and s: "qbt_startup_shell F os wait x = Some (ok, x')"
  shows "console_inv x'" and "shell_running (sys_state x') \<longleftrightarrow> ok \<or> shell_running (sys_state x)"
proof -
  obtain i x1 where x1: "qbt_shell_init os x = (i, x1)" by fastforce
  note c = init_console [OF inv x1]
  have "x' = x1 \<and> \<not> ok \<or> x' = x1\<lparr>sys_state := qbt_open_sys_shell F (sys_state x1)\<rparr> \<and> ok"
  proof (cases i)
    case True
    define w where "w = (if wait then qbt_shell_key_check os else Some True)"
    show ?thesis
      using s x1 True unfolding qbt_startup_shell_def w_def [symmetric] by (cases w) (simp_all split: if_splits)
  qed (use s x1 in \<open>simp add: qbt_startup_shell_def\<close>)
  with c open_starts [OF F] show "console_inv x'" and "shell_running (sys_state x') \<longleftrightarrow> ok \<or> shell_running (sys_state x)"
    by auto
qed

section \<open>The calls of RT-Thread\<close>

text \<open>
  The calls as RT-Thread with a heap has them: a static thread is gone once detached, a deleted
  one stays closed; finsh starts as a thread from the heap with a static semaphore.
\<close>

definition rtt_finsh :: finsh_os where
  "rtt_finsh = \<lparr>rt_thread_detach = (\<lambda>k. k\<lparr>finsh_thread := None\<rparr>),
     rt_thread_delete = (\<lambda>k. k\<lparr>finsh_thread := map_option (thread_closed_update (\<lambda>_. True)) (finsh_thread k)\<rparr>),
     rt_sem_detach = (\<lambda>k. k\<lparr>finsh_shrx := None\<rparr>), rt_sem_delete = (\<lambda>k. k\<lparr>finsh_shrx := None\<rparr>),
     finsh_set_prompt = (\<lambda>p k. k\<lparr>finsh_prompt := p\<rparr>),
     finsh_system_init = (\<lambda>k. k\<lparr>finsh_thread := Some \<lparr>is_systemobject = False, thread_closed = False\<rparr>,
       finsh_shrx := Some True\<rparr>)\<rparr>"

definition rtt_sys :: sys_shell where
  "rtt_sys = \<lparr>finsh_thread = Some \<lparr>is_systemobject = False, thread_closed = False\<rparr>, finsh_shrx = Some True,
     finsh_prompt = str_bytes ''msh />''\<rparr>"

lemma rtt_laws: "finsh_laws rtt_finsh"
proof -
  have "\<not> live (map_option (thread_closed_update (\<lambda>_. True)) t)" for t by (cases t) simp_all
  then show ?thesis by (simp add: finsh_laws_def shell_running_def rtt_finsh_def)
qed

text \<open>A console that is there, with nobody at the keys.\<close>

definition demo_console :: shell_os where
  "demo_console = \<lparr>so_dev = Some 7, so_sem = True, so_open = (\<lambda>_. True), so_start = 0, so_tmo = 3,
     so_polls = (\<lambda>k. \<lparr>kp_tick = of_nat k, kp_taken = False, kp_char = None\<rparr>)\<rparr>"

end
