(* ===== verification/Qboot_Boot.thy ===== *)
theory Qboot_Boot
  imports Qboot_Firmware Qboot_Update Qboot_Console
begin

text \<open>
  The second half of \<open>src/qboot.c\<close>: resuming the application from a target, releasing the
  package of a target, the boot thread with its factory key and shell checks, and the shell
  commands.
\<close>

section \<open>State and environment\<close>

text \<open>
  The boot thread also drives the update manager, whose state stands beside the boot state. When
  both are linked they share the devices and the helper's flag.
\<close>

type_synonym ('s, 'a, 'p) boot_mgr = "('s, 'a) boot \<times> ('s, 'p) upd"

definition open_b ::
  "('s, 'a) boot_env \<Rightarrow> qbt_target_id \<Rightarrow> bool \<Rightarrow> open_flags \<Rightarrow> ('s, 'a) boot \<Rightarrow>
   (bool \<times> handle \<times> u32) \<times> ('s, 'a) boot" where
  "open_b E i want_size flags b =
     (case qbt_target_open (e_io E) i want_size flags (w_dev (b_world b)) of
        (r, s) \<Rightarrow> (r, b\<lparr>b_world := (b_world b)\<lparr>w_dev := s\<rparr>\<rparr>))"

definition close_b :: "('s, 'a) boot_env \<Rightarrow> handle \<Rightarrow> ('s, 'a) boot \<Rightarrow> ('s, 'a) boot" where
  "close_b E h b = b\<lparr>b_world := (b_world b)\<lparr>w_dev := qbt_target_close (e_io E) h (w_dev (b_world b))\<rparr>\<rparr>"

definition sign_check_b :: "('s, 'a) boot_env \<Rightarrow> handle \<Rightarrow> ('s, 'a) boot \<Rightarrow> bool \<times> ('s, 'a) boot" where
  "sign_check_b E h b =
     (case qbt_release_sign_check (e_parser E) h (g_fw_info b) (w_dev (b_world b)) of
        (r, s) \<Rightarrow> (r, b\<lparr>b_world := (b_world b)\<lparr>w_dev := s\<rparr>\<rparr>))"

definition sign_write_b :: "('s, 'a) boot_env \<Rightarrow> handle \<Rightarrow> ('s, 'a) boot \<Rightarrow> bool \<times> ('s, 'a) boot" where
  "sign_write_b E h b =
     (case qbt_release_sign_write (e_parser E) h (g_fw_info b) (w_dev (b_world b)) of
        (r, s) \<Rightarrow> (r, b\<lparr>b_world := (b_world b)\<lparr>w_dev := s\<rparr>\<rparr>))"

definition product_ok :: "('s, 'a) boot_env \<Rightarrow> fw_info_t \<Rightarrow> bool" where
  "product_ok E fw = (case product_code (e_cfg E) of None \<Rightarrow> True | Some code \<Rightarrow> rt_streq (prod_code fw) code)"

definition desc_b :: "('s, 'a) boot_env \<Rightarrow> qbt_target_id \<Rightarrow> qboot_store_desc option" where
  "desc_b E i = qbt_target_desc (e_cfg E) (e_stores E) i"

definition c_string :: "string \<Rightarrow> byte list" where
  "c_string s = str_bytes s @ [0]"

section \<open>Resume and release\<close>

definition resume_update ::
  "('s, 'a) boot_env \<Rightarrow> qboot_store_desc \<Rightarrow> handle \<Rightarrow> u32 \<Rightarrow> string \<Rightarrow> handle \<Rightarrow> u32 \<Rightarrow> ('s, 'a) boot \<Rightarrow>
   (bool \<times> ('s, 'a) boot) option" where
  "resume_update E app_desc src src_size src_name dst dst_size b =
     do {
       (ok, b1) \<leftarrow> qbt_fw_check E src src_size (c_string src_name) b;
       if \<not> ok then Some (False, b1)
       else if \<not> product_ok E (g_fw_info b1) then Some (False, b1)
       else if \<not> rt_streq (part_name (g_fw_info b1)) (role_name app_desc) then Some (False, b1)
       else qbt_fw_update E dst dst_size src b1
     }"

definition qbt_app_resume_from ::
  "('s, 'a) boot_env \<Rightarrow> qbt_target_id \<Rightarrow> ('s, 'a) boot \<Rightarrow> (bool \<times> ('s, 'a) boot) option" where
  "qbt_app_resume_from E src_id b =
     (case desc_b E src_id of
        None \<Rightarrow> Some (False, b)
      | Some src_desc \<Rightarrow>
          (case open_b E src_id True QBT_OPEN_READ b of
             ((False, _, _), b1) \<Rightarrow> Some (False, b1)
           | ((True, src, src_size), b1) \<Rightarrow>
               (case desc_b E QBOOT_TARGET_APP of
                  None \<Rightarrow> Some (False, close_b E src b1)
                | Some app_desc \<Rightarrow>
                    (case open_b E QBOOT_TARGET_APP True (QBT_OPEN_WRITE OR QBT_OPEN_CREATE) b1 of
                       ((False, _, _), b2) \<Rightarrow> Some (False, close_b E src b2)
                     | ((True, dst, dst_size), b2) \<Rightarrow> do {
                         (rst, b3) \<leftarrow> resume_update E app_desc src src_size (role_name src_desc) dst dst_size b2;
                         Some (rst, close_b E dst (close_b E src b3))
                       }))))"

text \<open>
  The update of the target named in the header and the sign that follows, and the part between
  the opening of the source and the label \<open>exit\<close>: the result and the destination handle at that
  point.
\<close>

definition release_to ::
  "('s, 'a) boot_env \<Rightarrow> handle \<Rightarrow> qbt_target_id \<Rightarrow> ('s, 'a) boot \<Rightarrow> (bool \<times> handle \<times> ('s, 'a) boot) option" where
  "release_to E src dst_id b =
     (if dst_id \<ge> QBOOT_TARGET_COUNT then Some (False, H_NULL, b)
      else (case open_b E dst_id True (QBT_OPEN_WRITE OR QBT_OPEN_CREATE) b of
        ((False, dst, _), b1) \<Rightarrow> Some (False, dst, b1)
      | ((True, dst, dst_size), b1) \<Rightarrow> do {
          (done, b2) \<leftarrow> qbt_fw_update E dst dst_size src b1;
          if \<not> done then Some (False, dst, b2)
          else (case sign_check_b E src b2 of
              (True, b3) \<Rightarrow> Some (True, dst, b3)
            | (False, b3) \<Rightarrow> Some (True, dst, snd (sign_write_b E src b3)))
        }))"

definition release_update ::
  "('s, 'a) boot_env \<Rightarrow> bool \<Rightarrow> handle \<Rightarrow> u32 \<Rightarrow> string \<Rightarrow> ('s, 'a) boot \<Rightarrow>
   (bool \<times> handle \<times> ('s, 'a) boot) option" where
  "release_update E check_sign src src_size src_name b =
     do {
       (ok, b1) \<leftarrow> qbt_fw_check E src src_size (c_string src_name) b;
       if \<not> ok then Some (False, H_NULL, b1)
       else if \<not> product_ok E (g_fw_info b1) then Some (False, H_NULL, b1)
       else
         let (released, b2) = (if check_sign then sign_check_b E src b1 else (False, b1))
         in if released then Some (True, H_NULL, b2)
            else release_to E src (qbt_name_to_id (e_cfg E) (part_name (g_fw_info b2))) b2
     }"

definition qbt_release_from_part ::
  "('s, 'a) boot_env \<Rightarrow> qbt_target_id \<Rightarrow> bool \<Rightarrow> ('s, 'a) boot \<Rightarrow> (bool \<times> ('s, 'a) boot) option" where
  "qbt_release_from_part E src_id check_sign b =
     (case desc_b E src_id of
        None \<Rightarrow> Some (False, b)
      | Some src_desc \<Rightarrow>
          (case open_b E src_id True QBT_OPEN_READ b of
             ((False, _, _), b1) \<Rightarrow> Some (False, b1)
           | ((True, src, src_size), b1) \<Rightarrow> do {
               (rst, dst, b2) \<leftarrow> release_update E check_sign src src_size (role_name src_desc) b1;
               let b3 = (if dst \<noteq> H_NULL then close_b E dst b2 else b2);
               Some (rst, if src \<noteq> H_NULL then close_b E src b3 else b3)
             }))"

section \<open>The boot thread\<close>

text \<open>
  How the thread leaves: the application was started, the shell was, or the CPU was reset.
\<close>

datatype boot_outcome = App_started | Shell_started | Cpu_reset

text \<open>
  What the board gives: the result of the storage registration, the key, the console at its three
  places, the calls of the system's shell and what it is when the thread starts, the handlers
  other threads call while the manager polls, and whether the jump of the platform layer finds a
  legitimate application on the devices.
\<close>

record 's board =
  bd_register :: rt_err
  bd_pin :: "nat \<Rightarrow> bool"
  bd_shell :: "nat \<Rightarrow> shell_os"
  bd_finsh :: finsh_os
  bd_sys :: sys_shell
  bd_sched :: schedule
  bd_legit :: "'s \<Rightarrow> bool"

definition mgr_poll ::
  "('s, 'p) upd_env \<Rightarrow> schedule \<Rightarrow> ('s, 'a, 'p) boot_mgr \<Rightarrow> ('s, 'a, 'p) boot_mgr option" where
  "mgr_poll U sched x =
     (case x of (b, u) \<Rightarrow> do {
        u1 \<leftarrow> qbt_update_mgr_poll U sched (u\<lparr>u_dev := w_dev (b_world b)\<rparr>);
        Some (b\<lparr>s_dl_ok := dl_ok u1, b_world := (b_world b)\<lparr>w_dev := u_dev u1\<rparr>\<rparr>, u1)
      })"

definition notify_b ::
  "('s, 'a) boot_env \<Rightarrow> ('s, 'p) upd_env \<Rightarrow> bool \<Rightarrow> ('s, 'a, 'p) boot_mgr \<Rightarrow> ('s, 'a, 'p) boot_mgr" where
  "notify_b E U ok x = (if using_update_mgr (e_cfg E) then (fst x, qboot_notify_update_result ok U (snd x)) else x)"

definition jump_legit :: "'s board \<Rightarrow> ('s, 'a) boot \<Rightarrow> bool" where
  "jump_legit bd b = bd_legit bd (qbt_wdt_feed (w_dev (b_world b)))"

text \<open>The end of the thread: the shell when it starts, and the reset otherwise.\<close>

definition shell_or_reset ::
  "('s, 'a) boot_env \<Rightarrow> 's board \<Rightarrow> nat \<Rightarrow> shell_st \<Rightarrow> (boot_outcome \<times> shell_st) option" where
  "shell_or_reset E bd k x =
     (if using_shell (e_cfg E) then do {
        (started, y) \<leftarrow> qbt_startup_shell (bd_finsh bd) (bd_shell bd k) False x;
        Some (if started then Shell_started else Cpu_reset, y)
      }
      else Some (Cpu_reset, x))"

text \<open>Resume from a target and jump; \<open>None\<close> in the first place when the thread goes on.\<close>

definition resume_and_jump ::
  "('s, 'a) boot_env \<Rightarrow> 's board \<Rightarrow> qbt_target_id \<Rightarrow> ('s, 'a) boot \<Rightarrow> (bool \<times> ('s, 'a) boot) option" where
  "resume_and_jump E bd i b =
     do { (ok, b1) \<leftarrow> qbt_app_resume_from E i b; Some (ok \<and> jump_legit bd b1, b1) }"

definition boot_tail ::
  "('s, 'a) boot_env \<Rightarrow> ('s, 'p) upd_env \<Rightarrow> 's board \<Rightarrow> shell_st \<Rightarrow> ('s, 'a, 'p) boot_mgr \<Rightarrow>
   (boot_outcome \<times> shell_st \<times> ('s, 'a, 'p) boot_mgr) option" where
  "boot_tail E U bd sh x =
     do {
       (_, b1) \<leftarrow> qbt_release_from_part E QBOOT_TARGET_DOWNLOAD True (fst x);
       if jump_legit bd b1 then Some (App_started, sh, b1, snd x)
       else do {
         (j2, b2) \<leftarrow> resume_and_jump E bd QBOOT_TARGET_DOWNLOAD b1;
         if j2 then Some (App_started, sh, b2, snd x)
         else do {
           (j3, b3) \<leftarrow> resume_and_jump E bd QBOOT_TARGET_FACTORY b2;
           if j3 then Some (App_started, sh, b3, snd x)
           else do {
             let y = notify_b E U False (b3, snd x);
             (r, sh1) \<leftarrow> shell_or_reset E bd 2 sh;
             Some (r, sh1, y)
           }
         }
       }
     }"

definition qbt_thread_entry ::
  "('s, 'a) boot_env \<Rightarrow> ('s, 'p) upd_env \<Rightarrow> 's board \<Rightarrow> ('s, 'a, 'p) boot_mgr \<Rightarrow>
   (boot_outcome \<times> shell_st \<times> ('s, 'a, 'p) boot_mgr) option" where
  "qbt_thread_entry E U bd x =
     (let sh0 = shell_static (if using_shell (e_cfg E) then qbt_close_sys_shell (bd_finsh bd) (bd_sys bd) else bd_sys bd)
      in if bd_register bd \<noteq> RT_EOK then do { (r, sh1) \<leftarrow> shell_or_reset E bd 0 sh0; Some (r, sh1, x) }
         else do {
           (j, b) \<leftarrow> (if using_factory_key (e_cfg E) \<and> qbt_factory_key_check (bd_pin bd)
                      then resume_and_jump E bd QBOOT_TARGET_FACTORY (fst x) else Some (False, fst x));
           if j then Some (App_started, sh0, b, snd x)
           else do {
             (shell, sh) \<leftarrow> (if using_shell (e_cfg E) then qbt_startup_shell (bd_finsh bd) (bd_shell bd 1) True sh0
                             else Some (False, sh0));
             if shell then Some (Shell_started, sh, b, snd x)
             else do {
               y \<leftarrow> (if using_update_mgr (e_cfg E)
                     then do { z \<leftarrow> mgr_poll U (bd_sched bd) (b, snd x); Some (notify_b E U True z) }
                     else Some (b, snd x));
               boot_tail E U bd sh y
             }
           }
         })"

text \<open>\<open>qbt_startup\<close>: whether the thread is created depends on the algorithm startup.\<close>

definition qbt_startup ::
  "qboot_cfg \<Rightarrow> ('q, 'z, 'k) alg_libs \<Rightarrow> bool \<Rightarrow> ('q, 'z, 'k) alg_state algo_tables \<Rightarrow>
   rt_err \<times> bool \<times> ('q, 'z, 'k) alg_state algo_tables" where
  "qbt_startup c L created t =
     (case qbot_algo_startup c L t of
        (e, t1) \<Rightarrow> if e \<noteq> RT_EOK then (RT_ERROR, False, t1)
                   else if \<not> created then (RT_ERROR, False, t1) else (RT_EOK, True, t1))"

section \<open>Shell commands\<close>

record ('s, 'a) clone_loc =
  c_pos :: u32
  c_world :: "('s, 'a) world"

definition clone_body ::
  "('s, 'a) boot_env \<Rightarrow> handle \<Rightarrow> handle \<Rightarrow> u32 \<Rightarrow> ('s, 'a) clone_loc \<Rightarrow>
   (('s, 'a) clone_loc, bool \<times> ('s, 'a) world) iter option" where
  "clone_body E dst src n x =
     (if \<not> c_pos x < n then Some (Stop (True, c_world x))
      else let read_len = chunk_len (n - c_pos x) in do {
        (e, w) \<leftarrow> dev_read_to (e_io E) src (c_pos x) (B_CMPRS, 0) read_len (c_world x);
        if e \<noteq> RT_EOK then Some (Stop (False, w))
        else do {
          bs \<leftarrow> mem_read B_CMPRS 0 (unat read_len) (w_mem w);
          (case io_write (e_io E) dst (c_pos x) bs (w_dev w) of
             (e2, s2) \<Rightarrow>
               let w2 = w\<lparr>w_dev := s2\<rparr>
               in if e2 \<noteq> RT_EOK then Some (Stop (False, w2))
                  else Some (Again \<lparr>c_pos = c_pos x + read_len, c_world = w2\<rparr>))
        }
      })"

definition qbt_fw_clone ::
  "('s, 'a) boot_env \<Rightarrow> handle \<Rightarrow> handle \<Rightarrow> u32 \<Rightarrow> ('s, 'a) world \<Rightarrow> (bool \<times> ('s, 'a) world) option" where
  "qbt_fw_clone E dst src n w =
     (case erase_w (e_io E) dst 0 n w of
        (e, w1) \<Rightarrow> if e \<noteq> RT_EOK then Some (False, w1)
                   else run_loop (clone_body E dst src n) \<lparr>c_pos = 0, c_world = w1\<rparr>)"

text \<open>
  The information shown dereferences both operation tables, whether or not the package's
  algorithms are known: with a null one the function is undefined.
\<close>

definition qbt_fw_info_show ::
  "('s, 'a) boot_env \<Rightarrow> qbt_target_id \<Rightarrow> ('s, 'a) boot \<Rightarrow> ('s, 'a) boot option" where
  "qbt_fw_info_show E i b =
     (case desc_b E i of
        None \<Rightarrow> Some b
      | Some desc \<Rightarrow>
          (case open_b E i True QBT_OPEN_READ b of
             ((False, _, _), b1) \<Rightarrow> Some b1
           | ((True, h, n), b1) \<Rightarrow> do {
               (ok, b2) \<leftarrow> qbt_fw_check E h n (c_string (role_name desc)) b1;
               if \<not> ok then Some (close_b E h b2)
               else
                 let (_, ctx) = qbt_fw_get_algo_context (e_tables E) (g_fw_info b2)
                 in if crypt_ops ctx = None \<or> cmprs_ops ctx = None then None
                    else Some (close_b E h b2)
             }))"

definition qbt_fw_delete :: "('s, 'a) boot_env \<Rightarrow> handle \<Rightarrow> u32 \<Rightarrow> ('s, 'a) boot \<Rightarrow> bool \<times> ('s, 'a) boot" where
  "qbt_fw_delete E h n b =
     (case erase_w (e_io E) h 0 n (b_world b) of (e, w) \<Rightarrow> (e = RT_EOK, b\<lparr>b_world := w\<rparr>))"

text \<open>The commands built in.\<close>

record shell_cmds =
  cmd_probe :: bool
  cmd_resume :: bool
  cmd_clone :: bool
  cmd_release :: bool
  cmd_verify :: bool
  cmd_del :: bool
  cmd_jump :: bool
  cmd_reason :: bool

definition clone_cmd ::
  "('s, 'a) boot_env \<Rightarrow> byte list \<Rightarrow> byte list \<Rightarrow> ('s, 'a) boot \<Rightarrow> ('s, 'a) boot option" where
  "clone_cmd E src dst b =
     (let dst_id = qbt_name_to_id (e_cfg E) dst; src_id = qbt_name_to_id (e_cfg E) src
      in if dst_id \<ge> QBOOT_TARGET_COUNT then Some b
         else (case open_b E dst_id False (QBT_OPEN_WRITE OR QBT_OPEN_CREATE) b of
           ((False, _, _), b1) \<Rightarrow> Some b1
         | ((True, dh, _), b1) \<Rightarrow>
             if src_id \<ge> QBOOT_TARGET_COUNT then Some (close_b E dh b1)
             else (case open_b E src_id True QBT_OPEN_READ b1 of
               ((False, _, _), b2) \<Rightarrow> Some (close_b E dh b2)
             | ((True, sh, n), b2) \<Rightarrow> do {
                 (ok, b3) \<leftarrow> qbt_fw_check E sh n src b2;
                 if \<not> ok then Some (close_b E dh (close_b E sh b3))
                 else do {
                   (_, w) \<leftarrow> qbt_fw_clone E dh sh (qboot_src_read_pos (e_cfg E) + pkg_size (g_fw_info b3)) (b_world b3);
                   Some (close_b E dh (close_b E sh (b3\<lparr>b_world := w\<rparr>)))
                 }
               })))"

definition verify_cmd :: "('s, 'a) boot_env \<Rightarrow> byte list \<Rightarrow> ('s, 'a) boot \<Rightarrow> ('s, 'a) boot option" where
  "verify_cmd E name b =
     (let i = qbt_name_to_id (e_cfg E) name
      in if i \<ge> QBOOT_TARGET_COUNT then Some b
         else (case open_b E i True QBT_OPEN_READ b of
           ((False, _, _), b1) \<Rightarrow> Some b1
         | ((True, h, n), b1) \<Rightarrow> do { (_, b2) \<leftarrow> qbt_dest_part_verify E h n b1; Some (close_b E h b2) }))"

definition del_cmd :: "('s, 'a) boot_env \<Rightarrow> byte list \<Rightarrow> ('s, 'a) boot \<Rightarrow> ('s, 'a) boot" where
  "del_cmd E name b =
     (let i = qbt_name_to_id (e_cfg E) name
      in if i \<ge> QBOOT_TARGET_COUNT then b
         else (case open_b E i True QBT_OPEN_WRITE b of
           ((False, _, _), b1) \<Rightarrow> b1
         | ((True, h, n), b1) \<Rightarrow> close_b E h (snd (qbt_fw_delete E h n b1))))"

text \<open>
  The arguments after the command word \<open>qboot\<close>, each with its NUL. The result says whether the
  jump command left the bootloader.
\<close>

definition qbt_shell_cmd ::
  "('s, 'a) boot_env \<Rightarrow> ('s, 'p) upd_env \<Rightarrow> 's board \<Rightarrow> shell_cmds \<Rightarrow> byte list list \<Rightarrow>
   ('s, 'a, 'p) boot_mgr \<Rightarrow> (bool \<times> ('s, 'a, 'p) boot_mgr) option" where
  "qbt_shell_cmd E U bd K args x =
     (case args of
        [] \<Rightarrow> Some (False, x)
      | cmd # rest \<Rightarrow>
          let stay = (\<lambda>r. map_option (\<lambda>b. (False, b, snd x)) r); b = fst x
          in if cmd_probe K \<and> rt_streq cmd ''probe'' then
               stay (do { b1 \<leftarrow> qbt_fw_info_show E QBOOT_TARGET_DOWNLOAD b; qbt_fw_info_show E QBOOT_TARGET_FACTORY b1 })
             else if cmd_resume K \<and> rt_streq cmd ''resume'' then
               (case rest of [] \<Rightarrow> stay (Some b) | src # _ \<Rightarrow>
                  let i = qbt_name_to_id (e_cfg E) src
                  in if i < QBOOT_TARGET_COUNT then stay (map_option snd (qbt_app_resume_from E i b)) else stay (Some b))
             else if cmd_clone K \<and> rt_streq cmd ''clone'' then
               (case rest of src # dst # _ \<Rightarrow> stay (clone_cmd E src dst b) | _ \<Rightarrow> stay (Some b))
             else if cmd_release K \<and> rt_streq cmd ''release'' then
               (case rest of [] \<Rightarrow> stay (Some b) | name # _ \<Rightarrow>
                  let i = qbt_name_to_id (e_cfg E) name
                  in if i < QBOOT_TARGET_COUNT then stay (map_option snd (qbt_release_from_part E i False b))
                     else stay (Some b))
             else if cmd_verify K \<and> rt_streq cmd ''verify'' then
               (case rest of [] \<Rightarrow> stay (Some b) | name # _ \<Rightarrow> stay (verify_cmd E name b))
             else if cmd_del K \<and> rt_streq cmd ''del'' then
               (case rest of [] \<Rightarrow> stay (Some b) | name # _ \<Rightarrow> stay (Some (del_cmd E name b)))
             else if cmd_jump K \<and> rt_streq cmd ''jump'' then Some (jump_legit bd b, x)
             else if cmd_reason K \<and> rt_streq cmd ''reason'' then
               Some (False, b, snd (qboot_reason_cmd (map (takeWhile (\<lambda>c. c \<noteq> 0)) rest) U (snd x)))
             else Some (False, x))"

end
