(* ===== verification/Qboot_Install.thy ===== *)
theory Qboot_Install
  imports Qboot_Boot Qboot_Instance
begin

text \<open>
  What the boot flow achieves on devices whose targets are always there, as with the custom and
  the FAL backend: the image of a valid package is installed, marked as released and not installed
  again, and copies are exact.
\<close>

section \<open>Targets\<close>

text \<open>
  Whether the package in a target is valid and for this product, whether it has an image that
  fits the target \<open>dst\<close>, whether its sign is set, and whether the sign lies behind the package
  and inside the source.
\<close>

definition good_package ::
  "('s \<Rightarrow> handle \<Rightarrow> dev_view) \<Rightarrow> ('s, ('q, 'z, 'k) alg_state) boot_env \<Rightarrow> ('q, 'z, 'k) alg_libs \<Rightarrow> 's \<Rightarrow> handle \<Rightarrow> bool" where
  "good_package view E L s src \<longleftrightarrow> product_ok E (header_of view s src) \<and>
     (case image_of view (e_cfg E) L s src of None \<Rightarrow> False | Some raw \<Rightarrow> package_ok view E s src (header_of view s src) raw)"

text \<open>
  A source a package can be taken from: once its header has a valid checksum the package lies in
  it, and once its body has one too, the package has an image that fits the target \<open>dst\<close>. Blank
  flash and damaged headers are such sources.
\<close>

definition sound_source ::
  "('s \<Rightarrow> handle \<Rightarrow> dev_view) \<Rightarrow> (handle \<Rightarrow> nat) \<Rightarrow> ('s, ('q, 'z, 'k) alg_state) boot_env \<Rightarrow> ('q, 'z, 'k) alg_libs \<Rightarrow>
   's \<Rightarrow> handle \<Rightarrow> handle \<Rightarrow> bool" where
  "sound_source view dev_size E L s src dst \<longleftrightarrow> 96 \<le> dev_size src \<and>
     (let fw = header_of view s src in qbt_fw_info_check E fw \<longrightarrow>
        fits dev_size src fw \<and>
        (e_cal E (body_of view s src fw) = pkg_crc fw \<longrightarrow> image_of view (e_cfg E) L s src \<noteq> None \<and>
           unat (raw_size fw) < 2147483648 \<and> unat (raw_size fw) + 96 \<le> dev_size dst))"

text \<open>A plain package with room on both sides makes one.\<close>

lemma plain_sound:
  assumes "plain_fw (header_of view s src)" and "fits dev_size src (header_of view s src)"
    and "unat (raw_size (header_of view s src)) + 96 \<le> dev_size dst"
  shows "image_of view c L s src = Some (body_of view s src (header_of view s src))"
    and "sound_source view dev_size E L s src dst"
proof -
  show i: "image_of view c L s src = Some (body_of view s src (header_of view s src))" for c
    unfolding image_of_def by (rule plain_image [OF assms(1)]) (simp add: body_of_def)
  show "sound_source view dev_size E L s src dst"
    using assms i by (simp add: sound_source_def plain_fw_def fits_def Let_def)
qed

text \<open>All of this depends on what the source holds only.\<close>

lemma source_view:
  assumes "view s src = view s' src"
  shows "header_of view s src = header_of view s' src" and "body_of view s src fw = body_of view s' src fw"
    and "image_of view c L s src = image_of view c L s' src"
    and "package_ok view E s src fw raw = package_ok view E s' src fw raw"
    and "good_package view E L s src = good_package view E L s' src"
    and "sound_source view dev_size E L s src dst = sound_source view dev_size E L s' src dst"
  proof -
  show h: "header_of view s src = header_of view s' src" and b: "body_of view s src fw = body_of view s' src fw" for fw
    by (simp_all add: header_of_def body_of_def assms)
  then show i: "image_of view c L s src = image_of view c L s' src"
    and p: "package_ok view E s src fw raw = package_ok view E s' src fw raw" for c fw raw
    by (simp_all add: image_of_def package_ok_def)
  show "good_package view E L s src = good_package view E L s' src"
    and "sound_source view dev_size E L s src dst = sound_source view dev_size E L s' src dst"
    by (simp_all add: good_package_def sound_source_def h b i p cong: option.case_cong)
qed

definition sign_at :: "qboot_cfg \<Rightarrow> fw_info_t \<Rightarrow> nat" where
  "sign_at c fw = unat (release_sign_pos c fw)"

definition signed :: "('s \<Rightarrow> handle \<Rightarrow> dev_view) \<Rightarrow> qboot_cfg \<Rightarrow> 's \<Rightarrow> handle \<Rightarrow> bool" where
  "signed view c s src \<longleftrightarrow>
     of_le32 (cells (v_cell (view s src)) (sign_at c (header_of view s src)) 4) = QBOOT_RELEASE_SIGN_WORD"

definition sign_fits :: "qboot_cfg \<Rightarrow> (handle \<Rightarrow> nat) \<Rightarrow> handle \<Rightarrow> fw_info_t \<Rightarrow> bool" where
  "sign_fits c dev_size src fw \<longleftrightarrow> 96 + unat (pkg_size fw) + unat (sign_align c) \<le> 4294967296 \<and>
     sign_at c fw + 4 \<le> dev_size src"

text \<open>A package a release installs in \<open>dst\<close> and can mark: its sign is set, or its place blank.\<close>

definition releasable ::
  "('s \<Rightarrow> handle \<Rightarrow> dev_view) \<Rightarrow> (handle \<Rightarrow> nat) \<Rightarrow> qboot_cfg \<Rightarrow> 's \<Rightarrow> handle \<Rightarrow> qbt_target_id \<Rightarrow> bool" where
  "releasable view dev_size c s src dst \<longleftrightarrow> qbt_name_to_id c (part_name (header_of view s src)) = dst \<and>
     sign_fits c dev_size src (header_of view s src) \<and>
     (\<not> signed view c s src \<longrightarrow> ready_range (view s src) (sign_at c (header_of view s src)) 4)"

text \<open>
  Each target has a fixed handle; opening, closing and asking for the size change no device.
\<close>

locale target_handles = boot_dev io view dev_size crc cal E
  for io :: "'s qboot_io_ops" and view and dev_size and crc :: crc_fn and cal and E :: "('s, 'a) boot_env" +
  fixes th :: "qbt_target_id \<Rightarrow> handle"
  assumes open_th: "qbt_target_desc (e_cfg E) (e_stores E) i = Some d \<Longrightarrow>
      \<exists>s'. io_open io i fl s = (Inr (th i), s') \<and> view s' = view s"
    and size_th: "qbt_target_desc (e_cfg E) (e_stores E) i = Some d \<Longrightarrow>
      \<exists>n s'. io_size io (th i) s = (Inr n, s') \<and> unat n = dev_size (th i)"
    and close_view: "view (snd (io_close io h s)) = view s"
    and th_open: "qbt_target_desc (e_cfg E) (e_stores E) i = Some d \<Longrightarrow> v_open (view s (th i))"
    and th_inj: "th i = th j \<Longrightarrow> i = j" and th_null: "th i \<noteq> H_NULL"
begin

abbreviation "dev b \<equiv> view (w_dev (b_world b))"

lemma open_b_th:
  assumes "desc_b E i = Some d"
  obtains n b' where "open_b E i True fl b = ((True, th i, n), b')" "unat n = dev_size (th i)"
    "dev b' = dev b" "g_fw_info b' = g_fw_info b" "w_mem (b_world b') = w_mem (b_world b)" "s_dl_ok b' = s_dl_ok b"
proof -
  note d = assms [unfolded desc_b_def]
  obtain s1 where o: "io_open io i fl (w_dev (b_world b)) = (Inr (th i), s1)" "view s1 = dev b"
    using open_th [OF d] by blast
  obtain n s2 where z: "io_size io (th i) s1 = (Inr n, s2)" "unat n = dev_size (th i)"
    using size_th [OF d] by blast
  have "view s2 = view s1" using size_view [OF th_open [OF d] z(1)] .
  then show ?thesis
    by (intro that [of n "b\<lparr>b_world := (b_world b)\<lparr>w_dev := s2\<rparr>\<rparr>"])
      (use o z in \<open>simp_all add: open_b_def qbt_target_open_def env_io\<close>)
qed

lemma close_b_fields [simp]:
  "dev (close_b E h b) = dev b" "g_fw_info (close_b E h b) = g_fw_info b"
  "w_mem (b_world (close_b E h b)) = w_mem (b_world b)" "s_dl_ok (close_b E h b) = s_dl_ok b"
  by (simp_all add: close_b_def qbt_target_close_def env_io close_view)

lemma desc_below: "desc_b E i = Some d \<Longrightarrow> \<not> i \<ge> QBOOT_TARGET_COUNT"
  unfolding desc_b_def by (erule target_desc_cases) simp_all

end

locale flash_targets = boot_pkg io view dev_size crc cal E L + target_handles io view dev_size crc cal E th
  for io :: "'s qboot_io_ops" and view and dev_size and crc and cal and
    E :: "('s, ('q, 'z, 'k) alg_state) boot_env" and L and th
begin

abbreviation "sound \<equiv> sound_source view dev_size E L"
abbreviation "img s src \<equiv> the (image_of view cf L s src)"

lemma header_wf [simp]: "wf_fw_info (header_of view s src)"
  by (simp add: header_of_def sizeof_fw_info_def)

lemma sound_good:
  assumes "sound s src dst" and "fw = header_of view s src"
  shows "good_package view E L s src \<longleftrightarrow> package_ok view E s src fw (img s src) \<and> product_ok E fw"
  using assms by (auto simp: sound_source_def good_package_def package_ok_def Let_def split: option.splits)

lemma sound_image:
  assumes "sound s src dst" and "fw = header_of view s src" and "package_ok view E s src fw (img s src)"
  shows "package_image cf L fw (body_of view s src fw) = Some (img s src)" and "fits dev_size src fw"
    and "unat (raw_size fw) < 2147483648"
    and "unat n = dev_size dst \<Longrightarrow> room_for dev_size dst n fw"
  using assms by (auto simp: sound_source_def image_of_def package_ok_def room_for_def Let_def)

text \<open>The check and the update of an open pair, as the boot flow calls them.\<close>

lemma check_th:
  assumes "v_open (dev b src)" and "wf_fw_info (g_fw_info b)" and "wf_mem cf (w_mem (b_world b))"
    and w: "sound s src dst" and v: "dev b = view s" and fw: "fw = header_of view s src"
  obtains b' where
    "qbt_fw_check E src n name b = Some (package_ok view E s src fw (img s src), b')"
    "g_fw_info b' = fw" "s_dl_ok b' = s_dl_ok b" "dev b' = view s" "wf_mem cf (w_mem (b_world b'))"
proof -
  note sv = source_view [of view "w_dev (b_world b)" src s, OF fun_cong [OF v]]
  have h: "fw = header_of view (w_dev (b_world b)) src" unfolding sv(1) by (rule fw)
  have fit: "96 \<le> dev_size src" using w by (simp add: sound_source_def Let_def)
  have f: "fits dev_size src fw" if "qbt_fw_info_check E fw"
    using w that fw by (simp add: sound_source_def Let_def)
  have im: "package_image cf L fw (body_of view (w_dev (b_world b)) src fw) = Some (img s src)"
    if "qbt_fw_info_check E fw" "cal (body_of view (w_dev (b_world b)) src fw) = pkg_crc fw"
    using w that fw unfolding sv(2) by (auto simp: sound_source_def image_of_def env_cal Let_def)
  show ?thesis
    by (rule fw_check_image [OF assms(1) fit assms(2,3) h f im]) (assumption+, rule that, simp_all add: sv v)
qed

lemma installed_view: "view s = view s' \<Longrightarrow> installed view s dst n fw body = installed view s' dst n fw body"
  by (simp add: installed_def)

text \<open>Resuming the application from another target.\<close>

lemma resume_exact:
  assumes d: "desc_b E src = Some sd" "desc_b E QBOOT_TARGET_APP = Some ad" and ne: "src \<noteq> QBOOT_TARGET_APP"
    and wf: "wf_fw_info (g_fw_info b)" "wf_mem cf (w_mem (b_world b))"
    and p: "sound (w_dev (b_world b)) (th src) (th QBOOT_TARGET_APP)"
  defines "s \<equiv> w_dev (b_world b)" and "fw \<equiv> header_of view (w_dev (b_world b)) (th src)"
  defines "ok \<equiv> good_package view E L s (th src) \<and> rt_streq (part_name fw) QBOOT_APP_PART_NAME"
  shows "\<exists>b'. qbt_app_resume_from E src b = Some (ok, b') \<and> wf_mem cf (w_mem (b_world b')) \<and>
    wf_fw_info (g_fw_info b') \<and>
    (\<forall>h. h \<noteq> th QBOOT_TARGET_APP \<longrightarrow> dev b' h = view s h) \<and>
    (\<not> ok \<longrightarrow> dev b' = view s) \<and>
    (ok \<longrightarrow> installed view (w_dev (b_world b')) (th QBOOT_TARGET_APP) (of_nat (dev_size (th QBOOT_TARGET_APP)))
      fw (img s (th src)))"
proof -
  let ?app = "QBOOT_TARGET_APP"
  obtain n b1 where o1: "open_b E src True QBT_OPEN_READ b = ((True, th src, n), b1)" "unat n = dev_size (th src)"
    "dev b1 = dev b" "g_fw_info b1 = g_fw_info b" "w_mem (b_world b1) = w_mem (b_world b)" "s_dl_ok b1 = s_dl_ok b"
    by (rule open_b_th [OF d(1)]) (rule that)
  obtain m b2 where o2: "open_b E ?app True (QBT_OPEN_WRITE OR QBT_OPEN_CREATE) b1 = ((True, th ?app, m), b2)"
    "unat m = dev_size (th ?app)" "dev b2 = dev b1" "g_fw_info b2 = g_fw_info b1"
    "w_mem (b_world b2) = w_mem (b_world b1)" "s_dl_ok b2 = s_dl_ok b1"
    by (rule open_b_th [OF d(2)]) (rule that)
  have v2: "dev b2 = view s" using o1(3) o2(3) by (simp add: s_def)
  have fw: "fw = header_of view s (th src)" by (simp add: fw_def s_def)
  note p2 = p [folded s_def]
  have so: "v_open (dev x (th src))" and ao: "v_open (dev x (th ?app))" for x :: "('s, ('q, 'z, 'k) alg_state) boot"
    using th_open d by (simp_all add: desc_b_def)
  have wf2: "wf_fw_info (g_fw_info b2)" "wf_mem cf (w_mem (b_world b2))" using wf o1 o2 by simp_all
  obtain b3 where c: "qbt_fw_check E (th src) n (c_string (role_name sd)) b2 =
      Some (package_ok view E s (th src) fw (img s (th src)), b3)"
    "g_fw_info b3 = fw" "s_dl_ok b3 = s_dl_ok b2" "dev b3 = view s" "wf_mem cf (w_mem (b_world b3))"
    by (rule check_th [OF so wf2 p2 v2 fw]) (rule that)
  have role: "role_name ad = QBOOT_APP_PART_NAME"
    using d(2) unfolding desc_b_def by (rule target_desc_cases) simp_all
  have okd: "ok \<longleftrightarrow> package_ok view E s (th src) fw (img s (th src)) \<and> product_ok E fw \<and>
      rt_streq (part_name fw) QBOOT_APP_PART_NAME"
    unfolding ok_def sound_good [OF p2 fw] by blast
  have wff: "wf_fw_info fw" by (simp add: fw_def)
  show ?thesis
  proof (cases ok)
    case False
    have "resume_update E ad (th src) n (role_name sd) (th ?app) m b2 = Some (False, b3)"
      using c(1,2) False okd by (auto simp: resume_update_def role)
    then have "qbt_app_resume_from E src b = Some (False, close_b E (th ?app) (close_b E (th src) b3))"
      using d o1(1) o2(1) by (simp add: qbt_app_resume_from_def)
    with False c(2,4,5) wff show ?thesis
      by (intro exI [of _ "close_b E (th ?app) (close_b E (th src) b3)"]) simp
  next
    case True
    note sv = source_view [of view "w_dev (b_world b3)" "th src" s, OF fun_cong [OF c(4)]]
    have ok2: "package_ok view E s (th src) fw (img s (th src))" using True okd by blast
    then have ok3: "package_ok view E (w_dev (b_world b3)) (th src) fw (img s (th src))" using sv(4) by blast
    note i = sound_image [OF p2 fw ok2]
    have im: "package_image cf L fw (body_of view (w_dev (b_world b3)) (th src) fw) = Some (img s (th src))"
      unfolding sv(2) by (rule i(1))
    have r: "room_for dev_size (th ?app) m fw" by (rule i(4) [OF o2(2)])
    have sd: "th src \<noteq> th ?app" using th_inj ne by blast
    obtain b4 where u: "qbt_fw_update E (th ?app) m (th src) b3 = Some (True, b4)" "g_fw_info b4 = fw"
      "wf_mem cf (w_mem (b_world b4))" "installed view (w_dev (b_world b4)) (th ?app) m fw (img s (th src))"
      "\<And>h. h \<noteq> th ?app \<Longrightarrow> dev b4 h = dev b3 h" "v_open (dev b4 (th ?app))"
      by (rule update_image [OF c(2) [symmetric] im i(2) r i(3) wff sd so ao c(5) ok3]) (rule that)
    have "resume_update E ad (th src) n (role_name sd) (th ?app) m b2 = Some (True, b4)"
      using c(1,2) True okd u(1) by (simp add: resume_update_def role)
    then have e: "qbt_app_resume_from E src b = Some (ok, close_b E (th ?app) (close_b E (th src) b4))"
      using d o1(1) o2(1) True by (simp add: qbt_app_resume_from_def)
    have m: "of_nat (dev_size (th ?app)) = m" using o2(2) by (metis u32_of_nat_unat)
    have inst: "installed view (w_dev (b_world (close_b E (th ?app) (close_b E (th src) b4)))) (th ?app) m fw (img s (th src))"
      using u(4) by (simp add: installed_def)
    show ?thesis
      using e u(2,3,5) inst True c(4) wff m by (intro exI [of _ "close_b E (th ?app) (close_b E (th src) b4)"]) simp
  qed
qed

end

section \<open>Release and the sign\<close>

locale flash_release = flash_targets io view dev_size crc cal E L th + sign_storage io view dev_size "e_cfg E" p
  for io :: "'s qboot_io_ops" and view and dev_size and crc and cal and
    E :: "('s, ('q, 'z, 'k) alg_state) boot_env" and L and th and p +
  assumes env_parser: "e_parser E = p" and align: "pow2 (sign_align (e_cfg E))"
begin

lemma sign_behind:
  assumes "sign_fits cf dev_size src fw"
  shows "96 + unat (pkg_size fw) \<le> sign_at cf fw"
proof -
  have "unat (qboot_src_read_pos cf) + unat (pkg_size fw) + unat (sign_align cf) \<le> 4294967296"
    using assms by (simp add: sign_fits_def)
  from release_sign_pos_unat [OF align this] show ?thesis
    using blk_up_ge [of "unat (sign_align cf)" "96 + unat (pkg_size fw)"] pow2_pos [OF align]
    by (simp add: sign_at_def)
qed

lemma sign_check_b_view:
  assumes "v_open (dev b src)"
  obtains r b' where "sign_check_b E src b = (r, b')" "dev b' = dev b" "g_fw_info b' = g_fw_info b"
    "w_mem (b_world b') = w_mem (b_world b)" "s_dl_ok b' = s_dl_ok b"
    "sign_at cf (g_fw_info b) + 4 \<le> dev_size src \<Longrightarrow>
      r \<longleftrightarrow> of_le32 (cells (v_cell (dev b src)) (sign_at cf (g_fw_info b)) 4) = QBOOT_RELEASE_SIGN_WORD"
proof -
  obtain r s where c: "qbt_release_sign_check p src (g_fw_info b) (w_dev (b_world b)) = (r, s)" by fastforce
  show ?thesis
    by (rule that [of r "b\<lparr>b_world := (b_world b)\<lparr>w_dev := s\<rparr>\<rparr>"])
      (use c sign_check_view [OF assms c] sign_check_iff [OF assms, of "g_fw_info b"] in
        \<open>simp_all add: sign_check_b_def env_parser sign_at_def\<close>)
qed

lemma sign_write_b_effect:
  assumes o: "v_open (dev b src)" and fit: "sign_at cf (g_fw_info b) + 4 \<le> dev_size src"
    and rdy: "ready_range (dev b src) (sign_at cf (g_fw_info b)) 4"
  obtains b' where "snd (sign_write_b E src b) = b'" "g_fw_info b' = g_fw_info b"
    "w_mem (b_world b') = w_mem (b_world b)"
    "v_cell (dev b' src) = splice (sign_at cf (g_fw_info b)) (le32 QBOOT_RELEASE_SIGN_WORD) (v_cell (dev b src))"
    "\<And>h. h \<noteq> src \<Longrightarrow> dev b' h = dev b h"
proof -
  obtain ok s where w: "qbt_release_sign_write p src (g_fw_info b) (w_dev (b_world b)) = (ok, s)" by fastforce
  note rf = o fit [unfolded sign_at_def] rdy [unfolded sign_at_def]
  have "ok" by (rule sign_write_check(1) [OF rf w])
  with w have w': "qbt_release_sign_write p src (g_fw_info b) (w_dev (b_world b)) = (True, s)" by simp
  have io: "io_write io src (release_sign_pos cf (g_fw_info b)) (le32 QBOOT_RELEASE_SIGN_WORD) (w_dev (b_world b)) = (RT_EOK, s)"
    using w' by (auto simp: qbt_release_sign_write_def sign_write_io split: prod.splits if_splits)
  show ?thesis
    by (rule that [of "b\<lparr>b_world := (b_world b)\<lparr>w_dev := s\<rparr>\<rparr>"])
      (use w' sign_write_effect(1) [OF o w' rf(3)] write_other [OF o io] in
        \<open>simp_all add: sign_write_b_def env_parser sign_at_def\<close>)
qed

text \<open>The sign word in the cells behind the package touches neither header nor body.\<close>

lemma sign_splice_keeps:
  assumes "v_cell (view s' src) = splice (sign_at cf fw) (le32 QBOOT_RELEASE_SIGN_WORD) (v_cell (view s src))"
    and "fw = header_of view s src" and "sign_fits cf dev_size src fw"
  shows "header_of view s' src = fw" and "body_of view s' src fw = body_of view s src fw" and "signed view cf s' src"
proof -
  have at: "96 + unat (pkg_size fw) \<le> sign_at cf fw" by (rule sign_behind [OF assms(3)])
  show h: "header_of view s' src = fw"
    using cells_splice_disjoint [of "sign_at cf fw" "le32 QBOOT_RELEASE_SIGN_WORD" 0 96] at
    by (simp add: header_of_def assms(1)) (simp add: assms(2) header_of_def)
  show "body_of view s' src fw = body_of view s src fw"
    using cells_splice_disjoint [of "sign_at cf fw" "le32 QBOOT_RELEASE_SIGN_WORD" 96 "unat (pkg_size fw)"] at
    by (simp add: body_of_def assms(1))
  show "signed view cf s' src"
    using cells_splice_same [of "sign_at cf fw" "le32 QBOOT_RELEASE_SIGN_WORD"]
    by (simp add: signed_def h assms(1))
qed

text \<open>The update of a target with a valid package, and the sign that follows.\<close>

lemma release_to_exact:
  assumes d: "desc_b E src = Some sd" "desc_b E dst = Some dd" and ne: "src \<noteq> dst"
    and v: "dev b = view s" and fw: "fw = header_of view s (th src)" "fw = g_fw_info b"
    and wf: "wf_mem cf (w_mem (b_world b))"
    and p: "sound s (th src) (th dst)" and sf: "sign_fits cf dev_size (th src) fw"
    and ok: "package_ok view E s (th src) fw (img s (th src))"
    and rdy: "\<not> signed view cf s (th src) \<Longrightarrow> ready_range (view s (th src)) (sign_at cf fw) 4"
  obtains b' where "release_to E (th src) dst b = Some (True, th dst, b')"
    "wf_mem cf (w_mem (b_world b'))" "g_fw_info b' = fw"
    "installed view (w_dev (b_world b')) (th dst) (of_nat (dev_size (th dst))) fw (img s (th src))"
    "signed view cf (w_dev (b_world b')) (th src)" "header_of view (w_dev (b_world b')) (th src) = fw"
    "body_of view (w_dev (b_world b')) (th src) fw = body_of view s (th src) fw"
    "\<And>h. h \<noteq> th src \<Longrightarrow> h \<noteq> th dst \<Longrightarrow> dev b' h = view s h"
proof -
  have so: "v_open (view x (th src))" and ao: "v_open (view x (th dst))" for x
    using th_open d(1,2) by (simp_all add: desc_b_def)
  have fit: "sign_at cf fw + 4 \<le> dev_size (th src)" using sf by (simp add: sign_fits_def)
  obtain m b1 where o: "open_b E dst True (QBT_OPEN_WRITE OR QBT_OPEN_CREATE) b = ((True, th dst, m), b1)"
    "unat m = dev_size (th dst)" "dev b1 = dev b" "g_fw_info b1 = g_fw_info b"
    "w_mem (b_world b1) = w_mem (b_world b)" "s_dl_ok b1 = s_dl_ok b"
    by (rule open_b_th [OF d(2)]) (rule that)
  note i = sound_image [OF p fw(1) ok]
  have rm: "room_for dev_size (th dst) m fw" by (rule i(4) [OF o(2)])
  have wff: "wf_fw_info fw" by (simp add: fw(1))
  have g1: "fw = g_fw_info b1" and m1: "wf_mem cf (w_mem (b_world b1))" using o fw(2) wf by simp_all
  have sd: "th src \<noteq> th dst" using th_inj ne by blast
  have v1: "dev b1 (th src) = view s (th src)" by (simp add: o(3) v)
  note sv = source_view [of view "w_dev (b_world b1)" "th src" s, OF v1]
  have im: "package_image cf L fw (body_of view (w_dev (b_world b1)) (th src) fw) = Some (img s (th src))"
    unfolding sv(2) by (rule i(1))
  have ok1: "package_ok view E (w_dev (b_world b1)) (th src) fw (img s (th src))" unfolding sv(4) by (rule ok)
  obtain b2 where u: "qbt_fw_update E (th dst) m (th src) b1 = Some (True, b2)" "g_fw_info b2 = fw"
    "wf_mem cf (w_mem (b_world b2))" "installed view (w_dev (b_world b2)) (th dst) m fw (img s (th src))"
    "\<And>h. h \<noteq> th dst \<Longrightarrow> dev b2 h = dev b1 h" "v_open (dev b2 (th dst))"
    by (rule update_image [OF g1 im i(2) rm i(3) wff sd so ao m1 ok1]) (rule that)
  have src2: "dev b2 (th src) = view s (th src)" using u(5) [OF sd] v1 by simp
  obtain q b3 where c: "sign_check_b E (th src) b2 = (q, b3)" "dev b3 = dev b2" "g_fw_info b3 = g_fw_info b2"
    "w_mem (b_world b3) = w_mem (b_world b2)" "s_dl_ok b3 = s_dl_ok b2"
    "sign_at cf (g_fw_info b2) + 4 \<le> dev_size (th src) \<Longrightarrow>
      q \<longleftrightarrow> of_le32 (cells (v_cell (dev b2 (th src))) (sign_at cf (g_fw_info b2)) 4) = QBOOT_RELEASE_SIGN_WORD"
    by (rule sign_check_b_view [OF so]) (rule that)
  have q: "q = signed view cf s (th src)"
    using c(6) fit u(2) src2 by (simp add: signed_def flip: fw(1))
  have g3: "g_fw_info b3 = fw" using c(3) u(2) by simp
  have src3: "dev b3 (th src) = view s (th src)" using c(2) src2 by simp
  have keep3: "header_of view (w_dev (b_world b3)) (th src) = fw"
    "body_of view (w_dev (b_world b3)) (th src) fw = body_of view s (th src) fw"
    "signed view cf (w_dev (b_world b3)) (th src) = q"
    using source_view(1,2) [of view "w_dev (b_world b3)" "th src" s, OF src3] q src3 by (simp_all add: signed_def fw(1))
  have fit3: "sign_at cf (g_fw_info b3) + 4 \<le> dev_size (th src)" using fit g3 by simp
  obtain b4 where b4: "b4 = (if q then b3 else snd (sign_write_b E (th src) b3))"
    "wf_mem cf (w_mem (b_world b4))" "g_fw_info b4 = fw" "\<And>h. h \<noteq> th src \<Longrightarrow> dev b4 h = dev b3 h"
    "signed view cf (w_dev (b_world b4)) (th src)" "header_of view (w_dev (b_world b4)) (th src) = fw"
    "body_of view (w_dev (b_world b4)) (th src) fw = body_of view s (th src) fw"
  proof (cases q)
    case True
    then show ?thesis using that [of b3] keep3 g3 c(4) u(3) by simp
  next
    case False
    have rd: "ready_range (dev b3 (th src)) (sign_at cf (g_fw_info b3)) 4"
      using rdy False q g3 src3 by simp
    obtain b5 where w: "snd (sign_write_b E (th src) b3) = b5" "g_fw_info b5 = g_fw_info b3"
      "w_mem (b_world b5) = w_mem (b_world b3)"
      "v_cell (dev b5 (th src)) = splice (sign_at cf (g_fw_info b3)) (le32 QBOOT_RELEASE_SIGN_WORD) (v_cell (dev b3 (th src)))"
      "\<And>h. h \<noteq> th src \<Longrightarrow> dev b5 h = dev b3 h"
      by (rule sign_write_b_effect [OF so fit3 rd]) (rule that)
    note k = sign_splice_keeps [OF w(4) [unfolded g3] keep3(1) [symmetric] sf]
    show ?thesis using that [of b5] False w k keep3(2) g3 c(4) u(3) by simp
  qed
  have mm: "of_nat (dev_size (th dst)) = m" using o(2) by (metis u32_of_nat_unat)
  show ?thesis
  proof (rule that [OF _ b4(2,3) _ b4(5-7)])
    show "release_to E (th src) dst b = Some (True, th dst, b4)"
      using o(1) u(1) c(1) b4(1) desc_below [OF d(2)] by (cases q) (simp_all add: release_to_def)
    show "installed view (w_dev (b_world b4)) (th dst) (of_nat (dev_size (th dst))) fw (img s (th src))"
      using u(4) b4(4) [of "th dst"] sd c(2) mm by (simp add: installed_def)
    show "dev b4 h = view s h" if "h \<noteq> th src" "h \<noteq> th dst" for h
      using b4(4) [OF that(1)] c(2) u(5) [OF that(2)] o(3) v by simp
  qed
qed

lemma release_exact:
  fixes b :: "('s, ('q, 'z, 'k) alg_state) boot" and src dst :: qbt_target_id
  defines "s \<equiv> w_dev (b_world b)"
  defines "fw \<equiv> header_of view s (th src)"
  assumes d: "desc_b E src = Some sd" "desc_b E dst = Some dd"
    and ne: "src \<noteq> dst"
    and wf: "wf_fw_info (g_fw_info b)" "wf_mem cf (w_mem (b_world b))"
    and p: "sound s (th src) (th dst)" and r: "good_package view E L s (th src) \<Longrightarrow> releasable view dev_size cf s (th src) dst"
  shows "\<exists>b'. qbt_release_from_part E src check b = Some (good_package view E L s (th src), b') \<and>
    wf_mem cf (w_mem (b_world b')) \<and> wf_fw_info (g_fw_info b') \<and>
    (if good_package view E L s (th src) \<and> \<not> (check \<and> signed view cf s (th src))
     then installed view (w_dev (b_world b')) (th dst) (of_nat (dev_size (th dst))) fw (img s (th src)) \<and>
       signed view cf (w_dev (b_world b')) (th src) \<and> header_of view (w_dev (b_world b')) (th src) = fw \<and>
       body_of view (w_dev (b_world b')) (th src) fw = body_of view s (th src) fw \<and>
       (\<forall>h. h \<noteq> th src \<and> h \<noteq> th dst \<longrightarrow> dev b' h = view s h)
     else dev b' = view s)"
proof -
  have so: "v_open (view x (th src))" for x using th_open d(1) by (simp add: desc_b_def)
  obtain n b1 where o1: "open_b E src True QBT_OPEN_READ b = ((True, th src, n), b1)" "unat n = dev_size (th src)"
    "dev b1 = dev b" "g_fw_info b1 = g_fw_info b" "w_mem (b_world b1) = w_mem (b_world b)" "s_dl_ok b1 = s_dl_ok b"
    by (rule open_b_th [OF d(1)]) (rule that)
  have v1: "dev b1 = view s" using o1(3) by (simp add: s_def)
  have fw: "fw = header_of view s (th src)" by (simp add: fw_def)
  have wf1: "wf_fw_info (g_fw_info b1)" "wf_mem cf (w_mem (b_world b1))" using wf o1 by simp_all
  let ?ok = "package_ok view E s (th src) fw (img s (th src))"
  obtain b2 where c: "qbt_fw_check E (th src) n (c_string (role_name sd)) b1 = Some (?ok, b2)"
    "g_fw_info b2 = fw" "s_dl_ok b2 = s_dl_ok b1" "dev b2 = view s" "wf_mem cf (w_mem (b_world b2))"
    by (rule check_th [OF so wf1 p v1 fw]) (rule that)
  note good = sound_good [OF p fw]
  have wff: "wf_fw_info fw" by (simp add: fw_def)
  have n0: "th src \<noteq> H_NULL" "th dst \<noteq> H_NULL" by (simp_all add: th_null)
  have top: "qbt_release_from_part E src check b =
      do { (rst, h, x) \<leftarrow> release_update E check (th src) n (role_name sd) b1;
           Some (rst, close_b E (th src) (if h \<noteq> H_NULL then close_b E h x else x)) }"
    using d(1) o1(1) n0 by (simp add: qbt_release_from_part_def Let_def)
  show ?thesis
  proof (cases "good_package view E L s (th src)")
    case False
    have "release_update E check (th src) n (role_name sd) b1 = Some (False, H_NULL, b2)"
      using c(1,2) False good by (auto simp: release_update_def)
    then show ?thesis
      using top False c(2,4,5) wff by (intro exI [of _ "close_b E (th src) b2"]) simp
  next
    case True
    have rel: "qbt_name_to_id cf (part_name fw) = dst" "sign_fits cf dev_size (th src) fw"
      "\<not> signed view cf s (th src) \<Longrightarrow> ready_range (view s (th src)) (sign_at cf fw) 4"
      using r [OF True] by (simp_all add: releasable_def fw_def)
    have fit: "sign_at cf fw + 4 \<le> dev_size (th src)" using rel(2) by (simp add: sign_fits_def)
    obtain q b3 where sc: "(if check then sign_check_b E (th src) b2 else (False, b2)) = (q, b3)" by fastforce
    obtain r' b3' where sc': "sign_check_b E (th src) b2 = (r', b3')" "dev b3' = dev b2" "g_fw_info b3' = g_fw_info b2"
      "w_mem (b_world b3') = w_mem (b_world b2)" "s_dl_ok b3' = s_dl_ok b2"
      "sign_at cf (g_fw_info b2) + 4 \<le> dev_size (th src) \<Longrightarrow>
        r' \<longleftrightarrow> of_le32 (cells (v_cell (dev b2 (th src))) (sign_at cf (g_fw_info b2)) 4) = QBOOT_RELEASE_SIGN_WORD"
      by (rule sign_check_b_view [OF so]) (rule that)
    have r': "r' = signed view cf s (th src)" using sc'(6) fit c(2,4) by (simp add: signed_def fw_def)
    have q: "q \<longleftrightarrow> check \<and> signed view cf s (th src)" and v3: "dev b3 = view s" and g3: "fw = g_fw_info b3"
      and m3: "wf_mem cf (w_mem (b_world b3))"
      using sc sc' r' c(2,4,5) by (auto split: if_splits)
    have up: "release_update E check (th src) n (role_name sd) b1 =
        (if q then Some (True, H_NULL, b3) else release_to E (th src) dst b3)"
      using c(1,2) True good sc rel(1) by (simp add: release_update_def flip: g3)
    show ?thesis
    proof (cases q)
      case skip: True
      with top up True q m3 v3 wff g3 show ?thesis by (intro exI [of _ "close_b E (th src) b3"]) simp
    next
      case nrel: False
      have ok3: ?ok using True good by blast
      obtain b4 where b4: "release_to E (th src) dst b3 = Some (True, th dst, b4)"
        "wf_mem cf (w_mem (b_world b4))" "g_fw_info b4 = fw"
        "installed view (w_dev (b_world b4)) (th dst) (of_nat (dev_size (th dst))) fw (img s (th src))"
        "signed view cf (w_dev (b_world b4)) (th src)" "header_of view (w_dev (b_world b4)) (th src) = fw"
        "body_of view (w_dev (b_world b4)) (th src) fw = body_of view s (th src) fw"
        "\<And>h. h \<noteq> th src \<Longrightarrow> h \<noteq> th dst \<Longrightarrow> dev b4 h = view s h"
        by (rule release_to_exact [OF d(1,2) ne v3 fw g3 m3 p rel(2) ok3]) (erule rel(3), rule that)
      let ?b = "close_b E (th src) (close_b E (th dst) b4)"
      have keep: "installed view (w_dev (b_world ?b)) = installed view (w_dev (b_world b4))"
        "signed view cf (w_dev (b_world ?b)) = signed view cf (w_dev (b_world b4))"
        "header_of view (w_dev (b_world ?b)) = header_of view (w_dev (b_world b4))"
        "body_of view (w_dev (b_world ?b)) = body_of view (w_dev (b_world b4))"
        by (simp_all add: installed_def signed_def header_of_def body_of_def fun_eq_iff)
      have "qbt_release_from_part E src check b = Some (True, ?b)"
        using top up nrel b4(1) n0 by simp
      then show ?thesis
        using b4(2-8) True nrel q wff v3 by (intro exI [of _ ?b]) (simp add: keep)
    qed
  qed
qed

text \<open>A released package is not installed again: the next check of the source leaves every device alone.\<close>

lemma release_twice:
  fixes b :: "('s, ('q, 'z, 'k) alg_state) boot" and src dst :: qbt_target_id
  defines "s \<equiv> w_dev (b_world b)"
  defines "fw \<equiv> header_of view s (th src)"
  assumes d: "desc_b E src = Some sd" "desc_b E dst = Some dd"
    and ne: "src \<noteq> dst"
    and wf: "wf_fw_info (g_fw_info b)" "wf_mem cf (w_mem (b_world b))"
    and p: "sound s (th src) (th dst)" and r: "good_package view E L s (th src) \<Longrightarrow> releasable view dev_size cf s (th src) dst"
    and good: "good_package view E L s (th src)"
  shows "\<exists>b1 b2. qbt_release_from_part E src check b = Some (True, b1) \<and>
    qbt_release_from_part E src True b1 = Some (True, b2) \<and> dev b2 = dev b1"
proof -
  obtain b1 where b1: "qbt_release_from_part E src check b = Some (True, b1)"
      "wf_mem cf (w_mem (b_world b1))" "wf_fw_info (g_fw_info b1)"
    and eff: "if \<not> (check \<and> signed view cf s (th src))
     then installed view (w_dev (b_world b1)) (th dst) (of_nat (dev_size (th dst))) fw (img s (th src)) \<and>
       signed view cf (w_dev (b_world b1)) (th src) \<and> header_of view (w_dev (b_world b1)) (th src) = fw \<and>
       body_of view (w_dev (b_world b1)) (th src) fw = body_of view s (th src) fw \<and>
       (\<forall>h. h \<noteq> th src \<and> h \<noteq> th dst \<longrightarrow> dev b1 h = view s h)
     else dev b1 = view s"
    using release_exact [OF d ne wf p [unfolded s_def] r [unfolded s_def], of check] good
    by (auto simp: s_def fw_def)
  have same: "header_of view (w_dev (b_world b1)) (th src) = fw" "signed view cf (w_dev (b_world b1)) (th src)"
    "body_of view (w_dev (b_world b1)) (th src) fw = body_of view s (th src) fw"
    using eff by (auto simp: signed_def header_of_def body_of_def fw_def split: if_splits)
  have im: "image_of view cf L (w_dev (b_world b1)) (th src) = image_of view cf L s (th src)"
    by (simp add: image_of_def same flip: fw_def)
  have good1: "good_package view E L (w_dev (b_world b1)) (th src)"
    using good by (simp add: good_package_def same im package_ok_def flip: fw_def split: option.splits)
  have p1: "sound (w_dev (b_world b1)) (th src) (th dst)"
    using p by (simp add: sound_source_def same im Let_def flip: fw_def)
  have r1: "releasable view dev_size cf (w_dev (b_world b1)) (th src) dst"
    using r [OF good] same(1,2) by (simp add: releasable_def flip: fw_def)
  obtain b2 where "qbt_release_from_part E src True b1 = Some (True, b2)" "dev b2 = dev b1"
    using release_exact [OF d ne b1(3,2) p1 r1, of True] same(2) good1 by auto
  with b1(1) show ?thesis by blast
qed

end

section \<open>The reference flash\<close>

lemma nor_desc_open: "qbt_target_desc nor_cfg nor_stores i = Some d \<Longrightarrow>
    backend d = BACKEND_CUSTOM \<and> flash_len d = 8192 \<and> custom_dev_size nor_cfg nor_stores (H_desc i) = 8192 \<and>
    v_open (custom_view nor_cfg nor_stores (\<lambda>s. s) s (H_desc i))"
  using target_desc_fields [of nor_cfg nor_stores i d]
  by (auto simp: nor_stores_def custom_dev_size_def custom_region_def custom_view_def split: option.splits)

interpretation nor_boot: flash_release "g_qboot_io_custom nor_cfg nor_stores (nor_hooks 512)"
  "custom_view nor_cfg nor_stores (\<lambda>s. s)" "custom_dev_size nor_cfg nor_stores"
  crc32_cyc_cal crc32_cal nor_env nor_libs H_desc "g_qboot_header_parser_custom nor_cfg nor_stores (nor_hooks 512)"
proof unfold_locales
  show "pow2 (sign_align (e_cfg nor_env))" by (auto simp: pow2_def nor_cfg_def intro: exI [of _ 2])
next
  fix i d fl and s :: "nat \<Rightarrow> byte"
  assume "qbt_target_desc (e_cfg nor_env) (e_stores nor_env) i = Some d"
  then have n: "qbt_target_desc nor_cfg nor_stores i = Some d" by simp
  note d = nor_desc_open [OF n]
  show "\<exists>s'. io_open (g_qboot_io_custom nor_cfg nor_stores (nor_hooks 512)) i fl s = (Inr (H_desc i), s') \<and>
      custom_view nor_cfg nor_stores (\<lambda>s. s) s' = custom_view nor_cfg nor_stores (\<lambda>s. s) s"
    using n d by (simp add: custom_ops_defs qbt_custom_find_desc_def)
  show "\<exists>n s'. io_size (g_qboot_io_custom nor_cfg nor_stores (nor_hooks 512)) (H_desc i) s = (Inr n, s') \<and>
      unat n = custom_dev_size nor_cfg nor_stores (H_desc i)"
    using n d by (simp add: custom_ops_defs)
  show "v_open (custom_view nor_cfg nor_stores (\<lambda>s. s) s (H_desc i))" using d by simp
qed (simp_all add: custom_ops_defs g_qboot_header_parser_custom_def qbt_custom_sign_read_def qbt_custom_sign_write_def)

section \<open>The demonstration package\<close>

lemma demo_desc: "\<exists>d. desc_b nor_env QBOOT_TARGET_DOWNLOAD = Some d" "\<exists>d. desc_b nor_env QBOOT_TARGET_APP = Some d"
  by (simp_all add: desc_b_def qbt_target_desc_def length_g_descs)

lemma demo_name: "qbt_name_to_id nor_cfg (part_name demo_fw) = QBOOT_TARGET_APP"
  "rt_streq (part_name demo_fw) QBOOT_APP_PART_NAME"
  and zip_name: "qbt_name_to_id nor_cfg (part_name zip_fw) = QBOOT_TARGET_APP"
  "rt_streq (part_name zip_fw) QBOOT_APP_PART_NAME"
proof -
  have n: "part_name demo_fw = str_bytes ''app'' @ replicate 13 0" "part_name zip_fw = str_bytes ''app'' @ replicate 13 0"
    by (simp_all add: demo_fw_def demo_head_def zip_fw_def sealed_head_def demo_head_of_def)
  have "rt_streq (str_bytes ''app'' @ replicate 13 0) QBOOT_APP_PART_NAME"
    by (simp add: rt_streq_def) (simp add: str_bytes_def)
  then show "rt_streq (part_name demo_fw) QBOOT_APP_PART_NAME" "rt_streq (part_name zip_fw) QBOOT_APP_PART_NAME"
    by (simp_all only: n)
  then show "qbt_name_to_id nor_cfg (part_name demo_fw) = QBOOT_TARGET_APP"
    "qbt_name_to_id nor_cfg (part_name zip_fw) = QBOOT_TARGET_APP"
    by (simp_all add: qbt_name_to_id_def target_list_def)
qed

lemma demo_image_of: "image_of (custom_view nor_cfg nor_stores (\<lambda>s. s)) nor_cfg L demo_flash H_download = Some demo_body"
  and zip_image_of: "image_of (custom_view nor_cfg nor_stores (\<lambda>s. s)) nor_cfg nor_libs zip_flash H_download = Some zip_raw"
  by (simp_all add: image_of_def demo_header demo_body_of demo_image zip_header zip_body_of zip_image)

lemma nor_product [simp]: "product_ok nor_env fw"
  by (simp add: product_ok_def nor_cfg_def)

lemma demo_good: "good_package (custom_view nor_cfg nor_stores (\<lambda>s. s)) nor_env L demo_flash H_download"
  and zip_good: "good_package (custom_view nor_cfg nor_stores (\<lambda>s. s)) nor_env nor_libs zip_flash H_download"
  by (simp_all add: good_package_def demo_image_of zip_image_of demo_header zip_header demo_package_ok zip_package_ok)

lemma demo_sound:
  "sound_source (custom_view nor_cfg nor_stores (\<lambda>s. s)) (custom_dev_size nor_cfg nor_stores) nor_env L demo_flash H_download H_app"
  and zip_sound:
  "sound_source (custom_view nor_cfg nor_stores (\<lambda>s. s)) (custom_dev_size nor_cfg nor_stores) nor_env nor_libs zip_flash H_download H_app"
  by (simp_all add: sound_source_def demo_image_of zip_image_of demo_header zip_header demo_fits zip_fits Let_def)

lemma demo_sign_fits: "sign_fits nor_cfg (custom_dev_size nor_cfg nor_stores) H_download demo_fw"
  and zip_sign_fits: "sign_fits nor_cfg (custom_dev_size nor_cfg nor_stores) H_download zip_fw"
  by (simp_all add: sign_fits_def sign_at_def demo_sign_pos zip_sign_pos) (simp_all add: nor_cfg_def)

lemma flash_blank:
  assumes "wf_fw_info fw" and "96 + length body \<le> i"
  shows "flash_of fw body (8192 + i) = 0xFF"
proof -
  have "8192 + length (bytes_of_fw_info fw @ body) \<le> 8192 + i" using assms by (simp add: sizeof_fw_info_def)
  then show ?thesis unfolding flash_of_def by (intro splice_out disjI2)
qed

lemma demo_blank: "104 \<le> i \<Longrightarrow> demo_flash (8192 + i) = 0xFF" and zip_blank: "112 \<le> i \<Longrightarrow> zip_flash (8192 + i) = 0xFF"
  unfolding demo_flash_def zip_flash_def
  by (rule flash_blank [OF demo_fw_wf], simp add: demo_body_def) (rule flash_blank [OF zip_fw_wf], simp add: zip_body_def)

lemma demo_not_signed: "\<not> signed (custom_view nor_cfg nor_stores (\<lambda>s. s)) nor_cfg demo_flash H_download"
  and zip_not_signed: "\<not> signed (custom_view nor_cfg nor_stores (\<lambda>s. s)) nor_cfg zip_flash H_download"
proof -
  have c: "cells demo_flash 8296 4 = replicate 4 0xFF" "cells zip_flash 8304 4 = replicate 4 0xFF"
  proof -
    have "demo_flash (8296 + i) = 0xFF" "zip_flash (8304 + i) = 0xFF" for i
      using demo_blank [of "104 + i"] zip_blank [of "112 + i"] by simp_all
    then show "cells demo_flash 8296 4 = replicate 4 0xFF" "cells zip_flash 8304 4 = replicate 4 0xFF"
      by (intro nth_equalityI; simp)+
  qed
  have "of_le32 (replicate 4 0xFF) \<noteq> QBOOT_RELEASE_SIGN_WORD"
    by (simp add: of_le32_def QBOOT_RELEASE_SIGN_WORD_def)
  then show "\<not> signed (custom_view nor_cfg nor_stores (\<lambda>s. s)) nor_cfg demo_flash H_download"
    "\<not> signed (custom_view nor_cfg nor_stores (\<lambda>s. s)) nor_cfg zip_flash H_download"
    by (simp_all add: signed_def demo_header zip_header sign_at_def demo_sign_pos zip_sign_pos demo_cells c)
qed

lemma demo_sign_ready:
  "ready_range (custom_view nor_cfg nor_stores (\<lambda>s. s) demo_flash H_download) (sign_at nor_cfg demo_fw) 4"
  and zip_sign_ready:
  "ready_range (custom_view nor_cfg nor_stores (\<lambda>s. s) zip_flash H_download) (sign_at nor_cfg zip_fw) 4"
  using demo_blank zip_blank by (simp_all add: ready_range_def sign_at_def demo_sign_pos zip_sign_pos demo_view)

lemma demo_releasable:
  "releasable (custom_view nor_cfg nor_stores (\<lambda>s. s)) (custom_dev_size nor_cfg nor_stores) nor_cfg demo_flash H_download QBOOT_TARGET_APP"
  and zip_releasable:
  "releasable (custom_view nor_cfg nor_stores (\<lambda>s. s)) (custom_dev_size nor_cfg nor_stores) nor_cfg zip_flash H_download QBOOT_TARGET_APP"
  by (simp_all add: releasable_def demo_header zip_header demo_name zip_name demo_sign_fits zip_sign_fits
      demo_sign_ready zip_sign_ready)

end
