(* ===== verification/Qboot_Shell.thy ===== *)
theory Qboot_Shell
  imports Qboot_Install
begin

text \<open>
  What the keys, the shell and its copy command do: the factory key is a conjunction of polls,
  the shell key loop ends with the window, a copy is exact, and with the download helper an
  unconfirmed download is never released.
\<close>

section \<open>Keys\<close>

lemma key_polls_iff: "key_polls pin k n \<longleftrightarrow> (\<forall>i. k \<le> i \<and> i < k + n \<longrightarrow> pin i)"
proof (induction n arbitrary: k)
  case (Suc n)
  have "(\<forall>i. k \<le> i \<and> i < k + Suc n \<longrightarrow> pin i) \<longleftrightarrow> pin k \<and> (\<forall>i. Suc k \<le> i \<and> i < Suc k + n \<longrightarrow> pin i)"
    by (metis add_Suc_right add_Suc le_add1 less_Suc_eq_le not_less_eq_eq le_neq_implies_less Suc_leI
        order_le_less Suc_leD)
  with Suc show ?case by simp
qed auto

lemma factory_key_iff: "qbt_factory_key_check pin \<longleftrightarrow> (\<forall>k < 101. pin k)"
  by (simp add: qbt_factory_key_check_def QBOOT_FACTORY_KEY_CHK_TMO_def key_polls_iff)

text \<open>Whether poll \<open>k\<close> is inside the window and reads a carriage return.\<close>

definition key_in_time :: "shell_os \<Rightarrow> nat \<Rightarrow> bool" where
  "key_in_time os k \<longleftrightarrow> kp_tick (so_polls os k) - so_start os < so_tmo os"

definition key_pressed :: "shell_os \<Rightarrow> nat \<Rightarrow> bool" where
  "key_pressed os k \<longleftrightarrow> kp_taken (so_polls os k) \<and> kp_char (so_polls os k) = Some 0x0d"

lemma shell_key_exact:
  assumes n: "\<not> key_in_time os n"
  shows "qbt_shell_key_check os = Some (\<exists>k. (\<forall>j \<le> k. key_in_time os j) \<and> key_pressed os k)"
proof -
  let ?R = "\<exists>k. (\<forall>j \<le> k. key_in_time os j) \<and> key_pressed os k"
  define I where "I k \<longleftrightarrow> (\<forall>j < k. key_in_time os j \<and> \<not> key_pressed os j)" for k
  have le: "I k \<Longrightarrow> k \<le> n" for k using n by (meson I_def linorder_not_less)
  have "\<exists>r. run_loop (key_body os) 0 = Some r \<and> r = ?R"
  proof (rule run_loop_total [where I = I and m = "\<lambda>k. n - k"])
    show "I 0" by (simp add: I_def)
  next
    fix k assume k: "I k"
    consider "\<not> key_in_time os k" | "key_in_time os k" "key_pressed os k" | "key_in_time os k" "\<not> key_pressed os k"
      by blast
    then show "(\<exists>r. key_body os k = Some (Stop r) \<and> r = ?R) \<or>
      (\<exists>k'. key_body os k = Some (Again k') \<and> I k' \<and> n - k' < n - k)"
    proof cases
      case 1
      then have "\<not> ?R" using k unfolding I_def by (metis linorder_not_less)
      moreover have "key_body os k = Some (Stop False)"
        using 1 by (simp add: key_body_def key_in_time_def Let_def)
      ultimately show ?thesis by blast
    next
      case 2
      then have ?R using k unfolding I_def by (metis order_le_less)
      moreover have "key_body os k = Some (Stop True)"
        using 2 by (simp add: key_body_def key_in_time_def key_pressed_def Let_def)
      ultimately show ?thesis by blast
    next
      case 3
      then have "I (Suc k)" using k by (simp add: I_def less_Suc_eq)
      moreover from le [OF this] have "n - Suc k < n - k" by simp
      moreover have "key_body os k = Some (Again (Suc k))"
        using 3 by (simp add: key_body_def key_in_time_def key_pressed_def Let_def)
      ultimately show ?thesis by blast
    qed
  qed
  then show ?thesis by (simp add: qbt_shell_key_check_def)
qed

section \<open>The download gate\<close>

text \<open>
  With the helper linked, releasing a download the manager has not confirmed opens the source,
  closes it and does nothing else.
\<close>

lemma release_gate:
  assumes h: "using_download_helper (e_cfg E)" "\<not> s_dl_ok b"
    and d: "desc_b E QBOOT_TARGET_DOWNLOAD = Some d"
  shows "qbt_release_from_part E QBOOT_TARGET_DOWNLOAD check b =
    (case open_b E QBOOT_TARGET_DOWNLOAD True QBT_OPEN_READ b of
       ((ok, src, _), b1) \<Rightarrow> Some (False, if ok \<and> src \<noteq> H_NULL then close_b E src b1 else b1))"
proof -
  have name: "rt_streq (c_string (role_name d)) QBOOT_DOWNLOAD_PART_NAME"
    using d unfolding desc_b_def
    by (rule target_desc_cases) (simp_all add: c_string_def rt_streq_def)
  obtain ok src n b1 where o: "open_b E QBOOT_TARGET_DOWNLOAD True QBT_OPEN_READ b = ((ok, src, n), b1)"
    by (cases "open_b E QBOOT_TARGET_DOWNLOAD True QBT_OPEN_READ b") auto
  then have "s_dl_ok b1 = s_dl_ok b" by (auto simp: open_b_def split: prod.splits)
  with h name have "release_update E check src n (role_name d) b1 = Some (False, H_NULL, b1)"
    by (simp add: release_update_def qbt_fw_check_def fw_check_helper_def)
  with o d show ?thesis by (cases ok) (simp_all add: qbt_release_from_part_def Let_def)
qed

text \<open>
  The helper's check leaves the product code of the global header alone, which is zero from the
  start. In a build with the helper and a product code, no target is ever released or resumed.
\<close>

lemma helper_refuses_product:
  assumes h: "using_download_helper (e_cfg E)" and p: "product_code (e_cfg E) = Some (c # cs)" and c: "of_char c \<noteq> (0 :: byte)"
    and z: "prod_code (g_fw_info b) = replicate 24 0"
  shows "\<exists>b'. release_update E check src n name b = Some (False, H_NULL, b') \<and> prod_code (g_fw_info b') = replicate 24 0"
    and "\<exists>b'. resume_update E ad src n name dst m b = Some (False, b') \<and> prod_code (g_fw_info b') = replicate 24 0"
proof -
  have "\<not> rt_streq (replicate 24 0) (c # cs)" using c by (simp add: rt_streq_def str_bytes_def numeral_eq_Suc)
  then have r: "\<not> product_ok E fw" if "prod_code fw = replicate 24 0" for fw using that p by (simp add: product_ok_def)
  show "\<exists>b'. release_update E check src n name b = Some (False, H_NULL, b') \<and> prod_code (g_fw_info b') = replicate 24 0"
    and "\<exists>b'. resume_update E ad src n name dst m b = Some (False, b') \<and> prod_code (g_fw_info b') = replicate 24 0"
    using h z by (simp_all add: release_update_def resume_update_def qbt_fw_check_def fw_check_helper_def r Let_def)
qed

section \<open>Copies\<close>

context boot_dev
begin

lemma clone_exact:
  assumes so: "v_open (view (w_dev w) src)" and do: "v_open (view (w_dev w) dst)" and ne: "src \<noteq> dst"
    and fit: "unat n \<le> dev_size src" "unat n \<le> dev_size dst" and small: "unat n < 2147483648"
    and wf: "wf_mem c (w_mem w)"
  shows "\<exists>w'. qbt_fw_clone E dst src n w = Some (True, w') \<and> wf_mem c (w_mem w') \<and>
    cells (v_cell (view (w_dev w') dst)) 0 (unat n) = cells (v_cell (view (w_dev w) src)) 0 (unat n) \<and>
    (\<forall>h. h \<noteq> dst \<longrightarrow> view (w_dev w') h = view (w_dev w) h)"
proof -
  let ?f = "v_cell (view (w_dev w) src)"
  obtain s1 where e: "io_erase io dst 0 n (w_dev w) = (RT_EOK, s1)"
    using erase_total [OF do, of 0 n] fit by auto
  let ?w1 = "w\<lparr>w_dev := s1\<rparr>"
  define I where "I y \<longleftrightarrow> unat (c_pos y) \<le> unat n \<and> v_open (view (w_dev (c_world y)) dst) \<and>
      ready_range (view (w_dev (c_world y)) dst) (unat (c_pos y)) (unat n - unat (c_pos y)) \<and>
      cells (v_cell (view (w_dev (c_world y)) dst)) 0 (unat (c_pos y)) = cells ?f 0 (unat (c_pos y)) \<and>
      (\<forall>h. h \<noteq> dst \<longrightarrow> view (w_dev (c_world y)) h = view (w_dev w) h) \<and> wf_mem c (w_mem (c_world y))"
    for y :: "('s, 'a) clone_loc"
  define Q where "Q r \<longleftrightarrow> (\<exists>w'. r = (True, w') \<and> wf_mem c (w_mem w') \<and>
      cells (v_cell (view (w_dev w') dst)) 0 (unat n) = cells ?f 0 (unat n) \<and>
      (\<forall>h. h \<noteq> dst \<longrightarrow> view (w_dev w') h = view (w_dev w) h))" for r :: "bool \<times> ('s, 'a) world"
  have "\<exists>r. run_loop (clone_body E dst src n) \<lparr>c_pos = 0, c_world = ?w1\<rparr> = Some r \<and> Q r"
  proof (rule run_loop_total [where I = I and m = "\<lambda>y. unat n - unat (c_pos y)"])
    show "I \<lparr>c_pos = 0, c_world = ?w1\<rparr>"
      using erase_open [OF do e] erase_ready [OF do e] erase_other [OF do e] wf by (simp add: I_def)
  next
    fix y assume I: "I y"
    show "(\<exists>r. clone_body E dst src n y = Some (Stop r) \<and> Q r) \<or>
      (\<exists>z. clone_body E dst src n y = Some (Again z) \<and> I z \<and> unat n - unat (c_pos z) < unat n - unat (c_pos y))"
    proof (cases "c_pos y < n")
      case False
      then have "c_pos y = n" using I by (simp add: I_def u32_cmp)
      with I have "Q (True, c_world y)" by (auto simp: I_def Q_def)
      with False show ?thesis by (simp add: clone_body_def)
    next
      case True
      let ?p = "unat (c_pos y)" and ?l = "chunk_len (n - c_pos y)"
      have lt: "?p < unat n" using True by (simp add: u32_less_iff)
      have l: "unat ?l = min 4096 (unat n - ?p)"
        using chunk_len_small [of "n - c_pos y"] lt small by (simp add: u32_sub)
      have l': "?p + unat ?l \<le> unat n" "0 < unat ?l" "unat ?l \<le> 4096" using l lt by auto
      have oy: "v_open (view (w_dev (c_world y)) src)" using I so ne by (simp add: I_def)
      have fy: "?p + unat ?l \<le> dev_size src" using l' fit by linarith
      have wy: "wf_mem c (w_mem (c_world y))" using I by (simp add: I_def)
      have vs: "view (w_dev (c_world y)) src = view (w_dev w) src" using I ne by (simp add: I_def)
      let ?bs = "cells ?f ?p (unat ?l)"
      obtain w2 where r: "dev_read_to io src (c_pos y) (B_CMPRS, 0) ?l (c_world y) = Some (RT_EOK, w2)"
        "view (w_dev w2) = view (w_dev (c_world y))" "wf_mem c (w_mem w2)"
        "mem_read B_CMPRS 0 (unat ?l) (w_mem w2) = Some ?bs"
        using dev_read_exact [OF oy fy wy l'(3)] by (auto simp: vs)
      have dy: "v_open (view (w_dev w2) dst)" using I r(2) by (simp add: I_def)
      have lb: "length ?bs < 4294967296" "?p + length ?bs \<le> dev_size dst" using l' fit by simp_all
      obtain s3 where wr: "io_write io dst (c_pos y) ?bs (w_dev w2) = (RT_EOK, s3)"
        using write_total [OF dy lb] by blast
      have rdy: "ready_range (view (w_dev w2) dst) ?p (unat n - ?p)" using I r(2) by (simp add: I_def)
      have rd: "ready_range (view (w_dev w2) dst) ?p (length ?bs)"
        by (rule ready_range_sub [OF rdy]) (use l' in auto)
      let ?z = "\<lparr>c_pos = c_pos y + ?l, c_world = w2\<lparr>w_dev := s3\<rparr>\<rparr>"
      have b: "clone_body E dst src n y = Some (Again ?z)"
        using True r wr by (simp add: clone_body_def Let_def env_io)
      have zp: "unat (c_pos y + ?l) = ?p + unat ?l"
        using l' u32_less [of n] by (intro u32_add) linarith
      have cell: "v_cell (view s3 dst) = splice ?p ?bs (v_cell (view (w_dev w2) dst))"
        by (rule write_cells [OF dy wr lb(1) rd])
      have pre: "cells (v_cell (view (w_dev w2) dst)) 0 ?p = cells ?f 0 ?p" using I r(2) by (simp add: I_def)
      have "cells (v_cell (view s3 dst)) 0 (?p + unat ?l) = cells ?f 0 (?p + unat ?l)"
        using cells_splice_disjoint [of ?p ?bs 0 ?p] cells_splice_same [of ?p ?bs] pre
        by (simp add: cells_add cell)
      moreover have "ready_range (view s3 dst) (?p + unat ?l) (unat n - (?p + unat ?l))"
        by (rule write_keeps_ready [OF dy wr lb(1)]) (use ready_range_sub [OF rdy] l' in auto)
      moreover have "view s3 h = view (w_dev w) h" if "h \<noteq> dst" for h
        using write_other [OF dy wr lb(1) that] I r(2) that by (simp add: I_def)
      ultimately have "I ?z" using zp l' r(3) write_open [OF dy wr lb(1)] by (simp add: I_def)
      moreover have "unat n - unat (c_pos ?z) < unat n - ?p" using zp l' lt by simp
      ultimately show ?thesis using b by blast
    qed
  qed
  then obtain w' where "run_loop (clone_body E dst src n) \<lparr>c_pos = 0, c_world = ?w1\<rparr> = Some (True, w')"
    "wf_mem c (w_mem w')" "cells (v_cell (view (w_dev w') dst)) 0 (unat n) = cells ?f 0 (unat n)"
    "\<forall>h. h \<noteq> dst \<longrightarrow> view (w_dev w') h = view (w_dev w) h"
    unfolding Q_def by blast
  then show ?thesis by (intro exI [of _ w']) (simp add: qbt_fw_clone_def erase_w_def env_io e)
qed

end

section \<open>The console across the boot thread\<close>

text \<open>
  While the boot thread works, the system's shell is stopped and the console is in order; how
  the thread leaves says whether the shell runs.
\<close>

abbreviation quiet_console :: "shell_st \<Rightarrow> bool" where
  "quiet_console x \<equiv> console_inv x \<and> \<not> shell_running (sys_state x)"

definition left_console :: "boot_outcome \<Rightarrow> shell_st \<Rightarrow> bool" where
  "left_console out x \<longleftrightarrow> console_inv x \<and> (shell_running (sys_state x) \<longleftrightarrow> out = Shell_started)"

lemma left_quiet: "quiet_console x \<Longrightarrow> out \<noteq> Shell_started \<Longrightarrow> left_console out x"
  by (simp add: left_console_def)

lemma reset_console:
  assumes "finsh_laws (bd_finsh bd)" and "quiet_console x" and "shell_or_reset E bd k x = Some (out, y)"
  shows "left_console out y"
proof (cases "using_shell (e_cfg E)")
  case True
  then obtain ok where s: "qbt_startup_shell (bd_finsh bd) (bd_shell bd k) False x = Some (ok, y)"
    and "out = (if ok then Shell_started else Cpu_reset)"
    using assms(3) by (auto simp: shell_or_reset_def bind_eq_Some_conv)
  with startup_console [OF assms(1) _ s] assms(2) show ?thesis by (simp add: left_console_def)
qed (use assms in \<open>simp add: shell_or_reset_def left_console_def\<close>)

lemma tail_console:
  assumes F: "finsh_laws (bd_finsh bd)" and q: "quiet_console sh" and t: "boot_tail E U bd sh x = Some (out, sh', y)"
  shows "left_console out sh'"
proof -
  have "sh' = sh \<and> out = App_started \<or> shell_or_reset E bd 2 sh = Some (out, sh')"
    using t unfolding boot_tail_def
    by (auto simp: bind_eq_Some_conv Let_def split: if_splits)
  then show ?thesis using reset_console [OF F q] left_quiet [OF q] by auto
qed

lemma thread_console:
  assumes F: "finsh_laws (bd_finsh bd)" and S: "using_shell (e_cfg E)"
    and t: "qbt_thread_entry E U bd x = Some (out, sh, y)"
  shows "left_console out sh"
proof -
  define sh0 where "sh0 = shell_static (qbt_close_sys_shell (bd_finsh bd) (bd_sys bd))"
  have q: "quiet_console sh0" using close_stops [OF F] by (simp add: sh0_def console_static) (simp add: shell_static_def)
  define ends where "ends sh1 \<longleftrightarrow> (\<exists>z. boot_tail E U bd sh1 z = Some (out, sh, y))" for sh1
  have ends: "boot_tail E U bd sh1 z = Some (out, sh, y) \<Longrightarrow> ends sh1" for sh1 z unfolding ends_def by blast
  consider "shell_or_reset E bd 0 sh0 = Some (out, sh)" | "out = App_started" "sh = sh0"
    | "qbt_startup_shell (bd_finsh bd) (bd_shell bd 1) True sh0 = Some (True, sh)" "out = Shell_started"
    | sh1 where "qbt_startup_shell (bd_finsh bd) (bd_shell bd 1) True sh0 = Some (False, sh1)" "ends sh1"
    using t S unfolding qbt_thread_entry_def Let_def sh0_def
    by (auto simp: bind_eq_Some_conv dest: ends split: if_splits)
  then show ?thesis
  proof cases
    case 1
    then show ?thesis by (rule reset_console [OF F q])
  next
    case 2
    then show ?thesis using left_quiet [OF q] by simp
  next
    case 3
    then show ?thesis using startup_console [OF F _ 3(1)] q by (simp add: left_console_def)
  next
    case 4
    then have "quiet_console sh1" using startup_console [OF F _ 4(1)] q by simp
    moreover obtain z where "boot_tail E U bd sh1 z = Some (out, sh, y)" using 4(2) ends_def by blast
    ultimately show ?thesis by (rule tail_console [OF F])
  qed
qed

section \<open>The shell always comes back\<close>

text \<open>
  A start of the shell returns, when the window of its key closes; without a key in time it
  goes on. What comes at the end of the boot thread always comes.
\<close>

lemma startup_shell_returns:
  assumes "wait \<Longrightarrow> \<exists>n. \<not> key_in_time os n"
  obtains ok x' where "qbt_startup_shell F os wait x = Some (ok, x')"
    "wait \<Longrightarrow> \<not> (\<exists>k. (\<forall>j \<le> k. key_in_time os j) \<and> key_pressed os k) \<Longrightarrow> \<not> ok"
proof -
  obtain i x1 where i: "qbt_shell_init os x = (i, x1)" by fastforce
  define w where "w = (if wait then qbt_shell_key_check os else Some True)"
  obtain r where r: "w = Some r" "wait \<Longrightarrow> r \<longleftrightarrow> (\<exists>k. (\<forall>j \<le> k. key_in_time os j) \<and> key_pressed os k)"
    using assms shell_key_exact [of os] by (cases wait) (auto simp: w_def)
  have "qbt_startup_shell F os wait x = Some (i \<and> r, if i \<and> r then x1\<lparr>sys_state := qbt_open_sys_shell F (sys_state x1)\<rparr> else x1)"
    unfolding qbt_startup_shell_def w_def [symmetric] i r(1) by (cases i; cases r) simp_all
  then show ?thesis by (rule that) (use r(2) in blast)
qed

lemma shell_or_reset_returns:
  obtains out y where "shell_or_reset E bd k x = Some (out, y)" "out = Cpu_reset \<or> out = Shell_started \<and> using_shell (e_cfg E)"
proof (cases "using_shell (e_cfg E)")
  case True
  obtain ok y where "qbt_startup_shell (bd_finsh bd) (bd_shell bd k) False x = Some (ok, y)"
    by (rule startup_shell_returns [of False]) auto
  with True show ?thesis by (intro that [of "if ok then Shell_started else Cpu_reset" y]) (simp_all add: shell_or_reset_def)
qed (auto simp: shell_or_reset_def intro: that)

end
