(* ===== verification/Qboot_Power.thy ===== *)
theory Qboot_Power
  imports Qboot_Shell Qboot_Download
begin

text \<open>
  From power-on to the application: what the boot thread of \<open>src/qboot.c\<close> makes of the flash it
  finds, in a build without the update manager, whatever keys are pressed.
\<close>

section \<open>The board\<close>

text \<open>
  An orderly board: there is no update manager, and with the shell in the build the window of
  its key closes. It is idle when moreover the storage is registered and nobody is at the keys.
\<close>

definition orderly_board :: "('s, 'a) boot_env \<Rightarrow> 's board \<Rightarrow> bool" where
  "orderly_board E bd \<longleftrightarrow> \<not> using_update_mgr (e_cfg E) \<and>
     (using_shell (e_cfg E) \<longrightarrow> (\<exists>n. \<not> key_in_time (bd_shell bd 1) n))"

definition nobody_there :: "('s, 'a) boot_env \<Rightarrow> 's board \<Rightarrow> bool" where
  "nobody_there E bd \<longleftrightarrow> bd_register bd = RT_EOK \<and> \<not> (using_factory_key (e_cfg E) \<and> qbt_factory_key_check (bd_pin bd)) \<and>
     (using_shell (e_cfg E) \<longrightarrow> (\<exists>n. \<not> key_in_time (bd_shell bd 1) n) \<and>
       \<not> (\<exists>k. (\<forall>j \<le> k. key_in_time (bd_shell bd 1) j) \<and> key_pressed (bd_shell bd 1) k))"

text \<open>How the thread may leave.\<close>

definition left_well :: "('s, 'a) boot_env \<Rightarrow> 's board \<Rightarrow> boot_outcome \<Rightarrow> ('s, 'a) boot \<Rightarrow> bool" where
  "left_well E bd out b \<longleftrightarrow> out = App_started \<and> jump_legit bd b \<or> out = Cpu_reset \<or> out = Shell_started \<and> using_shell (e_cfg E)"

lemma left_app: "jump_legit bd b \<Longrightarrow> left_well E bd App_started b"
  by (simp add: left_well_def)

text \<open>The console at the start of the thread, and the thread from its first half on.\<close>

definition console_0 :: "('s, 'a) boot_env \<Rightarrow> 's board \<Rightarrow> shell_st" where
  "console_0 E bd = shell_static (if using_shell (e_cfg E) then qbt_close_sys_shell (bd_finsh bd) (bd_sys bd) else bd_sys bd)"

lemma entry_idle:
  assumes "nobody_there E bd"
  obtains sh where "qbt_thread_entry E U bd x = do {
    y \<leftarrow> (if using_update_mgr (e_cfg E)
          then do { z \<leftarrow> mgr_poll U (bd_sched bd) x; Some (notify_b E U True z) } else Some x);
    boot_tail E U bd sh y }"
proof -
  note b = assms [unfolded nobody_there_def]
  obtain sh where "(if using_shell (e_cfg E) then qbt_startup_shell (bd_finsh bd) (bd_shell bd 1) True (console_0 E bd)
      else Some (False, console_0 E bd)) = Some (False, sh)"
  proof (cases "using_shell (e_cfg E)")
    case True
    obtain ok y where "qbt_startup_shell (bd_finsh bd) (bd_shell bd 1) True (console_0 E bd) = Some (ok, y)"
      "\<not> (\<exists>k. (\<forall>j \<le> k. key_in_time (bd_shell bd 1) j) \<and> key_pressed (bd_shell bd 1) k) \<Longrightarrow> \<not> ok"
      by (rule startup_shell_returns [of True]) (use b True in auto)
    with b True that show ?thesis by auto
  qed (auto intro: that)
  note sh = this
  have k: "(if using_factory_key (e_cfg E) \<and> qbt_factory_key_check (bd_pin bd)
      then resume_and_jump E bd QBOOT_TARGET_FACTORY (fst x) else Some (False, fst x)) = Some (False, fst x)"
    by (rule if_not_P) (use b in blast)
  show ?thesis
    by (rule that [of sh], unfold qbt_thread_entry_def Let_def console_0_def [symmetric] sh k) (use b in simp)
qed

section \<open>What ends up in the application target\<close>

text \<open>
  The application target holds the package that stood in a target at the start, which was valid;
  its contents are the old ones or come from the download or the factory target. Before the
  boot, both targets are sound sources, blank flash among them, and a valid package for the
  product in the download target is addressed to the application and can be marked.
\<close>

definition app_holds ::
  "('s \<Rightarrow> handle \<Rightarrow> dev_view) \<Rightarrow> (handle \<Rightarrow> nat) \<Rightarrow> ('s, ('q, 'z, 'k) alg_state) boot_env \<Rightarrow> ('q, 'z, 'k) alg_libs \<Rightarrow> (qbt_target_id \<Rightarrow> handle) \<Rightarrow>
   's \<Rightarrow> qbt_target_id \<Rightarrow> 's \<Rightarrow> bool" where
  "app_holds view dev_size E L th s0 i s \<longleftrightarrow> good_package view E L s0 (th i) \<and>
     installed view s (th QBOOT_TARGET_APP) (of_nat (dev_size (th QBOOT_TARGET_APP)))
       (header_of view s0 (th i)) (the (image_of view (e_cfg E) L s0 (th i)))"

definition app_from ::
  "('s \<Rightarrow> handle \<Rightarrow> dev_view) \<Rightarrow> (handle \<Rightarrow> nat) \<Rightarrow> ('s, ('q, 'z, 'k) alg_state) boot_env \<Rightarrow> ('q, 'z, 'k) alg_libs \<Rightarrow> (qbt_target_id \<Rightarrow> handle) \<Rightarrow>
   's \<Rightarrow> 's \<Rightarrow> bool" where
  "app_from view dev_size E L th s0 s \<longleftrightarrow> view s (th QBOOT_TARGET_APP) = view s0 (th QBOOT_TARGET_APP) \<or>
     app_holds view dev_size E L th s0 QBOOT_TARGET_DOWNLOAD s \<or> app_holds view dev_size E L th s0 QBOOT_TARGET_FACTORY s"

definition boot_prepared ::
  "('s \<Rightarrow> handle \<Rightarrow> dev_view) \<Rightarrow> (handle \<Rightarrow> nat) \<Rightarrow> ('s, ('q, 'z, 'k) alg_state) boot_env \<Rightarrow> ('q, 'z, 'k) alg_libs \<Rightarrow>
   (qbt_target_id \<Rightarrow> handle) \<Rightarrow> 's \<Rightarrow> bool" where
  "boot_prepared view dev_size E L th s \<longleftrightarrow>
     sound_source view dev_size E L s (th QBOOT_TARGET_DOWNLOAD) (th QBOOT_TARGET_APP) \<and>
     sound_source view dev_size E L s (th QBOOT_TARGET_FACTORY) (th QBOOT_TARGET_APP) \<and>
     (good_package view E L s (th QBOOT_TARGET_DOWNLOAD) \<longrightarrow>
        releasable view dev_size (e_cfg E) s (th QBOOT_TARGET_DOWNLOAD) QBOOT_TARGET_APP)"

context flash_release
begin

abbreviation "holds_package \<equiv> app_holds view dev_size E L th"
abbreviation "app_traced \<equiv> app_from view dev_size E L th"
abbreviation "boot_ready \<equiv> boot_prepared view dev_size E L th"

definition same_package :: "'s \<Rightarrow> handle \<Rightarrow> 's \<Rightarrow> bool" where
  "same_package s0 h s \<longleftrightarrow> header_of view s h = header_of view s0 h \<and>
     body_of view s h (header_of view s0 h) = body_of view s0 h (header_of view s0 h)"

lemma same_package_view: "view s h = view s0 h \<Longrightarrow> same_package s0 h s"
  by (simp add: same_package_def header_of_def body_of_def)

lemma same_package_image: "same_package s0 h s \<Longrightarrow> image_of view c L s h = image_of view c L s0 h"
  by (simp add: same_package_def image_of_def)

lemma same_package_good:
  assumes "same_package s0 h s"
  shows "good_package view E L s h = good_package view E L s0 h"
  using assms unfolding good_package_def same_package_image [OF assms]
  by (simp add: same_package_def package_ok_def cong: option.case_cong)

lemma same_package_sound:
  assumes "same_package s0 h s"
  shows "sound s h d = sound s0 h d"
  using assms unfolding sound_source_def same_package_image [OF assms]
  by (simp add: same_package_def Let_def)

lemma traced_view: "app_traced s0 s \<Longrightarrow> view s' (th QBOOT_TARGET_APP) = view s (th QBOOT_TARGET_APP) \<Longrightarrow> app_traced s0 s'"
  by (simp add: app_from_def app_holds_def installed_def)

text \<open>A resume from the download or factory target keeps the application traced.\<close>

lemma resume_traced:
  assumes d: "desc_b E i = Some sd" "desc_b E QBOOT_TARGET_APP = Some ad"
    and i: "i = QBOOT_TARGET_DOWNLOAD \<or> i = QBOOT_TARGET_FACTORY"
    and wf: "wf_fw_info (g_fw_info b)" "wf_mem cf (w_mem (b_world b))"
    and p: "sound s0 (th i) (th QBOOT_TARGET_APP)"
    and same: "same_package s0 (th i) (w_dev (b_world b))" and t: "app_traced s0 (w_dev (b_world b))"
  obtains j b' where "resume_and_jump E bd i b = Some (j, b')" "j \<Longrightarrow> jump_legit bd b'"
    "wf_fw_info (g_fw_info b')" "wf_mem cf (w_mem (b_world b'))" "app_traced s0 (w_dev (b_world b'))"
    "\<And>h. h \<noteq> th QBOOT_TARGET_APP \<Longrightarrow> dev b' h = dev b h"
proof -
  let ?s = "w_dev (b_world b)"
  have ne: "i \<noteq> QBOOT_TARGET_APP" using i by auto
  have p': "sound ?s (th i) (th QBOOT_TARGET_APP)" using p same_package_sound [OF same] by simp
  obtain b' where r: "qbt_app_resume_from E i b = Some (good_package view E L ?s (th i) \<and>
      rt_streq (part_name (header_of view ?s (th i))) QBOOT_APP_PART_NAME, b')"
    "wf_mem cf (w_mem (b_world b'))" "wf_fw_info (g_fw_info b')"
    "\<forall>h. h \<noteq> th QBOOT_TARGET_APP \<longrightarrow> dev b' h = dev b h"
    "\<not> (good_package view E L ?s (th i) \<and> rt_streq (part_name (header_of view ?s (th i))) QBOOT_APP_PART_NAME) \<longrightarrow> dev b' = dev b"
    "good_package view E L ?s (th i) \<and> rt_streq (part_name (header_of view ?s (th i))) QBOOT_APP_PART_NAME \<longrightarrow>
      installed view (w_dev (b_world b')) (th QBOOT_TARGET_APP) (of_nat (dev_size (th QBOOT_TARGET_APP)))
        (header_of view ?s (th i)) (img ?s (th i))"
    using resume_exact [OF d ne wf p'] by blast
  have "app_traced s0 (w_dev (b_world b'))"
  proof (cases "good_package view E L ?s (th i) \<and> rt_streq (part_name (header_of view ?s (th i))) QBOOT_APP_PART_NAME")
    case True
    then have "holds_package s0 i (w_dev (b_world b'))"
      using r(6) same same_package_good [OF same] same_package_image [OF same] by (simp add: app_holds_def same_package_def)
    with i show ?thesis by (auto simp: app_from_def)
  next
    case False
    then have "dev b' (th QBOOT_TARGET_APP) = dev b (th QBOOT_TARGET_APP)" using r(5) by simp
    then show ?thesis by (rule traced_view [OF t])
  qed
  then show ?thesis
    by (intro that [of "(good_package view E L ?s (th i) \<and>
        rt_streq (part_name (header_of view ?s (th i))) QBOOT_APP_PART_NAME) \<and> jump_legit bd b'" b'])
      (use r(1-4) in \<open>simp_all add: resume_and_jump_def\<close>)
qed

text \<open>The release of a download that is addressed to the application, as the boot thread makes it.\<close>

lemma release_traced:
  assumes d: "desc_b E QBOOT_TARGET_DOWNLOAD = Some dd" "desc_b E QBOOT_TARGET_APP = Some ad"
    and wf: "wf_fw_info (g_fw_info b)" "wf_mem cf (w_mem (b_world b))" and r: "boot_ready s0" and s0: "s0 = w_dev (b_world b)"
  obtains b' where "qbt_release_from_part E QBOOT_TARGET_DOWNLOAD True b = Some (good_package view E L s0 (th QBOOT_TARGET_DOWNLOAD), b')"
    "wf_fw_info (g_fw_info b')" "wf_mem cf (w_mem (b_world b'))" "app_traced s0 (w_dev (b_world b'))"
    "same_package s0 (th QBOOT_TARGET_DOWNLOAD) (w_dev (b_world b'))"
    "\<And>h. h \<noteq> th QBOOT_TARGET_APP \<Longrightarrow> h \<noteq> th QBOOT_TARGET_DOWNLOAD \<Longrightarrow> dev b' h = dev b h"
    "good_package view E L s0 (th QBOOT_TARGET_DOWNLOAD) \<Longrightarrow> \<not> signed view cf s0 (th QBOOT_TARGET_DOWNLOAD) \<Longrightarrow>
      holds_package s0 QBOOT_TARGET_DOWNLOAD (w_dev (b_world b')) \<and> signed view cf (w_dev (b_world b')) (th QBOOT_TARGET_DOWNLOAD)"
    "\<not> (good_package view E L s0 (th QBOOT_TARGET_DOWNLOAD) \<and> \<not> signed view cf s0 (th QBOOT_TARGET_DOWNLOAD)) \<Longrightarrow> dev b' = dev b"
proof -
  let ?dl = "th QBOOT_TARGET_DOWNLOAD" and ?app = "th QBOOT_TARGET_APP"
  have pre: "sound (w_dev (b_world b)) ?dl ?app"
    "good_package view E L (w_dev (b_world b)) ?dl \<Longrightarrow> releasable view dev_size cf (w_dev (b_world b)) ?dl QBOOT_TARGET_APP"
    using r by (simp_all add: boot_prepared_def s0)
  obtain b' where x: "qbt_release_from_part E QBOOT_TARGET_DOWNLOAD True b = Some (good_package view E L s0 ?dl, b')"
    "wf_mem cf (w_mem (b_world b'))" "wf_fw_info (g_fw_info b')"
    "if good_package view E L s0 ?dl \<and> \<not> (True \<and> signed view cf s0 ?dl)
     then installed view (w_dev (b_world b')) ?app (of_nat (dev_size ?app)) (header_of view s0 ?dl) (img s0 ?dl) \<and>
       signed view cf (w_dev (b_world b')) ?dl \<and> header_of view (w_dev (b_world b')) ?dl = header_of view s0 ?dl \<and>
       body_of view (w_dev (b_world b')) ?dl (header_of view s0 ?dl) = body_of view s0 ?dl (header_of view s0 ?dl) \<and>
       (\<forall>h. h \<noteq> ?dl \<and> h \<noteq> ?app \<longrightarrow> dev b' h = view s0 h)
     else dev b' = view s0"
    using release_exact [OF d _ wf pre, of True] by (auto simp: s0)
  show ?thesis
  proof (cases "good_package view E L s0 ?dl \<and> \<not> signed view cf s0 ?dl")
    case True
    have y: "holds_package s0 QBOOT_TARGET_DOWNLOAD (w_dev (b_world b'))" "signed view cf (w_dev (b_world b')) ?dl"
      "same_package s0 ?dl (w_dev (b_world b'))" "\<And>h. h \<noteq> ?dl \<Longrightarrow> h \<noteq> ?app \<Longrightarrow> dev b' h = view s0 h"
      using x(4) True by (simp_all add: app_holds_def same_package_def)
    show ?thesis
      by (rule that [OF x(1,3,2)]) (use y True in \<open>simp_all add: app_from_def s0\<close>)
  next
    case False
    then have y: "dev b' = view s0" using x(4) by (auto split: if_splits)
    show ?thesis
      by (rule that [OF x(1,3,2)]) (use y False in \<open>auto simp: app_from_def s0 intro: same_package_view\<close>)
  qed
qed

text \<open>
  The last half of the thread, from the release of the download on: it ends as it may, and what
  the application target holds is its old contents or a verified package.
\<close>

lemma tail_traced:
  assumes m: "\<not> using_update_mgr cf" and d: "desc_b E QBOOT_TARGET_DOWNLOAD = Some dd" "desc_b E QBOOT_TARGET_APP = Some ad"
      "desc_b E QBOOT_TARGET_FACTORY = Some fd"
    and wf: "wf_fw_info (g_fw_info b)" "wf_mem cf (w_mem (b_world b))" and r: "boot_ready s0" and s0: "s0 = w_dev (b_world b)"
  shows "\<exists>out sh' b'. boot_tail E U bd sh (b, u) = Some (out, sh', b', u) \<and> left_well E bd out b' \<and>
    app_traced s0 (w_dev (b_world b')) \<and>
    (\<forall>h. h \<noteq> th QBOOT_TARGET_APP \<and> h \<noteq> th QBOOT_TARGET_DOWNLOAD \<longrightarrow> dev b' h = dev b h)"
proof -
  let ?dl = "QBOOT_TARGET_DOWNLOAD" and ?fa = "QBOOT_TARGET_FACTORY" and ?app = "th QBOOT_TARGET_APP"
  have p: "sound s0 (th ?dl) ?app" "sound s0 (th ?fa) ?app"
    using r by (simp_all add: boot_prepared_def)
  have ne: "th ?fa \<noteq> ?app" "th ?fa \<noteq> th ?dl" "th ?dl \<noteq> ?app" using th_inj by force+
  obtain b1 where b1: "qbt_release_from_part E ?dl True b = Some (good_package view E L s0 (th ?dl), b1)"
    "wf_fw_info (g_fw_info b1)" "wf_mem cf (w_mem (b_world b1))" "app_traced s0 (w_dev (b_world b1))"
    "same_package s0 (th ?dl) (w_dev (b_world b1))"
    "\<And>h. h \<noteq> ?app \<Longrightarrow> h \<noteq> th ?dl \<Longrightarrow> dev b1 h = dev b h"
    by (rule release_traced [OF d(1,2) wf r s0]) (rule that)
  have i: "?dl = ?dl \<or> ?dl = ?fa" "?fa = ?dl \<or> ?fa = ?fa" by simp_all
  obtain j2 b2 where b2: "resume_and_jump E bd ?dl b1 = Some (j2, b2)" "j2 \<Longrightarrow> jump_legit bd b2"
    "wf_fw_info (g_fw_info b2)" "wf_mem cf (w_mem (b_world b2))" "app_traced s0 (w_dev (b_world b2))"
    "\<And>h. h \<noteq> ?app \<Longrightarrow> dev b2 h = dev b1 h"
    by (rule resume_traced [OF d(1,2) i(1) b1(2,3) p(1) b1(5,4)]) (rule that)
  have f2: "same_package s0 (th ?fa) (w_dev (b_world b2))"
    by (rule same_package_view) (use b1(6) b2(6) ne s0 in simp)
  obtain j3 b3 where b3: "resume_and_jump E bd ?fa b2 = Some (j3, b3)" "j3 \<Longrightarrow> jump_legit bd b3"
    "app_traced s0 (w_dev (b_world b3))" "\<And>h. h \<noteq> ?app \<Longrightarrow> dev b3 h = dev b2 h"
    by (rule resume_traced [OF d(3,2) i(2) b2(3,4) p(2) f2 b2(5)]) (rule that)
  obtain out y where y: "shell_or_reset E bd 2 sh = Some (out, y)" "out = Cpu_reset \<or> out = Shell_started \<and> using_shell cf"
    by (rule shell_or_reset_returns)
  have "boot_tail E U bd sh (b, u) = Some (if jump_legit bd b1 then (App_started, sh, b1, u)
      else if j2 then (App_started, sh, b2, u) else if j3 then (App_started, sh, b3, u) else (out, y, b3, u))"
    using b1(1) b2(1) b3(1) y(1) m by (simp add: boot_tail_def notify_b_def Let_def)
  then show ?thesis
    using b1 b2 b3 y(2) by (cases "jump_legit bd b1"; cases j2; cases j3) (auto simp: left_well_def)
qed

text \<open>A trace of the application goes on over a stage that has left the two sources alone.\<close>

lemma traced_trans:
  assumes t: "app_traced s0 s1" "app_traced s1 s2"
    and v: "same_package s0 (th QBOOT_TARGET_DOWNLOAD) s1" "same_package s0 (th QBOOT_TARGET_FACTORY) s1"
  shows "app_traced s0 s2"
proof -
  have "holds_package s1 i s2 \<longleftrightarrow> holds_package s0 i s2" if "same_package s0 (th i) s1" for i
    using that same_package_good [OF that] same_package_image [OF that] by (simp add: app_holds_def same_package_def)
  with v t show ?thesis
    by (auto simp: app_from_def) (simp_all add: app_holds_def installed_def)
qed

lemma sources_kept_ready:
  assumes r: "boot_ready s0" and v: "\<And>h. h \<noteq> th QBOOT_TARGET_APP \<Longrightarrow> view s1 h = view s0 h"
  shows "boot_ready s1" and "same_package s0 (th QBOOT_TARGET_DOWNLOAD) s1" and "same_package s0 (th QBOOT_TARGET_FACTORY) s1"
proof -
  have ne: "th QBOOT_TARGET_FACTORY \<noteq> th QBOOT_TARGET_APP" "th QBOOT_TARGET_DOWNLOAD \<noteq> th QBOOT_TARGET_APP" using th_inj by force+
  show s: "same_package s0 (th QBOOT_TARGET_DOWNLOAD) s1" "same_package s0 (th QBOOT_TARGET_FACTORY) s1"
    using v ne by (simp_all add: same_package_view)
  have "releasable view dev_size cf s1 (th QBOOT_TARGET_DOWNLOAD) a = releasable view dev_size cf s0 (th QBOOT_TARGET_DOWNLOAD) a" for a
    using s v ne by (simp add: releasable_def same_package_def signed_def)
  then show "boot_ready s1"
    using r s by (simp add: boot_prepared_def same_package_sound same_package_good)
qed

text \<open>The whole thread, whatever keys are pressed.\<close>

lemma thread_traced:
  assumes q: "orderly_board E bd" and d: "desc_b E QBOOT_TARGET_DOWNLOAD = Some dd" "desc_b E QBOOT_TARGET_APP = Some ad"
      "desc_b E QBOOT_TARGET_FACTORY = Some fd"
    and wf: "wf_fw_info (g_fw_info b)" "wf_mem cf (w_mem (b_world b))" and r: "boot_ready s0" and s0: "s0 = w_dev (b_world b)"
  shows "\<exists>out sh b'. qbt_thread_entry E U bd (b, u) = Some (out, sh, b', u) \<and> left_well E bd out b' \<and>
    app_traced s0 (w_dev (b_world b')) \<and>
    (\<forall>h. h \<noteq> th QBOOT_TARGET_APP \<and> h \<noteq> th QBOOT_TARGET_DOWNLOAD \<longrightarrow> dev b' h = dev b h)"
proof (cases "bd_register bd = RT_EOK")
  case False
  obtain out y where y: "shell_or_reset E bd 0 (console_0 E bd) = Some (out, y)" "out = Cpu_reset \<or> out = Shell_started \<and> using_shell cf"
    by (rule shell_or_reset_returns)
  have "qbt_thread_entry E U bd (b, u) = Some (out, y, b, u)"
    using False y(1) by (simp add: qbt_thread_entry_def Let_def flip: console_0_def)
  with y(2) s0 show ?thesis by (auto simp: left_well_def app_from_def)
next
  case True
  let ?key = "using_factory_key cf \<and> qbt_factory_key_check (bd_pin bd)" and ?app = "th QBOOT_TARGET_APP"
  obtain j b1 where b1: "(if ?key then resume_and_jump E bd QBOOT_TARGET_FACTORY b else Some (False, b)) = Some (j, b1)"
    "j \<Longrightarrow> jump_legit bd b1" "wf_fw_info (g_fw_info b1)" "wf_mem cf (w_mem (b_world b1))"
    "app_traced s0 (w_dev (b_world b1))" "\<And>h. h \<noteq> ?app \<Longrightarrow> dev b1 h = dev b h"
  proof (cases ?key)
    case True
    have f: "sound s0 (th QBOOT_TARGET_FACTORY) ?app" using r by (simp add: boot_prepared_def)
    have t: "same_package s0 (th QBOOT_TARGET_FACTORY) (w_dev (b_world b))" "app_traced s0 (w_dev (b_world b))"
      using s0 by (simp_all add: same_package_def app_from_def)
    show ?thesis
      by (rule resume_traced [OF d(3,2) _ wf f t]) (use True that in auto)
  next
    case False
    then show ?thesis using that [of False b] wf s0 by (auto simp: app_from_def)
  qed
  have v: "\<And>h. h \<noteq> ?app \<Longrightarrow> view (w_dev (b_world b1)) h = view s0 h" using b1(6) s0 by simp
  note k = sources_kept_ready [OF r v]
  obtain shell sh where sh: "(if using_shell cf then qbt_startup_shell (bd_finsh bd) (bd_shell bd 1) True (console_0 E bd)
      else Some (False, console_0 E bd)) = Some (shell, sh)" "shell \<Longrightarrow> using_shell cf"
  proof (cases "using_shell cf")
    case True
    then have "\<exists>n. \<not> key_in_time (bd_shell bd 1) n" using q by (simp add: orderly_board_def)
    then show ?thesis by (rule startup_shell_returns [of True]) (use True that in auto)
  qed (use that in auto)
  have m: "\<not> using_update_mgr cf" using q by (simp add: orderly_board_def)
  obtain out sh' b2 where t: "boot_tail E U bd sh (b1, u) = Some (out, sh', b2, u)" "left_well E bd out b2"
    "app_traced (w_dev (b_world b1)) (w_dev (b_world b2))"
    "\<forall>h. h \<noteq> ?app \<and> h \<noteq> th QBOOT_TARGET_DOWNLOAD \<longrightarrow> dev b2 h = dev b1 h"
    using tail_traced [OF m d b1(3,4) k(1) refl, of U bd sh u] by blast
  have "qbt_thread_entry E U bd (b, u) = Some (if j then (App_started, console_0 E bd, b1, u)
      else if shell then (Shell_started, sh, b1, u) else (out, sh', b2, u))"
    unfolding qbt_thread_entry_def Let_def console_0_def [symmetric] fst_conv snd_conv b1(1) sh(1)
    using True t(1) m by simp
  moreover have "app_traced s0 (w_dev (b_world b2))" by (rule traced_trans [OF b1(5) t(3) k(2,3)])
  ultimately show ?thesis
    using b1(2,5,6) sh(2) t(2,4) by (cases j; cases shell) (auto simp: left_well_def)
qed

text \<open>
  A new valid download is installed and started, when the platform accepts the installation.
\<close>

lemma thread_installs:
  assumes q: "nobody_there E bd" and m: "\<not> using_update_mgr cf" and d: "desc_b E QBOOT_TARGET_DOWNLOAD = Some dd" "desc_b E QBOOT_TARGET_APP = Some ad"
    and wf: "wf_fw_info (g_fw_info b)" "wf_mem cf (w_mem (b_world b))" and r: "boot_ready s0" and s0: "s0 = w_dev (b_world b)"
    and new: "good_package view E L s0 (th QBOOT_TARGET_DOWNLOAD)" "\<not> signed view cf s0 (th QBOOT_TARGET_DOWNLOAD)"
    and legit: "\<And>s. holds_package s0 QBOOT_TARGET_DOWNLOAD s \<Longrightarrow> bd_legit bd s"
  shows "\<exists>sh b'. qbt_thread_entry E U bd (b, u) = Some (App_started, sh, b', u) \<and>
    holds_package s0 QBOOT_TARGET_DOWNLOAD (w_dev (b_world b')) \<and>
    signed view cf (w_dev (b_world b')) (th QBOOT_TARGET_DOWNLOAD)"
proof -
  obtain b1 where b1: "qbt_release_from_part E QBOOT_TARGET_DOWNLOAD True b =
      Some (good_package view E L s0 (th QBOOT_TARGET_DOWNLOAD), b1)"
    "good_package view E L s0 (th QBOOT_TARGET_DOWNLOAD) \<Longrightarrow> \<not> signed view cf s0 (th QBOOT_TARGET_DOWNLOAD) \<Longrightarrow>
      holds_package s0 QBOOT_TARGET_DOWNLOAD (w_dev (b_world b1)) \<and> signed view cf (w_dev (b_world b1)) (th QBOOT_TARGET_DOWNLOAD)"
    by (rule release_traced [OF d wf r s0]) (rule that)
  then have h: "holds_package s0 QBOOT_TARGET_DOWNLOAD (w_dev (b_world b1))"
    "signed view cf (w_dev (b_world b1)) (th QBOOT_TARGET_DOWNLOAD)" using new by simp_all
  have l: "jump_legit bd b1" using legit [OF h(1)] by (simp add: jump_legit_def qbt_wdt_feed_def)
  obtain sh where "qbt_thread_entry E U bd (b, u) = boot_tail E U bd sh (b, u)"
    by (rule entry_idle [OF q, of U "(b, u)"]) (use m in simp)
  then have "qbt_thread_entry E U bd (b, u) = Some (App_started, sh, b1, u)"
    using b1(1) l by (simp add: boot_tail_def)
  with h show ?thesis by blast
qed

end

section \<open>A demonstration\<close>

text \<open>
  The reference flash with the compressed and encrypted package in the download target, and the
  plain one in the factory target.
\<close>

abbreviation "H_factory \<equiv> H_desc QBOOT_TARGET_FACTORY"

definition demo_flash2 :: "nat \<Rightarrow> byte" where
  "demo_flash2 = splice 16384 (bytes_of_fw_info demo_fw @ demo_body) zip_flash"

definition demo_boot2 :: "(nat \<Rightarrow> byte, (unit, unit, unit) alg_state) boot" where
  "demo_boot2 = boot_on demo_flash2"

lemma demo_boot2_simps [simp]: "w_dev (b_world demo_boot2) = demo_flash2" "wf_fw_info (g_fw_info demo_boot2)"
  "wf_mem nor_cfg (w_mem (b_world demo_boot2))"
  by (simp_all add: demo_boot2_def)

lemma demo_factory_view:
  "custom_view nor_cfg nor_stores (\<lambda>s. s) s H_factory = \<lparr>v_open = True,
     v_cell = (\<lambda>i. if i < 8192 then s (16384 + i) else 0), v_ready = (\<lambda>i. i < 8192 \<and> s (16384 + i) = 0xFF)\<rparr>"
  "custom_dev_size nor_cfg nor_stores H_factory = 8192"
  using nor_region [of H_factory 16384 8192]
  by (simp_all add: custom_view_def custom_dev_size_def fun_eq_iff)

lemma demo_download2:
  "custom_view nor_cfg nor_stores (\<lambda>s. s) demo_flash2 H_download = custom_view nor_cfg nor_stores (\<lambda>s. s) zip_flash H_download"
  by (auto simp: demo_view demo_flash2_def splice_def fun_eq_iff)

lemma demo_factory_header:
  "header_of (custom_view nor_cfg nor_stores (\<lambda>s. s)) demo_flash2 H_factory = demo_fw"
proof -
  have "cells (v_cell (custom_view nor_cfg nor_stores (\<lambda>s. s) demo_flash2 H_factory)) 0 96 = cells demo_flash2 16384 96"
    by (auto simp: demo_factory_view intro!: nth_equalityI)
  also have "\<dots> = bytes_of_fw_info demo_fw"
    using splice_append [of 16384 "bytes_of_fw_info demo_fw" demo_body] cells_splice_same [of 16384 "bytes_of_fw_info demo_fw"]
    by (simp add: demo_flash2_def demo_bytes_length cells_splice_disjoint flip: splice_append)
  finally show ?thesis using fw_info_of_bytes_of [OF demo_fw_wf, of "[]"] by (simp add: header_of_def)
qed

lemmas demo_source2 = source_view [of "custom_view nor_cfg nor_stores (\<lambda>s. s)" demo_flash2 H_download zip_flash, OF demo_download2]

lemma demo_good2: "good_package (custom_view nor_cfg nor_stores (\<lambda>s. s)) nor_env nor_libs demo_flash2 H_download"
  unfolding demo_source2 by (rule zip_good)

lemma demo_not_signed2: "\<not> signed (custom_view nor_cfg nor_stores (\<lambda>s. s)) nor_cfg demo_flash2 H_download"
  using zip_not_signed by (simp add: signed_def demo_source2 demo_download2)

lemma demo_prepared:
  "boot_prepared (custom_view nor_cfg nor_stores (\<lambda>s. s)) (custom_dev_size nor_cfg nor_stores) nor_env nor_libs H_desc demo_flash2"
proof -
  let ?view = "custom_view nor_cfg nor_stores (\<lambda>s. s)" and ?size = "custom_dev_size nor_cfg nor_stores"
  have "releasable ?view ?size nor_cfg demo_flash2 H_download QBOOT_TARGET_APP"
    using zip_releasable by (simp add: releasable_def signed_def demo_source2 demo_download2)
  moreover have "sound_source ?view ?size nor_env nor_libs demo_flash2 H_factory H_app"
    by (rule plain_sound(2)) (simp_all add: demo_factory_header demo_plain fits_def demo_factory_view(2))
  ultimately show ?thesis by (simp add: boot_prepared_def demo_source2 zip_sound)
qed

text \<open>Blank flash is a sound source.\<close>

lemma blank_sound: "sound_source (custom_view nor_cfg nor_stores (\<lambda>s. s)) (custom_dev_size nor_cfg nor_stores) nor_env L
    (\<lambda>_. 0xFF) H_download H_app"
proof -
  have "cells (\<lambda>_. 0xFF) 8192 96 = (replicate 96 0xFF :: byte list)" by (intro nth_equalityI) simp_all
  then have "fw_type (header_of (custom_view nor_cfg nor_stores (\<lambda>s. s)) (\<lambda>_. 0xFF) H_download) = replicate 4 0xFF"
    by (simp add: header_of_def demo_cells fw_info_of_bytes_def)
  then have "\<not> qbt_fw_info_check nor_env (header_of (custom_view nor_cfg nor_stores (\<lambda>s. s)) (\<lambda>_. 0xFF) H_download)"
    by (simp add: qbt_fw_info_check_def rt_streq_def) (simp add: str_bytes_def numeral_eq_Suc)
  then show ?thesis by (simp add: sound_source_def Let_def)
qed

definition demo_board :: "(nat \<Rightarrow> byte) board" where
  "demo_board = \<lparr>bd_register = RT_EOK, bd_pin = (\<lambda>_. False),
     bd_shell = (\<lambda>_. \<lparr>so_dev = None, so_sem = False, so_open = (\<lambda>_. False), so_start = 0, so_tmo = 0,
       so_polls = (\<lambda>_. \<lparr>kp_tick = 0, kp_taken = False, kp_char = None\<rparr>)\<rparr>),
     bd_finsh = rtt_finsh, bd_sys = rtt_sys, bd_sched = (\<lambda>_. []), bd_legit = (\<lambda>s. s 0 \<noteq> 0xFF)\<rparr>"

lemma demo_quiet: "orderly_board nor_env demo_board" "nobody_there nor_env demo_board" "\<not> using_update_mgr (e_cfg nor_env)"
  by (simp_all add: orderly_board_def nobody_there_def demo_board_def nor_cfg_def)

lemma demo_desc3: "\<exists>d. desc_b nor_env QBOOT_TARGET_FACTORY = Some d"
  by (simp add: desc_b_def qbt_target_desc_def length_g_descs)

lemma demo_legit:
  assumes "app_holds (custom_view nor_cfg nor_stores (\<lambda>s. s)) (custom_dev_size nor_cfg nor_stores) nor_env nor_libs H_desc
    demo_flash2 QBOOT_TARGET_DOWNLOAD s"
  shows "bd_legit demo_board s"
proof -
  have "cells (v_cell (custom_view nor_cfg nor_stores (\<lambda>s. s) s H_app)) 0 8 = zip_raw"
    using assms by (simp add: app_holds_def installed_def demo_source2 zip_header zip_image_of)
  then have "cells (v_cell (custom_view nor_cfg nor_stores (\<lambda>s. s) s H_app)) 0 8 ! 0 = 9" by (simp add: zip_raw_def)
  then show ?thesis by (simp add: demo_view demo_board_def)
qed

text \<open>A build with the shell on a board whose storage fails, with a console: the shell starts.\<close>

lemma demo_shell_entry:
  "\<exists>sh. qbt_thread_entry (nor_env\<lparr>e_cfg := nor_cfg\<lparr>using_shell := True\<rparr>\<rparr>) U
      (demo_board\<lparr>bd_register := RT_ERROR, bd_shell := (\<lambda>_. demo_console)\<rparr>) x = Some (Shell_started, sh, x) \<and>
    qbt_shell_dev sh = Some 7 \<and> finsh_prompt (sys_state sh) = QBOOT_SHELL_PROMPT"
  by (simp add: qbt_thread_entry_def shell_or_reset_def qbt_startup_shell_def qbt_shell_init_def demo_console_def
      shell_static_def demo_board_def rtt_finsh_def rtt_sys_def qbt_close_sys_shell_def qbt_open_sys_shell_def Let_def)

end
