(* ===== verification/Qboot_Ota.thy ===== *)
theory Qboot_Ota
  imports Qboot_Power
begin

text \<open>
  An update over the air with the download helper of \<open>src/qboot_update.c\<close>: the boot thread
  polls the manager, which gets the bytes of a raw image from its client, releases the
  download, which copies the whole target, and starts the application.
\<close>

section \<open>The copy of a confirmed download\<close>

text \<open>
  With the helper a target is an image without a header: the check gives the whole target as
  raw and package size, and the release copies that. A build without a product code, on flash,
  where no sign can stand behind the whole target.
\<close>

locale raw_flash = target_handles io view dev_size crc cal E th
  for io :: "'s qboot_io_ops" and view and dev_size and crc and cal and
    E :: "('s, ('q, 'z, 'k) alg_state) boot_env" and th +
  fixes L :: "('q, 'z, 'k) alg_libs"
  assumes raw_startup: "qbot_algo_startup (e_cfg E) L algo_tables_0 = (RT_EOK, e_tables E)"
    and raw_helper: "using_download_helper (e_cfg E)"
    and raw_product: "product_code (e_cfg E) = None"
    and no_sign: "unat (pkg_size fw) = dev_size (th QBOOT_TARGET_DOWNLOAD) \<Longrightarrow>
      \<exists>s'. qbt_release_sign_check (e_parser E) (th QBOOT_TARGET_DOWNLOAD) fw s = (False, s') \<and> view s' = view s"
    and sign_other: "h \<noteq> th QBOOT_TARGET_DOWNLOAD \<Longrightarrow>
      view (snd (qbt_release_sign_write (e_parser E) (th QBOOT_TARGET_DOWNLOAD) fw s)) h = view s h"
begin

abbreviation "cf \<equiv> e_cfg E"

lemma raw_pos [simp]: "unat (qboot_src_read_pos cf) = 0" "qboot_src_read_pos cf = 0"
  using raw_helper by (simp_all add: qboot_src_read_pos_def unat_src_read_pos)

definition raw_fw :: "nat \<Rightarrow> fw_info_t \<Rightarrow> bool" where
  "raw_fw n fw \<longleftrightarrow> plain_fw fw \<and> unat (pkg_size fw) = n"

lemma start_raw:
  assumes fw: "raw_fw n fw" and fit: "n \<le> dev_size src" "n < 2147483648" and len: "length body = n"
  obtains w' Ini where "alg_init (package_ctx cf L fw) w = (True, w')" "Ini (w_alg w')" "w_dev w' = w_dev w" "w_mem w' = w_mem w"
    "transfers io view cf (stream_cfg_of cf src fw (package_ctx cf L fw)) Ini body body"
proof -
  have ctx: "package_ctx cf L fw = \<lparr>crypt_ops = Some (qbt_algo_none_crypt_ops cf), cmprs_ops = Some (qbt_algo_none_cmprs_ops cf)\<rparr>"
    and raw: "raw_size fw = pkg_size fw"
    using fw by (simp_all add: raw_fw_def plain_fw_def package_ctx_def)
  have "handler_stream io view dev_size (qbt_algo_none_crypt cf) cf (\<lambda>_. ()) (\<lambda>k bs. (bs, k)) (qbt_algo_none_crypt_ops cf) () src fw"
    using fit fw
    by (intro handler_stream.intro none_handler.crypt_handler_axioms reliable_storage_axioms handler_stream_axioms.intro)
      (simp_all add: raw_fw_def)
  from handler_stream.none_decodes [OF this raw, of body]
  have "decodes io view cf (stream_cfg_of cf src fw (package_ctx cf L fw)) body body" by (simp add: ctx)
  then obtain Ini where init: "\<And>a. \<exists>a'. qbt_fw_algo_init (package_ctx cf L fw) a = (True, a') \<and> Ini a'"
    and t: "transfers io view cf (stream_cfg_of cf src fw (package_ctx cf L fw)) Ini body body"
    by (auto simp: decodes_def stream_cfg_of_def)
  obtain a' where "qbt_fw_algo_init (package_ctx cf L fw) (w_alg w) = (True, a')" "Ini a'" using init by blast
  then show ?thesis
    by (intro that [of "w\<lparr>w_alg := a'\<rparr>" Ini] t) (simp_all add: alg_init_def)
qed

lemma raw_erase:
  assumes o: "v_open (view (w_dev w) dst)" and fit: "unat (raw_size fw) \<le> dev_size dst" "unat n \<le> dev_size dst"
  obtains w' where "release_erase E dst n fw w = (True, w')" "v_open (view (w_dev w') dst)"
    "ready_range (view (w_dev w') dst) 0 (unat (raw_size fw))"
    "\<And>h'. h' \<noteq> dst \<Longrightarrow> view (w_dev w') h' = view (w_dev w) h'" "w_mem w' = w_mem w" "w_alg w' = w_alg w"
proof -
  have f1: "unat (0 :: u32) + unat (raw_size fw) \<le> dev_size dst" and f2: "unat n + unat (0 :: u32) \<le> dev_size dst"
    using fit by simp_all
  obtain w1 where w1: "erase_w io dst 0 (raw_size fw) w = (RT_EOK, w1)" "v_open (view (w_dev w1) dst)"
    "ready_range (view (w_dev w1) dst) 0 (unat (raw_size fw))"
    "\<And>h'. h' \<noteq> dst \<Longrightarrow> view (w_dev w1) h' = view (w_dev w) h'" "w_mem w1 = w_mem w" "w_alg w1 = w_alg w"
    by (rule erase_w_total [OF o f1, unfolded unsigned_0]) (rule that)
  obtain w2 where w2: "erase_w io dst n 0 w1 = (RT_EOK, w2)"
    "v_open (view (w_dev w2) dst)" "\<And>i. v_ready (view (w_dev w1) dst) i \<Longrightarrow> v_ready (view (w_dev w2) dst) i"
    "\<And>h'. h' \<noteq> dst \<Longrightarrow> view (w_dev w2) h' = view (w_dev w1) h'" "w_mem w2 = w_mem w1" "w_alg w2 = w_alg w1"
    by (rule erase_w_total [OF w1(2) f2]) (rule that)
  show ?thesis
    by (rule that [of w2])
      (use w1 w2 in \<open>auto simp: release_erase_def env_io ready_range_def\<close>)
qed

text \<open>The header that is written behind the image is empty.\<close>

lemma raw_info_write:
  assumes o: "v_open (view (w_dev w) h)" and fit: "unat n \<le> dev_size h"
  obtains w' where "info_write_w cf io h n fw True w = (True, w')" "v_cell (view (w_dev w') h) = v_cell (view (w_dev w) h)"
    "v_open (view (w_dev w') h)" "\<And>h'. h' \<noteq> h \<Longrightarrow> view (w_dev w') h' = view (w_dev w) h'" "w_mem w' = w_mem w"
proof -
  have "unat n + length ([] :: byte list) \<le> dev_size h" using fit by simp
  from write_total [OF o _ this] obtain s where wr: "io_write io h n [] (w_dev w) = (RT_EOK, s)" by auto
  show ?thesis
    by (rule that [of "w\<lparr>w_dev := s\<rparr>"])
      (use write_cells [OF o wr] write_open [OF o wr] write_other [OF o wr] wr in
        \<open>simp_all add: info_write_w_def qbt_fw_info_write_def\<close>)
qed

lemma raw_release:
  assumes fw: "raw_fw (dev_size src) fw" and small: "dev_size src < 2147483648"
    and fit: "dev_size src \<le> dev_size dst" "unat n = dev_size dst"
    and sd: "src \<noteq> dst" and so: "v_open (view (w_dev w) src)" and od: "v_open (view (w_dev w) dst)"
    and wf: "wf_mem cf (w_mem w)"
  obtains w' where "qbt_fw_release E dst n src fw w = Some (True, w')" "wf_mem cf (w_mem w')"
    "cells (v_cell (view (w_dev w') dst)) 0 (dev_size src) = cells (v_cell (view (w_dev w) src)) 0 (dev_size src)"
    "\<And>h. h \<noteq> dst \<Longrightarrow> view (w_dev w') h = view (w_dev w) h"
proof -
  let ?ops = "package_ctx cf L fw" and ?body = "cells (v_cell (view (w_dev w) src)) 0 (dev_size src)"
  let ?cfg = "stream_cfg_of cf src fw ?ops"
  let ?st = "\<lparr>dst_handle = dst, st_raw_pos = 0, st_raw_size = raw_size fw\<rparr>"
  have p: "plain_fw fw" "unat (pkg_size fw) = dev_size src" "unat (raw_size fw) = dev_size src"
    using fw by (simp_all add: raw_fw_def plain_fw_def)
  have i: "package_image cf L fw ?body = Some ?body" by (rule plain_image [OF p(1)]) (simp add: p(2))
  obtain w0 Ini where w0: "alg_init ?ops w = (True, w0)" "Ini (w_alg w0)" "w_dev w0 = w_dev w"
    "w_mem w0 = w_mem w" and T: "transfers io view cf ?cfg Ini ?body ?body"
    by (rule start_raw [OF fw order_refl small, of ?body]) (simp, rule that)
  obtain w1 where e: "release_erase E dst n fw w0 = (True, w1)" "v_open (view (w_dev w1) dst)"
    "ready_range (view (w_dev w1) dst) 0 (unat (raw_size fw))"
    "\<And>h'. h' \<noteq> dst \<Longrightarrow> view (w_dev w1) h' = view (w_dev w) h'" "w_mem w1 = w_mem w" "w_alg w1 = w_alg w0"
    by (rule raw_erase [of w0 dst fw n]) (use od w0(3,4) that fit p(3) in auto)
  have ini: "Ini (w_alg w1)" using w0(2) e(6) by simp
  have pre: "src_handle ?cfg \<noteq> dst" "v_open (view (w_dev w1) (src_handle ?cfg))" "v_open (view (w_dev w1) dst)"
    "wf_mem cf (w_mem w1)" "dst_handle ?st = dst" "st_raw_pos ?st = 0"
    "ready_range (view (w_dev w1) dst) 0 (length ?body)" "length ?body \<le> dev_size dst"
    "length ?body = unat (pkg_size (cfg_fw_info ?cfg))" "length ?body = unat (raw_size (cfg_fw_info ?cfg))"
    using sd so wf e p fit by (simp_all add: stream_cfg_of_def)
  have body: "cells (v_cell (view (w_dev w1) (src_handle ?cfg))) (unat (qboot_src_read_pos cf)) (length ?body) = ?body"
    using e(4) sd by (simp add: stream_cfg_of_def)
  obtain ctx w2 where s: "qbt_fw_stream_process cf io ?cfg QBT_STREAM_WRITE (qbt_stream_write_proc io) (Write_ctx ?st) w1 =
      Some (True, ctx, w2)" "wf_mem cf (w_mem w2)" "\<And>h. h \<noteq> dst \<Longrightarrow> view (w_dev w2) h = view (w_dev w1) h"
    "v_open (view (w_dev w2) dst)" "v_cell (view (w_dev w2) dst) = splice 0 ?body (v_cell (view (w_dev w1) dst))"
    "\<And>i. length ?body \<le> i \<Longrightarrow> v_ready (view (w_dev w1) dst) i \<Longrightarrow> v_ready (view (w_dev w2) dst) i"
    by (rule exact_write [where w = w1, OF T ini pre body]) (rule that)
  let ?w2 = "alg_deinit ?ops w2"
  have o2: "v_open (view (w_dev ?w2) dst)" and n: "unat n \<le> dev_size dst" using s(4) fit by simp_all
  obtain w3 where h: "info_write_w cf io dst n fw True ?w2 = (True, w3)"
    "v_cell (view (w_dev w3) dst) = v_cell (view (w_dev ?w2) dst)"
    "v_open (view (w_dev w3) dst)" "\<And>h'. h' \<noteq> dst \<Longrightarrow> view (w_dev w3) h' = view (w_dev ?w2) h'" "w_mem w3 = w_mem ?w2"
    by (rule raw_info_write [OF o2 n]) (rule that)
  have "qbt_fw_release E dst n src fw w = Some (True, w3)"
    unfolding qbt_fw_release_def package_context [OF raw_startup i]
    using w0(1) e(1) s(1) h(1) by (simp add: env_io package_not_hpatch del: map_option_eq_Some)
  then show ?thesis
  proof (rule that)
    show "wf_mem cf (w_mem w3)" using s(2) h(5) by simp
    show "cells (v_cell (view (w_dev w3) dst)) 0 (dev_size src) = ?body"
      using cells_splice_same [of 0 ?body] by (simp add: h(2) s(5))
    show "view (w_dev w3) h' = view (w_dev w) h'" if "h' \<noteq> dst" for h'
      using h(4) [OF that] s(3) [OF that] e(4) [OF that] by simp
  qed
qed

text \<open>The name the check writes into the header is that of the application.\<close>

lemma app_name:
  assumes "desc_b E QBOOT_TARGET_APP = Some ad" and "wf_fw_info fw"
  shows "qbt_name_to_id cf (rt_strcpy (part_name fw) QBOOT_APP_PART_NAME) = QBOOT_TARGET_APP"
proof -
  have role: "role_name ad = QBOOT_APP_PART_NAME"
    using assms(1) unfolding desc_b_def by (rule target_desc_cases) simp_all
  have "rt_strcpy (part_name fw) QBOOT_APP_PART_NAME = str_bytes (role_name ad) @ 0 #
      drop (Suc (length QBOOT_APP_PART_NAME)) (part_name fw)"
    using assms(2) by (simp add: rt_strcpy_def role overwrite_def wf_fw_info_def str_bytes_def)
  then show ?thesis using name_to_id_role [OF assms(1) [unfolded desc_b_def]] by simp
qed

text \<open>The release of a confirmed download copies the whole target to the application.\<close>

lemma raw_release_part:
  assumes d: "desc_b E QBOOT_TARGET_DOWNLOAD = Some dd" "desc_b E QBOOT_TARGET_APP = Some ad"
    and ok: "s_dl_ok b" and wf: "wf_mem cf (w_mem (b_world b))" and wff: "wf_fw_info (g_fw_info b)"
    and small: "dev_size (th QBOOT_TARGET_DOWNLOAD) < 2147483648"
    and fit: "dev_size (th QBOOT_TARGET_DOWNLOAD) \<le> dev_size (th QBOOT_TARGET_APP)"
  obtains b' where "qbt_release_from_part E QBOOT_TARGET_DOWNLOAD True b = Some (True, b')"
    "cells (v_cell (dev b' (th QBOOT_TARGET_APP))) 0 (dev_size (th QBOOT_TARGET_DOWNLOAD)) =
      cells (v_cell (dev b (th QBOOT_TARGET_DOWNLOAD))) 0 (dev_size (th QBOOT_TARGET_DOWNLOAD))"
    "\<And>h. h \<noteq> th QBOOT_TARGET_APP \<Longrightarrow> h \<noteq> th QBOOT_TARGET_DOWNLOAD \<Longrightarrow> dev b' h = dev b h"
proof -
  let ?dl = "th QBOOT_TARGET_DOWNLOAD" and ?app = "th QBOOT_TARGET_APP"
  have so: "v_open (view x ?dl)" and ao: "v_open (view x ?app)" for x
    using th_open d by (simp_all add: desc_b_def)
  have sd: "?dl \<noteq> ?app" using th_inj by force
  have name: "rt_streq (c_string (role_name dd)) QBOOT_DOWNLOAD_PART_NAME"
    using d(1) unfolding desc_b_def
    by (rule target_desc_cases) (simp_all add: c_string_def rt_streq_def)
  obtain n b1 where o: "open_b E QBOOT_TARGET_DOWNLOAD True QBT_OPEN_READ b = ((True, ?dl, n), b1)"
    "unat n = dev_size ?dl" "dev b1 = dev b" "g_fw_info b1 = g_fw_info b"
    "w_mem (b_world b1) = w_mem (b_world b)" "s_dl_ok b1 = s_dl_ok b"
    by (rule open_b_th [OF d(1)]) (rule that)
  define fw where "fw = (g_fw_info b)\<lparr>algo := 0, part_name := rt_strcpy (part_name (g_fw_info b)) QBOOT_APP_PART_NAME,
      raw_size := n, pkg_size := n\<rparr>"
  let ?b2 = "b1\<lparr>g_fw_info := fw\<rparr>"
  have chk: "qbt_fw_check E ?dl n (c_string (role_name dd)) b1 = Some (True, ?b2)"
    using name ok raw_helper o(4,6) by (simp add: qbt_fw_check_def fw_check_helper_def fw_def)
  have fw': "raw_fw (dev_size ?dl) fw"
    using o(2) by (simp add: raw_fw_def fw_def plain_fw_def algo_id_defs)
  obtain b3 where c: "sign_check_b E ?dl ?b2 = (False, b3)" "dev b3 = dev b" "g_fw_info b3 = fw"
    "w_mem (b_world b3) = w_mem (b_world b)"
  proof -
    obtain s' where "qbt_release_sign_check (e_parser E) ?dl fw (w_dev (b_world b1)) = (False, s')" "view s' = dev b1"
      using no_sign [of fw "w_dev (b_world b1)"] fw' by (auto simp: raw_fw_def)
    then show ?thesis
      by (intro that [of "?b2\<lparr>b_world := (b_world ?b2)\<lparr>w_dev := s'\<rparr>\<rparr>"]) (use o in \<open>simp_all add: sign_check_b_def\<close>)
  qed
  have to: "qbt_name_to_id cf (part_name fw) = QBOOT_TARGET_APP" by (simp add: fw_def app_name [OF d(2) wff])
  obtain m b4 where a: "open_b E QBOOT_TARGET_APP True (QBT_OPEN_WRITE OR QBT_OPEN_CREATE) b3 = ((True, ?app, m), b4)"
    "unat m = dev_size ?app" "dev b4 = dev b3" "g_fw_info b4 = g_fw_info b3"
    "w_mem (b_world b4) = w_mem (b_world b3)" "s_dl_ok b4 = s_dl_ok b3"
    by (rule open_b_th [OF d(2)]) (rule that)
  have wf4: "wf_mem cf (w_mem (b_world b4))" using a(5) c(4) wf by simp
  obtain w where r: "qbt_fw_release E ?app m ?dl fw (b_world b4) = Some (True, w)"
    "cells (v_cell (view (w_dev w) ?app)) 0 (dev_size ?dl) = cells (v_cell (view (w_dev (b_world b4)) ?dl)) 0 (dev_size ?dl)"
    "\<And>h. h \<noteq> ?app \<Longrightarrow> view (w_dev w) h = dev b4 h"
    by (rule raw_release [OF fw' small fit a(2) sd so ao wf4]) (rule that)
  let ?b5 = "b4\<lparr>b_world := w\<rparr>"
  have u: "qbt_fw_update E ?app m ?dl b4 = Some (True, ?b5)"
    using r(1) raw_helper a(4) c(3) by (simp add: qbt_fw_update_def qbt_dest_part_verify_def dest_part_verify_helper_def)
  obtain q b6 where k: "sign_check_b E ?dl ?b5 = (q, b6)" "dev b6 = dev ?b5" "g_fw_info b6 = fw" "q = False"
  proof -
    obtain s' where "qbt_release_sign_check (e_parser E) ?dl fw (w_dev w) = (False, s')" "view s' = view (w_dev w)"
      using no_sign [of fw "w_dev w"] fw' by (auto simp: raw_fw_def)
    then show ?thesis
      by (intro that [of False "?b5\<lparr>b_world := (b_world ?b5)\<lparr>w_dev := s'\<rparr>\<rparr>"]) (use a c in \<open>simp_all add: sign_check_b_def\<close>)
  qed
  let ?b7 = "snd (sign_write_b E ?dl b6)"
  have b7: "dev ?b7 h = dev b6 h" if "h \<noteq> ?dl" for h
    using sign_other [OF that, of "g_fw_info b6" "w_dev (b_world b6)"] by (simp add: sign_write_b_def case_prod_beta)
  have rt: "release_to E ?dl QBOOT_TARGET_APP b3 = Some (True, ?app, ?b7)"
    using a(1) u k(1,4) desc_below [OF d(2)] by (simp add: release_to_def)
  have "qbt_release_from_part E QBOOT_TARGET_DOWNLOAD True b = Some (True, close_b E ?dl (close_b E ?app ?b7))"
    using d(1) o(1) chk c(1,3) rt to th_null
    by (simp add: qbt_release_from_part_def release_update_def product_ok_def raw_product Let_def)
  then show ?thesis
    by (rule that) (use r(2,3) b7 sd k(2) a(3) c(2) in auto)
qed

end

section \<open>The session while the manager polls\<close>

text \<open>The calls of a client that sends its pieces one behind the other.\<close>

fun chunk_events :: "u32 \<Rightarrow> byte list list \<Rightarrow> upd_event list" where
  "chunk_events off [] = []"
| "chunk_events off (bs # rest) = Ev_write off bs # chunk_events (off + of_nat (length bs)) rest"

definition session_events :: "byte list list \<Rightarrow> upd_event list" where
  "session_events bss = Ev_begin # chunk_events 0 bss @ [Ev_finish True]"

lemma chunk_fold:
  "download_chunks off bss E u = (True, u') \<Longrightarrow> fold (upd_handle E) (chunk_events off bss) u = u'"
  by (induction off bss E u rule: download_chunks.induct) (auto split: prod.splits bool.splits)

context download_target
begin

lemma poll_session:
  assumes helper: "using_download_helper (ue_cfg E)" and fit: "length (concat bss) \<le> dev_size h"
    and big: "dev_size h < 4294967296" and st: "u_state u = UPD_WAIT" "0 < wait_ms u" "\<not> ready_flag u"
    and sched: "sched 0 = session_events bss"
  obtains u' where "qbt_update_mgr_poll E sched u = Some u'" "dl_ok u'" "u_state u' = UPD_READY"
    "cells (v_cell (dev u' h)) 0 (length (concat bss)) = concat bss" "\<And>h'. h' \<noteq> h \<Longrightarrow> dev u' h' = dev u h'"
proof -
  let ?u = "u\<lparr>wait_start := u_tick u\<rparr>"
  obtain u1 u2 u3 where b: "qbt_update_mgr_download_begin E ?u = (True, u1)" "download_chunks 0 bss E u1 = (True, u2)"
    and u3: "u3 = qbt_update_mgr_on_finish True E u2" "dl_ok u3" "u_state u3 = UPD_READY" "ready_flag u3"
      "cells (v_cell (dev u3 h)) 0 (length (concat bss)) = concat bss" "\<And>h'. h' \<noteq> h \<Longrightarrow> dev u3 h' = dev ?u h'"
    using session_exact [OF helper fit big, of ?u] unfolding Let_def by blast
  have p: "poll_pass E ?u = ?u" using st by (simp add: poll_pass_def Let_def word_gt_0)
  have "fold (upd_handle E) (sched 0) ?u = u3"
    using b u3(1) chunk_fold [OF b(2)] by (simp add: sched session_events_def)
  then have "poll_body E sched (0, ?u) = Some (Again (Suc 0, u3))" "poll_body E sched (Suc 0, u3) = Some (Stop u3)"
    using st u3(4) p by (simp_all add: poll_body_def)
  then have "qbt_update_mgr_poll E sched u = Some u3"
    by (simp add: qbt_update_mgr_poll_def run_loop.simps [of _ "(0, _)"] run_loop.simps [of _ "(Suc 0, _)"])
  then show ?thesis by (rule that) (use u3 in simp_all)
qed

end

section \<open>From the air to the application\<close>

lemma notify_fst: "fst (notify_b E U ok x) = fst x"
  by (simp add: notify_b_def)

context raw_flash
begin

lemma ota_installs:
  assumes D: "download_target U view dev_size (th QBOOT_TARGET_DOWNLOAD)" and h: "using_download_helper (ue_cfg U)"
    and m: "using_update_mgr cf" and q: "nobody_there E bd" and sched: "bd_sched bd 0 = session_events bss"
    and st: "u_state u = UPD_WAIT" "0 < wait_ms u" "\<not> ready_flag u"
    and d: "desc_b E QBOOT_TARGET_DOWNLOAD = Some dd" "desc_b E QBOOT_TARGET_APP = Some ad"
    and wf: "wf_fw_info (g_fw_info b)" "wf_mem cf (w_mem (b_world b))"
    and size: "length (concat bss) \<le> dev_size (th QBOOT_TARGET_DOWNLOAD)" "dev_size (th QBOOT_TARGET_DOWNLOAD) < 2147483648"
      "dev_size (th QBOOT_TARGET_DOWNLOAD) \<le> dev_size (th QBOOT_TARGET_APP)"
    and legit: "\<And>s. cells (v_cell (view s (th QBOOT_TARGET_APP))) 0 (length (concat bss)) = concat bss \<Longrightarrow> bd_legit bd s"
  shows "\<exists>sh b' u'. qbt_thread_entry E U bd (b, u) = Some (App_started, sh, b', u') \<and>
    cells (v_cell (dev b' (th QBOOT_TARGET_APP))) 0 (length (concat bss)) = concat bss \<and>
    (\<forall>h. h \<noteq> th QBOOT_TARGET_APP \<and> h \<noteq> th QBOOT_TARGET_DOWNLOAD \<longrightarrow> dev b' h = dev b h)"
proof -
  let ?dl = "th QBOOT_TARGET_DOWNLOAD" and ?app = "th QBOOT_TARGET_APP" and ?n = "length (concat bss)"
  have big: "dev_size ?dl < 4294967296" using size(2) by simp
  obtain u1 where p: "qbt_update_mgr_poll U (bd_sched bd) (u\<lparr>u_dev := w_dev (b_world b)\<rparr>) = Some u1" "dl_ok u1"
    "cells (v_cell (view (u_dev u1) ?dl)) 0 ?n = concat bss" "\<And>h'. h' \<noteq> ?dl \<Longrightarrow> view (u_dev u1) h' = dev b h'"
    by (rule download_target.poll_session [OF D h size(1) big, of "u\<lparr>u_dev := w_dev (b_world b)\<rparr>" "bd_sched bd"])
      (use st sched that in auto)
  let ?b1 = "b\<lparr>s_dl_ok := dl_ok u1, b_world := (b_world b)\<lparr>w_dev := u_dev u1\<rparr>\<rparr>"
  obtain b2 where r: "qbt_release_from_part E QBOOT_TARGET_DOWNLOAD True ?b1 = Some (True, b2)"
    "cells (v_cell (dev b2 ?app)) 0 (dev_size ?dl) = cells (v_cell (dev ?b1 ?dl)) 0 (dev_size ?dl)"
    "\<And>h. h \<noteq> ?app \<Longrightarrow> h \<noteq> ?dl \<Longrightarrow> dev b2 h = dev ?b1 h"
    by (rule raw_release_part [OF d, of ?b1]) (use p(2) wf size that in auto)
  have img: "cells (v_cell (dev b2 ?app)) 0 ?n = concat bss"
  proof -
    have "cells (v_cell (dev b2 ?app)) 0 ?n = take ?n (cells (v_cell (dev b2 ?app)) 0 (dev_size ?dl))"
      using size(1) by (simp add: take_cells)
    also have "\<dots> = concat bss" using p(3) size(1) by (simp add: r(2) take_cells)
    finally show ?thesis .
  qed
  then have l: "jump_legit bd b2" using legit by (simp add: jump_legit_def qbt_wdt_feed_def)
  obtain sh where e: "qbt_thread_entry E U bd (b, u) = do {
    y \<leftarrow> (if using_update_mgr cf
          then do { z \<leftarrow> mgr_poll U (bd_sched bd) (b, u); Some (notify_b E U True z) } else Some (b, u));
    boot_tail E U bd sh y }"
    by (rule entry_idle [OF q])
  have "mgr_poll U (bd_sched bd) (b, u) = Some (?b1, u1)" by (simp add: mgr_poll_def p(1))
  then have "qbt_thread_entry E U bd (b, u) = boot_tail E U bd sh (notify_b E U True (?b1, u1))" by (simp add: e m)
  also have "\<dots> = Some (App_started, sh, b2, snd (notify_b E U True (?b1, u1)))"
    using r(1) l by (simp add: boot_tail_def notify_fst)
  finally show ?thesis using img r(3) p(4) by auto
qed

end

section \<open>A demonstration\<close>

text \<open>The reference flash in a build with the update manager and its helper.\<close>

definition ota_cfg :: qboot_cfg where
  "ota_cfg = nor_cfg\<lparr>using_update_mgr := True, using_download_helper := True\<rparr>"

definition ota_env :: "(nat \<Rightarrow> byte, (unit, unit, unit) alg_state) boot_env" where
  "ota_env = nor_env\<lparr>e_cfg := ota_cfg, e_parser := g_qboot_header_parser_custom ota_cfg nor_stores (nor_hooks 512),
     e_tables := snd (qbot_algo_startup ota_cfg nor_libs algo_tables_0)\<rparr>"

lemma ota_env_simps [simp]:
  "e_cfg ota_env = ota_cfg" "e_stores ota_env = nor_stores" "e_io ota_env = g_qboot_io_custom nor_cfg nor_stores (nor_hooks 512)"
  "e_parser ota_env = g_qboot_header_parser_custom ota_cfg nor_stores (nor_hooks 512)"
  "e_tables ota_env = snd (qbot_algo_startup ota_cfg nor_libs algo_tables_0)"
  "e_crc ota_env = crc32_cyc_cal" "e_cal ota_env = crc32_cal"
  by (simp_all add: ota_env_def)

lemma ota_flags [simp]: "using_update_mgr ota_cfg" "using_download_helper ota_cfg" "product_code ota_cfg = None"
  by (simp_all add: ota_cfg_def nor_cfg_def)

lemma ota_desc: "qbt_target_desc ota_cfg nor_stores i = qbt_target_desc nor_cfg nor_stores i"
  by (simp add: qbt_target_desc_def g_descs_def target_list_def has_swap_def ota_cfg_def)

lemma ota_desc_of: "desc_of ota_cfg nor_stores h = desc_of nor_cfg nor_stores h"
  by (cases h) (simp_all add: ota_desc)

lemma ota_access:
  "qbt_custom_read ota_cfg nor_stores hk = qbt_custom_read nor_cfg nor_stores hk"
  "qbt_custom_write ota_cfg nor_stores hk = qbt_custom_write nor_cfg nor_stores hk"
  by (simp_all add: fun_eq_iff qbt_custom_read_def qbt_custom_write_def ota_desc_of)

text \<open>Behind the 8192 bytes of the target there is no sign.\<close>

lemma ota_no_sign:
  assumes "unat (pkg_size fw) = 8192"
  shows "qbt_release_sign_check (g_qboot_header_parser_custom ota_cfg nor_stores (nor_hooks 512)) (H_desc i) fw s = (False, s)"
proof -
  have "pkg_size fw = 8192" using assms by (simp add: u32_eq_iff)
  then have pos: "release_sign_pos ota_cfg fw = 8192"
    by (simp add: release_sign_pos_def qboot_src_read_pos_def ota_cfg_def nor_cfg_def)
  have "\<not> qbt_custom_range_check (desc_of nor_cfg nor_stores (H_desc i)) 8192 4"
    using nor_desc_open [of i] by (auto simp: qbt_custom_range_check_def split: option.split)
  then show ?thesis
    by (simp add: qbt_release_sign_check_def g_qboot_header_parser_custom_def qbt_custom_sign_read_def ota_access pos
        qbt_custom_read_def)
qed

interpretation nor_raw: raw_flash "g_qboot_io_custom nor_cfg nor_stores (nor_hooks 512)"
  "custom_view nor_cfg nor_stores (\<lambda>s. s)" "custom_dev_size nor_cfg nor_stores"
  crc32_cyc_cal crc32_cal ota_env H_desc nor_libs
proof unfold_locales
  fix i d fl and s :: "nat \<Rightarrow> byte"
  assume "qbt_target_desc (e_cfg ota_env) (e_stores ota_env) i = Some d"
  then have n: "qbt_target_desc (e_cfg nor_env) (e_stores nor_env) i = Some d" by (simp add: ota_desc)
  show "\<exists>s'. io_open (g_qboot_io_custom nor_cfg nor_stores (nor_hooks 512)) i fl s = (Inr (H_desc i), s') \<and>
      custom_view nor_cfg nor_stores (\<lambda>s. s) s' = custom_view nor_cfg nor_stores (\<lambda>s. s) s"
    by (rule nor_boot.open_th [OF n])
  show "\<exists>n s'. io_size (g_qboot_io_custom nor_cfg nor_stores (nor_hooks 512)) (H_desc i) s = (Inr n, s') \<and>
      unat n = custom_dev_size nor_cfg nor_stores (H_desc i)"
    by (rule nor_boot.size_th [OF n])
  show "v_open (custom_view nor_cfg nor_stores (\<lambda>s. s) s (H_desc i))" by (rule nor_boot.th_open [OF n])
next
  fix fw :: fw_info_t and s :: "nat \<Rightarrow> byte"
  assume "unat (pkg_size fw) = custom_dev_size nor_cfg nor_stores H_download"
  then have "unat (pkg_size fw) = 8192" by simp
  then show "\<exists>s'. qbt_release_sign_check (e_parser ota_env) H_download fw s = (False, s') \<and>
      custom_view nor_cfg nor_stores (\<lambda>s. s) s' = custom_view nor_cfg nor_stores (\<lambda>s. s) s"
    by (simp add: ota_no_sign)
next
  fix h and fw :: fw_info_t and s :: "nat \<Rightarrow> byte"
  assume "h \<noteq> H_download"
  obtain d where "qbt_target_desc (e_cfg nor_env) (e_stores nor_env) QBOOT_TARGET_DOWNLOAD = Some d"
    using demo_desc(1) by (auto simp: desc_b_def)
  note o = nor_boot.th_open [OF this, of s]
  obtain e s' where w: "io_write (g_qboot_io_custom nor_cfg nor_stores (nor_hooks 512)) H_download
      (release_sign_pos ota_cfg fw) (le32 QBOOT_RELEASE_SIGN_WORD) s = (e, s')" by fastforce
  then have "snd (qbt_release_sign_write (e_parser ota_env) H_download fw s) = s'"
    by (simp add: qbt_release_sign_write_def g_qboot_header_parser_custom_def qbt_custom_sign_write_def ota_access
        g_qboot_io_custom_def split: prod.split)
  then show "custom_view nor_cfg nor_stores (\<lambda>s. s) (snd (qbt_release_sign_write (e_parser ota_env) H_download fw s)) h =
      custom_view nor_cfg nor_stores (\<lambda>s. s) s h"
    using nor.write_other [OF o w _ \<open>h \<noteq> H_download\<close>] by simp
qed (simp_all add: nor_boot.close_view startup_tables)

definition ota_board :: "(nat \<Rightarrow> byte) board" where
  "ota_board = demo_board\<lparr>bd_sched := (\<lambda>k. if k = 0 then session_events [[1, 2, 3], [4, 5]] else [])\<rparr>"

lemma ota_demo:
  "nobody_there ota_env ota_board" "bd_sched ota_board 0 = session_events [[1, 2, 3], [4, 5]]"
  "\<exists>d. desc_b ota_env QBOOT_TARGET_DOWNLOAD = Some d" "\<exists>d. desc_b ota_env QBOOT_TARGET_APP = Some d"
  "wf_mem (e_cfg ota_env) (w_mem (b_world demo_boot2))"
proof -
  show "nobody_there ota_env ota_board" using demo_quiet(2) by (simp add: nobody_there_def ota_board_def ota_cfg_def)
  show "\<exists>d. desc_b ota_env QBOOT_TARGET_DOWNLOAD = Some d" "\<exists>d. desc_b ota_env QBOOT_TARGET_APP = Some d"
    using demo_desc by (simp_all add: desc_b_def ota_desc)
  show "wf_mem (e_cfg ota_env) (w_mem (b_world demo_boot2))"
    using demo_boot2_simps(3) by (simp add: wf_mem_def ota_cfg_def QBOOT_BUF_SIZE_def QBOOT_CMPRS_BUF_SIZE_def using_compression_def)
qed (simp_all add: ota_board_def ota_cfg_def)

lemma ota_legit:
  assumes "cells (v_cell (custom_view nor_cfg nor_stores (\<lambda>s. s) s H_app)) 0 5 = [1, 2, 3, 4, 5]"
  shows "bd_legit ota_board s"
proof -
  have "cells (v_cell (custom_view nor_cfg nor_stores (\<lambda>s. s) s H_app)) 0 5 ! 0 = 1" using assms by simp
  then show ?thesis by (simp add: demo_view ota_board_def demo_board_def)
qed

end
