(* ===== verification/Qboot_Packer.thy ===== *)
theory Qboot_Packer
  imports Qboot_Install
begin

text \<open>
  The packaging tool of the host, \<open>tools/package_tool.py\<close>: the parts of Python it uses, its
  functions in the order of the file, and the proof that the bootloader reads from a package
  exactly what the tool was given.
\<close>

section \<open>The Python the tool uses\<close>

text \<open>
  A \<open>str\<close> is a list of code points. \<open>lower\<close> is written out where the tool can tell: the looked-up
  names are ASCII, and besides the capital letters only the Kelvin sign has an ASCII lower case.
  A surrogate, which stands for a byte of the command line that could not be decoded, has no UTF-8.
\<close>

type_synonym py_str = "nat list"

datatype pack_error = Os_error | Encode_error | Struct_error | Sys_exit int

type_synonym 'a result = "pack_error + 'a"

definition py_text :: "string \<Rightarrow> py_str" where
  "py_text s = map of_char s"

definition py_space :: "nat \<Rightarrow> bool" where
  "py_space c \<longleftrightarrow> 9 \<le> c \<and> c \<le> 13 \<or> 28 \<le> c \<and> c \<le> 32 \<or> c = 0x85 \<or> c = 0xA0 \<or> c = 0x1680 \<or>
     0x2000 \<le> c \<and> c \<le> 0x200A \<or> c = 0x2028 \<or> c = 0x2029 \<or> c = 0x202F \<or> c = 0x205F \<or> c = 0x3000"

definition py_strip :: "py_str \<Rightarrow> py_str" where
  "py_strip s = rev (dropWhile py_space (rev (dropWhile py_space s)))"

definition py_lower :: "py_str \<Rightarrow> py_str" where
  "py_lower s = map (\<lambda>c. if 65 \<le> c \<and> c \<le> 90 then c + 32 else if c = 0x212A then 0x6B else c) s"

definition utf8_char :: "nat \<Rightarrow> byte list option" where
  "utf8_char c =
     (if c < 0x80 then Some [of_nat c]
      else if c < 0x800 then Some [of_nat (0xC0 + c div 64), of_nat (0x80 + c mod 64)]
      else if 0xD800 \<le> c \<and> c < 0xE000 then None
      else if c < 0x10000 then Some [of_nat (0xE0 + c div 4096), of_nat (0x80 + c div 64 mod 64), of_nat (0x80 + c mod 64)]
      else if c < 0x110000 then Some [of_nat (0xF0 + c div 262144), of_nat (0x80 + c div 4096 mod 64),
        of_nat (0x80 + c div 64 mod 64), of_nat (0x80 + c mod 64)]
      else None)"

fun utf8 :: "py_str \<Rightarrow> byte list option" where
  "utf8 [] = Some []"
| "utf8 (c # s) = do { b \<leftarrow> utf8_char c; bs \<leftarrow> utf8 s; Some (b @ bs) }"

definition py_encode :: "py_str \<Rightarrow> byte list result" where
  "py_encode s = (case utf8 s of None \<Rightarrow> Inl Encode_error | Some bs \<Rightarrow> Inr bs)"

text \<open>An exception or an exit ends the computation.\<close>

fun trying :: "'a result \<Rightarrow> ('a \<Rightarrow> 'b result) \<Rightarrow> 'b result" where
  "trying (Inl e) f = Inl e"
| "trying (Inr x) f = f x"

text \<open>\<open>struct.pack\<close>: a string is cut off or filled with NUL bytes, a number must fit.\<close>

definition pack_s :: "nat \<Rightarrow> byte list \<Rightarrow> byte list" where
  "pack_s n bs = take n (bs @ replicate n 0)"

definition pack_H :: "int \<Rightarrow> byte list result" where
  "pack_H v = (if 0 \<le> v \<and> v < 65536 then Inr (le16 (of_int v)) else Inl Struct_error)"

definition pack_I :: "int \<Rightarrow> byte list result" where
  "pack_I v = (if 0 \<le> v \<and> v < 4294967296 then Inr (le32 (of_int v)) else Inl Struct_error)"

text \<open>
  The files of the host by name, and which names the tool may read and write. Writing to a file
  that could be opened succeeds.
\<close>

datatype file_node = Regular "byte list" | Folder

record host =
  h_files :: "py_str \<Rightarrow> file_node option"
  h_readable :: "py_str \<Rightarrow> bool"
  h_writable :: "py_str \<Rightarrow> bool"

definition read_file :: "host \<Rightarrow> py_str \<Rightarrow> byte list result" where
  "read_file h p = (case h_files h p of
     Some (Regular bs) \<Rightarrow> if h_readable h p then Inr bs else Inl Os_error
   | _ \<Rightarrow> Inl Os_error)"

definition open_wb :: "host \<Rightarrow> py_str \<Rightarrow> host result" where
  "open_wb h p = (if h_files h p = Some Folder \<or> \<not> h_writable h p then Inl Os_error
     else Inr (h\<lparr>h_files := (h_files h)(p \<mapsto> Regular [])\<rparr>))"

definition write_file :: "host \<Rightarrow> py_str \<Rightarrow> byte list \<Rightarrow> host" where
  "write_file h p bs = (case h_files h p of
     Some (Regular old) \<Rightarrow> h\<lparr>h_files := (h_files h)(p \<mapsto> Regular (old @ bs))\<rparr>
   | _ \<Rightarrow> h)"

section \<open>The tool\<close>

definition crypt_names :: "(py_str \<times> int) list" where
  "crypt_names = [(py_text ''none'', 0), (py_text ''xor'', 1), (py_text ''aes'', 2)]"

definition cmprs_names :: "(py_str \<times> int) list" where
  "cmprs_names = [(py_text ''none'', push_bit 8 0), (py_text ''gzip'', push_bit 8 1),
     (py_text ''quicklz'', push_bit 8 2), (py_text ''fastlz'', push_bit 8 3), (py_text ''hpatchlite'', push_bit 8 4)]"

definition verify_names :: "(py_str \<times> int) list" where
  "verify_names = [(py_text ''none'', 0), (py_text ''crc'', 1)]"

text \<open>\<open>zlib.crc32\<close> is the parameter \<open>z\<close>.\<close>

definition crc32 :: "(byte list \<Rightarrow> int) \<Rightarrow> byte list \<Rightarrow> int" where
  "crc32 z bs = z bs AND 0xFFFFFFFF"

definition create_rbl_header ::
  "(byte list \<Rightarrow> int) \<Rightarrow> byte list \<Rightarrow> byte list \<Rightarrow> int \<Rightarrow> int \<Rightarrow> int \<Rightarrow> py_str \<Rightarrow> py_str \<Rightarrow> py_str \<Rightarrow> byte list result" where
  "create_rbl_header z raw_fw pkg_obj alg alg2 stamp part ver product =
     trying (pack_H alg) (\<lambda>f_alg.
     trying (pack_H alg2) (\<lambda>f_alg2.
     trying (pack_I stamp) (\<lambda>f_stamp.
     trying (py_encode part) (\<lambda>part_bs.
     trying (py_encode ver) (\<lambda>ver_bs.
     trying (py_encode product) (\<lambda>prod_bs.
     trying (pack_I (crc32 z pkg_obj)) (\<lambda>f_pkg_crc.
     trying (pack_I (crc32 z raw_fw)) (\<lambda>f_raw_crc.
     trying (pack_I (int (length raw_fw))) (\<lambda>f_raw_size.
     trying (pack_I (int (length pkg_obj))) (\<lambda>f_pkg_size.
       let header = pack_s 4 (str_bytes ''RBL'' @ [0]) @ f_alg @ f_alg2 @ f_stamp @
             pack_s 16 part_bs @ pack_s 24 ver_bs @ pack_s 24 prod_bs @
             f_pkg_crc @ f_raw_crc @ f_raw_size @ f_pkg_size
       in trying (pack_I (crc32 z header)) (\<lambda>f_hdr_crc. Inr (header @ f_hdr_crc))))))))))))"

definition parse_algo_strict :: "py_str option \<Rightarrow> (py_str \<times> int) list \<Rightarrow> int result" where
  "parse_algo_strict val table =
     (case val of None \<Rightarrow> Inr 0
      | Some v \<Rightarrow> (case map_of table (py_lower (py_strip v)) of None \<Rightarrow> Inl (Sys_exit 2) | Some i \<Rightarrow> Inr i))"

record pack_args =
  a_pkg :: py_str
  a_raw :: py_str
  a_output :: py_str
  a_crypt :: "py_str option"
  a_cmprs :: "py_str option"
  a_algo2 :: "py_str option"
  a_part :: py_str
  a_version :: py_str
  a_product :: py_str

text \<open>The steps before the header: the package body, the image and the two algorithm words.\<close>

definition pack_inputs :: "pack_args \<Rightarrow> host \<Rightarrow> (byte list \<times> byte list \<times> int \<times> int) result" where
  "pack_inputs ar h =
     trying (read_file h (a_pkg ar)) (\<lambda>pkg_obj.
     if a_raw ar = [] \<or> h_files h (a_raw ar) = None then Inl (Sys_exit 1)
     else
     trying (read_file h (a_raw ar)) (\<lambda>raw_fw.
     trying (parse_algo_strict (a_crypt ar) crypt_names) (\<lambda>crypt_algo.
     trying (parse_algo_strict (a_cmprs ar) cmprs_names) (\<lambda>cmprs_algo.
     trying (parse_algo_strict (a_algo2 ar) verify_names) (\<lambda>alg2.
       Inr (pkg_obj, raw_fw, crypt_algo OR cmprs_algo,
         if cmprs_algo = push_bit 8 4 then 0 else alg2))))))"

definition package_rbl :: "(byte list \<Rightarrow> int) \<Rightarrow> int \<Rightarrow> pack_args \<Rightarrow> host \<Rightarrow> host result" where
  "package_rbl z now ar h =
     trying (pack_inputs ar h) (\<lambda>(pkg_obj, raw_fw, alg, alg2).
     trying (create_rbl_header z raw_fw pkg_obj alg alg2 now (a_part ar) (a_version ar) (a_product ar)) (\<lambda>header.
     trying (open_wb h (a_output ar)) (\<lambda>h1.
       Inr (write_file (write_file h1 (a_output ar) header) (a_output ar) pkg_obj))))"

text \<open>What the command line gives for each option; \<open>argparse\<close> exits when a required one is missing.\<close>

record pack_cli =
  o_pkg :: "py_str option"
  o_raw :: "py_str option"
  o_output :: "py_str option"
  o_crypt :: "py_str option"
  o_cmprs :: "py_str option"
  o_algo2 :: "py_str option"
  o_part :: "py_str option"
  o_version :: "py_str option"
  o_product :: "py_str option"

definition or_default :: "py_str option \<Rightarrow> string \<Rightarrow> py_str" where
  "or_default x d = (case x of None \<Rightarrow> py_text d | Some s \<Rightarrow> s)"

definition cli_args :: "pack_cli \<Rightarrow> pack_args option" where
  "cli_args c =
     (case (o_pkg c, o_raw c, o_output c) of
        (Some pkg, Some raw, Some out) \<Rightarrow> Some
          \<lparr>a_pkg = pkg, a_raw = raw, a_output = out,
           a_crypt = Some (or_default (o_crypt c) ''none''), a_cmprs = Some (or_default (o_cmprs c) ''none''),
           a_algo2 = Some (or_default (o_algo2 c) ''crc''), a_part = or_default (o_part c) ''app'',
           a_version = or_default (o_version c) ''v1.00'',
           a_product = or_default (o_product c) ''00010203040506070809''\<rparr>
      | _ \<Rightarrow> None)"

definition pack_main :: "(byte list \<Rightarrow> int) \<Rightarrow> int \<Rightarrow> pack_cli \<Rightarrow> host \<Rightarrow> host result" where
  "pack_main z now c h =
     (case cli_args c of None \<Rightarrow> Inl (Sys_exit 2) | Some ar \<Rightarrow> package_rbl z now ar h)"

section \<open>The header\<close>

text \<open>The struct the bootloader reads, with the checksums the bootloader computes.\<close>

definition packed_head ::
  "(byte list \<Rightarrow> u32) \<Rightarrow> byte list \<Rightarrow> byte list \<Rightarrow> int \<Rightarrow> int \<Rightarrow> int \<Rightarrow> byte list \<Rightarrow> byte list \<Rightarrow> byte list \<Rightarrow> fw_info_t" where
  "packed_head cal raw pkg alg alg2 stamp part ver product =
     (let fw = \<lparr>fw_type = str_bytes ''RBL'' @ [0], algo = of_int alg, algo2 = of_int alg2, time_stamp = of_int stamp,
        part_name = pack_s 16 part, fw_ver = pack_s 24 ver, prod_code = pack_s 24 product,
        pkg_crc = cal pkg, raw_crc = cal raw, raw_size = of_nat (length raw), pkg_size = of_nat (length pkg), hdr_crc = 0\<rparr>
      in fw\<lparr>hdr_crc := cal (take 92 (bytes_of_fw_info fw))\<rparr>)"

lemma length_pack_s [simp]: "length (pack_s n bs) = n"
  by (simp add: pack_s_def)

lemma packed_head_fields [simp]:
  "algo (packed_head cal raw pkg alg alg2 stamp part ver product) = of_int alg"
  "algo2 (packed_head cal raw pkg alg alg2 stamp part ver product) = of_int alg2"
  "part_name (packed_head cal raw pkg alg alg2 stamp part ver product) = pack_s 16 part"
  "prod_code (packed_head cal raw pkg alg alg2 stamp part ver product) = pack_s 24 product"
  "pkg_crc (packed_head cal raw pkg alg alg2 stamp part ver product) = cal pkg"
  "raw_crc (packed_head cal raw pkg alg alg2 stamp part ver product) = cal raw"
  "raw_size (packed_head cal raw pkg alg alg2 stamp part ver product) = of_nat (length raw)"
  "pkg_size (packed_head cal raw pkg alg alg2 stamp part ver product) = of_nat (length pkg)"
  by (simp_all add: packed_head_def Let_def)

lemma packed_head_wf [simp]: "wf_fw_info (packed_head cal raw pkg alg alg2 stamp part ver product)"
  by (simp add: packed_head_def wf_fw_info_def str_bytes_def Let_def)

lemma packed_head_sealed:
  "hdr_crc (packed_head cal raw pkg alg alg2 stamp part ver product) =
     cal (take 92 (bytes_of_fw_info (packed_head cal raw pkg alg alg2 stamp part ver product)))"
  by (simp add: packed_head_def bytes_of_fw_info_def str_bytes_def Let_def)

lemma packed_head_check:
  assumes "\<not> using_download_helper (e_cfg E)"
  shows "qbt_fw_info_check E (packed_head (e_cal E) raw pkg alg alg2 stamp part ver product)"
proof -
  let ?fw = "packed_head (e_cal E) raw pkg alg alg2 stamp part ver product"
  have n: "unat (qboot_src_read_pos (e_cfg E) - 4) = 92"
    using assms by (simp add: qboot_src_read_pos_def sizeof_fw_info_def)
  have t: "rt_streq (fw_type ?fw) ''RBL''"
    by (simp add: packed_head_def rt_streq_def str_bytes_def Let_def)
  show ?thesis unfolding qbt_fw_info_check_def n by (simp add: t packed_head_sealed)
qed

lemma trying_Inr: "trying x f = Inr y \<longleftrightarrow> (\<exists>v. x = Inr v \<and> f v = Inr y)"
  by (cases x) auto

lemma pack_Inr [simp]:
  "pack_H v = Inr bs \<longleftrightarrow> 0 \<le> v \<and> v < 65536 \<and> bs = le16 (of_int v)"
  "pack_I v = Inr bs \<longleftrightarrow> 0 \<le> v \<and> v < 4294967296 \<and> bs = le32 (of_int v)"
  "py_encode s = Inr bs \<longleftrightarrow> utf8 s = Some bs"
  by (auto simp: pack_H_def pack_I_def py_encode_def split: option.splits)

lemma crypt_word: "parse_algo_strict val crypt_names = Inr c \<Longrightarrow> c \<in> {0, 1, 2}"
  and cmprs_word: "parse_algo_strict val cmprs_names = Inr m \<Longrightarrow> m \<in> {0, 0x100, 0x200, 0x300, 0x400}"
  and verify_word: "parse_algo_strict val verify_names = Inr v \<Longrightarrow> v \<in> {0, 1}"
  by (auto simp: parse_algo_strict_def crypt_names_def cmprs_names_def verify_names_def split: option.splits if_splits)

lemma inputs_range:
  assumes "pack_inputs ar h = Inr (pkg, raw, alg, alg2)"
  shows "0 \<le> alg \<and> alg < 65536 \<and> 0 \<le> alg2 \<and> alg2 < 65536"
  using assms by (auto simp: pack_inputs_def trying_Inr split: if_splits dest!: crypt_word cmprs_word verify_word)

lemma open_wb_Inr: "open_wb h p = Inr h1 \<longleftrightarrow>
    h_files h p \<noteq> Some Folder \<and> h_writable h p \<and> h1 = h\<lparr>h_files := (h_files h)(p \<mapsto> Regular [])\<rparr>"
  by (auto simp: open_wb_def)

text \<open>The checksum of the host is that of the device, up to the sign Python gives it.\<close>

locale host_crc =
  fixes z :: "byte list \<Rightarrow> int" and cal :: "byte list \<Rightarrow> u32"
  assumes host_cal: "word_of_int (z bs) = cal bs"
begin

lemma host_crc32 [simp]: "crc32 z bs = uint (cal bs)"
proof -
  have "crc32 z bs = take_bit 32 (z bs)"
    by (simp add: crc32_def take_bit_eq_mask mask_eq_exp_minus_1)
  then show ?thesis by (simp add: unsigned_of_int flip: host_cal)
qed

lemma pack_crc [simp]: "pack_I (uint (c :: u32)) = Inr (le32 c)"
  using uint_bounded [of c] by simp

lemma create_header:
  "create_rbl_header z raw pkg alg alg2 stamp part ver product = Inr bs \<longleftrightarrow>
     0 \<le> alg \<and> alg < 65536 \<and> 0 \<le> alg2 \<and> alg2 < 65536 \<and> 0 \<le> stamp \<and> stamp < 4294967296 \<and>
     length raw < 4294967296 \<and> length pkg < 4294967296 \<and>
     (\<exists>p v q. utf8 part = Some p \<and> utf8 ver = Some v \<and> utf8 product = Some q \<and>
       bs = bytes_of_fw_info (packed_head cal raw pkg alg alg2 stamp p v q))"
  by (auto simp: create_rbl_header_def trying_Inr Let_def packed_head_def bytes_of_fw_info_def str_bytes_def pack_s_def)

text \<open>
  When the tool succeeds and what it writes: a header and the body, and no other file changes. An
  existing output file may be one of the inputs, which are read before.
\<close>

lemma package_exact:
  "package_rbl z now ar h = Inr h' \<longleftrightarrow>
     (\<exists>pkg raw alg alg2 p v q. pack_inputs ar h = Inr (pkg, raw, alg, alg2) \<and>
        0 \<le> now \<and> now < 4294967296 \<and> length raw < 4294967296 \<and> length pkg < 4294967296 \<and>
        utf8 (a_part ar) = Some p \<and> utf8 (a_version ar) = Some v \<and> utf8 (a_product ar) = Some q \<and>
        h_files h (a_output ar) \<noteq> Some Folder \<and> h_writable h (a_output ar) \<and>
        h' = h\<lparr>h_files := (h_files h)(a_output ar \<mapsto>
          Regular (bytes_of_fw_info (packed_head cal raw pkg alg alg2 now p v q) @ pkg))\<rparr>)"
proof -
  have "0 \<le> alg \<and> alg < 65536 \<and> 0 \<le> alg2 \<and> alg2 < 65536" if "pack_inputs ar h = Inr (pkg, raw, alg, alg2)"
    for pkg raw alg alg2 using inputs_range [OF that] .
  then show ?thesis
    by (auto simp: package_rbl_def trying_Inr create_header open_wb_Inr write_file_def cong: conj_cong)
qed

end

section \<open>From the tool to the bootloader\<close>

text \<open>A text of ASCII characters is its own encoding, and a field longer than it ends it with a NUL.\<close>

definition ascii_text :: "string \<Rightarrow> bool" where
  "ascii_text s \<longleftrightarrow> (\<forall>c \<in> set s. 0 < (of_char c :: nat) \<and> (of_char c :: nat) < 128)"

lemma utf8_text: "ascii_text s \<Longrightarrow> utf8 (py_text s) = Some (str_bytes s)"
  by (induction s) (simp_all add: ascii_text_def py_text_def str_bytes_def utf8_char_def of_nat_of_char)

lemma packed_streq:
  assumes "ascii_text s" and "length s < n"
  shows "rt_streq (pack_s n (str_bytes s)) s"
proof -
  have nz: "\<forall>b \<in> set (str_bytes s). b \<noteq> 0"
  proof
    fix b assume "b \<in> set (str_bytes s)"
    then obtain c where c: "c \<in> set s" "b = of_char c" by (auto simp: str_bytes_def)
    then have "0 < (of_char c :: nat)" using assms(1) by (auto simp: ascii_text_def)
    moreover have "unat b = (of_char c :: nat)"
      unfolding c(2) of_nat_of_char [symmetric, where ?'a = byte] unat_of_nat by simp
    ultimately show "b \<noteq> 0" by auto
  qed
  have "pack_s n (str_bytes s) = str_bytes s @ replicate (n - length s) 0"
    using assms(2) by (simp add: pack_s_def) (simp add: str_bytes_def)
  moreover have "takeWhile (\<lambda>b. b \<noteq> 0) (str_bytes s @ replicate (n - length s) 0) = str_bytes s"
    using nz assms(2) by (simp add: takeWhile_append)
  ultimately show ?thesis by (simp add: rt_streq_def)
qed

text \<open>A file of the tool at the front of a target: the bootloader finds its header and its body.\<close>

lemma packed_front:
  assumes c: "cells (v_cell (view s src)) 0 (length img) = img" and img: "img = bytes_of_fw_info fw @ pkg"
    and wf: "wf_fw_info fw" and n: "unat (pkg_size fw) = length pkg"
  shows "header_of view s src = fw" and "body_of view s src fw = pkg"
proof -
  have l: "length (bytes_of_fw_info fw) = 96" using wf by (simp add: sizeof_fw_info_def)
  have "cells (v_cell (view s src)) 0 96 @ cells (v_cell (view s src)) 96 (length pkg) = bytes_of_fw_info fw @ pkg"
    using c cells_add [of "v_cell (view s src)" 0 96 "length pkg"] by (simp add: img l)
  then have e: "cells (v_cell (view s src)) 0 96 = bytes_of_fw_info fw" "cells (v_cell (view s src)) 96 (length pkg) = pkg"
    by (simp_all add: l)
  show "header_of view s src = fw" using fw_info_of_bytes_of [OF wf, of "[]"] by (simp add: header_of_def e)
  show "body_of view s src fw = pkg" by (simp add: body_of_def n e)
qed

text \<open>A product code of the build that the option \<open>--product\<close> can give.\<close>

definition product_given :: "qboot_cfg \<Rightarrow> pack_args \<Rightarrow> bool" where
  "product_given c ar = (case product_code c of None \<Rightarrow> True
     | Some code \<Rightarrow> a_product ar = py_text code \<and> ascii_text code \<and> length code < 24)"

locale packing = boot_pkg io view dev_size crc cal E L + host_crc z cal
  for io :: "'s qboot_io_ops" and view and dev_size and crc and cal and
    E :: "('s, ('q, 'z, 'k) alg_state) boot_env" and L :: "('q, 'z, 'k) alg_libs" and z
begin

lemma packed_source:
  assumes ar: "cli_args c = Some ar" and run: "pack_main z now c h = Inr h'"
    and files: "h_files h (a_pkg ar) = Some (Regular pkg)" "h_files h (a_raw ar) = Some (Regular raw)"
      "h_files h' (a_output ar) = Some (Regular img)"
    and front: "cells (v_cell (view s src)) 0 (length img) = img" and fw: "fw = header_of view s src"
  shows "unat (raw_size fw) = length raw" and "unat (pkg_size fw) = length pkg" and "length img = 96 + length pkg"
    and "take 96 img = bytes_of_fw_info fw" and "body_of view s src fw = pkg"
    and "package_ok view E s src fw raw" and "product_given cf ar \<Longrightarrow> product_ok E fw"
    and "\<exists>alg alg2. pack_inputs ar h = Inr (pkg, raw, alg, alg2) \<and> algo fw = of_int alg"
proof -
  obtain pkg' raw' alg alg2 p v q where i: "pack_inputs ar h = Inr (pkg', raw', alg, alg2)"
    and len: "length raw' < 4294967296" "length pkg' < 4294967296" and q: "utf8 (a_product ar) = Some q"
    and h': "h' = h\<lparr>h_files := (h_files h)(a_output ar \<mapsto>
          Regular (bytes_of_fw_info (packed_head cal raw' pkg' alg alg2 now p v q) @ pkg'))\<rparr>"
    using run by (auto simp: pack_main_def ar package_exact)
  have same: "pkg' = pkg" "raw' = raw"
    using i files(1,2) by (auto simp: pack_inputs_def trying_Inr read_file_def split: if_splits)
  let ?fw = "packed_head cal raw pkg alg alg2 now p v q"
  have n: "unat (pkg_size ?fw) = length pkg" "unat (raw_size ?fw) = length raw"
    using len by (simp_all add: same u32_of_nat)
  have img: "img = bytes_of_fw_info ?fw @ pkg" using files(3) by (simp add: h' same)
  have wf: "wf_fw_info ?fw" by simp
  note read = packed_front [of view s src, OF front img wf n(1)]
  then have eq: "fw = ?fw" using fw by simp
  have l: "length (bytes_of_fw_info ?fw) = 96" by (simp add: sizeof_fw_info_def)
  show "unat (raw_size fw) = length raw" "unat (pkg_size fw) = length pkg" using n by (simp_all add: eq)
  show "length img = 96 + length pkg" "take 96 img = bytes_of_fw_info fw" by (simp_all add: img l eq)
  show b: "body_of view s src fw = pkg" using read(2) by (simp add: eq)
  have "qbt_fw_info_check E ?fw" using packed_head_check [of E, OF no_helper] by (simp add: env_cal)
  then show "package_ok view E s src fw raw" using b by (simp add: package_ok_def eq env_cal)
  show "\<exists>alg alg2. pack_inputs ar h = Inr (pkg, raw, alg, alg2) \<and> algo fw = of_int alg" using i by (simp add: same eq)
  show "product_ok E fw" if "product_given cf ar"
    using that q packed_streq [of _ 24] by (auto simp: product_given_def product_ok_def eq utf8_text split: option.splits)
qed

text \<open>The algorithm fields are those of the options, and a body that is the image needs no unpacking.\<close>

lemma packed_algo:
  assumes ar: "cli_args c = Some ar" and run: "pack_main z now c h = Inr h'"
    and files: "h_files h (a_pkg ar) = Some (Regular pkg)" "h_files h (a_raw ar) = Some (Regular raw)"
      "h_files h' (a_output ar) = Some (Regular img)"
    and front: "cells (v_cell (view s src)) 0 (length img) = img" and fw: "fw = header_of view s src"
    and opts: "parse_algo_strict (a_crypt ar) crypt_names = Inr ci" "parse_algo_strict (a_cmprs ar) cmprs_names = Inr mi"
  shows "algo fw AND QBOOT_ALGO_CRYPT_MASK = of_int ci" and "algo fw AND QBOOT_ALGO_CMPRS_MASK = of_int mi"
    and "ci = 0 \<Longrightarrow> mi = 0 \<Longrightarrow> pkg = raw \<Longrightarrow> package_image cf L fw pkg = Some raw"
proof -
  note k = packed_source [OF ar run files front fw]
  have a: "algo fw = of_int (ci OR mi)"
    using k(8) opts by (auto simp: pack_inputs_def trying_Inr split: if_splits)
  show m: "algo fw AND QBOOT_ALGO_CRYPT_MASK = of_int ci" "algo fw AND QBOOT_ALGO_CMPRS_MASK = of_int mi"
    using crypt_word [OF opts(1)] cmprs_word [OF opts(2)] by (auto simp: a algo_id_defs)
  show "package_image cf L fw pkg = Some raw" if "ci = 0" "mi = 0" "pkg = raw"
  proof -
    have "raw_size fw = pkg_size fw" using k(1,2) that(3) by (simp add: u32_eq_iff)
    then have "plain_fw fw" using m that by (simp add: plain_fw_def) (simp add: algo_id_defs)
    then show ?thesis using k(2) that(3) by (simp add: plain_image)
  qed
qed

text \<open>
  When the image is one the build can unpack from the body, the package is good, and updating from it
  installs the image.
\<close>

lemma packed_installs:
  assumes ar: "cli_args c = Some ar" and run: "pack_main z now c h = Inr h'"
    and files: "h_files h (a_pkg ar) = Some (Regular pkg)" "h_files h (a_raw ar) = Some (Regular raw)"
      "h_files h' (a_output ar) = Some (Regular img)"
    and s: "s = w_dev (b_world b)" and front: "cells (v_cell (view s src)) 0 (length img) = img"
    and image: "package_image cf L (header_of view s src) pkg = Some raw" and product: "product_given cf ar"
    and size: "length img \<le> dev_size src" "length img < 2147483648" "length raw < 2147483648"
      "length raw + 96 \<le> unat n" "unat n \<le> dev_size dst"
    and sd: "src \<noteq> dst" and o: "v_open (view s src)" "v_open (view s dst)"
    and wf: "wf_fw_info (g_fw_info b)" "wf_mem cf (w_mem (b_world b))"
  shows "good_package view E L s src \<and>
    (\<exists>b1 b2. qbt_fw_check E src m name b = Some (True, b1) \<and> qbt_fw_update E dst n src b1 = Some (True, b2) \<and>
      cells (v_cell (view (w_dev (b_world b2)) dst)) 0 (length raw) = raw \<and>
      cells (v_cell (view (w_dev (b_world b2)) dst)) (unat n - 96) 96 = take 96 img \<and>
      (\<forall>h. h \<noteq> dst \<longrightarrow> view (w_dev (b_world b2)) h = view s h))"
proof -
  define fw where "fw = header_of view s src"
  note k = packed_source [OF ar run files front fw_def]
  have i: "package_image cf L fw (body_of view s src fw) = Some raw" using image by (simp add: k(5) flip: fw_def)
  have g: "good_package view E L s src"
    using i k(6) k(7) [OF product] by (simp add: good_package_def image_of_def flip: fw_def)
  have fit: "fits dev_size src fw" and room: "room_for dev_size dst n fw" and 96: "96 \<le> dev_size src"
    using size k(1-3) by (simp_all add: fits_def room_for_def)
  obtain b1 where "qbt_fw_check E src m name b = Some (package_ok view E s src fw raw, b1)"
    "package_ok view E s src fw raw \<longrightarrow> (\<exists>b2. qbt_fw_update E dst n src b1 = Some (True, b2) \<and>
        installed view (w_dev (b_world b2)) dst n fw raw \<and> (\<forall>h. h \<noteq> dst \<longrightarrow> view (w_dev (b_world b2)) h = view s h))"
    using check_then_update [OF sd 96 o [unfolded s] wf, of fw raw n m name] fit room i k(1) size(3) unfolding s fw_def by auto
  then show ?thesis using g k(1,4,6) by (auto simp: installed_def)
qed

end

definition host_zlib :: "byte list \<Rightarrow> int" where
  "host_zlib bs = uint (crc32_cal bs)"

interpretation nor_packing: packing "g_qboot_io_custom nor_cfg nor_stores (nor_hooks 512)"
  "custom_view nor_cfg nor_stores (\<lambda>s. s)" "custom_dev_size nor_cfg nor_stores"
  crc32_cyc_cal crc32_cal nor_env nor_libs host_zlib
  by (intro packing.intro nor_boot.boot_pkg_axioms) (unfold_locales, simp add: host_zlib_def)

section \<open>The cipher without a handler\<close>

text \<open>The tool offers \<open>--crypt xor\<close>, for which no build registers a handler.\<close>

lemma xor_refused:
  assumes t: "qbot_algo_startup (e_cfg E) L algo_tables_0 = (RT_EOK, e_tables E)"
    and x: "algo fw AND QBOOT_ALGO_CRYPT_MASK = 1"
  shows "qbt_app_crc_check E src fw w = Some (False, w)" and "qbt_fw_release E dst n src fw w = Some (False, w)"
proof -
  have e: "e_tables E = snd (qbot_algo_startup (e_cfg E) L algo_tables_0)" by (simp add: t)
  have "qboot_find_crypto (e_tables E) 1 = None"
    unfolding e by (simp add: startup_tables qboot_find_crypto_def qboot_crypto_id_to_index_def algo_id_defs)
  then have "\<not> fst (qbt_fw_get_algo_context (e_tables E) fw)"
    by (simp add: qbt_fw_get_algo_context_def x Let_def)
  then obtain ops where "qbt_fw_get_algo_context (e_tables E) fw = (False, ops)"
    by (cases "qbt_fw_get_algo_context (e_tables E) fw") auto
  then show "qbt_app_crc_check E src fw w = Some (False, w)" "qbt_fw_release E dst n src fw w = Some (False, w)"
    by (simp_all add: qbt_app_crc_check_def qbt_fw_release_def)
qed

section \<open>A run of the tool\<close>

text \<open>The compressed and encrypted package of \<open>Qboot_Instance\<close>, made by the tool.\<close>

definition zip_cli :: pack_cli where
  "zip_cli = \<lparr>o_pkg = Some (py_text ''app.flz''), o_raw = Some (py_text ''app.bin''), o_output = Some (py_text ''app.rbl''),
     o_crypt = Some (py_text ''AES''), o_cmprs = Some (py_text '' FastLZ''), o_algo2 = None, o_part = None,
     o_version = None, o_product = None\<rparr>"

definition zip_host :: host where
  "zip_host = \<lparr>h_files = [py_text ''app.flz'' \<mapsto> Regular zip_body, py_text ''app.bin'' \<mapsto> Regular zip_raw],
     h_readable = (\<lambda>_. True), h_writable = (\<lambda>_. True)\<rparr>"

definition zip_args :: pack_args where
  "zip_args = the (cli_args zip_cli)"

definition zip_rbl :: "byte list" where
  "zip_rbl = bytes_of_fw_info (packed_head crc32_cal zip_raw zip_body 0x302 1 0 (str_bytes ''app'') (str_bytes ''v1.00'')
     (str_bytes ''00010203040506070809'')) @ zip_body"

lemma zip_args: "cli_args zip_cli = Some zip_args" "a_pkg zip_args = py_text ''app.flz''" "a_raw zip_args = py_text ''app.bin''"
  "a_output zip_args = py_text ''app.rbl''" "a_part zip_args = py_text ''app''" "a_version zip_args = py_text ''v1.00''"
  "a_product zip_args = py_text ''00010203040506070809''"
  by (simp_all add: zip_args_def cli_args_def zip_cli_def or_default_def)

lemma zip_inputs: "pack_inputs zip_args zip_host = Inr (zip_body, zip_raw, 0x302, 1)"
proof -
  have "a_crypt zip_args = Some (py_text ''AES'')" "a_cmprs zip_args = Some (py_text '' FastLZ'')" "a_algo2 zip_args = Some (py_text ''crc'')"
    by (simp_all add: zip_args_def cli_args_def zip_cli_def or_default_def)
  then have "parse_algo_strict (a_crypt zip_args) crypt_names = Inr 2" "parse_algo_strict (a_cmprs zip_args) cmprs_names = Inr 0x300"
    "parse_algo_strict (a_algo2 zip_args) verify_names = Inr 1"
    by (simp_all add: parse_algo_strict_def py_text_def py_strip_def py_space_def py_lower_def crypt_names_def cmprs_names_def verify_names_def)
  then show ?thesis
    by (simp add: pack_inputs_def zip_args read_file_def zip_host_def py_text_def)
qed

lemma zip_facts:
  "ascii_text ''app''" "ascii_text ''v1.00''" "ascii_text ''00010203040506070809''" "length zip_body = 14" "length zip_raw = 8"
  "h_files zip_host (py_text ''app.rbl'') = None" "h_writable zip_host (py_text ''app.rbl'')"
  by (simp_all add: ascii_text_def zip_body_def zip_raw_def zip_host_def py_text_def)

lemma zip_packed: "pack_main host_zlib 0 zip_cli zip_host =
    Inr (zip_host\<lparr>h_files := (h_files zip_host)(py_text ''app.rbl'' \<mapsto> Regular zip_rbl)\<rparr>)"
  unfolding pack_main_def zip_args(1) option.case nor_packing.package_exact zip_inputs
  by (simp add: zip_args utf8_text zip_facts zip_rbl_def)

definition rbl_flash :: "nat \<Rightarrow> byte" where
  "rbl_flash = splice 8192 zip_rbl (\<lambda>_. 0xFF)"

lemma zip_rbl_length: "length zip_rbl = 110"
  by (simp add: zip_rbl_def sizeof_fw_info_def zip_body_def)

lemma rbl_front:
  "cells (v_cell (custom_view nor_cfg nor_stores (\<lambda>s. s) rbl_flash H_download)) 0 (length zip_rbl) = zip_rbl"
  using cells_splice_same [of 8192 zip_rbl] by (simp add: demo_cells zip_rbl_length rbl_flash_def)

lemma rbl_image:
  "package_image nor_cfg nor_libs (header_of (custom_view nor_cfg nor_stores (\<lambda>s. s)) rbl_flash H_download) zip_body = Some zip_raw"
proof -
  have h: "header_of (custom_view nor_cfg nor_stores (\<lambda>s. s)) rbl_flash H_download =
      packed_head crc32_cal zip_raw zip_body 0x302 1 0 (str_bytes ''app'') (str_bytes ''v1.00'') (str_bytes ''00010203040506070809'')"
    by (rule packed_front [of "custom_view nor_cfg nor_stores (\<lambda>s. s)" rbl_flash H_download, OF rbl_front zip_rbl_def]) (simp_all add: zip_body_def)
  have same: "algo zip_fw = 0x302" "raw_size zip_fw = 8"
    by (simp_all add: zip_fw_def sealed_head_def demo_head_of_def algo_id_defs zip_raw_def)
  have "length zip_raw = 8" by (simp add: zip_raw_def)
  then have "package_image nor_cfg nor_libs (header_of (custom_view nor_cfg nor_stores (\<lambda>s. s)) rbl_flash H_download) =
      package_image nor_cfg nor_libs zip_fw"
    by (simp add: h fun_eq_iff package_image_def deciphered_def unpacked_def [abs_def] same)
  then show ?thesis using zip_image by simp
qed

end
