(* ===== verification/Spec2Isabelle.thy ===== *)
theory Spec2Isabelle
  imports Qboot_Custom Qboot_Fal Qboot_Instance Qboot_Update Qboot_Fs Qboot_Mux Qboot_Session Qboot_Registry Qboot_Upgrade Qboot_Platform Qboot_Ota Qboot_Packer
begin

text \<open>
  A verification development of qboot, the bootloader component of RT-Thread. The bootloader
  checks a firmware package in its \<open>download\<close> or \<open>factory\<close> target, unpacks it through a
  decryption and a decompression handler into the \<open>app\<close> target, verifies the result and jumps
  to it.

  Theories:
  \<^item> \<open>Qboot_Prelude\<close>: 32-bit arithmetic, alignment, byte regions, loops that may not end.
  \<^item> \<open>Qboot_Types\<close>: build configuration (\<open>inc/qboot_cfg.h\<close>), firmware header with its byte
    layout, targets and handles (\<open>inc/qboot_ops.h\<close>).
  \<^item> \<open>Qboot_Ops\<close>: operation tables, registration and wrappers of \<open>src/qboot_ops.c\<close>; the locales
    \<open>storage\<close>, \<open>block_storage\<close>, \<open>reliable_storage\<close> and \<open>sign_storage\<close> state what a backend
    promises.
  \<^item> \<open>Qboot_Custom\<close> and \<open>Qboot_Fal\<close>: the backends of \<open>src/qboot_custom_ops.c\<close> and
    \<open>src/qboot_fal_ops.c\<close>, shown to keep the contracts over any flash driver or FAL library that
    behaves as documented.
  \<^item> \<open>Qboot_Algo\<close>: handler tables and registry of \<open>src/qboot_algo.c\<close>, the two static buffers;
    the locales \<open>decompressor\<close> and \<open>cipher\<close> state what a handler promises the stream.
  \<^item> \<open>Qboot_Codecs\<close>: the handlers under \<open>algorithm/\<close>, shown to keep those contracts.
  \<^item> \<open>Qboot_Stream\<close>: the chunk and decompress loops of \<open>src/qboot_stream.c\<close>, with totality and
    safety for any handlers; \<open>Qboot_Transfer\<close>: what the write and the CRC pass transfer, and
    the stream of a package that is not compressed, under any cipher that decrypts piece by
    piece; \<open>Qboot_Blocks\<close>: a decoder over a whole compressed package as the reference, and the
    proof that the stream, block by block through its staging buffer, gives the same;
    \<open>Qboot_Gzip\<close>: the same for gzip, whose handler keeps a remainder from call to call, and the
    images it cannot deliver.
  \<^item> \<open>Qboot_Firmware\<close>: package checks, release and verification of \<open>src/qboot.c\<close>, and their
    replacements by the download helper of \<open>src/qboot_update.c\<close>. \<open>Qboot_Package\<close>: the image of a
    package, what a decoder over its whole body gives (\<open>package_image\<close>), and the check, the
    release and the update of any package that has one.
  \<^item> \<open>Qboot_Instance\<close>: CRC-32, a NOR flash, libraries and packages on which every contract holds.
  \<^item> \<open>Qboot_Fs\<close> and \<open>Qboot_Mux\<close>: the backends of \<open>src/qboot_fs_ops.c\<close> and \<open>src/qboot_mux_ops.c\<close>,
    shown to keep the storage contract over any POSIX layer that behaves as documented and over
    any backends that keep it and do not disturb each other.
  \<^item> \<open>Qboot_Registry\<close>: what any sequence of registrations makes of the tables, and what a header
    then selects.
  \<^item> \<open>Qboot_Update\<close>: the update manager of \<open>src/qboot_update.c\<close>: its handlers as steps, the poll
    loop, the invariant of its reachable states, the bound on recovery probes, the reason parser
    against its reference. \<open>Qboot_Download\<close>: a download session through the helper.
    \<open>Qboot_Session\<close>: the specification of the manager, a machine with three phases and a target
    that is shut, open or passed, and the proof that the handlers refine it event by event.
  \<^item> \<open>Qboot_Console\<close>: the keys of \<open>src/qboot.c\<close>, its console device, and the start and stop of
    the system's shell over the calls of RT-Thread.
  \<^item> \<open>Qboot_Boot\<close>: the rest of \<open>src/qboot.c\<close>: resume, release, boot thread and shell
    commands. \<open>Qboot_Install\<close>: what resume and release achieve on flash, and the release sign;
    \<open>Qboot_Shell\<close>: the key loops, the download gate, the copy command and who owns the console;
    \<open>Qboot_Power\<close>: what the boot thread makes of the flash it finds; \<open>Qboot_Ota\<close>: an update over
    the air, from the client of the download helper to the application that starts.
  \<^item> \<open>Qboot_Hpatch\<close>: the in-place patch of \<open>algorithm/qboot_hpatchlite.c\<close>, its callbacks, swap
    backends, commit and release. \<open>Qboot_Patch\<close>: its correctness over the contract
    \<open>swap_store\<close>; \<open>Qboot_Swap\<close>: the RAM buffer and the storage swap keep it; \<open>Qboot_Upgrade\<close>: the
    update of \<open>src/qboot.c\<close> from a patch package.
  \<^item> \<open>Qboot_Packer\<close>: the packaging tool of the host, \<open>tools/package_tool.py\<close>, over the Python it uses,
    and the proof that the bootloader installs what the tool was given.
  \<^item> \<open>Qboot_Platform\<close>: the jump to the application of \<open>platform/\<close>, on a model of the processor.

  Conventions. A device state is the type variable \<open>'s\<close>; a \<open>view\<close> gives the bytes and the
  erased offsets behind each open handle. Error codes are values. An access outside one of the
  two static buffers is undefined in C and \<open>None\<close> here. Loops are \<open>run_loop\<close>, a partial function
  whose value is \<open>None\<close> when the loop does not end, so that every result \<open>Some\<close> is also a proof of
  termination. Machine integers are words of their width. No fuel is used.

  Packages. The exact results hold for packages that are plain, compressed with FastLZ, QuickLZ or
  gzip, encrypted with AES, or both, and, for an in-place patch, without encryption. A block
  of a compressed package must fit one read of 4096 bytes with its size: the stream rejects a
  larger one that starts on an empty staging buffer. The reference for gzip makes the calls of
  \<open>inflate\<close> on the package in reads of 4096 bytes, each into room for at most 4096, and has an
  image only when every call makes progress and the last one leaves nothing that the handler
  could not hand on.

  The boot thread. With the update manager the download target is written while the thread polls,
  so the results about packages found in flash are for builds without it, and \<open>Qboot_Ota\<close> covers
  the build with the manager and its helper, which copies raw images without a header. A client
  that writes the target by its own means is not modelled.

  Not modelled: log output, the banner, the status LED, progress display, feeding the
  watchdog package in builds that have it, the empty QSPI stubs of three ports, and the two packaging tools
  that are in the repository as archives of programs. Of the packaging script, the reading of the
  command line by \<open>argparse\<close> is seen through what it gives for each option, and a failing write to the
  output is left out. The shell of RT-Thread is seen through its thread and its semaphore, and
  starting it (\<open>finsh_system_init\<close>) is taken to succeed. A progress display whose product overflows an
  \<open>int\<close>, above 21 MB of a patched image, is taken to go on. The callbacks of the update manager
  are there, as its header asks for; only the reason command tests it. The FAL,
  CRC, FastLZ, QuickLZ, zlib, TinyCrypt, HPatchLite and vendor libraries, the flash driver hooks
  and the filesystem are not part of the repository: they are parameters with named laws. The
  patch library is a strategy that calls the callbacks; the relation \<open>patch_run\<close>
  says what it must do, which for an in-place update includes that it reads the old image only
  behind the part already replaced. The board's verdict on the application
  (\<open>bd_legit\<close>) is a parameter of the boot thread, because how the flash is mapped
  into the address space is not in the repository; the test itself is in
  \<open>Qboot_Platform\<close>.
\<close>

section \<open>The boot thread\<close>

text \<open>
  C1. From power-on, on flash that works, whatever keys are pressed and whatever the download and
  the factory target hold, blank flash, damaged packages and packages for another product
  included, as long as a header or a body whose checksum is right describes a package that can be
  unpacked: in a build without the update manager the boot thread ends; it has started the
  application only when the platform accepts it, handed over to the shell only in a build with
  the shell, and reset the processor otherwise; and whatever happened, the application target
  holds its old contents or a package that was valid when the thread started, and no device but
  the application and the download target has changed.
\<close>

theorem boot_thread_traced:
  assumes R: "flash_release io view dev_size crc cal E L th p" and q: "orderly_board E bd"
    and d: "desc_b E QBOOT_TARGET_DOWNLOAD = Some dd" "desc_b E QBOOT_TARGET_APP = Some ad"
      "desc_b E QBOOT_TARGET_FACTORY = Some fd"
    and wf: "wf_fw_info (g_fw_info b)" "wf_mem (e_cfg E) (w_mem (b_world b))"
    and r: "boot_prepared view dev_size E L th s" and s: "s = w_dev (b_world b)"
  shows "\<exists>out sh b'. qbt_thread_entry E U bd (b, u) = Some (out, sh, b', u) \<and>
    left_well E bd out b' \<and>
    app_from view dev_size E L th s (w_dev (b_world b')) \<and>
    (\<forall>h. h \<noteq> th QBOOT_TARGET_APP \<and> h \<noteq> th QBOOT_TARGET_DOWNLOAD \<longrightarrow> view (w_dev (b_world b')) h = view s h)"
  using flash_release.thread_traced [OF R q d wf r s] unfolding s by blast

lemma boot_thread_traced_witness:
  "\<exists>out sh b'. qbt_thread_entry nor_env demo_upd_env demo_board (demo_boot2, demo_upd) = Some (out, sh, b', demo_upd) \<and>
     app_from (custom_view nor_cfg nor_stores (\<lambda>s. s)) (custom_dev_size nor_cfg nor_stores) nor_env nor_libs H_desc demo_flash2
       (w_dev (b_world b'))"
proof -
  obtain d a f where d: "desc_b nor_env QBOOT_TARGET_DOWNLOAD = Some d" "desc_b nor_env QBOOT_TARGET_APP = Some a"
    "desc_b nor_env QBOOT_TARGET_FACTORY = Some f"
    using demo_desc demo_desc3 by blast
  have w: "wf_fw_info (g_fw_info demo_boot2)" "wf_mem (e_cfg nor_env) (w_mem (b_world demo_boot2))"
    "boot_prepared (custom_view nor_cfg nor_stores (\<lambda>s. s)) (custom_dev_size nor_cfg nor_stores) nor_env nor_libs H_desc
      demo_flash2" "demo_flash2 = w_dev (b_world demo_boot2)"
    using demo_prepared by simp_all
  show ?thesis
    using boot_thread_traced [OF nor_boot.flash_release_axioms demo_quiet(1) d w, of demo_upd_env demo_upd] by blast
qed

text \<open>
  C2. A new download boots: when nobody is at the keys, the package in the download target is
  valid, for this product and not yet released, and the platform accepts the application it
  holds, the boot thread installs it, marks it as released and starts it.
\<close>

theorem boot_installs_download:
  assumes R: "flash_release io view dev_size crc cal E L th p" and q: "nobody_there E bd" "\<not> using_update_mgr (e_cfg E)"
    and d: "desc_b E QBOOT_TARGET_DOWNLOAD = Some dd" "desc_b E QBOOT_TARGET_APP = Some ad"
    and wf: "wf_fw_info (g_fw_info b)" "wf_mem (e_cfg E) (w_mem (b_world b))"
    and r: "boot_prepared view dev_size E L th s" and s: "s = w_dev (b_world b)"
    and new: "good_package view E L s (th QBOOT_TARGET_DOWNLOAD)" "\<not> signed view (e_cfg E) s (th QBOOT_TARGET_DOWNLOAD)"
    and legit: "\<And>s'. app_holds view dev_size E L th s QBOOT_TARGET_DOWNLOAD s' \<Longrightarrow> bd_legit bd s'"
  shows "\<exists>sh b'. qbt_thread_entry E U bd (b, u) = Some (App_started, sh, b', u) \<and>
    app_holds view dev_size E L th s QBOOT_TARGET_DOWNLOAD (w_dev (b_world b')) \<and>
    signed view (e_cfg E) (w_dev (b_world b')) (th QBOOT_TARGET_DOWNLOAD)"
  by (rule flash_release.thread_installs [OF R q d wf r s new]) (rule legit)

lemma boot_installs_download_witness:
  "\<exists>sh b'. qbt_thread_entry nor_env demo_upd_env demo_board (demo_boot2, demo_upd) = Some (App_started, sh, b', demo_upd) \<and>
     signed (custom_view nor_cfg nor_stores (\<lambda>s. s)) nor_cfg (w_dev (b_world b')) H_download"
proof -
  obtain d a where d: "desc_b nor_env QBOOT_TARGET_DOWNLOAD = Some d" "desc_b nor_env QBOOT_TARGET_APP = Some a"
    using demo_desc by blast
  have w: "wf_fw_info (g_fw_info demo_boot2)" "wf_mem (e_cfg nor_env) (w_mem (b_world demo_boot2))"
    "boot_prepared (custom_view nor_cfg nor_stores (\<lambda>s. s)) (custom_dev_size nor_cfg nor_stores) nor_env nor_libs H_desc
      demo_flash2" "demo_flash2 = w_dev (b_world demo_boot2)"
    "good_package (custom_view nor_cfg nor_stores (\<lambda>s. s)) nor_env nor_libs demo_flash2 H_download"
    "\<not> signed (custom_view nor_cfg nor_stores (\<lambda>s. s)) (e_cfg nor_env) demo_flash2 H_download"
    using demo_prepared demo_good2 demo_not_signed2 by simp_all
  show ?thesis
    using boot_installs_download [OF nor_boot.flash_release_axioms demo_quiet(2,3) d w, of demo_upd_env demo_upd] demo_legit
    by simp blast
qed

text \<open>
  C3. An update over the air: the boot thread of a build with the update manager and its download
  helper, on flash that works and with nobody at the keys, polls the manager; while it waits, a
  client begins a download, sends its pieces and reports it finished. Then the manager lets the
  thread go on, the download is confirmed, the release copies the target, and the application
  that is started begins with exactly the bytes the client sent. No other device changes.
\<close>

theorem ota_update_boots:
  assumes R: "raw_flash io view dev_size crc cal E th L"
    and D: "download_target U view dev_size (th QBOOT_TARGET_DOWNLOAD)" and h: "using_download_helper (ue_cfg U)"
    and m: "using_update_mgr (e_cfg E)" and q: "nobody_there E bd" and sched: "bd_sched bd 0 = session_events bss"
    and st: "u_state u = UPD_WAIT" "0 < wait_ms u" "\<not> ready_flag u"
    and d: "desc_b E QBOOT_TARGET_DOWNLOAD = Some dd" "desc_b E QBOOT_TARGET_APP = Some ad"
    and wf: "wf_fw_info (g_fw_info b)" "wf_mem (e_cfg E) (w_mem (b_world b))"
    and size: "length (concat bss) \<le> dev_size (th QBOOT_TARGET_DOWNLOAD)" "dev_size (th QBOOT_TARGET_DOWNLOAD) < 2147483648"
      "dev_size (th QBOOT_TARGET_DOWNLOAD) \<le> dev_size (th QBOOT_TARGET_APP)"
    and legit: "\<And>s. cells (v_cell (view s (th QBOOT_TARGET_APP))) 0 (length (concat bss)) = concat bss \<Longrightarrow> bd_legit bd s"
  shows "\<exists>sh b' u'. qbt_thread_entry E U bd (b, u) = Some (App_started, sh, b', u') \<and>
    cells (v_cell (view (w_dev (b_world b')) (th QBOOT_TARGET_APP))) 0 (length (concat bss)) = concat bss \<and>
    (\<forall>h. h \<noteq> th QBOOT_TARGET_APP \<and> h \<noteq> th QBOOT_TARGET_DOWNLOAD \<longrightarrow> view (w_dev (b_world b')) h = view (w_dev (b_world b)) h)"
  using raw_flash.ota_installs [OF R D h m q sched st d wf size legit] .

lemma ota_update_boots_witness:
  "\<exists>sh b' u'. qbt_thread_entry ota_env demo_upd_env ota_board (demo_boot2, demo_upd\<lparr>u_state := UPD_WAIT, wait_ms := 100\<rparr>) =
      Some (App_started, sh, b', u') \<and>
    cells (v_cell (custom_view nor_cfg nor_stores (\<lambda>s. s) (w_dev (b_world b')) H_app)) 0 5 = [1, 2, 3, 4, 5]"
proof -
  let ?bss = "[[1, 2, 3], [4, 5]] :: byte list list" and ?u = "demo_upd\<lparr>u_state := UPD_WAIT, wait_ms := 100\<rparr>"
  have n: "length (concat ?bss) = 5" "concat ?bss = [1, 2, 3, 4, 5]" and n5: "length [1 :: byte, 2, 3, 4, 5] = 5" by simp_all
  obtain dd ad where d: "desc_b ota_env QBOOT_TARGET_DOWNLOAD = Some dd" "desc_b ota_env QBOOT_TARGET_APP = Some ad"
    using ota_demo by blast
  have pre: "using_download_helper (ue_cfg demo_upd_env)" "using_update_mgr (e_cfg ota_env)" by simp_all
  have st: "u_state ?u = UPD_WAIT" "0 < wait_ms ?u" "\<not> ready_flag ?u" by (simp_all add: demo_upd_def)
  have size: "length (concat ?bss) \<le> custom_dev_size nor_cfg nor_stores H_download"
    "custom_dev_size nor_cfg nor_stores H_download < 2147483648"
    "custom_dev_size nor_cfg nor_stores H_download \<le> custom_dev_size nor_cfg nor_stores H_app" by simp_all
  have legit: "\<And>s. cells (v_cell (custom_view nor_cfg nor_stores (\<lambda>s. s) s H_app)) 0 (length (concat ?bss)) = concat ?bss \<Longrightarrow>
      bd_legit ota_board s"
    by (rule ota_legit) (simp only: n(2) n5)
  note ota = ota_update_boots [OF nor_raw.raw_flash_axioms nor_dl.download_target_axioms pre ota_demo(1,2) st d
      demo_boot2_simps(2) ota_demo(5) size]
  have "\<exists>sh b' u'. qbt_thread_entry ota_env demo_upd_env ota_board (demo_boot2, ?u) = Some (App_started, sh, b', u') \<and>
    cells (v_cell (custom_view nor_cfg nor_stores (\<lambda>s. s) (w_dev (b_world b')) H_app)) 0 (length (concat ?bss)) = concat ?bss \<and>
    (\<forall>h. h \<noteq> H_app \<and> h \<noteq> H_download \<longrightarrow> custom_view nor_cfg nor_stores (\<lambda>s. s) (w_dev (b_world b')) h =
      custom_view nor_cfg nor_stores (\<lambda>s. s) (w_dev (b_world demo_boot2)) h)"
    by (rule ota) (rule legit)
  then obtain sh b' u' where e: "qbt_thread_entry ota_env demo_upd_env ota_board (demo_boot2, ?u) = Some (App_started, sh, b', u')"
    and c: "cells (v_cell (custom_view nor_cfg nor_stores (\<lambda>s. s) (w_dev (b_world b')) H_app)) 0 (length (concat ?bss)) = concat ?bss"
    by (elim exE conjE)
  show ?thesis by (intro exI conjI, rule e) (rule c [unfolded n(2) n5])
qed

section \<open>Updating from a package\<close>

text \<open>
  C4. Checking a package, plain, compressed with FastLZ, QuickLZ or gzip, encrypted, or both, decides
  exactly whether it is valid: header magic and CRC, body CRC, and, when the header asks for it,
  the CRC of its image, which is what a decoder over the whole body would give. A header
  with a valid CRC must describe a package that lies in the source, and a body with a valid CRC too must
  have an image that fits the destination and is smaller than 2 GiB. When the package is valid, the update that follows returns, succeeds, leaves the image at the front of the
  destination and the header in its last 96 bytes, and changes no other device.
\<close>

theorem checked_package_installs:
  assumes B: "boot_pkg io view dev_size crc cal E L" and sd: "src \<noteq> dst" and fit: "96 \<le> dev_size src"
    and so: "v_open (view (w_dev (b_world b)) src)" and od: "v_open (view (w_dev (b_world b)) dst)"
    and wf0: "wf_fw_info (g_fw_info b)" and wf: "wf_mem (e_cfg E) (w_mem (b_world b))"
    and fw: "fw = header_of view (w_dev (b_world b)) src"
    and f: "qbt_fw_info_check E fw \<Longrightarrow> fits dev_size src fw"
    and i: "qbt_fw_info_check E fw \<Longrightarrow> cal (body_of view (w_dev (b_world b)) src fw) = pkg_crc fw \<Longrightarrow>
      package_image (e_cfg E) L fw (body_of view (w_dev (b_world b)) src fw) = Some raw \<and>
      room_for dev_size dst n fw \<and> unat (raw_size fw) < 2147483648"
  shows "\<exists>b1. qbt_fw_check E src m name b = Some (package_ok view E (w_dev (b_world b)) src fw raw, b1) \<and>
    (package_ok view E (w_dev (b_world b)) src fw raw \<longrightarrow>
      (\<exists>b2. qbt_fw_update E dst n src b1 = Some (True, b2) \<and>
        installed view (w_dev (b_world b2)) dst n fw raw \<and>
        (\<forall>h. h \<noteq> dst \<longrightarrow> view (w_dev (b_world b2)) h = view (w_dev (b_world b)) h)))"
  by (rule boot_pkg.check_then_update [OF B sd fit so od wf0 wf fw f i])

lemma checked_package_installs_witness:
  "\<exists>b1 b2. qbt_fw_check nor_env H_download 8192 [] (boot_on zip_flash) = Some (True, b1) \<and>
     qbt_fw_update nor_env H_app 8192 H_download b1 = Some (True, b2) \<and>
     installed (custom_view nor_cfg nor_stores (\<lambda>s. s)) (w_dev (b_world b2)) H_app 8192 zip_fw [9, 9, 9, 9, 9, 1, 1, 2]"
  using checked_package_installs [OF nor_boot.boot_pkg_axioms, of H_download H_app "boot_on zip_flash" zip_fw
      zip_raw 8192 8192 "[]"]
  by (simp add: demo_view zip_header zip_fits zip_room zip_image zip_package_ok zip_body_of flip: zip_raw_def) blast

text \<open>
  C5. The stream gives what a decoder over the whole package gives. For any package with an
  image, from whatever state its handlers were in: they are found and initialised, and the
  stream, which reads the package in pieces, decrypts them into a staging buffer, unpacks block
  by block, or by gzip with what does not fill 32 bytes held back, and moves the rest of the input
  to the front, succeeds for every consumer that accepts the image, and the consumer has got the
  whole image in order.
\<close>

theorem stream_gives_image:
  assumes B: "boot_pkg io view dev_size crc cal E L" and i: "package_image (e_cfg E) L fw body = Some raw"
    and f: "fits dev_size src fw" and len: "length body = unat (pkg_size fw)"
  shows "\<exists>ops. qbt_fw_get_algo_context (e_tables E) fw = (True, ops) \<and>
    decodes io view (e_cfg E) (stream_cfg_of (e_cfg E) src fw ops) body raw"
  using boot_pkg.package_decodes [OF B i f len] package_context [OF boot_pkg.startup_libs [OF B] i] by blast

lemma stream_gives_image_witness:
  "\<exists>ops. qbt_fw_get_algo_context (e_tables nor_env) gz_fw = (True, ops) \<and>
     decodes (g_qboot_io_custom nor_cfg nor_stores (nor_hooks 512)) (custom_view nor_cfg nor_stores (\<lambda>s. s)) nor_cfg
       (stream_cfg_of nor_cfg H_download gz_fw ops) gz_body gz_raw"
  using stream_gives_image [OF nor_boot.boot_pkg_axioms _ gz_fits, of gz_body gz_raw] gz_image
  by (simp add: gz_body_def gz_raw_def)

text \<open>
  C6. The packaging tool and the bootloader agree. Take any run of \<open>package_tool.py\<close> that ends
  without an error, put the file it wrote at the front of a target with room for it, and let the image be
  one the build can unpack from the package body, as it is for a plain package made of one file: then
  the package is good, for this product if the code was given, the check accepts it, and the
  update puts exactly the image the tool was given at the front of the destination and the header of
  the file in its last 96 bytes, and changes no other device.
\<close>

theorem packed_package_installs:
  assumes P: "packing io view dev_size crc cal E L z" and ar: "cli_args c = Some ar" and run: "pack_main z now c h = Inr h'"
    and files: "h_files h (a_pkg ar) = Some (Regular pkg)" "h_files h (a_raw ar) = Some (Regular raw)"
      "h_files h' (a_output ar) = Some (Regular img)"
    and s: "s = w_dev (b_world b)" and front: "cells (v_cell (view s src)) 0 (length img) = img"
    and image: "package_image (e_cfg E) L (header_of view s src) pkg = Some raw" and product: "product_given (e_cfg E) ar"
    and size: "length img \<le> dev_size src" "length img < 2147483648" "length raw < 2147483648"
      "length raw + 96 \<le> unat n" "unat n \<le> dev_size dst"
    and sd: "src \<noteq> dst" and o: "v_open (view s src)" "v_open (view s dst)"
    and wf: "wf_fw_info (g_fw_info b)" "wf_mem (e_cfg E) (w_mem (b_world b))"
  shows "good_package view E L s src \<and>
    (\<exists>b1 b2. qbt_fw_check E src m name b = Some (True, b1) \<and> qbt_fw_update E dst n src b1 = Some (True, b2) \<and>
      cells (v_cell (view (w_dev (b_world b2)) dst)) 0 (length raw) = raw \<and>
      cells (v_cell (view (w_dev (b_world b2)) dst)) (unat n - 96) 96 = take 96 img \<and>
      (\<forall>h. h \<noteq> dst \<longrightarrow> view (w_dev (b_world b2)) h = view s h))"
  by (rule packing.packed_installs [OF P ar run files s front image product size sd o wf])

lemma packed_package_installs_witness:
  "\<exists>b1 b2. qbt_fw_check nor_env H_download 8192 [] (boot_on rbl_flash) = Some (True, b1) \<and>
     qbt_fw_update nor_env H_app 8192 H_download b1 = Some (True, b2) \<and>
     cells (v_cell (custom_view nor_cfg nor_stores (\<lambda>s. s) (w_dev (b_world b2)) H_app)) 0 8 = [9, 9, 9, 9, 9, 1, 1, 2]"
proof -
  have f: "h_files zip_host (a_pkg zip_args) = Some (Regular zip_body)" "h_files zip_host (a_raw zip_args) = Some (Regular zip_raw)"
    "h_files (zip_host\<lparr>h_files := (h_files zip_host)(py_text ''app.rbl'' \<mapsto> Regular zip_rbl)\<rparr>) (a_output zip_args) = Some (Regular zip_rbl)"
    unfolding zip_args by (simp_all add: zip_host_def py_text_def)
  have rest: "rbl_flash = w_dev (b_world (boot_on rbl_flash))" "product_given (e_cfg nor_env) zip_args" "H_download \<noteq> H_app"
    "length zip_rbl \<le> custom_dev_size nor_cfg nor_stores H_download" "length zip_rbl < 2147483648" "length zip_raw < 2147483648"
    "length zip_raw + 96 \<le> unat (8192 :: u32)" "unat (8192 :: u32) \<le> custom_dev_size nor_cfg nor_stores H_app"
    "wf_fw_info (g_fw_info (boot_on rbl_flash))" "wf_mem (e_cfg nor_env) (w_mem (b_world (boot_on rbl_flash)))"
    by (simp_all add: zip_rbl_length zip_facts product_given_def) (simp add: nor_cfg_def)
  have image: "package_image (e_cfg nor_env) nor_libs (header_of (custom_view nor_cfg nor_stores (\<lambda>s. s)) rbl_flash H_download)
      zip_body = Some zip_raw" using rbl_image by simp
  note all = packed_package_installs [OF nor_packing.packing_axioms zip_args(1) zip_packed f rest(1) rbl_front
      image rest(2,4-8) rest(3) demo_open rest(9,10)]
  show ?thesis using all [of 8192 "[]"] by (simp add: zip_facts(5)) (metis zip_raw_def)
qed

text \<open>
  C7. What the packaging tool writes. It succeeds exactly when the body and the image can be read, the
  algorithm names are known, the time and the sizes fit 32 bits, the texts can be encoded and the output
  can be written; then the output file is the header struct of the bootloader, byte for byte, with
  the sizes and checksums of the two files and its own, followed by the body, and no other file
  changes, also when the output replaces one of the inputs.
\<close>

theorem package_written:
  assumes Z: "host_crc z cal" and ar: "cli_args c = Some ar"
  shows "pack_main z now c h = Inr h' \<longleftrightarrow>
     (\<exists>pkg raw alg alg2 p v q. pack_inputs ar h = Inr (pkg, raw, alg, alg2) \<and>
        0 \<le> now \<and> now < 4294967296 \<and> length raw < 4294967296 \<and> length pkg < 4294967296 \<and>
        utf8 (a_part ar) = Some p \<and> utf8 (a_version ar) = Some v \<and> utf8 (a_product ar) = Some q \<and>
        h_files h (a_output ar) \<noteq> Some Folder \<and> h_writable h (a_output ar) \<and>
        h' = h\<lparr>h_files := (h_files h)(a_output ar \<mapsto>
          Regular (bytes_of_fw_info (packed_head cal raw pkg alg alg2 now p v q) @ pkg))\<rparr>)"
  by (simp add: pack_main_def ar host_crc.package_exact [OF Z])

lemma package_written_witness:
  "pack_main host_zlib 0 zip_cli zip_host =
    Inr (zip_host\<lparr>h_files := (h_files zip_host)(py_text ''app.rbl'' \<mapsto> Regular zip_rbl)\<rparr>)"
  unfolding package_written [OF nor_packing.host_crc_axioms zip_args(1)] zip_inputs
  by (simp add: zip_args utf8_text zip_facts zip_rbl_def)

section \<open>Booting\<close>

text \<open>
  C8. Releasing from any target to the target the header names: the image and the header of a
  package that is valid and for this product land in the destination, the source is marked as
  released and keeps its package, and no third device changes. When the package is not valid,
  or it is released already and the caller checks, no device changes at all. The call always
  returns, and reports whether the package was good. As in C4, a header whose CRC is right must
  describe a package in the source, and a body whose CRC is right too must have an image that fits;
  the sign of a good package must lie inside the source, on blank cells unless it is set.
\<close>

theorem release_installs_signs:
  assumes R: "flash_release io view dev_size crc cal E L th p"
    and d: "desc_b E src = Some sd" "desc_b E dst = Some dd"
    and ne: "src \<noteq> dst" and s: "s = w_dev (b_world b)" and fw: "fw = header_of view s (th src)"
    and wf: "wf_fw_info (g_fw_info b)" "wf_mem (e_cfg E) (w_mem (b_world b))"
    and p: "sound_source view dev_size E L s (th src) (th dst)"
    and r: "good_package view E L s (th src) \<Longrightarrow> releasable view dev_size (e_cfg E) s (th src) dst"
  shows "\<exists>b'. qbt_release_from_part E src check b = Some (good_package view E L s (th src), b') \<and>
    (if good_package view E L s (th src) \<and> \<not> (check \<and> signed view (e_cfg E) s (th src))
     then installed view (w_dev (b_world b')) (th dst) (of_nat (dev_size (th dst))) fw
         (the (image_of view (e_cfg E) L s (th src))) \<and>
       signed view (e_cfg E) (w_dev (b_world b')) (th src) \<and>
       header_of view (w_dev (b_world b')) (th src) = fw \<and>
       body_of view (w_dev (b_world b')) (th src) fw = body_of view s (th src) fw \<and>
       (\<forall>h. h \<noteq> th src \<and> h \<noteq> th dst \<longrightarrow> view (w_dev (b_world b')) h = view s h)
     else view (w_dev (b_world b')) = view s)"
  using flash_release.release_exact [OF R d ne wf p [unfolded s] r [unfolded s], of check]
  unfolding fw s by blast

lemma release_installs_signs_witness:
  "\<exists>b'. qbt_release_from_part nor_env QBOOT_TARGET_DOWNLOAD True (boot_on zip_flash) = Some (True, b') \<and>
     installed (custom_view nor_cfg nor_stores (\<lambda>s. s)) (w_dev (b_world b')) H_app 8192 zip_fw zip_raw \<and>
     signed (custom_view nor_cfg nor_stores (\<lambda>s. s)) nor_cfg (w_dev (b_world b')) H_download"
proof -
  obtain d a where d: "desc_b nor_env QBOOT_TARGET_DOWNLOAD = Some d" "desc_b nor_env QBOOT_TARGET_APP = Some a"
    using demo_desc by blast
  show ?thesis
    using release_installs_signs [OF nor_boot.flash_release_axioms d, of zip_flash "boot_on zip_flash" zip_fw True]
    by (simp add: zip_header zip_sound zip_releasable zip_good zip_not_signed zip_image_of) blast
qed

text \<open>
  C9. A released package is not installed again: after a successful release the next boot,
  which checks the sign, succeeds too and leaves every device alone.
\<close>

theorem released_once:
  assumes R: "flash_release io view dev_size crc cal E L th p"
    and d: "desc_b E src = Some sd" "desc_b E dst = Some dd" and ne: "src \<noteq> dst" and s: "s = w_dev (b_world b)"
    and wf: "wf_fw_info (g_fw_info b)" "wf_mem (e_cfg E) (w_mem (b_world b))"
    and p: "sound_source view dev_size E L s (th src) (th dst)"
    and good: "good_package view E L s (th src)" and r: "releasable view dev_size (e_cfg E) s (th src) dst"
  shows "\<exists>b1 b2. qbt_release_from_part E src check b = Some (True, b1) \<and>
    qbt_release_from_part E src True b1 = Some (True, b2) \<and>
    view (w_dev (b_world b2)) = view (w_dev (b_world b1))"
  by (rule flash_release.release_twice [OF R d ne wf p [unfolded s] r [unfolded s] good [unfolded s]])

lemma released_once_witness:
  "\<exists>b1 b2. qbt_release_from_part nor_env QBOOT_TARGET_DOWNLOAD False (boot_on zip_flash) = Some (True, b1) \<and>
     qbt_release_from_part nor_env QBOOT_TARGET_DOWNLOAD True b1 = Some (True, b2) \<and>
     custom_view nor_cfg nor_stores (\<lambda>s. s) (w_dev (b_world b2)) =
       custom_view nor_cfg nor_stores (\<lambda>s. s) (w_dev (b_world b1))"
proof -
  obtain d a where d: "desc_b nor_env QBOOT_TARGET_DOWNLOAD = Some d" "desc_b nor_env QBOOT_TARGET_APP = Some a"
    using demo_desc by blast
  show ?thesis
    using released_once [OF nor_boot.flash_release_axioms d, of zip_flash "boot_on zip_flash" False]
    by (simp add: zip_sound zip_releasable zip_good)
qed

text \<open>
  C10. Resuming the application from another target: it succeeds exactly when the package there
  is valid, for this product and addressed to the application; then the image of the package is
  installed. Otherwise no device changes, and in any case only the application's does.
\<close>

theorem resume_installs:
  assumes R: "flash_targets io view dev_size crc cal E L th"
    and d: "desc_b E src = Some sd" "desc_b E QBOOT_TARGET_APP = Some ad" and ne: "src \<noteq> QBOOT_TARGET_APP"
    and s: "s = w_dev (b_world b)" and fw: "fw = header_of view s (th src)"
    and ok: "ok \<longleftrightarrow> good_package view E L s (th src) \<and> rt_streq (part_name fw) QBOOT_APP_PART_NAME"
    and wf: "wf_fw_info (g_fw_info b)" "wf_mem (e_cfg E) (w_mem (b_world b))"
    and p: "sound_source view dev_size E L s (th src) (th QBOOT_TARGET_APP)"
  shows "\<exists>b'. qbt_app_resume_from E src b = Some (ok, b') \<and>
    (\<forall>h. h \<noteq> th QBOOT_TARGET_APP \<longrightarrow> view (w_dev (b_world b')) h = view s h) \<and>
    (if ok then installed view (w_dev (b_world b')) (th QBOOT_TARGET_APP)
        (of_nat (dev_size (th QBOOT_TARGET_APP))) fw (the (image_of view (e_cfg E) L s (th src)))
     else view (w_dev (b_world b')) = view s)"
  using flash_targets.resume_exact [OF R d ne wf p [unfolded s]] by (auto simp: fw s ok)

lemma resume_installs_witness:
  "\<exists>b'. qbt_app_resume_from nor_env QBOOT_TARGET_DOWNLOAD demo_boot = Some (True, b') \<and>
     installed (custom_view nor_cfg nor_stores (\<lambda>s. s)) (w_dev (b_world b')) H_app 8192 demo_fw demo_body"
proof -
  obtain d a where d: "desc_b nor_env QBOOT_TARGET_DOWNLOAD = Some d" "desc_b nor_env QBOOT_TARGET_APP = Some a"
    using demo_desc by blast
  show ?thesis
    using resume_installs [OF nor_boot.flash_targets_axioms d, of demo_flash demo_boot demo_fw True]
    by (simp add: demo_name demo_header demo_sound demo_good demo_image_of) blast
qed

section \<open>Patching in place\<close>

text \<open>
  C11. The in-place patch with the storage swap. Whatever pieces the library asks for and
  writes, as long as it reads the old image only behind the part already committed, the
  release returns success, the target holds exactly the new image, everything behind the last
  block of it is erased, and no device but the target and the swap changes.
\<close>

theorem patch_release_exact:
  assumes S: "storage_patch io view dev_size blk old c H sw" and b: "storage_build_ok H blk"
    and o: "v_open (view (w_dev w) old)" and ne: "patch \<noteq> old" "patch \<noteq> sw"
    and p: "patch_stream view dev_size (w_dev w) patch off plen P"
    and run: "patch_run L P (v_cell (view (w_dev w) old)) (dev_size old) blk (swap_area dev_size H sw) [] 0 [] N"
    and N: "unat nlen = length N" "0 < length N" "length N \<le> dev_size old"
  shows "\<exists>w'. qbt_hpatchlite_release_from_part c L H io patch old plen nlen off w = Some (1, w') \<and>
    cells (v_cell (view (w_dev w') old)) 0 (length N) = N \<and>
    (\<forall>h. h \<noteq> old \<and> h \<noteq> sw \<longrightarrow> view (w_dev w') h = view (w_dev w) h) \<and>
    (\<forall>i. blk_up blk (length N) \<le> i \<and> i < dev_size old \<longrightarrow> v_ready (view (w_dev w') old) i)"
  using patch_release_swap [OF S b o ne p run N] by blast

lemma patch_release_exact_witness:
  "\<exists>w'. qbt_hpatchlite_release_from_part nor_cfg demo_lib demo_build (g_qboot_io_custom nor_cfg nor_stores (nor_hooks 512))
     H_download H_app 8 6 96 (b_world demo_boot) = Some (1, w') \<and>
   cells (v_cell (custom_view nor_cfg nor_stores (\<lambda>s. s) (w_dev w') H_app)) 0 (length demo_new) = demo_new"
proof -
  have n: "unat (6 :: u32) = length demo_new" "0 < length demo_new" "length demo_new \<le> custom_dev_size nor_cfg nor_stores H_app"
    by (simp_all add: demo_new_def)
  have r: "patch_run demo_lib demo_body (v_cell (custom_view nor_cfg nor_stores (\<lambda>s. s) (w_dev (b_world demo_boot)) H_app))
      (custom_dev_size nor_cfg nor_stores H_app) 512 (swap_area (custom_dev_size nor_cfg nor_stores) demo_build H_swap)
      [] 0 [] demo_new"
    using demo_run by simp
  have p: "patch_stream (custom_view nor_cfg nor_stores (\<lambda>s. s)) (custom_dev_size nor_cfg nor_stores)
      (w_dev (b_world demo_boot)) H_download 96 8 demo_body"
    using demo_patch_stream by simp
  obtain w' where "qbt_hpatchlite_release_from_part nor_cfg demo_lib demo_build
      (g_qboot_io_custom nor_cfg nor_stores (nor_hooks 512)) H_download H_app 8 6 96 (b_world demo_boot) = Some (1, w')"
    "cells (v_cell (custom_view nor_cfg nor_stores (\<lambda>s. s) (w_dev w') H_app)) 0 (length demo_new) = demo_new"
    using patch_release_exact [OF nor_swap.storage_patch_axioms, OF demo_build_ok(1) demo_open(2) _ _ p r n] by auto
  then show ?thesis by blast
qed

text \<open>
  C12. The same with the RAM buffer; here nothing but the target changes.
\<close>

theorem patch_release_ram_exact:
  assumes R: "ram_patch io view dev_size blk old cap" and hs: "\<not> hpatch_storage_swap c" and b: "ram_build_ok H blk cap"
    and o: "v_open (view (w_dev w) old)" and ne: "patch \<noteq> old" "patch \<noteq> H_NULL"
    and p: "patch_stream view dev_size (w_dev w) patch off plen P"
    and run: "patch_run L P (v_cell (view (w_dev w) old)) (dev_size old) blk cap [] 0 [] N"
    and N: "unat nlen = length N" "0 < length N" "length N \<le> dev_size old"
  shows "\<exists>w'. qbt_hpatchlite_release_from_part c L H io patch old plen nlen off w = Some (1, w') \<and>
    cells (v_cell (view (w_dev w') old)) 0 (length N) = N \<and>
    (\<forall>h. h \<noteq> old \<and> h \<noteq> H_NULL \<longrightarrow> view (w_dev w') h = view (w_dev w) h) \<and>
    (\<forall>i. blk_up blk (length N) \<le> i \<and> i < dev_size old \<longrightarrow> v_ready (view (w_dev w') old) i)"
  using patch_release_ram [OF R hs b o ne p run N] by blast

lemma patch_release_ram_exact_witness:
  "\<exists>w'. qbt_hpatchlite_release_from_part (nor_cfg\<lparr>hpatch_storage_swap := False\<rparr>) demo_lib demo_build
     (g_qboot_io_custom nor_cfg nor_stores (nor_hooks 512)) H_download H_app 8 6 96 (b_world demo_boot) = Some (1, w') \<and>
   cells (v_cell (custom_view nor_cfg nor_stores (\<lambda>s. s) (w_dev w') H_app)) 0 (length demo_new) = demo_new"
proof -
  have n: "unat (6 :: u32) = length demo_new" "0 < length demo_new" "length demo_new \<le> custom_dev_size nor_cfg nor_stores H_app"
    by (simp_all add: demo_new_def)
  have r: "patch_run demo_lib demo_body (v_cell (custom_view nor_cfg nor_stores (\<lambda>s. s) (w_dev (b_world demo_boot)) H_app))
      (custom_dev_size nor_cfg nor_stores H_app) 512 32 [] 0 [] demo_new"
    using demo_run by simp
  have p: "patch_stream (custom_view nor_cfg nor_stores (\<lambda>s. s)) (custom_dev_size nor_cfg nor_stores)
      (w_dev (b_world demo_boot)) H_download 96 8 demo_body"
    using demo_patch_stream by simp
  have hs: "\<not> hpatch_storage_swap (nor_cfg\<lparr>hpatch_storage_swap := False\<rparr>)" by simp
  obtain w' where "qbt_hpatchlite_release_from_part (nor_cfg\<lparr>hpatch_storage_swap := False\<rparr>) demo_lib demo_build
      (g_qboot_io_custom nor_cfg nor_stores (nor_hooks 512)) H_download H_app 8 6 96 (b_world demo_boot) = Some (1, w')"
    "cells (v_cell (custom_view nor_cfg nor_stores (\<lambda>s. s) (w_dev w') H_app)) 0 (length demo_new) = demo_new"
    using patch_release_ram_exact [OF nor_ram.ram_patch_axioms, OF hs demo_build_ok(2) demo_open(2) _ _ p r n] by auto
  then show ?thesis by blast
qed

text \<open>
  C13. The whole update from a patch package: it returns, leaves the new image at the front of
  the destination and the header in its last 96 bytes, reports success exactly when the header
  is intact and, if it asks for that, the new image has the CRC the header states, and changes
  no device but the destination and the swap.
\<close>

theorem patch_update_verified:
  assumes B: "boot_base io view dev_size crc cal E" and S: "storage_patch io view dev_size blk dst (e_cfg E) H sw"
    and ok: "storage_build_ok H blk" and hp: "e_hpatch E = qbt_hpatchlite_release_from_part (e_cfg E) L H io"
    and fw: "fw = g_fw_info b" and s: "s = w_dev (b_world b)"
    and job: "patch_job view dev_size L blk (swap_area dev_size H sw) s src dst n fw N"
    and so: "v_open (view s src)" and od: "v_open (view s dst)" and ne: "src \<noteq> dst" "src \<noteq> sw"
    and wf: "wf_mem (e_cfg E) (w_mem (b_world b))"
  shows "\<exists>b'. qbt_fw_update E dst n src b = Some (qbt_fw_info_check E fw \<and>
      (algo2 fw AND QBOOT_ALGO2_VERIFY_MASK = QBOOT_ALGO2_VERIFY_CRC \<longrightarrow> e_cal E N = raw_crc fw), b') \<and>
    installed view (w_dev (b_world b')) dst n fw N \<and>
    (\<forall>h. h \<noteq> dst \<and> h \<noteq> sw \<longrightarrow> view (w_dev (b_world b')) h = view s h)"
  by (rule patch_update_swap [OF assms])

lemma patch_update_verified_witness:
  "\<exists>b'. qbt_fw_update nor_patch_env H_app 8192 H_download demo_patch_boot = Some (True, b') \<and>
     installed (custom_view nor_cfg nor_stores (\<lambda>s. s)) (w_dev (b_world b')) H_app 8192 demo_patch_fw demo_new"
proof -
  have e: "e_cfg nor_patch_env = nor_cfg" "e_cal nor_patch_env = crc32_cal"
    "e_hpatch nor_patch_env = qbt_hpatchlite_release_from_part (e_cfg nor_patch_env) demo_lib demo_build
      (g_qboot_io_custom nor_cfg nor_stores (nor_hooks 512))"
    by (simp_all add: nor_patch_env_def)
  have g: "demo_patch_fw = g_fw_info demo_patch_boot" "demo_flash = w_dev (b_world demo_patch_boot)"
    "wf_mem (e_cfg nor_patch_env) (w_mem (b_world demo_patch_boot))"
    by (simp_all add: demo_patch_boot_def e)
  have r: "raw_crc demo_patch_fw = crc32_cal demo_new" by simp
  show ?thesis
    using patch_update_verified [OF nor_patch_boot.boot_base_axioms _ demo_build_ok(1) e(3) g(1,2) demo_patch_job
        demo_open _ _ g(3)] nor_swap.storage_patch_axioms
    by (simp add: e r demo_patch_check) blast
qed

section \<open>Leaving the bootloader\<close>

text \<open>
  C14. The jump of every port that runs the application in internal flash: when the vector table
  passes the port's test, the application is entered at its reset handler with its own stack
  pointer, interrupts masked, every one of the 128 interrupt lines disabled and not pending and
  the system timer stopped; otherwise nothing happens at all.
\<close>

theorem jump_exact:
  assumes L: "lib_ok lib" and e: "entered x = None"
  shows "let y = plat_run lib (qbt_jump_to_app p mem a) x in
    if vector_legit p (mem a) (mem (a + 4))
    then entered y = Some (mem (a + 4)) \<and> cpu_msp y = mem a \<and> cpu_control y = 0 \<and> quiesced y
    else y = x"
proof (cases "vector_legit p (mem a) (mem (a + 4))")
  case True
  then show ?thesis unfolding Let_def using jump_taken [OF L True e] by (simp only: if_True simp_thms)
next
  case False
  then show ?thesis using jump_refused [of p mem a] by simp
qed

lemma jump_exact_witness:
  "\<exists>x. entered x = Some 0x08020101 \<and> cpu_msp x = 0x20010000 \<and> quiesced x"
proof -
  define x0 :: cpu where "x0 = \<lparr>irq_masked = False, nvic_enabled = (\<lambda>_. True), nvic_pending = (\<lambda>_. True),
    cpu_regs = (\<lambda>_. 1), in_reset = (\<lambda>_. False), cpu_control = 2, cpu_msp = 0x20000400, entered = None\<rparr>"
  define mem :: "u32 \<Rightarrow> u32" where "mem a = (if a = 0x08020000 then 0x20010000 else 0x08020101)" for a
  have l: "lib_ok (\<lambda>_ x. x)" by (simp add: lib_ok_def)
  have e: "entered x0 = None" by (simp add: x0_def)
  have v: "vector_legit STM32 (mem 0x08020000) (mem (0x08020000 + 4))" by (simp add: stm32_legit_def mem_def)
  have m: "mem 0x08020000 = 0x20010000" "mem (0x08020000 + 4) = 0x08020101" by (simp_all add: mem_def)
  from jump_exact [OF l e, where p = STM32 and mem = mem and a = "0x08020000"] v
  have "entered (plat_run (\<lambda>_ x. x) (qbt_jump_to_app STM32 mem 0x08020000) x0) = Some 0x08020101 \<and>
      cpu_msp (plat_run (\<lambda>_ x. x) (qbt_jump_to_app STM32 mem 0x08020000) x0) = 0x20010000 \<and>
      quiesced (plat_run (\<lambda>_ x. x) (qbt_jump_to_app STM32 mem 0x08020000) x0)"
    unfolding Let_def m by (simp only: if_True simp_thms)
  then show ?thesis by blast
qed

text \<open>
  C15. The GD32 port takes every peripheral it puts into reset out of it again before the
  application is entered, and touches no other.
\<close>

theorem gd32_resets_released:
  assumes "lib_ok lib" and "gd32_legit (mem a) (mem (a + 4))" and "entered x = None"
  shows "in_reset (plat_run lib (qbt_jump_to_app GD32 mem a) x) = (\<lambda>q. q \<notin> set rcu_resets \<and> in_reset x q)"
  by (rule gd32_released [OF assms])

lemma gd32_resets_released_witness:
  "\<not> in_reset (plat_run (\<lambda>_ x. x) (qbt_jump_to_app GD32 (\<lambda>a. if a = 0x08020000 then 0x20010000 else 0x08020101) 0x08020000)
     \<lparr>irq_masked = False, nvic_enabled = (\<lambda>_. True), nvic_pending = (\<lambda>_. True), cpu_regs = (\<lambda>_. 1),
      in_reset = (\<lambda>_. True), cpu_control = 2, cpu_msp = 0x20000400, entered = None\<rparr>) ''RCU_CRCRST''"
  by (subst gd32_resets_released) (simp_all add: lib_ok_def gd32_legit_def rcu_resets_def)

text \<open>
  C16. The STM32 build that runs the application in QSPI flash does something else: the stack
  pointer it loads is the one of the vector table with its low 20 bits cleared, so one of four
  RAM base addresses, and it calls the address of the reset vector, not the handler in it.
\<close>

theorem qspi_jump_vectors:
  fixes mpu :: bool
  assumes "lib_ok lib" and "entered x = None" and "found" and "nor_flash_memory_mapped_mode hal = RT_EOK"
    and "qspi_legit base (recv_word (transfer [0x03, 0, 0, 0]) 0 AND 0x3FF00000) (recv_word (transfer [0x03, 0, 0, 0]) 4)"
  shows "let y = plat_run lib (qspi_jump_to_app mpu found transfer hal base) x in
    entered y = Some (base + 4) \<and> cpu_msp y = recv_word (transfer [0x03, 0, 0, 0]) 0 AND 0x3FF00000 \<and>
    cpu_msp y \<in> {0x20000000, 0x24000000, 0x30000000, 0x38000000}"
  unfolding Let_def by (rule qspi_jump) (fact assms)+

lemma qspi_jump_vectors_witness:
  "\<exists>x :: cpu. recv_word [0, 0, 1, 0x20, 1, 1, 0, 0x90] 0 = 0x20010000 \<and> recv_word [0, 0, 1, 0x20, 1, 1, 0, 0x90] 4 = 0x90000101 \<and>
     entered x = Some 0x90000004 \<and> cpu_msp x = 0x20000000"
proof -
  let ?r = "[0, 0, 1, 0x20, 1, 1, 0, 0x90] :: byte list"
  define x0 :: cpu where "x0 = \<lparr>irq_masked = False, nvic_enabled = (\<lambda>_. True), nvic_pending = (\<lambda>_. True),
    cpu_regs = (\<lambda>_. 1), in_reset = (\<lambda>_. False), cpu_control = 2, cpu_msp = 0x20000400, entered = None\<rparr>"
  have w: "recv_word ?r 0 = 0x20010000" "recv_word ?r 4 = 0x90000101" by (simp_all add: recv_word_def)
  have l: "lib_ok (\<lambda>_ x. x)" by (simp add: lib_ok_def)
  have e: "entered x0 = None" by (simp add: x0_def)
  have h: "nor_flash_memory_mapped_mode (\<lambda>_ _. True) = RT_EOK" by (simp add: nor_flash_memory_mapped_mode_def Let_def)
  have v: "qspi_legit 0x90000000 (recv_word ?r 0 AND 0x3FF00000) (recv_word ?r 4)" unfolding w by (simp add: qspi_legit_def)
  from qspi_jump_vectors [where transfer = "\<lambda>_. ?r" and found = True and mpu = True, OF l e TrueI h v] w
  show ?thesis 
    by (intro exI [of _ "plat_run (\<lambda>_ x. x) (qspi_jump_to_app True True (\<lambda>_. ?r) (\<lambda>_ _. True) 0x90000000) x0"])
      (simp add: w Let_def)
qed

section \<open>Downloads\<close>

text \<open>
  C17. With the download helper linked, a download the manager has not confirmed is never
  released: the source is opened and closed and nothing else happens.
\<close>

theorem unconfirmed_download_kept:
  assumes "using_download_helper (e_cfg E)" and "\<not> s_dl_ok b"
    and "desc_b E QBOOT_TARGET_DOWNLOAD = Some d"
  shows "qbt_release_from_part E QBOOT_TARGET_DOWNLOAD check b =
    (case open_b E QBOOT_TARGET_DOWNLOAD True QBT_OPEN_READ b of
       ((ok, src, _), b1) \<Rightarrow> Some (False, if ok \<and> src \<noteq> H_NULL then close_b E src b1 else b1))"
  by (rule release_gate [OF assms])

lemma unconfirmed_download_kept_witness:
  "\<exists>b'. qbt_release_from_part (nor_env\<lparr>e_cfg := nor_cfg\<lparr>using_download_helper := True\<rparr>\<rparr>)
     QBOOT_TARGET_DOWNLOAD True demo_boot = Some (False, b')"
proof -
  let ?E = "nor_env\<lparr>e_cfg := nor_cfg\<lparr>using_download_helper := True\<rparr>\<rparr>"
  have "\<exists>d. desc_b ?E QBOOT_TARGET_DOWNLOAD = Some d"
    by (simp add: desc_b_def qbt_target_desc_def length_g_descs)
  then obtain d where "desc_b ?E QBOOT_TARGET_DOWNLOAD = Some d" by blast
  from unconfirmed_download_kept [OF _ _ this, of demo_boot True] show ?thesis
    by (simp add: demo_boot_def boot_on_def split: prod.splits)
qed

section \<open>The update manager\<close>

text \<open>
  C18. A download session through the helper, on flash that works: it begins, takes any pieces
  that fit the target, and when it is finished the target holds exactly the received bytes, the
  download is confirmed and the manager ready, with the target closed. Until then the download
  is not confirmed. No other device changes.
\<close>

theorem download_session:
  assumes D: "download_target E view dev_size h"
    and helper: "using_download_helper (ue_cfg E)" and fit: "length (concat bss) \<le> dev_size h"
    and big: "dev_size h < 4294967296"
  shows "\<exists>u1 u2. qbt_update_mgr_download_begin E u = (True, u1) \<and> \<not> dl_ok u1 \<and> u_state u1 = UPD_RECV \<and>
    download_chunks 0 bss E u1 = (True, u2) \<and> \<not> dl_ok u2 \<and>
    (let u3 = qbt_update_mgr_on_finish True E u2
     in dl_ok u3 \<and> u_state u3 = UPD_READY \<and> ready_flag u3 \<and> dl_handle u3 = H_NULL \<and>
        cells (v_cell (view (u_dev u3) h)) 0 (length (concat bss)) = concat bss \<and>
        (\<forall>h'. h' \<noteq> h \<longrightarrow> view (u_dev u3) h' = view (u_dev u) h'))"
  by (rule download_target.session_exact [OF D helper fit big])

lemma download_session_witness:
  "\<exists>u1 u2. qbt_update_mgr_download_begin demo_upd_env demo_upd = (True, u1) \<and>
     download_chunks 0 [[1, 2, 3], [4, 5]] demo_upd_env u1 = (True, u2) \<and>
     cells (v_cell (custom_view nor_cfg nor_stores (\<lambda>s. s)
       (u_dev (qbt_update_mgr_on_finish True demo_upd_env u2)) H_download)) 0 5 = [1, 2, 3, 4, 5]"
proof -
  let ?bss = "[[1, 2, 3], [4, 5]] :: byte list list"
  have n: "length (concat ?bss) = 5" by simp
  have pre: "using_download_helper (ue_cfg demo_upd_env)"
    "length (concat ?bss) \<le> custom_dev_size nor_cfg nor_stores H_download"
    "custom_dev_size nor_cfg nor_stores H_download < 4294967296" by simp_all
  obtain u1 u2 where b: "qbt_update_mgr_download_begin demo_upd_env demo_upd = (True, u1)"
    and c: "download_chunks 0 ?bss demo_upd_env u1 = (True, u2)"
    and d: "cells (v_cell (custom_view nor_cfg nor_stores (\<lambda>s. s)
      (u_dev (qbt_update_mgr_on_finish True demo_upd_env u2)) H_download)) 0 (length (concat ?bss)) = concat ?bss"
    using download_session [OF nor_dl.download_target_axioms pre, of demo_upd] unfolding Let_def by blast
  have "concat ?bss = [1, 2, 3, 4, 5]" by simp
  with d [unfolded n] have "cells (v_cell (custom_view nor_cfg nor_stores (\<lambda>s. s)
      (u_dev (qbt_update_mgr_on_finish True demo_upd_env u2)) H_download)) 0 5 = [1, 2, 3, 4, 5]" by (simp only:)
  with b c show ?thesis by (intro exI conjI)
qed

text \<open>
  C19. In every state the manager can reach, whatever events and polls led there: it is never
  left in one of its two transient states, it is ready only with the flag the poll loop waits
  for, and once a download is confirmed its target is closed and every further write is refused
  and changes nothing.
\<close>

theorem manager_invariant:
  assumes "upd_reach E u"
  shows "u_state u \<noteq> UPD_DONE \<and> u_state u \<noteq> UPD_ERROR \<and> (u_state u = UPD_READY \<longrightarrow> ready_flag u) \<and>
    (dl_ok u \<longrightarrow> dl_handle u = H_NULL \<and> qbt_update_mgr_download_write off bs E u = (False, u))"
  using upd_reach_inv [OF assms] by (auto simp: upd_inv_def qbt_update_mgr_download_write_def)

lemma manager_invariant_witness:
  "\<exists>u. upd_reach demo_upd_env u \<and> dl_ok u \<and> qbt_update_mgr_download_write 0 [1] demo_upd_env u = (False, u)"
proof -
  let ?u = "upd_handle demo_upd_env (Ev_finish True) (qbt_update_mgr_register 100 100 demo_upd_env demo_upd)"
  have r: "upd_reach demo_upd_env ?u" by (intro upd_reach.intros demo_static)
  have "dl_ok ?u" by (simp add: nor_dl.finish_fields)
  with manager_invariant [OF r, of 0 "[1]"] r show ?thesis by blast
qed

text \<open>
  C20. The manager refines its specification, a machine with three phases and a target that is
  shut, open or passed: every sequence of events, with the answers the calls give, is a run of
  that machine. So a confirmed download was reported finished by its last finishing event, with
  no failure and no new beginning since; and an open target was begun, with no end of the
  download and no failed write since.
\<close>

theorem manager_refines_session:
  assumes H: "using_download_helper (ue_cfg E)" and o: "opens_handles (ue_io E)" and r: "upd_reach E u"
  shows "let v = fold (upd_handle E) evs u; tr = upd_trace E evs u
    in session_run tr (abs_session u) (abs_session v) \<and>
      (dl_ok v \<longrightarrow> dl_ok u \<and> (\<forall>x \<in> set tr. \<not> spoils x) \<or>
        (\<exists>tr1 r tr2. tr = tr1 @ (Ev_finish True, r) # tr2 \<and> (\<forall>x \<in> set tr2. \<not> spoils x))) \<and>
      (dl_handle v \<noteq> H_NULL \<longrightarrow> dl_handle u \<noteq> H_NULL \<and> (\<forall>x \<in> set tr. \<not> shuts x) \<or>
        (\<exists>tr1 r tr2. tr = tr1 @ (Ev_begin, r) # tr2 \<and> (\<forall>x \<in> set tr2. \<not> shuts x)))"
proof -
  let ?v = "fold (upd_handle E) evs u" and ?tr = "upd_trace E evs u"
  have run: "session_run ?tr (abs_session u) (abs_session ?v)" by (rule trace_run [OF H o upd_reach_inv [OF r]])
  have g: "dl_ok w \<longleftrightarrow> snd (abs_session w) = Passed" for w :: "('a, 'b) upd" by (simp add: abs_session_def)
  note h = inv_gate [OF upd_reach_inv [OF r]] inv_gate [OF upd_reach_inv [OF reach_run [OF r]], of evs]
  show ?thesis using run run_passed [OF run] run_open [OF run] unfolding Let_def g h by blast
qed

lemma manager_refines_session_witness:
  "let u = demo_requested; evs = [Ev_begin, Ev_write 0 [1, 2, 3], Ev_finish True];
     tr = upd_trace demo_upd_env evs u
   in session_run tr (Waiting, Shut) (abs_session (fold (upd_handle demo_upd_env) evs u)) \<and>
      dl_ok (fold (upd_handle demo_upd_env) evs u)"
proof -
  let ?u = demo_requested
  let ?evs = "[Ev_begin, Ev_write 0 [1, 2, 3], Ev_finish True]"
  from manager_refines_session [OF _ demo_opens demo_requested(1), of ?evs]
  have "session_run (upd_trace demo_upd_env ?evs ?u) (abs_session ?u) (abs_session (fold (upd_handle demo_upd_env) ?evs ?u))"
    by (simp add: Let_def)
  moreover note demo_requested(2)
  moreover have "dl_ok (fold (upd_handle demo_upd_env) ?evs ?u)" by (simp add: nor_dl.finish_fields)
  ultimately show ?thesis by (simp add: Let_def)
qed

text \<open>
  C21. The recovery probe, which is expensive, is made at most once between the starts of two
  downloads: over any run the probes made are bounded by the starts in it and the one probe
  that may still be open.
\<close>

theorem probes_bounded:
  assumes "counts_probes (ue_ops E) cnt"
  shows "cnt (u_env (fold (upd_handle E) evs u)) \<le>
    cnt (u_env u) + (if recover_probe_used u then 0 else 1) + sum_list (map starts evs)"
  using budget_run [OF assms, of evs u] by (simp add: probe_budget_def split: if_splits)

lemma probes_bounded_witness:
  "snd (u_env (fold (upd_handle demo_upd_env) [Ev_request, Ev_ticks 200, Ev_poll, Ev_start, Ev_abort, Ev_poll]
     (demo_upd\<lparr>wait_ms := 100\<rparr>))) \<le> (2 :: nat)"
proof -
  let ?evs = "[Ev_request, Ev_ticks 200, Ev_poll, Ev_start, Ev_abort, Ev_poll]" and ?u = "demo_upd\<lparr>wait_ms := 100\<rparr>"
  have c: "counts_probes (ue_ops demo_upd_env) snd" by (simp add: demo_counts)
  have "snd (u_env ?u) + (if recover_probe_used ?u then 0 else 1) + sum_list (map starts ?evs) = 2"
    by (simp add: demo_upd_def)
  with probes_bounded [OF c, of ?evs ?u] show ?thesis by (simp only:)
qed

text \<open>
  C22. The poll loop returns: with a valid application and a wait window, when nobody downloads
  and time passes, the window runs out, even if the tick counter wraps meanwhile, and the
  manager is ready.
\<close>

theorem poll_loop_returns:
  assumes w: "u_state u = UPD_WAIT" "0 < wait_ms u" "\<not> ready_flag u"
    and v: "\<And>p. fst (is_app_valid (ue_ops E) p)"
    and sched: "\<And>k. \<exists>d. sched k = [Ev_ticks d] \<and> 0 < d \<and> unat (wait_ms u) + unat d < 4294967296"
  shows "\<exists>u'. qbt_update_mgr_poll E sched u = Some u' \<and> ready_flag u' \<and> u_state u' = UPD_READY"
  by (rule poll_returns [OF assms])

lemma poll_loop_returns_witness:
  "\<exists>u'. qbt_update_mgr_poll demo_upd_env (\<lambda>_. [Ev_ticks 10])
     (demo_upd\<lparr>u_state := UPD_WAIT, wait_ms := 100, u_tick := 0xFFFFFFF0\<rparr>) = Some u' \<and> ready_flag u'"
  using poll_loop_returns [of "demo_upd\<lparr>u_state := UPD_WAIT, wait_ms := 100, u_tick := 0xFFFFFFF0\<rparr>" demo_upd_env
      "\<lambda>_. [Ev_ticks 10]"]
  by (auto simp: demo_upd_def demo_ops_def)

text \<open>
  C23. The number parser of the shell's reason command accepts exactly the decimal and \<open>0x\<close>
  numerals whose value fits 32 bits and returns that value: its overflow tests neither let a
  value wrap nor refuse one that fits.
\<close>

theorem reason_number_exact:
  "qbt_reason_parse_u32 t =
     (let hex = is_hex_text t; ds = (if hex then drop 2 t else t)
      in if ds \<noteq> [] \<and> is_numeral hex ds \<and> numeral_value hex ds 0 < 4294967296
         then Some (of_nat (numeral_value hex ds 0)) else None)"
  by (rule reason_parse_exact)

text \<open>
  C24. The reason command reports success for \<open>set\<close> only when the callbacks are registered, the text
  is a number, no download is running and the stored reason reads back as that number.
\<close>

theorem reason_set_checked:
  assumes "qboot_reason_cmd [str_bytes ''set'', v] E u = (0, u')"
  shows "ue_reason_ops E \<and> (\<exists>n p. qbt_reason_parse_u32 v = Some n \<and> u_state u \<noteq> UPD_RECV \<and>
    get_reason (ue_ops E) (set_reason (ue_ops E) n p) = (n, u_env u') \<and> u' = u\<lparr>u_env := u_env u'\<rparr>)"
  by (rule reason_set_verified [OF assms])

lemma reason_set_checked_witness:
  "fst (qboot_reason_cmd [str_bytes ''set'', [0x37]] demo_upd_env demo_upd) = 0 \<and>
   fst (u_env (snd (qboot_reason_cmd [str_bytes ''set'', [0x37]] demo_upd_env demo_upd))) = 7"
proof -
  have p: "qbt_reason_parse_u32 [0x37] = Some 7" by (simp add: qbt_reason_parse_u32_def reason_digit_def)
  have r: "qboot_reason_cmd [str_bytes ''set'', [0x37]] demo_upd_env demo_upd = (0, demo_upd\<lparr>u_env := (7, 0)\<rparr>)"
    by (simp add: qboot_reason_cmd_def p qbt_update_reason_write_verified_def demo_ops_def)
      (simp add: demo_upd_def demo_upd_env_def)
  from reason_set_checked [OF this] r show ?thesis by (simp add: p demo_ops_def)
qed

section \<open>Keys and commands\<close>

text \<open>
  C25. When time leaves the window at some poll, the shell's key loop returns, and it reports a
  key exactly when a carriage return was read while the window was open.
\<close>

theorem shell_key_returns:
  assumes "\<not> key_in_time os n"
  shows "qbt_shell_key_check os = Some (\<exists>k. (\<forall>j \<le> k. key_in_time os j) \<and> key_pressed os k)"
  by (rule shell_key_exact [OF assms])

lemma shell_key_returns_witness:
  "qbt_shell_key_check \<lparr>so_dev = None, so_sem = True, so_open = (\<lambda>_. True), so_start = 0xFFFFFFFF, so_tmo = 5,
     so_polls = (\<lambda>k. \<lparr>kp_tick = of_nat k, kp_taken = True, kp_char = Some 0x20\<rparr>)\<rparr> = Some False"
proof -
  let ?os = "\<lparr>so_dev = None, so_sem = True, so_open = (\<lambda>_. True), so_start = 0xFFFFFFFF, so_tmo = 5,
     so_polls = (\<lambda>k. \<lparr>kp_tick = of_nat k, kp_taken = True, kp_char = Some 0x20\<rparr>)\<rparr>"
  have "\<not> key_in_time ?os 4" by (simp add: key_in_time_def)
  from shell_key_returns [OF this] show ?thesis by (simp add: key_pressed_def)
qed

text \<open>
  C26. Who owns the console: over an RT-Thread that stops and starts its shell as documented, the
  boot thread of a build with the shell, however it ends and whatever keys are pressed, leaves
  the system's shell running exactly when it hands over to the shell; the application is started,
  and the processor reset, with that shell stopped. The receive indication of the bootloader is on
  the console device it uses and on no other, and that device alone is open, once.
\<close>

theorem console_owned:
  assumes "finsh_laws (bd_finsh bd)" and "using_shell (e_cfg E)"
    and "qbt_thread_entry E U bd x = Some (out, sh, y)"
  shows "(shell_running (sys_state sh) \<longleftrightarrow> out = Shell_started) \<and>
    (\<forall>d. rx_ind sh d = (qbt_shell_dev sh = Some d) \<and> dev_refs sh d = (if qbt_shell_dev sh = Some d then 1 else 0))"
  using thread_console [OF assms] by (auto simp: left_console_def console_inv_def)

lemma console_owned_witness:
  "\<exists>sh. qbt_thread_entry (nor_env\<lparr>e_cfg := nor_cfg\<lparr>using_shell := True\<rparr>\<rparr>) demo_upd_env
      (demo_board\<lparr>bd_register := RT_ERROR, bd_shell := (\<lambda>_. demo_console)\<rparr>) (demo_boot2, demo_upd) =
        Some (Shell_started, sh, demo_boot2, demo_upd) \<and>
    shell_running (sys_state sh) \<and> rx_ind sh 7 \<and> finsh_prompt (sys_state sh) = QBOOT_SHELL_PROMPT"
proof -
  let ?E = "nor_env\<lparr>e_cfg := nor_cfg\<lparr>using_shell := True\<rparr>\<rparr>"
  let ?bd = "demo_board\<lparr>bd_register := RT_ERROR, bd_shell := (\<lambda>_. demo_console)\<rparr>"
  obtain sh where e: "qbt_thread_entry ?E demo_upd_env ?bd (demo_boot2, demo_upd) = Some (Shell_started, sh, demo_boot2, demo_upd)"
    and sh: "qbt_shell_dev sh = Some 7" "finsh_prompt (sys_state sh) = QBOOT_SHELL_PROMPT"
    using demo_shell_entry [of demo_upd_env "(demo_boot2, demo_upd)"] by blast
  have "finsh_laws (bd_finsh ?bd)" "using_shell (e_cfg ?E)" by (simp_all add: demo_board_def rtt_laws)
  from console_owned [OF this e] e sh show ?thesis by blast
qed

text \<open>
  C27. On a reliable device the copy command's copy returns and is exact: the first \<open>n\<close> bytes of
  the destination become those of the source, and no other device changes, the source included.
\<close>

theorem clone_copies:
  assumes B: "boot_dev io view dev_size crc cal E"
    and so: "v_open (view (w_dev w) src)" and do: "v_open (view (w_dev w) dst)" and ne: "src \<noteq> dst"
    and fit: "unat n \<le> dev_size src" "unat n \<le> dev_size dst" and small: "unat n < 2147483648"
    and wf: "wf_mem c (w_mem w)"
  shows "\<exists>w'. qbt_fw_clone E dst src n w = Some (True, w') \<and> wf_mem c (w_mem w') \<and>
    cells (v_cell (view (w_dev w') dst)) 0 (unat n) = cells (v_cell (view (w_dev w) src)) 0 (unat n) \<and>
    (\<forall>h. h \<noteq> dst \<longrightarrow> view (w_dev w') h = view (w_dev w) h)"
  by (rule boot_dev.clone_exact [OF B so do ne fit small wf])

lemma clone_copies_witness:
  "\<exists>w'. qbt_fw_clone nor_env H_app H_download 104 (b_world demo_boot) = Some (True, w') \<and>
     cells (v_cell (custom_view nor_cfg nor_stores (\<lambda>s. s) (w_dev w') H_app)) 0 104 =
     cells (v_cell (custom_view nor_cfg nor_stores (\<lambda>s. s) demo_flash H_download)) 0 104"
  using clone_copies [OF nor_base.boot_dev_axioms, of "b_world demo_boot" H_download H_app 104 nor_cfg]
  by auto

section \<open>The stream\<close>

text \<open>
  C28. The write pass of a stream, for any decompressor and cipher that keep their contracts and
  any storage backend that keeps the storage contract: it ends, it stays inside the staging and
  output buffers, and it changes nothing outside the first \<open>raw_size\<close> bytes of the destination.
\<close>

theorem stream_write_confined:
  assumes S: "stream_env io view dec blocky f c cfg"
    and a: "src_handle cfg \<noteq> dst" "v_open (view (w_dev w) (src_handle cfg))"
    "v_open (view (w_dev w) dst)" "wf_mem c (w_mem w)" "dst_handle st = dst" "st_raw_pos st = 0"
    and safe: "safe_dec dec"
  shows "\<exists>ok ctx w'. qbt_fw_stream_process c io cfg QBT_STREAM_WRITE (qbt_stream_write_proc io) (Write_ctx st) w =
      Some (ok, ctx, w') \<and> wf_mem c (w_mem w') \<and>
      (\<forall>h. h \<noteq> dst \<longrightarrow> view (w_dev w') h = view (w_dev w) h) \<and>
      (\<forall>i \<ge> unat (raw_size (cfg_fw_info cfg)).
         v_cell (view (w_dev w') dst) i = v_cell (view (w_dev w) dst) i)"
  using stream_env.write_stream [OF S a] safe
  by (auto simp: stream_env.only_dst_def [OF S])

lemma stream_write_confined_witness:
  "\<exists>ok ctx w'. qbt_fw_stream_process nor_cfg (g_qboot_io_custom nor_cfg nor_stores (nor_hooks 512))
     (stream_cfg_of nor_cfg H_download demo_fw (package_ctx nor_cfg nor_libs demo_fw)) QBT_STREAM_WRITE
     (qbt_stream_write_proc (g_qboot_io_custom nor_cfg nor_stores (nor_hooks 512)))
     (Write_ctx \<lparr>dst_handle = H_app, st_raw_pos = 0, st_raw_size = 8\<rparr>) (b_world demo_boot) = Some (ok, ctx, w') \<and>
   wf_mem nor_cfg (w_mem w')"
  using stream_write_confined [OF demo_stream.stream_env_axioms,
      of H_app "b_world demo_boot" "\<lparr>dst_handle = H_app, st_raw_pos = 0, st_raw_size = 8\<rparr>"]
  by (auto simp: stream_cfg_of_def demo_view none_safe)

section \<open>Checksums\<close>

text \<open>
  C29. On a reliable device the region check returns, reads exactly the region and nothing
  beyond it, and compares its CRC; it changes no device.
\<close>

theorem region_crc_checked:
  assumes "boot_dev io view dev_size crc cal E" and "v_open (view (w_dev w) h)"
    and "unat addr + unat n \<le> dev_size h" and "unat addr + unat n < 4294967296"
    and "unat n < 2147483648" and "wf_mem c (w_mem w)"
  shows "\<exists>w'. qbt_fw_crc_check E h addr n x w =
      Some (cal (cells (v_cell (view (w_dev w) h)) (unat addr) (unat n)) = x, w') \<and>
    view (w_dev w') = view (w_dev w) \<and> wf_mem c (w_mem w')"
  by (rule boot_dev.crc_check_exact [OF assms]) blast

lemma region_crc_checked_witness:
  "\<exists>w'. qbt_fw_crc_check nor_env H_download 96 8 (crc32_cal demo_body) (b_world demo_boot) = Some (True, w')"
  using region_crc_checked [OF nor_base.boot_dev_axioms, of "b_world demo_boot" H_download 96 8 nor_cfg
      "crc32_cal demo_body"]
  by (auto simp: demo_cells demo_flash_cells)

section \<open>Headers and signs\<close>

text \<open>
  C30. Headers on a device, at its front or in the last 96 bytes of a part: on storage that works and
  is ready there, writing a header succeeds, puts every field, least significant byte first, at the offset it
  has in the packed struct of \<open>qboot_ops.h\<close>, and changes nothing else; reading it back succeeds, gives
  exactly the header, whatever the struct held before, and changes nothing. A part shorter than a
  header is refused before the device is read.
\<close>

theorem header_written_read:
  assumes R: "reliable_storage io view dev_size" and o: "v_open (view s h)" and nh: "\<not> using_download_helper c"
    and len: "96 \<le> unat n" "unat n \<le> dev_size h" and wf: "wf_fw_info fw" "wf_fw_info fw0"
    and a: "a = (if tail then unat n - 96 else 0)" and rdy: "ready_range (view s h) a 96"
  shows "(\<exists>s1 s2. qbt_fw_info_write c io h n fw tail s = (True, s1) \<and> header_fields (v_cell (view s1 h)) a fw \<and>
      (\<forall>i. i < a \<or> a + 96 \<le> i \<longrightarrow> v_cell (view s1 h) i = v_cell (view s h) i) \<and> (\<forall>h'. h' \<noteq> h \<longrightarrow> view s1 h' = view s h') \<and>
      qbt_fw_info_read c io h n fw0 tail s1 = (True, fw, s2) \<and> view s2 = view s1) \<and>
    (unat m < 96 \<longrightarrow> qbt_fw_info_read c io h m fw0 True s = (False, fw0, s))"
proof
  show "unat m < 96 \<longrightarrow> qbt_fw_info_read c io h m fw0 True s = (False, fw0, s)"
    using nh by (simp add: qbt_fw_info_read_def u32_less_iff unat_src_read_pos sizeof_fw_info_def)
qed (rule reliable_storage.info_write_read [OF R o nh len wf a rdy], blast)

lemma header_written_read_witness:
  "\<exists>s1. qbt_fw_info_write nor_cfg (g_qboot_io_custom nor_cfg nor_stores (nor_hooks 512)) H_download 8192 demo_fw True (\<lambda>_. 0xFF) = (True, s1) \<and>
     header_fields (v_cell (custom_view nor_cfg nor_stores (\<lambda>s. s) s1 H_download)) 8096 demo_fw"
proof -
  have pre: "v_open (custom_view nor_cfg nor_stores (\<lambda>s. s) (\<lambda>_. 0xFF) H_download)" "\<not> using_download_helper nor_cfg"
    "96 \<le> unat (8192 :: u32)" "unat (8192 :: u32) \<le> custom_dev_size nor_cfg nor_stores H_download"
    "(8096 :: nat) = (if True then unat (8192 :: u32) - 96 else 0)"
    "ready_range (custom_view nor_cfg nor_stores (\<lambda>s. s) (\<lambda>_. 0xFF) H_download) 8096 96"
    by (simp_all add: ready_range_def demo_view(1)) (simp add: nor_cfg_def)
  show ?thesis
    using header_written_read [where view = "custom_view nor_cfg nor_stores (\<lambda>s. s)" and s = "\<lambda>_. 0xFF" and h = H_download and tail = True and m = 0,
        OF boot_dev.axioms(1) [OF nor_base.boot_dev_axioms] pre(1-4) demo_fw_wf demo_fw_wf pre(5,6)] by blast
qed

text \<open>
  C31. With the custom backend, a release sign written behind the package of a device with room
  for it is found by the check that follows, and only its four cells change.
\<close>

theorem custom_sign_roundtrip:
  assumes R: "reliable_flash c st hk cell"
    and o: "v_open (custom_view c st cell s h)"
    and fit: "unat (release_sign_pos c fw) + 4 \<le> custom_dev_size c st h"
    and rdy: "ready_range (custom_view c st cell s h) (unat (release_sign_pos c fw)) 4"
    and w: "qbt_release_sign_write (g_qboot_header_parser_custom c st hk) h fw s = (ok, s')"
  shows "ok \<and> fst (qbt_release_sign_check (g_qboot_header_parser_custom c st hk) h fw s') \<and>
    v_cell (custom_view c st cell s' h) =
      splice (unat (release_sign_pos c fw)) (le32 QBOOT_RELEASE_SIGN_WORD) (v_cell (custom_view c st cell s h))"
  using reliable_flash.custom_sign_check [OF R o fit rdy w] reliable_flash.custom_sign_effect [OF R o _ rdy] w
  by auto

lemma custom_sign_roundtrip_witness:
  "fst (qbt_release_sign_check (g_qboot_header_parser_custom nor_cfg nor_stores (nor_hooks 512)) H_download demo_fw
     (snd (qbt_release_sign_write (g_qboot_header_parser_custom nor_cfg nor_stores (nor_hooks 512)) H_download demo_fw
       (\<lambda>_. 0xFF))))"
  using custom_sign_roundtrip [OF nor.reliable_flash_axioms, of "\<lambda>_. 0xFF" H_download demo_fw]
  by (cases "qbt_release_sign_write (g_qboot_header_parser_custom nor_cfg nor_stores (nor_hooks 512)) H_download demo_fw
       (\<lambda>_. 0xFF)")
    (simp add: demo_view demo_sign_pos ready_range_def)

text \<open>
  C32. The same for the FAL backend, over any FAL library that behaves as documented.
\<close>

theorem fal_sign_roundtrip:
  assumes F: "fal_library fal parts cell blk"
    and o: "v_open (fal_view parts cell s h)"
    and fit: "unat (release_sign_pos c fw) + 4 \<le> fal_dev_size fal h"
    and rdy: "ready_range (fal_view parts cell s h) (unat (release_sign_pos c fw)) 4"
    and w: "qbt_release_sign_write (g_qboot_header_parser_fal c fal) h fw s = (ok, s')"
  shows "ok \<and> fst (qbt_release_sign_check (g_qboot_header_parser_fal c fal) h fw s')"
  using fal_library.fal_sign_check [OF F o fit rdy w] by blast

lemma fal_sign_roundtrip_witness:
  "fst (qbt_release_sign_check (g_qboot_header_parser_fal nor_cfg nor_fal) (H_part 1) demo_fw
     (snd (qbt_release_sign_write (g_qboot_header_parser_fal nor_cfg nor_fal) (H_part 1) demo_fw (\<lambda>_ _. 0xFF))))"
  using fal_sign_roundtrip [OF nf.fal_library_axioms, of "\<lambda>_ _. 0xFF" "H_part 1" nor_cfg demo_fw]
  by (cases "qbt_release_sign_write (g_qboot_header_parser_fal nor_cfg nor_fal) (H_part 1) demo_fw (\<lambda>_ _. 0xFF)")
    (simp add: fal_view_def fal_dev_size_def demo_sign_pos ready_range_def nor_fal_def)

section \<open>Storage\<close>

text \<open>
  C33. Isolation: whatever a client of the custom backend writes to or erases from an open
  target, successful or not, no byte of another target changes.
\<close>

theorem custom_targets_isolated:
  assumes F: "custom_flash c st hk cell" and o: "v_open (custom_view c st cell s h)" and d: "h' \<noteq> h"
    and bs: "length bs < 4294967296"
  shows "custom_view c st cell (snd (io_write (g_qboot_io_custom c st hk) h off bs s)) h' = custom_view c st cell s h' \<and>
    custom_view c st cell (snd (io_erase (g_qboot_io_custom c st hk) h off n s)) h' = custom_view c st cell s h'"
  using custom_flash.custom_write_other [OF F o _ bs d] custom_flash.custom_erase_other [OF F o _ d]
  by (metis prod.collapse)

lemma custom_targets_isolated_witness:
  "custom_view nor_cfg nor_stores (\<lambda>s. s)
     (snd (io_erase (g_qboot_io_custom nor_cfg nor_stores (nor_hooks 512)) H_download 0 8192 demo_flash)) H_app =
   custom_view nor_cfg nor_stores (\<lambda>s. s) demo_flash H_app"
  using custom_targets_isolated [OF nor.custom_flash_axioms, of demo_flash H_download H_app "[]" 0 8192]
  by (simp add: demo_view(1))



text \<open>
  C35. The filesystem backend leaks no descriptor: opening a target gives its fixed handle, open
  in the sense of the storage contract, and closing it leaves exactly the descriptors that were
  open before and marks the slot as closed.
\<close>

theorem fs_no_leak:
  assumes F: "fs_backend px refers content fpos c st"
    and o: "io_open (g_qboot_io_fs c st fc px) i flags s = (Inr h, s1)"
    and cl: "io_close (g_qboot_io_fs c st fc px) h s1 = (e, s2)"
  shows "h = fs_handle i \<and> v_open (fs_view c st refers content s1 h) \<and> e = RT_EOK \<and>
    refers (fs_os s2) = refers (fs_os s) \<and> fs_fd h s2 = - 1"
  using fs_backend.open_view(1,2) [OF F o] fs_backend.open_close_fds [OF F o cl] by blast

lemma fs_no_leak_witness:
  "\<exists>h s1. io_open (g_qboot_io_fs fs_demo_cfg fs_demo_stores fs_demo_fc mem_posix) QBOOT_TARGET_DOWNLOAD
       (QBT_OPEN_WRITE OR QBT_OPEN_CREATE) \<lparr>g_fs_fds = (\<lambda>_. 0), fs_os = \<lparr>mf_files = (\<lambda>_. None), mf_fds = []\<rparr>\<rparr> =
       (Inr h, s1) \<and>
     mf_refers (fs_os (snd (io_close (g_qboot_io_fs fs_demo_cfg fs_demo_stores fs_demo_fc mem_posix) h s1))) =
     mf_refers \<lparr>mf_files = (\<lambda>_. None), mf_fds = []\<rparr>"
proof -
  let ?io = "g_qboot_io_fs fs_demo_cfg fs_demo_stores fs_demo_fc mem_posix" and
    ?s = "\<lparr>g_fs_fds = (\<lambda>_. 0), fs_os = \<lparr>mf_files = (\<lambda>_. None), mf_fds = []\<rparr>\<rparr>"
  have "\<exists>h s1. io_open ?io QBOOT_TARGET_DOWNLOAD (QBT_OPEN_WRITE OR QBT_OPEN_CREATE) ?s = (Inr h, s1)"
    by (simp add: fs_ops_defs mem_posix_def qbt_target_desc_def g_descs_def target_list_def has_swap_def
      fs_demo_cfg_def fs_demo_stores_def QBT_OPEN_WRITE_def QBT_OPEN_CREATE_def QBT_OPEN_TRUNC_def)
  then obtain h s1 where o: "io_open ?io QBOOT_TARGET_DOWNLOAD (QBT_OPEN_WRITE OR QBT_OPEN_CREATE) ?s = (Inr h, s1)"
    by blast
  obtain e s2 where "io_close ?io h s1 = (e, s2)" by fastforce
  from fs_no_leak [OF memfs.fs_backend_axioms o this] o this show ?thesis by auto
qed

text \<open>
  C36. The multiplexer keeps targets apart: with backends that keep the storage contract and do
  not disturb each other, a write or an erase through one handle, successful or not, changes the
  device of no other handle, whichever backend serves it.
\<close>

theorem mux_targets_isolated:
  assumes M: "mux_backends T bview" and o: "v_open (mux_view bview s h)" and d: "h' \<noteq> h"
    and bs: "length bs < 4294967296"
  shows "mux_view bview (snd (io_write (g_qboot_io_mux c st T) h off bs s)) h' = mux_view bview s h' \<and>
    mux_view bview (snd (io_erase (g_qboot_io_mux c st T) h off n s)) h' = mux_view bview s h'"
  using mux_backends.mux_write_other [OF M o _ bs d] mux_backends.mux_erase_other [OF M o _ d]
  by (metis prod.collapse)

lemma mux_targets_isolated_witness:
  "mux_view trio_view (snd (io_erase (g_qboot_io_mux nor_cfg nor_stores trio_tables) (H_mux QBOOT_TARGET_DOWNLOAD) 0 512
      \<lparr>g_mux_handles = (\<lambda>i. (BACKEND_CUSTOM, H_desc i)),
       mux_dev = \<lparr>trio_fal = (\<lambda>_ _. 0), trio_fs = \<lparr>g_fs_fds = (\<lambda>_. 0), fs_os = \<lparr>mf_files = (\<lambda>_. None), mf_fds = []\<rparr>\<rparr>,
         trio_flash = demo_flash\<rparr>\<rparr>)) (H_mux QBOOT_TARGET_APP) =
   mux_view trio_view \<lparr>g_mux_handles = (\<lambda>i. (BACKEND_CUSTOM, H_desc i)),
       mux_dev = \<lparr>trio_fal = (\<lambda>_ _. 0), trio_fs = \<lparr>g_fs_fds = (\<lambda>_. 0), fs_os = \<lparr>mf_files = (\<lambda>_. None), mf_fds = []\<rparr>\<rparr>,
         trio_flash = demo_flash\<rparr>\<rparr> (H_mux QBOOT_TARGET_APP)"
  using mux_targets_isolated [OF trio.mux_backends_axioms, of "\<lparr>g_mux_handles = (\<lambda>i. (BACKEND_CUSTOM, H_desc i)),
       mux_dev = \<lparr>trio_fal = (\<lambda>_ _. 0), trio_fs = \<lparr>g_fs_fds = (\<lambda>_. 0), fs_os = \<lparr>mf_files = (\<lambda>_. None), mf_fds = []\<rparr>\<rparr>,
         trio_flash = demo_flash\<rparr>\<rparr>" "H_mux QBOOT_TARGET_DOWNLOAD" "H_mux QBOOT_TARGET_APP" "[]" nor_cfg nor_stores 0 512]
  by (simp add: mux_view_def [of trio_view _ "H_mux QBOOT_TARGET_DOWNLOAD"] trio_view_def demo_view(1))

text \<open>
  C37. Registration of the storage backends. It succeeds exactly when the build has a backend, the
  FAL came up where it is used and the product's hook where there are several, and the tables of the
  only backend, or of the multiplexer, are complete up to \<open>ioctl\<close>; then these tables are registered.
  The documentation of the table asks for \<open>ioctl\<close> too, but it is not tested: the registered
  tables are complete exactly when the backend happens to have it, which those of this repository do.
\<close>

theorem registration_exact:
  "(qboot_register_storage_ops b fi ci g = (RT_EOK, g') \<longleftrightarrow>
      (\<exists>io p. offered b = Some (io, p) \<and> stores_up b fi ci \<and> io_complete (io\<lparr>t_ioctl := Some f\<rparr>) \<and> parser_complete p \<and>
        g' = g\<lparr>header_io_ops := Some io, header_parser_ops := Some p\<rparr>)) \<and>
   (qboot_register_storage_ops b fi ci g = (RT_EOK, g') \<and> offered b = Some (io, p) \<longrightarrow>
      (globals_complete g' \<longleftrightarrow> t_ioctl io \<noteq> None)) \<and>
   (offered b = Some (io_table_of ops, parser_table_of ps) \<longrightarrow>
      fst (qboot_register_storage_ops b fi ci g) = (if stores_up b fi ci then RT_EOK else RT_ERROR))"
proof (intro conjI impI)
  have iff: "qboot_register_storage_ops b fi ci g = (RT_EOK, g') \<longleftrightarrow>
      (\<exists>io p. offered b = Some (io, p) \<and> stores_up b fi ci \<and> io_complete (io\<lparr>t_ioctl := Some f\<rparr>) \<and> parser_complete p \<and>
        g' = g\<lparr>header_io_ops := Some io, header_parser_ops := Some p\<rparr>)" for g' f
    by (auto simp: register_storage register_ops_iff [of _ _ _ _ f] split: option.splits)
  show "qboot_register_storage_ops b fi ci g = (RT_EOK, g') \<longleftrightarrow>
      (\<exists>io p. offered b = Some (io, p) \<and> stores_up b fi ci \<and> io_complete (io\<lparr>t_ioctl := Some f\<rparr>) \<and> parser_complete p \<and>
        g' = g\<lparr>header_io_ops := Some io, header_parser_ops := Some p\<rparr>)" by (rule iff)
  show "globals_complete g' \<longleftrightarrow> t_ioctl io \<noteq> None"
    if "qboot_register_storage_ops b fi ci g = (RT_EOK, g') \<and> offered b = Some (io, p)"
    using that unfolding iff [of g' f] by (auto simp: globals_complete_def io_complete_def)
  show "fst (qboot_register_storage_ops b fi ci g) = (if stores_up b fi ci then RT_EOK else RT_ERROR)"
    if o: "offered b = Some (io_table_of ops, parser_table_of ps)"
    by (simp add: register_storage o qbt_register_ops_def) (simp add: io_table_of_def parser_table_of_def)
qed

lemma registration_exact_witness:
  "\<exists>g'. qboot_register_storage_ops
     \<lparr>src_fal = None, src_fs = None,
      src_custom = Some ((io_table_of (e_io nor_env))\<lparr>t_ioctl := None\<rparr>, parser_table_of (e_parser nor_env)),
      src_mux = (io_table_of (e_io nor_env), parser_table_of (e_parser nor_env))\<rparr> 0 False
     \<lparr>header_io_ops = None, header_parser_ops = None\<rparr> = (RT_EOK, g') \<and> \<not> globals_complete g'"
proof -
  let ?io = "(io_table_of (e_io nor_env))\<lparr>t_ioctl := None\<rparr>" and ?p = "parser_table_of (e_parser nor_env)"
  let ?b = "\<lparr>src_fal = None, src_fs = None, src_custom = Some (?io, ?p), src_mux = (io_table_of (e_io nor_env), ?p)\<rparr>"
  have o: "offered ?b = Some (?io, ?p)" "stores_up ?b 0 False" by (simp_all add: offered_def stores_up_def backend_count_def)
  have c: "io_complete (?io\<lparr>t_ioctl := Some (\<lambda>_ _ s. (Inr 0, s))\<rparr>)" by (simp add: io_complete_def io_table_of_def)
  have n: "t_ioctl ?io = None" by simp
  show ?thesis
    using registration_exact [of ?b 0 False "\<lparr>header_io_ops = None, header_parser_ops = None\<rparr>"
        "\<lparr>header_io_ops = Some ?io, header_parser_ops = Some ?p\<rparr>" "\<lambda>_ _ s. (Inr 0, s)" ?io ?p "e_io nor_env" "e_parser nor_env"] o c n by auto
qed

section \<open>Algorithms\<close>

text \<open>
  C38. A gzip package whose image is shorter than 32 bytes is never delivered, whatever zlib
  makes of it, on any storage and with any cipher of the build: neither the check of the image
  nor the release succeeds. The last call of the handler is given exactly the room that is left,
  so that it fills it, takes the stream for unfinished and holds everything back.
\<close>

theorem gzip_short_refused:
  assumes "qbot_algo_startup (e_cfg E) L algo_tables_0 = (RT_EOK, e_tables E)" and "zlib_library (lib_zlib L)"
    and "algo fw AND QBOOT_ALGO_CMPRS_MASK = QBOOT_ALGO_CMPRS_GZIP" and "0 < unat (raw_size fw)" "unat (raw_size fw) < 32"
    and "unat (qboot_src_read_pos (e_cfg E)) + unat (pkg_size fw) < 2147483648"
  shows "qbt_app_crc_check E src fw w \<noteq> Some (True, w') \<and> qbt_fw_release E dst n src fw w \<noteq> Some (True, w')"
  using short_gzip_refused [OF assms(1,2) _ assms(6)] assms(3-5) unfolding short_gzip_fw_def by blast

lemma gzip_short_refused_witness:
  "qbt_app_crc_check nor_env H_download short_fw (b_world demo_boot) \<noteq> Some (True, b_world demo_boot) \<and>
   qbt_fw_release nor_env H_app 8192 H_download short_fw (b_world demo_boot) \<noteq> Some (True, b_world demo_boot)"
proof (rule gzip_short_refused [where L = nor_libs])
  show "zlib_library (lib_zlib nor_libs)" using copy.zlib_library_axioms by (simp add: nor_libs_def)
qed (use short_fw_short short_pkg_size in \<open>simp_all add: short_gzip_fw_def startup_tables\<close>)

text \<open>
  C39. The registry, whatever is registered, in any order, null and incomplete handlers among it:
  the tables keep their sizes and hold complete handlers in the slots of their identifiers, and
  the algorithm word of any header selects the first complete handler that was registered under
  its compression field and the first under its encryption field; it selects a context exactly
  when there are both.
\<close>

theorem registry_selects:
  "wf_tables (fold register rs algo_tables_0) \<and>
   qbt_fw_get_algo_context (fold register rs algo_tables_0) fw =
     (let z = find (fills_cmprs (unat (drop_bit 8 (algo fw) AND 0x1F))) (cmprs_of rs);
          d = find (fills_crypto (unat (algo fw AND QBOOT_ALGO_CRYPT_MASK))) (crypto_of rs)
      in (z \<noteq> None \<and> d \<noteq> None, \<lparr>crypt_ops = d, cmprs_ops = z\<rparr>))"
  by (rule conjI [OF registered_wf [OF wf_tables_0] registered_context])

text \<open>
  C40. What the FastLZ handler does with any block header and any state of its buffers, over a library
  that stores no more than the capacity it is given and decodes nothing from a negative length. It
  never leaves its buffers. It asks for more input exactly when the size of the block, or the block
  itself, is not complete; it decodes a block exactly when it is complete, not empty and the library accepts
  it, and then consumes the block with its size and hands on no more than the capacity. A size of
  \<open>2 ^ 32 - 4\<close> or more wraps around with the length of the header and passes the test for enough
  input; such a size is negative as the \<open>int\<close> the library takes, and the handler fails.
\<close>

theorem fastlz_outcome:
  assumes safe: "\<And>bs n c. length (snd (lib bs n c)) \<le> nat c" and neg: "\<And>bs n c. n < 0 \<Longrightarrow> fst (lib bs n c) \<le> 0"
    and inp: "unat (sb_in_len buf) \<le> length (m (sb_in buf))" "length (m (sb_in buf)) < 2147483648"
    and out: "unat (sb_out_len buf) \<le> length (m (sb_out buf))" "length (m (sb_out buf)) < 2147483648"
    and l: "l = unat (sb_in_len buf)" and k: "k = unat (qbt_fastlz_get_block_size (m (sb_in buf)))"
    and r: "r = lib (take k (drop 4 (m (sb_in buf)))) (int k) (int (unat (sb_out_len buf)))"
  shows "\<exists>e st' m'. qbt_algo_fastlz_decompress lib buf st ctx m a = Some (e, st', m', a) \<and>
    (e = RT_ENOSPC \<longleftrightarrow> l < 4 \<or> 0 < k \<and> k < 4294967292 \<and> l < k + 4) \<and>
    (e = RT_EOK \<longleftrightarrow> 0 < k \<and> k + 4 \<le> l \<and> 0 < fst r) \<and>
    (e = RT_EOK \<longrightarrow> unat (consumed st') = k + 4 \<and> int (unat (produced st')) = min (fst r) (int (unat (sb_out_len buf))) \<and>
      m' = m(sb_out buf := overwrite 0 (snd r) (m (sb_out buf)))) \<and>
    (e \<noteq> RT_EOK \<longrightarrow> st' = st)"
  by (rule fastlz_handler_outcome [where lib = lib and buf = buf and m = m and st = st and ctx = ctx and a = a, OF safe neg inp out l k r], assumption)
    (intro exI conjI; assumption)

lemma fastlz_outcome_witness:
  "\<exists>e st' m'. qbt_algo_fastlz_decompress (\<lambda>_ _ _. (0, [])) \<lparr>sb_in = B_CMPRS, sb_in_len = 5, sb_out = B_CRYPT, sb_out_len = 4\<rparr>
     \<lparr>consumed = 0, produced = 0, remaining_in = 0\<rparr>
     \<lparr>total = 8, ctx_consumed = 0, raw_remaining = 8, purpose = QBT_STREAM_WRITE\<rparr>
     (\<lambda>_. [0xFF, 0xFF, 0xFF, 0xFE, 7]) () = Some (e, st', m', ()) \<and> e \<noteq> RT_EOK \<and> e \<noteq> RT_ENOSPC"
proof -
  let ?buf = "\<lparr>sb_in = B_CMPRS, sb_in_len = 5, sb_out = B_CRYPT, sb_out_len = 4\<rparr>" and ?m = "\<lambda>_ :: bufid. [0xFF, 0xFF, 0xFF, 0xFE, 7] :: byte list"
  have s: "qbt_fastlz_get_block_size (?m B_CMPRS) = 4294967294" by (simp add: qbt_fastlz_get_block_size_def)
  have z: "length (snd ((\<lambda>_ _ _. (0, [])) bs n c :: int \<times> byte list)) \<le> nat c"
    "fst ((\<lambda>_ _ _. (0, [])) bs n c :: int \<times> byte list) \<le> 0" for bs :: "byte list" and n c :: int by simp_all
  show ?thesis
    using fastlz_outcome [where buf = ?buf and m = ?m and a = "()" and lib = "\<lambda>_ _ _. (0, [])", OF z(1) z(2) _ _ _ _ refl refl refl,
        of "\<lparr>consumed = 0, produced = 0, remaining_in = 0\<rparr>" "\<lparr>total = 8, ctx_consumed = 0, raw_remaining = 8, purpose = QBT_STREAM_WRITE\<rparr>"] s
    by auto
qed

end
